(* ===== verification/Prelude.thy ===== *)
theory Prelude
  imports Main "HOL-Library.Word"
begin

text \<open>
  The shared base of the development: the C integer types of \<open>types.h\<close> as words of their
  width, the named collections the component proofs draw on, and the generic facts about
  words and lists that more than one component needs.
\<close>

unbundle bit_operations_syntax

type_synonym byte = "8 word"
type_synonym word16 = "16 word"
type_synonym dword = "32 word"
type_synonym clock = "32 word"

abbreviation CLOCK_MAX :: clock where
  "CLOCK_MAX \<equiv> - 1"

text \<open>Facts that every operation of a component keeps its invariant, used by \<open>simp add:\<close>.\<close>

named_theorems inv_intros "operations preserve the invariant of their component"
named_theorems op_simps "defining equations of operations, unfolded on demand"

subsection \<open>Words\<close>

lemma clock_le_max [simp]: "(c::clock) \<le> CLOCK_MAX"
  by (rule word_n1_ge)

lemma clock_less_max: "(c::clock) < CLOCK_MAX \<longleftrightarrow> c \<noteq> CLOCK_MAX"
  by (meson clock_le_max nless_le)

lemma unat_byte_less [simp]: "unat (b::byte) < 256"
proof -
  have "unat b < 2 ^ LENGTH(8)" by (rule unsigned_less)
  then show ?thesis by simp
qed

lemma unat_word16_less [simp]: "unat (w::word16) < 65536"
proof -
  have "unat w < 2 ^ LENGTH(16)" by (rule unsigned_less)
  then show ?thesis by simp
qed

lemma unat_dword_less [simp]: "unat (d::dword) < 4294967296"
proof -
  have "unat d < 2 ^ LENGTH(32)" by (rule unsigned_less)
  then show ?thesis by simp
qed

lemma unat_add_small: "unat a + unat b < 2 ^ LENGTH('a) \<Longrightarrow> unat (a + b :: 'a::len word) = unat a + unat b"
  by (simp add: unat_word_ariths)

lemma unat_mult_small: "unat a * unat b < 2 ^ LENGTH('a) \<Longrightarrow> unat (a * b :: 'a::len word) = unat a * unat b"
  by (simp add: unat_word_ariths)

subsection \<open>Words as numbers\<close>

lemma bit_word_nat: "bit (w::'a::len word) n \<longleftrightarrow> odd (unat w div 2 ^ n)"
proof -
  have "bit w n \<longleftrightarrow> bit (unat w) n" by (auto simp: bit_unsigned_iff dest: bit_imp_le_length)
  then show ?thesis by (simp add: bit_iff_odd)
qed

lemma odd_div_128: "odd (n div 128) \<longleftrightarrow> n mod 256 \<ge> (128::nat)"
proof -
  have "n mod 256 = 128 * (n div 128 mod 2) + n mod 128"
    using mod_mult2_eq[of n 128 2] by simp
  moreover have "n mod 128 < 128" by simp
  ultimately show ?thesis by (cases "odd (n div 128)") (simp_all add: odd_iff_mod_2_eq_one even_iff_mod_2_eq_zero)
qed

lemma bit7_dword: "bit (d::dword) 7 \<longleftrightarrow> unat d mod 256 \<ge> 128"
  unfolding bit_word_nat using odd_div_128 by simp

lemma bit7_byte: "bit (b::byte) 7 \<longleftrightarrow> unat b \<ge> 128"
  using unat_byte_less[of b] unfolding bit_word_nat using odd_div_128[of "unat b"] by simp

lemma sint_byte: "sint (b::byte) = (if unat b \<ge> 128 then int (unat b) - 256 else int (unat b))"
proof -
  have "sint b = uint b - 256 * of_bool (bit b 7)"
    using uint_bounded[of b]
    by (simp add: sint_uint signed_take_bit_eq_take_bit_minus take_bit_int_eq_self bit_uint_iff)
  then show ?thesis by (simp add: bit7_byte)
qed

lemma unat_ucast_byte_dword [simp]: "unat (ucast (b::byte) :: dword) = unat b"
  using unat_byte_less[of b] by (simp add: unsigned_ucast_eq take_bit_nat_eq_self del: unat_byte_less)

lemma unat_ucast_dword_byte: "unat (ucast (d::dword) :: byte) = unat d mod 256"
  by (simp add: unsigned_ucast_eq take_bit_eq_mod)

lemma ucast_byte_dword_byte [simp]: "ucast (ucast (b::byte) :: dword) = b"
  by (simp add: word_unat_eq_iff unat_ucast_dword_byte)

lemma bit_masks: "bit ((b::byte) AND NOT (push_bit k 1)) l \<longleftrightarrow> bit b l \<and> (l \<noteq> k)"
  "l < 8 \<Longrightarrow> bit ((b::byte) OR push_bit k 1) l \<longleftrightarrow> bit b l \<or> l = k"
  by (auto simp: bit_simps dest: bit_imp_le_length)

lemma nat_and_field: "(n::nat) AND push_bit k (mask m) = n div 2 ^ k mod 2 ^ m * 2 ^ k"
proof -
  have "n AND push_bit k (mask m) = push_bit k (take_bit m (drop_bit k n))"
    by (rule bit_eqI) (auto simp: bit_simps)
  then show ?thesis by (simp add: push_bit_eq_mult take_bit_eq_mod drop_bit_eq_div)
qed
lemma unat_and_mask: "unat ((d::dword) AND 0xF) = unat d mod 16" "unat (d AND 0xFF) = unat d mod 256"
  "unat (d AND 0xF0) = unat d div 16 mod 16 * 16" "unat (d AND 0x1F0) = unat d div 16 mod 32 * 16"
  "unat (d AND 0xFF0) = unat d div 16 mod 256 * 16"
proof -
  have m: "push_bit 0 (mask 4) = (0xF::nat)" "push_bit 0 (mask 8) = (0xFF::nat)" "push_bit 4 (mask 4) = (0xF0::nat)"
    "push_bit 4 (mask 5) = (0x1F0::nat)" "push_bit 4 (mask 8) = (0xFF0::nat)"
    by (simp_all add: push_bit_eq_mult mask_eq_exp_minus_1)
  show "unat ((d::dword) AND 0xF) = unat d mod 16" "unat (d AND 0xFF) = unat d mod 256"
    "unat (d AND 0xF0) = unat d div 16 mod 16 * 16" "unat (d AND 0x1F0) = unat d div 16 mod 32 * 16"
    "unat (d AND 0xFF0) = unat d div 16 mod 256 * 16"
    using nat_and_field[of "unat d" 0 4] nat_and_field[of "unat d" 0 8] nat_and_field[of "unat d" 4 4]
      nat_and_field[of "unat d" 4 5] nat_and_field[of "unat d" 4 8]
    by (simp_all only: m unsigned_and_eq unsigned_numeral) (simp_all add: take_bit_eq_mod)
qed

subsection \<open>Flag words\<close>

text \<open>Setting, clearing and testing the bits of a mask \<open>f\<close>, and their effect on another mask \<open>g\<close>.\<close>

lemma flag_set_test [simp]: "((p::'a::len word) OR f) AND f = f"
  by (rule bit_word_eqI) (auto simp: bit_simps)

lemma flag_clear_test [simp]: "((p::'a::len word) AND NOT f) AND f = 0"
  by (rule bit_word_eqI) (auto simp: bit_simps)

lemma flag_set_other: "f AND g = 0 \<Longrightarrow> ((p::'a::len word) OR f) AND g = p AND g"
  by (simp add: bit.conj_disj_distrib2)

lemma flag_clear_other: "f AND g = 0 \<Longrightarrow> ((p::'a::len word) AND NOT f) AND g = p AND g"
proof (rule bit_word_eqI)
  fix n assume "f AND g = 0"
  then have "\<not> (bit f n \<and> bit g n)" by (metis bit_and_iff bit_0_eq bot_apply bot_bool_def)
  then show "bit ((p AND NOT f) AND g) n = bit (p AND g) n" if "n < LENGTH('a)"
    using that by (auto simp: bit_simps)
qed

subsection \<open>Lists\<close>

lemma length_filter_update:
  "i < length xs \<Longrightarrow> int (length (filter P (xs[i := y])))
     = int (length (filter P xs)) - (if P (xs ! i) then 1 else 0) + (if P y then 1 else 0)"
proof (induction xs arbitrary: i)
  case (Cons x xs)
  show ?case
  proof (cases i)
    case (Suc k)
    then show ?thesis using Cons.IH[of k] Cons.prems by (cases "P x") simp_all
  qed simp
qed simp

lemma nth_take_eq: "i < n \<Longrightarrow> take n xs ! i = xs ! i"
  by simp

end
