(* ===== verification/Alarm.thy ===== *)
theory Alarm
  imports Prelude
begin

text \<open>
  The alarm scheduler of \<open>alarm.h\<close> and \<open>alarm.c\<close>. An alarm is an address, here a natural
  number; the fields of the alarm structures that the scheduler changes are the function
  \<open>pending_idx\<close> and the list \<open>alarms\<close> (the doubly linked list of the context, in order).
  The pending array has its full 256 slots, of which the first \<open>num_pending_alarms\<close> are live.
  Names, which are used in messages only, are left out.
\<close>

abbreviation (input) ALARM_CONTEXT_MAX_PENDING_ALARMS :: nat where
  "ALARM_CONTEXT_MAX_PENDING_ALARMS \<equiv> 256"

record alarm_context =
  alarms :: "nat list"
  pending_alarms :: "(nat \<times> clock) list"
  num_pending_alarms :: nat
  next_pending_alarm_clk :: clock
  next_pending_alarm_idx :: int
  pending_idx :: "nat \<Rightarrow> int"

subsection \<open>Operations\<close>

text \<open>The argument is the memory returned by \<open>lib_malloc\<close>, whose other fields stay as they are.\<close>

definition alarm_context_init :: "alarm_context \<Rightarrow> alarm_context" where
  "alarm_context_init c =
     c\<lparr>alarms := [], num_pending_alarms := 0, next_pending_alarm_clk := CLOCK_MAX\<rparr>"

definition alarm_context_next_pending_clk :: "alarm_context \<Rightarrow> clock" where
  "alarm_context_next_pending_clk c = next_pending_alarm_clk c"

text \<open>The loop of \<open>alarm_context_update_next_pending\<close>: index, best clock and best index so far.\<close>

fun scan_pending :: "(nat \<times> clock) list \<Rightarrow> nat \<Rightarrow> clock \<Rightarrow> int \<Rightarrow> clock \<times> int" where
  "scan_pending [] i next_clk next_idx = (next_clk, next_idx)"
| "scan_pending (p # ps) i next_clk next_idx =
     (if snd p \<le> next_clk then scan_pending ps (Suc i) (snd p) (int i)
      else scan_pending ps (Suc i) next_clk next_idx)"

definition alarm_context_update_next_pending :: "alarm_context \<Rightarrow> alarm_context" where
  "alarm_context_update_next_pending c =
     (case scan_pending (take (num_pending_alarms c) (pending_alarms c)) 0 CLOCK_MAX
             (next_pending_alarm_idx c) of
        (next_clk, next_idx) \<Rightarrow>
          c\<lparr>next_pending_alarm_clk := next_clk, next_pending_alarm_idx := next_idx\<rparr>)"

text \<open>
  \<open>alarm_context_dispatch\<close> up to the call of the callback: which alarm is called with which
  offset. \<open>None\<close> is the read outside the array when the index is not one of its slots.
\<close>

definition alarm_context_dispatch :: "alarm_context \<Rightarrow> clock \<Rightarrow> (nat \<times> clock) option" where
  "alarm_context_dispatch c cpu_clk =
     (let idx = next_pending_alarm_idx c
      in if 0 \<le> idx \<and> idx < int (length (pending_alarms c))
         then Some (fst (pending_alarms c ! nat idx), cpu_clk - next_pending_alarm_clk c)
         else None)"

definition alarm_set :: "nat \<Rightarrow> clock \<Rightarrow> alarm_context \<Rightarrow> alarm_context" where
  "alarm_set a cpu_clk c =
     (let idx = pending_idx c a
      in if idx < 0 then
           (let new_idx = num_pending_alarms c
            in if new_idx \<ge> ALARM_CONTEXT_MAX_PENDING_ALARMS then c
               else
                 (let c1 = c\<lparr>pending_alarms := (pending_alarms c)[new_idx := (a, cpu_clk)],
                             num_pending_alarms := num_pending_alarms c + 1\<rparr>;
                      c2 = (if cpu_clk < next_pending_alarm_clk c1
                            then c1\<lparr>next_pending_alarm_clk := cpu_clk,
                                    next_pending_alarm_idx := int new_idx\<rparr>
                            else c1)
                  in c2\<lparr>pending_idx := (pending_idx c2)(a := int new_idx)\<rparr>))
         else
           (let c1 = c\<lparr>pending_alarms := (pending_alarms c)
                         [nat idx := (fst (pending_alarms c ! nat idx), cpu_clk)]\<rparr>
            in if next_pending_alarm_clk c1 > cpu_clk \<or> idx = next_pending_alarm_idx c1
               then alarm_context_update_next_pending c1
               else c1))"

definition alarm_unset :: "nat \<Rightarrow> alarm_context \<Rightarrow> alarm_context" where
  "alarm_unset a c =
     (let idx = pending_idx c a
      in if idx < 0 then c
         else
           (let c3 =
              (if num_pending_alarms c > 1 then
                 (let last = num_pending_alarms c - 1;
                      c1 = c\<lparr>num_pending_alarms := last\<rparr>;
                      c2 = (if int last \<noteq> idx
                            then c1\<lparr>pending_alarms :=
                                       (pending_alarms c1)[nat idx := pending_alarms c1 ! last],
                                    pending_idx :=
                                      (pending_idx c1)(fst (pending_alarms c1 ! last) := idx)\<rparr>
                            else c1)
                  in if next_pending_alarm_idx c2 = idx
                     then alarm_context_update_next_pending c2
                     else if next_pending_alarm_idx c2 = int last
                     then c2\<lparr>next_pending_alarm_idx := idx\<rparr>
                     else c2)
               else c\<lparr>num_pending_alarms := 0, next_pending_alarm_clk := CLOCK_MAX,
                      next_pending_alarm_idx := -1\<rparr>)
            in c3\<lparr>pending_idx := (pending_idx c3)(a := -1)\<rparr>))"

text \<open>\<open>a\<close> is the fresh address from \<open>lib_malloc\<close>; the alarm goes to the head of the list.\<close>

definition alarm_new :: "nat \<Rightarrow> alarm_context \<Rightarrow> alarm_context" where
  "alarm_new a c = c\<lparr>pending_idx := (pending_idx c)(a := -1), alarms := a # alarms c\<rparr>"

definition alarm_destroy :: "nat \<Rightarrow> alarm_context \<Rightarrow> alarm_context" where
  "alarm_destroy a c = (let c1 = alarm_unset a c in c1\<lparr>alarms := remove1 a (alarms c1)\<rparr>)"

definition alarm_context_destroy :: "alarm_context \<Rightarrow> alarm_context" where
  "alarm_context_destroy c = fold alarm_destroy (alarms c) c"

definition alarm_context_time_warp :: "clock \<Rightarrow> int \<Rightarrow> alarm_context \<Rightarrow> alarm_context" where
  "alarm_context_time_warp warp_amount warp_direction c =
     (if warp_direction = 0 then c
      else
        (let warp = (\<lambda>clk. if warp_direction > 0 then clk + warp_amount else clk - warp_amount);
             n = num_pending_alarms c
         in c\<lparr>pending_alarms := map (apsnd warp) (take n (pending_alarms c))
                                   @ drop n (pending_alarms c),
              next_pending_alarm_clk := warp (next_pending_alarm_clk c)\<rparr>))"

text \<open>
  The \<open>PROCESS_ALARMS\<close> macro of the CPU cores: dispatch while the CPU clock has reached the
  next alarm. A callback may change the context and the rest of the machine \<open>s\<close>, whose CPU
  clock is \<open>clk s\<close>. A loop that does not end, or a dispatch outside the array, is \<open>None\<close>.
\<close>

partial_function (option) process_alarms ::
  "(nat \<Rightarrow> clock \<Rightarrow> alarm_context \<times> 's \<Rightarrow> alarm_context \<times> 's) \<Rightarrow> ('s \<Rightarrow> clock)
     \<Rightarrow> alarm_context \<times> 's \<Rightarrow> (alarm_context \<times> 's) option" where
  "process_alarms callback clk cs =
     (if clk (snd cs) \<ge> alarm_context_next_pending_clk (fst cs)
      then (case alarm_context_dispatch (fst cs) (clk (snd cs)) of
              None \<Rightarrow> None
            | Some p \<Rightarrow> process_alarms callback clk (callback (fst p) (snd p) cs))
      else Some cs)"

subsection \<open>Invariant\<close>

text \<open>Live slots and \<open>pending_idx\<close> are inverse to each other.\<close>

definition slots_ok :: "alarm_context \<Rightarrow> bool" where
  "slots_ok c \<longleftrightarrow>
     length (pending_alarms c) = ALARM_CONTEXT_MAX_PENDING_ALARMS \<and>
     num_pending_alarms c \<le> ALARM_CONTEXT_MAX_PENDING_ALARMS \<and>
     (\<forall>a i. pending_idx c a = int i \<longleftrightarrow>
        i < num_pending_alarms c \<and> fst (pending_alarms c ! i) = a)"

text \<open>
  The cached clock is a lower bound of the live slots and, unless it is \<open>CLOCK_MAX\<close>, the
  clock of the cached slot.
\<close>

definition next_ok :: "alarm_context \<Rightarrow> bool" where
  "next_ok c \<longleftrightarrow>
     (\<forall>i<num_pending_alarms c. next_pending_alarm_clk c \<le> snd (pending_alarms c ! i)) \<and>
     (next_pending_alarm_clk c \<noteq> CLOCK_MAX \<longrightarrow>
        0 \<le> next_pending_alarm_idx c \<and>
        nat (next_pending_alarm_idx c) < num_pending_alarms c \<and>
        snd (pending_alarms c ! nat (next_pending_alarm_idx c)) = next_pending_alarm_clk c)"

definition alarm_ok :: "alarm_context \<Rightarrow> bool" where
  "alarm_ok c \<longleftrightarrow> slots_ok c \<and> next_ok c"

text \<open>The abstraction: when each alarm is due.\<close>

definition alarm_due :: "alarm_context \<Rightarrow> nat \<Rightarrow> clock option" where
  "alarm_due c a =
     (if pending_idx c a < 0 then None
      else Some (snd (pending_alarms c ! nat (pending_idx c a))))"

definition alarm_room :: "alarm_context \<Rightarrow> nat \<Rightarrow> bool" where
  "alarm_room c a \<longleftrightarrow> alarm_due c a \<noteq> None \<or> num_pending_alarms c < ALARM_CONTEXT_MAX_PENDING_ALARMS"

lemma scan_pending_spec:
  "scan_pending ps i m k = (m', k') \<Longrightarrow>
     m' \<le> m \<and> (\<forall>p\<in>set ps. m' \<le> snd p) \<and>
     ((m' = m \<and> k' = k) \<or> (\<exists>j<length ps. k' = int (i + j) \<and> m' = snd (ps ! j)))"
proof (induction ps i m k arbitrary: m' k' rule: scan_pending.induct)
  case (1 i m k)
  then show ?case by simp
next
  case (2 p ps i m k)
  show ?case
  proof (cases "snd p \<le> m")
    case True
    with 2 have "m' \<le> snd p \<and> (\<forall>p\<in>set ps. m' \<le> snd p) \<and>
      ((m' = snd p \<and> k' = int i) \<or> (\<exists>j<length ps. k' = int (Suc i + j) \<and> m' = snd (ps ! j)))"
      by auto
    with True show ?thesis
      by (elim conjE disjE exE) (auto intro: exI [of _ 0] exI [of _ "Suc _"])
  next
    case False
    with 2 have "m' \<le> m \<and> (\<forall>p\<in>set ps. m' \<le> snd p) \<and>
      ((m' = m \<and> k' = k) \<or> (\<exists>j<length ps. k' = int (Suc i + j) \<and> m' = snd (ps ! j)))"
      by auto
    with False show ?thesis
      by (elim conjE disjE exE) (auto intro: exI [of _ "Suc _"])
  qed
qed

lemma update_next_pending_simps [simp]:
  "pending_alarms (alarm_context_update_next_pending c) = pending_alarms c"
  "num_pending_alarms (alarm_context_update_next_pending c) = num_pending_alarms c"
  "pending_idx (alarm_context_update_next_pending c) = pending_idx c"
  "alarms (alarm_context_update_next_pending c) = alarms c"
  by (simp_all add: alarm_context_update_next_pending_def split: prod.split)

lemma slots_ok_update_next [simp]:
  "slots_ok (alarm_context_update_next_pending c) = slots_ok c"
  by (simp add: slots_ok_def)

lemma next_ok_update_next:
  assumes "slots_ok c"
  shows "next_ok (alarm_context_update_next_pending c)"
proof -
  let ?ps = "take (num_pending_alarms c) (pending_alarms c)"
  obtain m k where scan: "scan_pending ?ps 0 CLOCK_MAX (next_pending_alarm_idx c) = (m, k)"
    by fastforce
  have upd: "next_pending_alarm_clk (alarm_context_update_next_pending c) = m"
    "next_pending_alarm_idx (alarm_context_update_next_pending c) = k"
    by (simp_all add: alarm_context_update_next_pending_def scan)
  have len: "length ?ps = num_pending_alarms c"
    using assms by (simp add: slots_ok_def)
  have low: "\<forall>p\<in>set ?ps. m \<le> snd p" and
    hit: "(m = CLOCK_MAX \<and> k = next_pending_alarm_idx c) \<or>
      (\<exists>j<length ?ps. k = int (0 + j) \<and> m = snd (?ps ! j))"
    using scan_pending_spec [OF scan] by blast+
  have "m \<le> snd (pending_alarms c ! i)" if "i < num_pending_alarms c" for i
  proof -
    from that len have "?ps ! i \<in> set ?ps" by (simp only: nth_mem)
    with low that show ?thesis by auto
  qed
  with hit len show ?thesis
    unfolding next_ok_def upd by (auto simp: upd)
qed

lemma alarm_ok_update_next: "slots_ok c \<Longrightarrow> alarm_ok (alarm_context_update_next_pending c)"
  by (simp add: alarm_ok_def next_ok_update_next)

lemma slots_ok_next [simp]:
  "slots_ok (c\<lparr>next_pending_alarm_idx := k\<rparr>) = slots_ok c"
  "slots_ok (c\<lparr>next_pending_alarm_clk := t\<rparr>) = slots_ok c"
  by (simp_all add: slots_ok_def)

lemma slots_ok_length: "slots_ok c \<Longrightarrow> length (pending_alarms c) = 256"
  by (simp add: slots_ok_def)

lemma slots_ok_idx:
  "slots_ok c \<Longrightarrow> pending_idx c a = int i \<longleftrightarrow> i < num_pending_alarms c \<and> fst (pending_alarms c ! i) = a"
  by (simp add: slots_ok_def)

lemma pending_idx_cases [consumes 1, case_names idle pending]:
  assumes "slots_ok c"
  obtains "pending_idx c a < 0"
    | i where "pending_idx c a = int i" "i < num_pending_alarms c" "fst (pending_alarms c ! i) = a"
        "i < 256"
proof (cases "pending_idx c a < 0")
  case False
  then obtain i where i: "pending_idx c a = int i" by (metis not_less nonneg_int_cases)
  with assms have "i < num_pending_alarms c" "fst (pending_alarms c ! i) = a" "i < 256"
    by (auto simp: slots_ok_def)
  with i that(2) show thesis by blast
qed (rule that(1))

subsection \<open>Setting an alarm\<close>

lemma alarm_set_add:
  assumes "pending_idx c a < 0" "num_pending_alarms c < 256"
  shows "alarm_set a t c =
    (let n = num_pending_alarms c
     in c\<lparr>pending_alarms := (pending_alarms c)[n := (a, t)], num_pending_alarms := Suc n,
          next_pending_alarm_clk := min t (next_pending_alarm_clk c),
          next_pending_alarm_idx :=
            (if t < next_pending_alarm_clk c then int n else next_pending_alarm_idx c),
          pending_idx := (pending_idx c)(a := int n)\<rparr>)"
  using assms by (simp add: alarm_set_def Let_def min_def)

lemma slots_ok_change:
  assumes "slots_ok c" "i < num_pending_alarms c" "fst (pending_alarms c ! i) = a"
  shows "slots_ok (c\<lparr>pending_alarms := (pending_alarms c)[i := (a, t)]\<rparr>)"
  using assms by (auto simp: slots_ok_def nth_list_update)

lemma slots_ok_add:
  assumes "slots_ok c" "pending_idx c a < 0" "num_pending_alarms c < 256"
  shows "slots_ok (alarm_set a t c)"
  unfolding slots_ok_def
proof (intro conjI allI)
  fix b i
  let ?n = "num_pending_alarms c"
  have "pending_idx c b = int i \<Longrightarrow> i < ?n" for b i
    using assms(1) by (simp add: slots_ok_idx)
  moreover have "fst (pending_alarms c ! i) \<noteq> a" if "i < ?n" for i
    using assms that by (metis slots_ok_idx of_nat_less_0_iff)
  ultimately show "pending_idx (alarm_set a t c) b = int i \<longleftrightarrow>
      i < num_pending_alarms (alarm_set a t c) \<and> fst (pending_alarms (alarm_set a t c) ! i) = b"
    using assms
    by (auto simp: alarm_set_add Let_def slots_ok_idx slots_ok_length nth_list_update less_Suc_eq)
qed (use assms in \<open>auto simp: alarm_set_add Let_def slots_ok_length\<close>)

lemma next_ok_add:
  assumes "slots_ok c" "next_ok c" "pending_idx c a < 0" "num_pending_alarms c < 256"
  shows "next_ok (alarm_set a t c)"
proof (cases "t < next_pending_alarm_clk c")
  case True
  with assms show ?thesis
    by (auto simp: alarm_set_add next_ok_def Let_def slots_ok_length nth_list_update less_Suc_eq
        dest: order_less_le_trans)
next
  case False
  with assms show ?thesis
    by (auto simp: alarm_set_add next_ok_def Let_def slots_ok_length nth_list_update less_Suc_eq)
qed

lemma alarm_set_ok [inv_intros]:
  assumes ok: "alarm_ok c"
  shows "alarm_ok (alarm_set a t c)"
proof -
  from ok have slots: "slots_ok c" and nxt: "next_ok c" by (simp_all add: alarm_ok_def)
  from slots show ?thesis
  proof (cases rule: pending_idx_cases [of c a])
    case idle
    show ?thesis
    proof (cases "num_pending_alarms c < 256")
      case True
      with slots nxt idle show ?thesis
        by (simp add: alarm_ok_def slots_ok_add next_ok_add)
    next
      case False
      with idle ok show ?thesis by (simp add: alarm_set_def)
    qed
  next
    case (pending i)
    let ?c = "c\<lparr>pending_alarms := (pending_alarms c)[i := (a, t)]\<rparr>"
    have slots': "slots_ok ?c"
      using slots pending by (auto intro: slots_ok_change)
    show ?thesis
    proof (cases "t < next_pending_alarm_clk c \<or> int i = next_pending_alarm_idx c")
      case True
      then have "alarm_set a t c = alarm_context_update_next_pending ?c"
        using pending by (auto simp: alarm_set_def Let_def)
      with slots' show ?thesis by (simp add: alarm_ok_update_next)
    next
      case False
      then have set: "alarm_set a t c = ?c"
        using pending by (auto simp: alarm_set_def Let_def)
      have "next_ok ?c"
        using False nxt pending slots by (auto simp: next_ok_def nth_list_update slots_ok_length)
      with set slots' show ?thesis by (simp add: alarm_ok_def)
    qed
  qed
qed


lemma alarm_due_iff:
  assumes "slots_ok c"
  shows "alarm_due c a = Some t \<longleftrightarrow> (\<exists>i<num_pending_alarms c. pending_alarms c ! i = (a, t))"
  using assms
proof (cases rule: pending_idx_cases [of c a])
  case idle
  then have "\<not> (\<exists>i<num_pending_alarms c. fst (pending_alarms c ! i) = a)"
    using assms by (metis slots_ok_idx of_nat_less_0_iff)
  with idle show ?thesis by (force simp: alarm_due_def)
next
  case (pending i)
  then have "j = i" if "j < num_pending_alarms c" "fst (pending_alarms c ! j) = a" for j
    using that assms by (metis slots_ok_idx of_nat_eq_iff)
  moreover have "alarm_due c a = Some (snd (pending_alarms c ! i))"
    using pending by (simp add: alarm_due_def)
  ultimately show ?thesis
    using pending by (metis fst_conv option.inject prod.collapse snd_conv)
qed

lemma alarm_due_None_iff: "alarm_due c a = None \<longleftrightarrow> pending_idx c a < 0"
  by (simp add: alarm_due_def)

lemma alarm_due_update_next [simp]:
  "alarm_due (alarm_context_update_next_pending c) = alarm_due c"
  by (simp add: alarm_due_def fun_eq_iff)

lemma alarm_due_set:
  assumes "slots_ok c" "alarm_room c a"
  shows "alarm_due (alarm_set a t c) = (alarm_due c)(a \<mapsto> t)"
  using assms(1)
proof (cases rule: pending_idx_cases [of c a])
  case idle
  then have room: "num_pending_alarms c < 256"
    using assms(2) by (simp add: alarm_room_def alarm_due_def)
  have "num_pending_alarms c \<noteq> nat (pending_idx c b)" if "0 \<le> pending_idx c b" for b
    using that assms(1) by (metis slots_ok_idx nat_0_le less_irrefl)
  with idle room assms(1) show ?thesis
    by (auto simp: alarm_set_add Let_def alarm_due_def fun_eq_iff slots_ok_length)
next
  case (pending i)
  have "i \<noteq> nat (pending_idx c b)" if "0 \<le> pending_idx c b" "b \<noteq> a" for b
    using that assms(1) pending by (metis slots_ok_idx nat_0_le)
  moreover have "alarm_due (alarm_set a t c) = alarm_due (c\<lparr>pending_alarms := (pending_alarms c)[i := (a, t)]\<rparr>)"
    using pending by (simp add: alarm_set_def Let_def)
  ultimately show ?thesis
    using pending assms(1) by (auto simp: alarm_due_def fun_eq_iff slots_ok_length)
qed

lemma alarm_set_full:
  "\<not> alarm_room c a \<Longrightarrow> alarm_set a t c = c"
  by (auto simp: alarm_room_def alarm_due_def alarm_set_def Let_def split: if_splits)

subsection \<open>Unsetting an alarm\<close>

text \<open>What \<open>alarm_unset\<close> does to the slots: the last live slot moves into the freed one.\<close>

definition remove_slot :: "nat \<Rightarrow> nat \<Rightarrow> alarm_context \<Rightarrow> alarm_context" where
  "remove_slot i a c =
     (let l = num_pending_alarms c - 1
      in c\<lparr>num_pending_alarms := l, pending_alarms := (pending_alarms c)[i := pending_alarms c ! l],
           pending_idx := (pending_idx c)(fst (pending_alarms c ! l) := int i, a := -1)\<rparr>)"

lemma slots_ok_remove:
  assumes "slots_ok c" "i < num_pending_alarms c" "fst (pending_alarms c ! i) = a"
  shows "slots_ok (remove_slot i a c)"
  unfolding slots_ok_def
proof (intro conjI allI)
  fix b j
  let ?l = "num_pending_alarms c - 1"
  have uniq: "j = k" if "j < num_pending_alarms c" "k < num_pending_alarms c"
    "fst (pending_alarms c ! j) = fst (pending_alarms c ! k)" for j k
    using that assms(1) by (metis slots_ok_idx of_nat_eq_iff)
  show "pending_idx (remove_slot i a c) b = int j \<longleftrightarrow>
      j < num_pending_alarms (remove_slot i a c) \<and> fst (pending_alarms (remove_slot i a c) ! j) = b"
  proof (cases "j = i")
    case True
    have "i = ?l \<or> i < ?l" using assms(2) by linarith
    moreover have "i < 256" using assms(1,2) by (simp add: slots_ok_def)
    ultimately show ?thesis
      using assms True slots_ok_length [OF assms(1)] uniq [of i ?l]
      by (auto simp: remove_slot_def Let_def slots_ok_idx)
  next
    case False
    have "j < ?l \<longleftrightarrow> j < num_pending_alarms c \<and> j \<noteq> ?l" using assms(2) by linarith
    then show ?thesis
      using assms False slots_ok_length [OF assms(1)] uniq [of j ?l] uniq [of j i]
      by (auto simp: remove_slot_def Let_def slots_ok_idx)
  qed
qed (use assms in \<open>auto simp: remove_slot_def slots_ok_def Let_def\<close>)

lemma alarm_due_remove:
  assumes "slots_ok c" "i < num_pending_alarms c" "fst (pending_alarms c ! i) = a"
  shows "alarm_due (remove_slot i a c) = (alarm_due c)(a := None)"
proof
  fix b
  let ?l = "num_pending_alarms c - 1"
  have uniq: "j = k" if "j < num_pending_alarms c" "k < num_pending_alarms c"
    "fst (pending_alarms c ! j) = fst (pending_alarms c ! k)" for j k
    using that assms(1) by (metis slots_ok_idx of_nat_eq_iff)
  from assms(1) show "alarm_due (remove_slot i a c) b = ((alarm_due c)(a := None)) b"
  proof (cases rule: pending_idx_cases [of c b])
    case idle
    with assms have "b \<noteq> fst (pending_alarms c ! ?l)"
      by (metis slots_ok_idx of_nat_less_0_iff diff_less less_one less_nat_zero_code not_gr_zero)
    with idle show ?thesis by (simp add: alarm_due_def remove_slot_def Let_def)
  next
    case (pending j)
    with assms uniq [of j i] uniq [of j ?l] show ?thesis
      by (cases "i = j") (auto simp: alarm_due_def remove_slot_def Let_def slots_ok_length)
  qed
qed

lemma update_next_pending_idx:
  "(alarm_context_update_next_pending c)\<lparr>pending_idx := f\<rparr>
     = alarm_context_update_next_pending (c\<lparr>pending_idx := f\<rparr>)"
  by (simp add: alarm_context_update_next_pending_def split: prod.split)

lemma alarm_unset_cases:
  assumes "slots_ok c" "pending_idx c a = int i"
  shows "alarm_unset a c =
    (let l = num_pending_alarms c - 1; c' = remove_slot i a c
     in if l = 0 then c'\<lparr>next_pending_alarm_clk := CLOCK_MAX, next_pending_alarm_idx := -1\<rparr>
        else if next_pending_alarm_idx c = int i then alarm_context_update_next_pending c'
        else if next_pending_alarm_idx c = int l then c'\<lparr>next_pending_alarm_idx := int i\<rparr>
        else c')"
proof -
  have i: "i < num_pending_alarms c" "fst (pending_alarms c ! i) = a"
    using assms by (simp_all add: slots_ok_idx)
  show ?thesis
  proof (cases "num_pending_alarms c = 1")
    case True
    with i assms have "alarm_unset a c = c\<lparr>num_pending_alarms := 0, next_pending_alarm_clk := CLOCK_MAX,
        next_pending_alarm_idx := -1, pending_idx := (pending_idx c)(a := -1)\<rparr>"
      by (simp add: alarm_unset_def)
    with True i show ?thesis by (simp add: remove_slot_def)
  next
    case False
    with i obtain l where l: "num_pending_alarms c = Suc l" "0 < l"
      by (metis One_nat_def gr0I less_nat_zero_code not0_implies_Suc)
    show ?thesis
    proof (cases "i = l")
      case True
      with l i assms show ?thesis
        by (simp add: alarm_unset_def Let_def remove_slot_def update_next_pending_idx)
    next
      case False
      with l i assms show ?thesis
        by (simp add: alarm_unset_def Let_def remove_slot_def update_next_pending_idx)
    qed
  qed
qed

lemma alarm_unset_ok [inv_intros]:
  assumes ok: "alarm_ok c"
  shows "alarm_ok (alarm_unset a c)"
proof -
  from ok have slots: "slots_ok c" and nxt: "next_ok c" by (simp_all add: alarm_ok_def)
  from slots show ?thesis
  proof (cases rule: pending_idx_cases [of c a])
    case idle
    with ok show ?thesis by (simp add: alarm_unset_def)
  next
    case (pending i)
    let ?l = "num_pending_alarms c - 1" and ?c = "remove_slot i a c"
    have rm: "slots_ok ?c" using slots pending by (simp add: slots_ok_remove)
    have low: "\<forall>j<num_pending_alarms ?c. next_pending_alarm_clk ?c \<le> snd (pending_alarms ?c ! j)"
      using nxt pending slots
      by (auto simp: remove_slot_def Let_def next_ok_def nth_list_update slots_ok_length)
    consider "?l = 0" | "?l \<noteq> 0" "next_pending_alarm_idx c = int i"
      | "?l \<noteq> 0" "next_pending_alarm_idx c \<noteq> int i" "next_pending_alarm_idx c = int ?l"
      | "?l \<noteq> 0" "next_pending_alarm_idx c \<noteq> int i" "next_pending_alarm_idx c \<noteq> int ?l"
      by blast
    then show ?thesis
    proof cases
      case 1
      with rm pending slots show ?thesis
        by (simp add: alarm_unset_cases alarm_ok_def next_ok_def remove_slot_def Let_def)
    next
      case 2
      with rm pending slots show ?thesis by (simp add: alarm_unset_cases alarm_ok_update_next Let_def)
    next
      case 3
      with pending have "i < ?l" by auto
      have "next_pending_alarm_clk c \<noteq> CLOCK_MAX \<longrightarrow> snd (pending_alarms c ! ?l) = next_pending_alarm_clk c"
        using 3 nxt by (metis nat_int next_ok_def)
      with low pending slots \<open>i < ?l\<close> have "next_ok (?c\<lparr>next_pending_alarm_idx := int i\<rparr>)"
        by (simp add: next_ok_def remove_slot_def Let_def slots_ok_length)
      with 3 rm pending slots show ?thesis
        by (simp add: alarm_unset_cases alarm_ok_def Let_def)
    next
      case 4
      have "next_ok ?c"
      proof (cases "next_pending_alarm_clk c = CLOCK_MAX")
        case False
        then have "0 \<le> next_pending_alarm_idx c" "nat (next_pending_alarm_idx c) < num_pending_alarms c"
          using nxt by (simp_all add: next_ok_def)
        with 4 have "nat (next_pending_alarm_idx c) < ?l" "nat (next_pending_alarm_idx c) \<noteq> i" by auto
        with low nxt False show ?thesis by (auto simp: next_ok_def remove_slot_def Let_def)
      qed (use low in \<open>simp add: next_ok_def remove_slot_def Let_def\<close>)
      with 4 rm pending slots show ?thesis by (simp add: alarm_unset_cases alarm_ok_def Let_def)
    qed
  qed
qed

lemma alarm_due_unset:
  assumes "slots_ok c"
  shows "alarm_due (alarm_unset a c) = (alarm_due c)(a := None)"
  using assms
proof (cases rule: pending_idx_cases [of c a])
  case idle
  then show ?thesis by (simp add: alarm_unset_def fun_eq_iff alarm_due_def)
next
  case (pending i)
  have "alarm_due (alarm_unset a c) = alarm_due (remove_slot i a c)"
    using pending assms by (auto simp: alarm_unset_cases Let_def alarm_due_def fun_eq_iff)
  then show ?thesis using pending assms by (simp add: alarm_due_remove)
qed

subsection \<open>Dispatch\<close>

lemma dispatch_next:
  assumes "alarm_ok c" "next_pending_alarm_clk c \<noteq> CLOCK_MAX"
  obtains a where "alarm_context_dispatch c now = Some (a, now - next_pending_alarm_clk c)"
    "alarm_due c a = Some (next_pending_alarm_clk c)"
proof -
  from assms have slots: "slots_ok c" and idx: "0 \<le> next_pending_alarm_idx c"
    "nat (next_pending_alarm_idx c) < num_pending_alarms c"
    "snd (pending_alarms c ! nat (next_pending_alarm_idx c)) = next_pending_alarm_clk c"
    by (auto simp: alarm_ok_def next_ok_def)
  let ?a = "fst (pending_alarms c ! nat (next_pending_alarm_idx c))"
  have "alarm_due c ?a = Some (next_pending_alarm_clk c)"
    using slots idx by (auto simp: alarm_due_iff intro!: exI [of _ "nat (next_pending_alarm_idx c)"] prod_eqI)
  moreover have "num_pending_alarms c \<le> 256" using slots by (simp add: slots_ok_def)
  with idx have "next_pending_alarm_idx c < 256" by linarith
  then have "alarm_context_dispatch c now = Some (?a, now - next_pending_alarm_clk c)"
    using idx slots by (simp add: alarm_context_dispatch_def Let_def slots_ok_length)
  ultimately show thesis by (rule that [rotated])
qed

lemma next_le_due:
  "alarm_ok c \<Longrightarrow> alarm_due c a = Some t \<Longrightarrow> next_pending_alarm_clk c \<le> t"
  by (auto simp: alarm_ok_def next_ok_def alarm_due_iff)

lemma finite_due: "slots_ok c \<Longrightarrow> finite (dom (alarm_due c))"
proof (rule finite_subset [of _ "(\<lambda>i. fst (pending_alarms c ! i)) ` {..<num_pending_alarms c}"])
  assume "slots_ok c"
  then show "dom (alarm_due c) \<subseteq> (\<lambda>i. fst (pending_alarms c ! i)) ` {..<num_pending_alarms c}"
    by (auto simp: alarm_due_iff image_iff) (metis fst_conv lessThan_iff)
qed simp

subsection \<open>The contract of a timer queue\<close>

text \<open>
  What the chips and the CPU loop rely on: setting and cancelling act as updates of the map
  from alarms to clocks, and the cached clock is the earliest one.
\<close>

locale timer_queue =
  fixes invar :: "'q \<Rightarrow> bool"
    and due :: "'q \<Rightarrow> 'a \<Rightarrow> clock option"
    and room :: "'q \<Rightarrow> 'a \<Rightarrow> bool"
    and set_at :: "'a \<Rightarrow> clock \<Rightarrow> 'q \<Rightarrow> 'q"
    and cancel :: "'a \<Rightarrow> 'q \<Rightarrow> 'q"
    and next_clk :: "'q \<Rightarrow> clock"
    and front :: "'q \<Rightarrow> clock \<Rightarrow> ('a \<times> clock) option"
  assumes invar_set: "invar q \<Longrightarrow> invar (set_at a t q)"
    and invar_cancel: "invar q \<Longrightarrow> invar (cancel a q)"
    and due_set: "invar q \<Longrightarrow> room q a \<Longrightarrow> due (set_at a t q) = (due q)(a \<mapsto> t)"
    and due_cancel: "invar q \<Longrightarrow> due (cancel a q) = (due q)(a := None)"
    and due_room: "due q a \<noteq> None \<Longrightarrow> room q a"
    and due_finite: "invar q \<Longrightarrow> finite (dom (due q))"
    and next_lower: "invar q \<Longrightarrow> due q a = Some t \<Longrightarrow> next_clk q \<le> t"
    and front_next: "invar q \<Longrightarrow> next_clk q \<noteq> CLOCK_MAX \<Longrightarrow>
          \<exists>a. front q now = Some (a, now - next_clk q) \<and> due q a = Some (next_clk q)"
begin

definition overdue :: "'q \<Rightarrow> clock \<Rightarrow> 'a set" where
  "overdue q now = {a. \<exists>t. due q a = Some t \<and> t \<le> now}"

lemma finite_overdue: "invar q \<Longrightarrow> finite (overdue q now)"
  by (rule finite_subset [OF _ due_finite]) (auto simp: overdue_def)

lemma next_set_le: "invar q \<Longrightarrow> room q a \<Longrightarrow> next_clk (set_at a t q) \<le> t"
  by (rule next_lower [of _ a]) (simp_all add: invar_set due_set)

lemma next_earliest:
  assumes "invar q" "next_clk q \<noteq> CLOCK_MAX"
  shows "\<exists>a. due q a = Some (next_clk q) \<and> (\<forall>b t. due q b = Some t \<longrightarrow> next_clk q \<le> t)"
  using front_next [OF assms] next_lower [OF assms(1)] by blast

lemma none_overdue: "invar q \<Longrightarrow> now < next_clk q \<Longrightarrow> due q a = Some t \<Longrightarrow> now < t"
  using next_lower order_less_le_trans by blast

text \<open>An alarm that is served and not set again before \<open>now\<close> leaves fewer overdue alarms.\<close>

lemma serve_overdue_less:
  assumes "invar q" "next_clk q \<le> now" "due q a = Some (next_clk q)"
    and "due q' = (due q)(a := r)" "\<forall>t. r = Some t \<longrightarrow> now < t"
  shows "card (overdue q' now) < card (overdue q now)"
proof (rule psubset_card_mono)
  show "finite (overdue q now)" using assms(1) by (rule finite_overdue)
  have "a \<in> overdue q now" using assms(2,3) by (auto simp: overdue_def)
  moreover have "a \<notin> overdue q' now" using assms(4,5) by (auto simp: overdue_def)
  moreover have "overdue q' now \<subseteq> overdue q now"
    using assms(4,5) by (auto simp: overdue_def split: if_splits)
  ultimately show "overdue q' now \<subset> overdue q now" by blast
qed

lemma cancel_set: "invar q \<Longrightarrow> room q a \<Longrightarrow> due (cancel a (set_at a t q)) = (due q)(a := None)"
  by (simp add: invar_set due_set due_cancel)

end

interpretation alarm_q: timer_queue alarm_ok alarm_due alarm_room alarm_set alarm_unset
  alarm_context_next_pending_clk alarm_context_dispatch
proof unfold_locales
  fix c a t now
  show "alarm_ok c \<Longrightarrow> alarm_ok (alarm_set a t c)" by (rule alarm_set_ok)
  show "alarm_ok c \<Longrightarrow> alarm_ok (alarm_unset a c)" by (rule alarm_unset_ok)
  show "alarm_ok c \<Longrightarrow> alarm_room c a \<Longrightarrow> alarm_due (alarm_set a t c) = (alarm_due c)(a \<mapsto> t)"
    by (simp add: alarm_ok_def alarm_due_set)
  show "alarm_ok c \<Longrightarrow> alarm_due (alarm_unset a c) = (alarm_due c)(a := None)"
    by (simp add: alarm_ok_def alarm_due_unset)
  show "alarm_due c a \<noteq> None \<Longrightarrow> alarm_room c a" by (simp add: alarm_room_def)
  show "alarm_ok c \<Longrightarrow> finite (dom (alarm_due c))" by (simp add: alarm_ok_def finite_due)
  show "alarm_ok c \<Longrightarrow> alarm_due c a = Some t \<Longrightarrow> alarm_context_next_pending_clk c \<le> t"
    by (simp add: alarm_context_next_pending_clk_def next_le_due)
  show "alarm_ok c \<Longrightarrow> alarm_context_next_pending_clk c \<noteq> CLOCK_MAX \<Longrightarrow>
      \<exists>a. alarm_context_dispatch c now = Some (a, now - alarm_context_next_pending_clk c) \<and>
          alarm_due c a = Some (alarm_context_next_pending_clk c)"
    unfolding alarm_context_next_pending_clk_def by (meson dispatch_next)
qed

subsection \<open>The other operations\<close>

lemma idle_not_live:
  "slots_ok c \<Longrightarrow> pending_idx c a < 0 \<Longrightarrow> i < num_pending_alarms c \<Longrightarrow> fst (pending_alarms c ! i) \<noteq> a"
  by (metis slots_ok_idx of_nat_less_0_iff)

lemma alarm_new_ok [inv_intros]:
  assumes "alarm_ok c" "alarm_due c a = None"
  shows "alarm_ok (alarm_new a c)"
proof -
  have slots: "slots_ok c" and idle: "pending_idx c a < 0"
    using assms by (simp_all add: alarm_ok_def alarm_due_None_iff)
  have "slots_ok (alarm_new a c)"
    using slots idle_not_live [OF slots idle]
    by (auto simp: slots_ok_def alarm_new_def)
  with assms(1) show ?thesis by (simp add: alarm_ok_def next_ok_def alarm_new_def)
qed

lemma alarm_due_new: "alarm_due (alarm_new a c) = (alarm_due c)(a := None)"
  by (simp add: alarm_due_def alarm_new_def fun_eq_iff)

lemma alarms_set [simp]: "alarms (alarm_set a t c) = alarms c"
  by (simp add: alarm_set_def Let_def)

lemma alarms_unset [simp]: "alarms (alarm_unset a c) = alarms c"
  by (simp add: alarm_unset_def Let_def)

lemma alarms_only [simp]:
  "alarm_due (c\<lparr>alarms := as\<rparr>) = alarm_due c" "alarm_ok (c\<lparr>alarms := as\<rparr>) = alarm_ok c"
  by (simp_all add: alarm_due_def fun_eq_iff alarm_ok_def slots_ok_def next_ok_def)

lemma alarm_destroy_ok [inv_intros]: "alarm_ok c \<Longrightarrow> alarm_ok (alarm_destroy a c)"
  by (simp add: alarm_destroy_def Let_def alarm_unset_ok)

lemma alarm_due_destroy:
  "alarm_ok c \<Longrightarrow> alarm_due (alarm_destroy a c) = (alarm_due c)(a := None)"
  by (simp add: alarm_destroy_def Let_def alarm_q.due_cancel)

lemma alarms_destroy [simp]: "alarms (alarm_destroy a c) = remove1 a (alarms c)"
  by (simp add: alarm_destroy_def Let_def)

lemma fold_alarm_destroy:
  "alarm_ok c \<Longrightarrow> alarm_ok (fold alarm_destroy as c) \<and>
     alarm_due (fold alarm_destroy as c) = (\<lambda>a. if a \<in> set as then None else alarm_due c a)"
  by (induction as arbitrary: c) (auto simp: alarm_destroy_ok alarm_due_destroy fun_eq_iff)

lemma alarms_fold_destroy: "alarms (fold alarm_destroy as c) = fold remove1 as (alarms c)"
  by (induction as arbitrary: c) simp_all

lemma fold_remove1_self: "fold remove1 xs xs = []"
  by (induction xs) simp_all

subsection \<open>Moving the clocks\<close>

lemma warp_due:
  assumes "slots_ok c" "d \<noteq> 0"
  shows "alarm_due (alarm_context_time_warp w d c) =
    map_option (\<lambda>t. if d > 0 then t + w else t - w) \<circ> alarm_due c"
proof
  fix a
  from assms(1) show "alarm_due (alarm_context_time_warp w d c) a =
      (map_option (\<lambda>t. if d > 0 then t + w else t - w) \<circ> alarm_due c) a"
  proof (cases rule: pending_idx_cases [of c a])
    case idle
    then show ?thesis using assms(2) by (simp add: alarm_context_time_warp_def alarm_due_def Let_def)
  next
    case (pending i)
    with assms show ?thesis
      by (simp add: alarm_context_time_warp_def alarm_due_def Let_def nth_append slots_ok_length)
  qed
qed

lemma warp_slots_ok:
  assumes "slots_ok c"
  shows "slots_ok (alarm_context_time_warp w d c)"
  using assms
  by (auto simp: slots_ok_def alarm_context_time_warp_def Let_def nth_append)

lemma warp_next:
  assumes "d \<noteq> 0"
  shows "next_pending_alarm_clk (alarm_context_time_warp w d c) =
      (if d > 0 then next_pending_alarm_clk c + w else next_pending_alarm_clk c - w)"
    and "next_pending_alarm_idx (alarm_context_time_warp w d c) = next_pending_alarm_idx c"
    and "num_pending_alarms (alarm_context_time_warp w d c) = num_pending_alarms c"
  using assms by (simp_all add: alarm_context_time_warp_def Let_def)

lemma word_diff_mono: "(w::clock) \<le> a \<Longrightarrow> a \<le> b \<Longrightarrow> a - w \<le> b - w"
  by (metis diff_add_cancel dual_order.trans word_le_minus_mono_left)

lemma warp_back_ok [inv_intros]:
  assumes ok: "alarm_ok c" and some: "next_pending_alarm_clk c \<noteq> CLOCK_MAX"
    and w: "w \<le> next_pending_alarm_clk c" and d: "d < 0"
  shows "alarm_ok (alarm_context_time_warp w d c)"
proof -
  have slots: "slots_ok c" and nxt: "next_ok c" using ok by (simp_all add: alarm_ok_def)
  have len: "length (pending_alarms c) = 256" "num_pending_alarms c \<le> 256"
    using slots by (simp_all add: slots_ok_def)
  have nth: "snd (pending_alarms (alarm_context_time_warp w d c) ! i) = snd (pending_alarms c ! i) - w"
    if "i < num_pending_alarms c" for i
    using that d len by (simp add: alarm_context_time_warp_def Let_def nth_append)
  have "next_ok (alarm_context_time_warp w d c)"
    unfolding next_ok_def
    using nxt some w d nth by (auto simp: warp_next next_ok_def word_diff_mono)
  with slots show ?thesis by (simp add: alarm_ok_def warp_slots_ok)
qed


subsection \<open>The dispatch loop\<close>

text \<open>
  What a callback may do while alarms are processed: keep the invariant and the CPU clock, and
  leave its own alarm unset or set to a later clock.
\<close>

definition serves_alarm ::
  "(nat \<Rightarrow> clock \<Rightarrow> alarm_context \<times> 's \<Rightarrow> alarm_context \<times> 's) \<Rightarrow> ('s \<Rightarrow> clock) \<Rightarrow> bool" where
  "serves_alarm callback clk \<longleftrightarrow>
     (\<forall>a off c s. alarm_ok c \<longrightarrow>
        (case callback a off (c, s) of (c', s') \<Rightarrow>
           alarm_ok c' \<and> clk s' = clk s \<and>
           (\<exists>r. alarm_due c' = (alarm_due c)(a := r) \<and> (\<forall>t. r = Some t \<longrightarrow> clk s < t))))"

lemma serves_alarmD:
  assumes "serves_alarm callback clk" "alarm_ok c" "callback a off (c, s) = (c', s')"
  obtains r where "alarm_ok c'" "clk s' = clk s" "alarm_due c' = (alarm_due c)(a := r)"
    "\<forall>t. r = Some t \<longrightarrow> clk s < t"
proof -
  have "alarm_ok c' \<and> clk s' = clk s \<and>
      (\<exists>r. alarm_due c' = (alarm_due c)(a := r) \<and> (\<forall>t. r = Some t \<longrightarrow> clk s < t))"
    using assms(1) [unfolded serves_alarm_def, THEN spec [of _ a], THEN spec [of _ off],
        THEN spec [of _ c], THEN spec [of _ s]] assms(2,3) by simp
  then show thesis using that by blast
qed

lemma process_alarms_ends:
  assumes serves: "serves_alarm callback clk" and ok: "alarm_ok c" and clk: "clk s \<noteq> CLOCK_MAX"
  shows "\<exists>c' s'. process_alarms callback clk (c, s) = Some (c', s') \<and> alarm_ok c' \<and>
           clk s' = clk s \<and> (\<forall>a t. alarm_due c' a = Some t \<longrightarrow> clk s < t)"
  using ok clk
proof (induction "card (alarm_q.overdue c (clk s))" arbitrary: c s rule: less_induct)
  case less
  show ?case
  proof (cases "clk s < alarm_context_next_pending_clk c")
    case True
    then have "process_alarms callback clk (c, s) = Some (c, s)"
      by (subst process_alarms.simps) (simp add: not_le [symmetric])
    with True less.prems show ?thesis using alarm_q.none_overdue by blast
  next
    case False
    then have "alarm_context_next_pending_clk c \<le> clk s" by simp
    with less.prems(2) have "alarm_context_next_pending_clk c \<noteq> CLOCK_MAX"
      by (metis clock_le_max order_antisym)
    then obtain a where a: "alarm_context_dispatch c (clk s) =
        Some (a, clk s - alarm_context_next_pending_clk c)"
      "alarm_due c a = Some (alarm_context_next_pending_clk c)"
      using alarm_q.front_next [OF less.prems(1)] by blast
    obtain c1 s1 where cb: "callback a (clk s - alarm_context_next_pending_clk c) (c, s) = (c1, s1)"
      by fastforce
    from serves less.prems(1) cb obtain r where r: "alarm_ok c1" "clk s1 = clk s"
      "alarm_due c1 = (alarm_due c)(a := r)" "\<forall>t. r = Some t \<longrightarrow> clk s < t"
      by (rule serves_alarmD)
    have "card (alarm_q.overdue c1 (clk s)) < card (alarm_q.overdue c (clk s))"
      using less.prems(1) \<open>alarm_context_next_pending_clk c \<le> clk s\<close> a(2) r(3,4)
      by (rule alarm_q.serve_overdue_less)
    with less.hyps [of c1 s1] r less.prems(2)
    have "\<exists>c' s'. process_alarms callback clk (c1, s1) = Some (c', s') \<and> alarm_ok c' \<and>
        clk s' = clk s \<and> (\<forall>a t. alarm_due c' a = Some t \<longrightarrow> clk s < t)"
      by simp
    moreover have "process_alarms callback clk (c, s) = process_alarms callback clk (c1, s1)"
      using False a(1) cb by (subst process_alarms.simps) (simp add: not_less)
    ultimately show ?thesis by simp
  qed
qed


lemma process_alarms_bad_index:
  assumes "alarm_context_next_pending_clk c \<le> clk s"
    and "next_pending_alarm_idx c < 0"
  shows "process_alarms callback clk (c, s) = None"
  using assms by (subst process_alarms.simps) (simp add: alarm_context_dispatch_def)

text \<open>An example context, used by the witnesses: one alarm, number 7, due at clock 100.\<close>

definition example_idle :: alarm_context where
  "example_idle = alarm_context_init
     \<lparr>alarms = [], pending_alarms = replicate 256 (0, 0), num_pending_alarms = 0,
      next_pending_alarm_clk = 0, next_pending_alarm_idx = -1, pending_idx = (\<lambda>_. -1)\<rparr>"

definition example_one :: alarm_context where
  "example_one = alarm_set 7 100 example_idle"

lemma alarm_ok_init:
  "length (pending_alarms c) = 256 \<Longrightarrow> \<forall>a. pending_idx c a < 0 \<Longrightarrow> alarm_ok (alarm_context_init c)"
  by (auto simp: alarm_ok_def slots_ok_def next_ok_def alarm_context_init_def)
    (metis of_nat_less_0_iff)

lemma example_idle_facts:
  "alarm_ok example_idle" "alarm_due example_idle = Map.empty" "alarm_room example_idle a"
  "num_pending_alarms example_idle = 0"
  by (simp_all add: example_idle_def alarm_ok_init)
    (simp_all add: alarm_context_init_def alarm_due_def fun_eq_iff alarm_room_def)

lemma example_one_facts:
  "alarm_ok example_one" "alarm_due example_one = [7 \<mapsto> 100]" "alarm_room example_one 7"
  "num_pending_alarms example_one = 1" "next_pending_alarm_clk example_one = 100"
proof -
  show "next_pending_alarm_clk example_one = 100"
    by (simp add: example_one_def example_idle_def alarm_context_init_def alarm_set_def Let_def
        order_less_le)
  show "alarm_ok example_one" by (simp add: example_one_def alarm_set_ok example_idle_facts)
  show due: "alarm_due example_one = [7 \<mapsto> 100]"
    by (simp add: example_one_def alarm_q.due_set example_idle_facts)
  show "alarm_room example_one 7" by (simp add: alarm_room_def due)
  show "num_pending_alarms example_one = 1"
    by (simp add: example_one_def example_idle_def alarm_context_init_def alarm_set_def Let_def)
qed

subsection \<open>Properties\<close>

text \<open>
  C6: setting and unsetting an alarm keep the scheduler's invariant and act exactly as the
  update of the map from alarms to the clocks they are due at.
\<close>

theorem alarm_refines_map:
  assumes "alarm_ok c" and "alarm_room c a"
  shows "alarm_ok (alarm_set a t c) \<and> alarm_due (alarm_set a t c) = (alarm_due c)(a \<mapsto> t) \<and>
         alarm_ok (alarm_unset b c) \<and> alarm_due (alarm_unset b c) = (alarm_due c)(b := None)"
  using assms
  by (simp add: alarm_q.invar_set alarm_q.due_set alarm_q.invar_cancel alarm_q.due_cancel)

theorem alarm_refines_map_witness:
  "alarm_due (alarm_set 8 50 example_one) = [7 \<mapsto> 100, 8 \<mapsto> 50] \<and>
   alarm_due (alarm_unset 7 example_one) = Map.empty"
proof -
  have "alarm_room example_one 8" by (simp add: alarm_room_def example_one_facts)
  from alarm_refines_map [OF example_one_facts(1) this, of 50 7] show ?thesis
    by (simp add: example_one_facts)
qed

text \<open>
  C28: the alarm that is dispatched is one that is due at the cached clock, no alarm is due
  earlier, and the offset passed to its callback is how late it is served.
\<close>

theorem alarm_dispatch_earliest:
  assumes "alarm_ok c" and "alarm_context_next_pending_clk c \<noteq> CLOCK_MAX"
  shows "\<exists>a t. alarm_context_dispatch c cpu_clk = Some (a, cpu_clk - t) \<and> alarm_due c a = Some t \<and>
           (\<forall>b u. alarm_due c b = Some u \<longrightarrow> t \<le> u)"
  using alarm_q.front_next [OF assms, of cpu_clk] alarm_q.next_lower [OF assms(1)] by blast

theorem alarm_dispatch_earliest_witness:
  "\<exists>a t. alarm_context_dispatch example_one 103 = Some (a, 103 - t) \<and> alarm_due example_one a = Some t \<and>
     (\<forall>b u. alarm_due example_one b = Some u \<longrightarrow> t \<le> u)"
proof -
  have "alarm_context_next_pending_clk example_one \<noteq> CLOCK_MAX"
    by (simp add: alarm_context_next_pending_clk_def example_one_facts)
  with example_one_facts(1) show ?thesis by (rule alarm_dispatch_earliest)
qed

text \<open>
  C22: the dispatch loop of the CPU ends, whatever is pending, when every callback serves its
  alarm: it leaves it unset or sets it to a clock the CPU has not reached. Afterwards no alarm
  is due any more and the CPU clock is what it was.
\<close>

theorem process_alarms_terminates:
  assumes "serves_alarm callback clk" and "alarm_ok c" and "clk s \<noteq> CLOCK_MAX"
  shows "\<exists>c' s'. process_alarms callback clk (c, s) = Some (c', s') \<and> alarm_ok c' \<and>
           clk s' = clk s \<and> (\<forall>a t. alarm_due c' a = Some t \<longrightarrow> clk s < t)"
  using assms by (rule process_alarms_ends)

theorem process_alarms_terminates_witness:
  "\<exists>c' s'. process_alarms (\<lambda>a off (c, s). (alarm_unset a c, s)) id (example_one, 105) = Some (c', s') \<and>
     alarm_ok c' \<and> id s' = id (105 :: clock) \<and> (\<forall>a t. alarm_due c' a = Some t \<longrightarrow> id 105 < t)"
proof -
  have "serves_alarm (\<lambda>a off (c, s). (alarm_unset a c, s)) (id :: clock \<Rightarrow> clock)"
    by (auto simp: serves_alarm_def alarm_q.invar_cancel alarm_q.due_cancel intro: exI [of _ None])
  then show ?thesis
    by (rule process_alarms_terminates [OF _ example_one_facts(1)]) simp
qed

text \<open>
  Moving the clocks back keeps the invariant and moves every due clock by the same amount,
  as long as some alarm is pending and no clock underflows.
\<close>

theorem alarm_time_warp_back:
  assumes "alarm_ok c" and "next_pending_alarm_clk c \<noteq> CLOCK_MAX"
    and "warp_amount \<le> next_pending_alarm_clk c" and "warp_direction < 0"
  shows "alarm_ok (alarm_context_time_warp warp_amount warp_direction c) \<and>
    alarm_due (alarm_context_time_warp warp_amount warp_direction c) =
      map_option (\<lambda>t. t - warp_amount) \<circ> alarm_due c"
  using assms warp_back_ok [OF assms] warp_due [of c warp_direction warp_amount]
  by (auto simp: alarm_ok_def)

theorem alarm_time_warp_back_witness:
  "alarm_due (alarm_context_time_warp 40 (-1) example_one) = [7 \<mapsto> 60]"
proof -
  have "alarm_due (alarm_context_time_warp 40 (-1) example_one) =
      map_option (\<lambda>t. t - 40) \<circ> alarm_due example_one"
    using alarm_time_warp_back [OF example_one_facts(1), of 40 "-1"] by (simp add: example_one_facts)
  then show ?thesis by (simp add: example_one_facts fun_eq_iff)
qed

text \<open>
  C39: with no alarm pending, the cached clock is moved too, although it stands for "never".
  After the last alarm is unset and the clocks are moved back by \<open>w\<close>, the dispatch loop of a
  CPU whose clock reaches \<open>CLOCK_MAX - w\<close> reads the slot with index \<open>-1\<close>.
\<close>

theorem alarm_time_warp_idle_dispatch:
  assumes "alarm_ok c" and "alarm_due c a \<noteq> None" and "num_pending_alarms c = 1"
    and "CLOCK_MAX - w \<le> clk s"
  shows "process_alarms callback clk (alarm_context_time_warp w (-1) (alarm_unset a c), s) = None"
proof (rule process_alarms_bad_index)
  from assms(1,2,3) have "next_pending_alarm_clk (alarm_unset a c) = CLOCK_MAX"
    "next_pending_alarm_idx (alarm_unset a c) = -1"
    by (simp_all add: alarm_unset_def alarm_due_None_iff)
  with assms(4) show "alarm_context_next_pending_clk (alarm_context_time_warp w (-1) (alarm_unset a c)) \<le> clk s"
    and "next_pending_alarm_idx (alarm_context_time_warp w (-1) (alarm_unset a c)) < 0"
    by (simp_all add: warp_next alarm_context_next_pending_clk_def)
qed

theorem alarm_time_warp_idle_dispatch_witness:
  "process_alarms (\<lambda>a off cs. cs) id
     (alarm_context_time_warp 4000000000 (-1) (alarm_unset 7 example_one), 300000000 :: clock) = None"
  by (rule alarm_time_warp_idle_dispatch [OF example_one_facts(1)]) (simp_all add: example_one_facts)

end
