(* ===== verification/Clkguard.thy ===== *)
theory Clkguard
  imports Alarm
begin

text \<open>
  The guard against overflows of a clock counter, \<open>clkguard.c\<close>. The pointer \<open>clk_ptr\<close> to the
  counter is a pair of functions that read and write it in the machine state \<open>'s\<close>; a callback
  with its data is a function on that state, which gets the amount subtracted.
\<close>

abbreviation (input) CLKGUARD_SUB_MIN :: clock where
  "CLKGUARD_SUB_MIN \<equiv> 0xfffff"

record 's clk_guard =
  clk_read :: "'s \<Rightarrow> clock"
  clk_write :: "clock \<Rightarrow> 's \<Rightarrow> 's"
  clk_base :: clock
  clk_max_value :: clock
  callback_list :: "(clock \<Rightarrow> 's \<Rightarrow> 's) list"

text \<open>\<open>None\<close> is the result \<open>-1\<close>, on which \<open>clk_guard_new\<close> returns \<open>NULL\<close>.\<close>

definition clk_guard_init ::
  "('s \<Rightarrow> clock) \<Rightarrow> (clock \<Rightarrow> 's \<Rightarrow> 's) \<Rightarrow> clock \<Rightarrow> 's clk_guard option" where
  "clk_guard_init rd wr init_clk_max_value =
     (if init_clk_max_value < CLKGUARD_SUB_MIN * 3 then None
      else Some \<lparr>clk_read = rd, clk_write = wr, clk_base = 0, clk_max_value = init_clk_max_value,
                 callback_list = []\<rparr>)"

definition clk_guard_new ::
  "('s \<Rightarrow> clock) \<Rightarrow> (clock \<Rightarrow> 's \<Rightarrow> 's) \<Rightarrow> clock \<Rightarrow> 's clk_guard option" where
  "clk_guard_new rd wr init_clk_max_value = clk_guard_init rd wr init_clk_max_value"

definition clk_guard_set_clk_base :: "'s clk_guard \<Rightarrow> clock \<Rightarrow> 's clk_guard" where
  "clk_guard_set_clk_base g new_clk_base = g\<lparr>clk_base := new_clk_base\<rparr>"

definition clk_guard_get_clk_base :: "'s clk_guard \<Rightarrow> clock" where
  "clk_guard_get_clk_base g = clk_base g"

definition clk_guard_add_callback :: "'s clk_guard \<Rightarrow> (clock \<Rightarrow> 's \<Rightarrow> 's) \<Rightarrow> 's clk_guard" where
  "clk_guard_add_callback g f = g\<lparr>callback_list := f # callback_list g\<rparr>"

definition clk_guard_clock_sub :: "'s clk_guard \<Rightarrow> clock" where
  "clk_guard_clock_sub g =
     (let sub = clk_max_value g - CLKGUARD_SUB_MIN
      in if clk_base g \<noteq> 0 then (sub div clk_base g) * clk_base g else sub)"

definition clk_guard_prevent_overflow :: "'s clk_guard \<Rightarrow> 's \<Rightarrow> clock \<times> 's" where
  "clk_guard_prevent_overflow g s =
     (if clk_read g s < clk_max_value g then (0, s)
      else
        (let sub = clk_guard_clock_sub g;
             s1 = clk_write g (clk_read g s - sub) s
         in (sub, fold (\<lambda>f. f sub) (callback_list g) s1)))"

text \<open>The guard the machine creates for the main CPU, with the clock base of a video chip.\<close>

definition guard_ok :: "'s clk_guard \<Rightarrow> bool" where
  "guard_ok g \<longleftrightarrow> CLKGUARD_SUB_MIN * 3 \<le> clk_max_value g \<and>
     clk_base g \<le> clk_max_value g - CLKGUARD_SUB_MIN"

lemma guard_ok_init: "clk_guard_init rd wr m = Some g \<Longrightarrow> guard_ok g"
  by (auto simp: clk_guard_init_def guard_ok_def split: if_splits)

lemma guard_ok_add [inv_intros, simp]: "guard_ok (clk_guard_add_callback g f) = guard_ok g"
  by (simp add: guard_ok_def clk_guard_add_callback_def)

lemma unat_div_mult: "unat ((a div b) * (b::clock)) = unat a div unat b * unat b"
proof -
  have "unat a div unat b * unat b \<le> unat a" by simp
  also have "unat a < 2 ^ LENGTH(32)" by (rule unsigned_less)
  finally show ?thesis by (simp add: unat_mult_small unat_div)
qed

lemma clock_sub_le: "clk_guard_clock_sub g \<le> clk_max_value g - CLKGUARD_SUB_MIN"
  by (simp add: clk_guard_clock_sub_def Let_def word_div_mult_le)

lemma mod_diff_dvd_eq: "(b::nat) dvd c \<Longrightarrow> c \<le> a \<Longrightarrow> (a - c) mod b = a mod b"
  by (metis dvd_imp_mod_0 le_add_diff_inverse2 mod_add_right_eq add.right_neutral)

lemma clock_sub_dvd: "clk_base g \<noteq> 0 \<Longrightarrow> unat (clk_base g) dvd unat (clk_guard_clock_sub g)"
  by (simp add: clk_guard_clock_sub_def Let_def unat_div_mult)

lemma clock_sub_pos: "guard_ok g \<Longrightarrow> clk_guard_clock_sub g \<noteq> 0"
proof -
  assume ok: "guard_ok g"
  let ?d = "clk_max_value g - CLKGUARD_SUB_MIN"
  have "CLKGUARD_SUB_MIN \<le> clk_max_value g"
    using ok by (simp add: guard_ok_def word_le_nat_alt)
  then have d: "unat ?d = unat (clk_max_value g) - 0xfffff"
    by (simp add: unat_sub)
  have pos: "0 < unat ?d" using ok by (simp add: d guard_ok_def word_le_nat_alt)
  show ?thesis
  proof (cases "clk_base g = 0")
    case True
    with pos show ?thesis by (auto simp: clk_guard_clock_sub_def)
  next
    case False
    with ok have "1 \<le> unat ?d div unat (clk_base g)"
      by (simp add: guard_ok_def word_le_nat_alt unat_gt_0 div_greater_zero_iff Suc_le_eq)
    with False have "unat (clk_guard_clock_sub g) \<noteq> 0"
      by (simp add: clk_guard_clock_sub_def Let_def unat_div_mult unat_gt_0)
    then show ?thesis by auto
  qed
qed


subsection \<open>The contract of the counter and its callbacks\<close>

text \<open>A counter behind the pointer, and callbacks that leave it to the guard.\<close>

locale clk_counter =
  fixes rd :: "'s \<Rightarrow> clock" and wr :: "clock \<Rightarrow> 's \<Rightarrow> 's"
  assumes rd_wr: "rd (wr v s) = v"
begin

definition guards :: "'s clk_guard \<Rightarrow> bool" where
  "guards g \<longleftrightarrow> clk_read g = rd \<and> clk_write g = wr \<and>
     (\<forall>f\<in>set (callback_list g). \<forall>a s. rd (f a s) = rd s)"

lemma fold_callbacks:
  "\<forall>f\<in>set fs. \<forall>a s. rd (f a s) = rd s \<Longrightarrow> rd (fold (\<lambda>f. f sub) fs s) = rd s"
  by (induction fs arbitrary: s) simp_all

lemma overflow_counter:
  assumes "guards g" "clk_max_value g \<le> rd s"
  shows "rd (snd (clk_guard_prevent_overflow g s)) = rd s - clk_guard_clock_sub g"
    and "fst (clk_guard_prevent_overflow g s) = clk_guard_clock_sub g"
  using assms
  by (simp_all add: clk_guard_prevent_overflow_def guards_def Let_def rd_wr fold_callbacks not_less [symmetric])

lemma overflow_bounds:
  assumes "guards g" "guard_ok g" "clk_max_value g \<le> rd s"
  shows "rd (snd (clk_guard_prevent_overflow g s)) < rd s"
    and "CLKGUARD_SUB_MIN \<le> rd (snd (clk_guard_prevent_overflow g s))"
    and "clk_base g \<noteq> 0 \<Longrightarrow> unat (rd (snd (clk_guard_prevent_overflow g s))) mod unat (clk_base g) =
           unat (rd s) mod unat (clk_base g)"
proof -
  let ?sub = "clk_guard_clock_sub g" and ?s = "snd (clk_guard_prevent_overflow g s)"
  have min: "CLKGUARD_SUB_MIN \<le> clk_max_value g"
    using assms(2) by (simp add: guard_ok_def word_le_nat_alt)
  then have sub: "unat ?sub + 0xfffff \<le> unat (clk_max_value g)"
    using clock_sub_le [of g] by (simp add: word_le_nat_alt unat_sub)
  with assms(3) have le: "unat ?sub \<le> unat (rd s)" by (simp add: word_le_nat_alt)
  have new: "unat (rd ?s) = unat (rd s) - unat ?sub"
    using le by (simp add: overflow_counter [OF assms(1,3)] unat_sub word_le_nat_alt)
  have "unat ?sub \<noteq> 0" using clock_sub_pos [OF assms(2)] by (simp add: unat_eq_0)
  with new le show "rd ?s < rd s" by (simp add: word_less_nat_alt)
  show "CLKGUARD_SUB_MIN \<le> rd ?s"
    using new sub assms(3) by (simp add: word_le_nat_alt)
  show "unat (rd ?s) mod unat (clk_base g) = unat (rd s) mod unat (clk_base g)" if "clk_base g \<noteq> 0"
    using clock_sub_dvd [OF that] le by (simp add: new mod_diff_dvd_eq)
qed

end

text \<open>The CPU: its clock, and behind it the rest of the machine.\<close>

interpretation cpu_clk: clk_counter fst "\<lambda>v s. (v, snd s)"
  by unfold_locales simp

text \<open>
  The guard of the main CPU over its clock and its alarm context, with the callback that moves
  the alarms back, as the machine registers it.
\<close>

definition alarm_warp_callback :: "clock \<Rightarrow> clock \<times> alarm_context \<Rightarrow> clock \<times> alarm_context" where
  "alarm_warp_callback sub s = (fst s, alarm_context_time_warp sub (-1) (snd s))"

definition cpu_guard :: "clock \<Rightarrow> clock \<Rightarrow> (clock \<times> alarm_context) clk_guard" where
  "cpu_guard base m =
     clk_guard_add_callback
       \<lparr>clk_read = fst, clk_write = (\<lambda>v s. (v, snd s)), clk_base = base, clk_max_value = m,
        callback_list = []\<rparr> alarm_warp_callback"

lemma cpu_guard_guards: "cpu_clk.guards (cpu_guard base m)"
  by (simp add: cpu_clk.guards_def cpu_guard_def clk_guard_add_callback_def alarm_warp_callback_def)

lemma cpu_guard_fields [simp]:
  "clk_read (cpu_guard base m) = fst" "clk_write (cpu_guard base m) = (\<lambda>v s. (v, snd s))" "clk_base (cpu_guard base m) = base"
  "clk_max_value (cpu_guard base m) = m" "callback_list (cpu_guard base m) = [alarm_warp_callback]"
  by (simp_all add: cpu_guard_def clk_guard_add_callback_def)

lemma example_guard_ok: "guard_ok (cpu_guard 19656 0xffe00000)"
  by (simp add: guard_ok_def)

lemma cpu_guard_alarms:
  assumes "m \<le> clk"
  shows "snd (snd (clk_guard_prevent_overflow (cpu_guard base m) (clk, c))) =
     alarm_context_time_warp (clk_guard_clock_sub (cpu_guard base m)) (-1) c"
  using assms
  by (simp add: clk_guard_prevent_overflow_def Let_def alarm_warp_callback_def cpu_guard_def
      clk_guard_add_callback_def not_less [symmetric])

lemma minus_less_mono: "(w::clock) \<le> a \<Longrightarrow> a < b \<Longrightarrow> a - w < b - w"
  by (simp add: word_less_nat_alt word_le_nat_alt unat_sub diff_less_mono)

subsection \<open>Properties\<close>

text \<open>
  C23: when the counter has reached the limit, the guard takes it back by a positive amount that
  keeps its phase in the clock base, and at least \<open>CLKGUARD_SUB_MIN\<close> cycles stay.
\<close>

theorem clk_guard_prevents_overflow:
  assumes "guard_ok g" and "clk_read g = fst" and "clk_write g = (\<lambda>v s. (v, snd s))"
    and "\<forall>f\<in>set (callback_list g). \<forall>a s. fst (f a s) = fst s" and "clk_max_value g \<le> fst s"
  shows "fst (snd (clk_guard_prevent_overflow g s)) = fst s - fst (clk_guard_prevent_overflow g s) \<and>
    fst (snd (clk_guard_prevent_overflow g s)) < fst s \<and>
    CLKGUARD_SUB_MIN \<le> fst (snd (clk_guard_prevent_overflow g s)) \<and>
    (clk_base g \<noteq> 0 \<longrightarrow> unat (fst (snd (clk_guard_prevent_overflow g s))) mod unat (clk_base g) =
       unat (fst s) mod unat (clk_base g))"
proof -
  have "cpu_clk.guards g" using assms(2-4) by (simp add: cpu_clk.guards_def)
  note bounds = cpu_clk.overflow_bounds [OF this assms(1,5)]
    and counter = cpu_clk.overflow_counter [OF this assms(5)]
  from bounds show ?thesis unfolding counter by blast
qed

theorem clk_guard_prevents_overflow_witness:
  "fst (snd (clk_guard_prevent_overflow (cpu_guard 19656 0xffe00000) (0xffe00000, example_one))) < 0xffe00000 \<and>
   CLKGUARD_SUB_MIN \<le>
     fst (snd (clk_guard_prevent_overflow (cpu_guard 19656 0xffe00000) (0xffe00000, example_one)))"
proof -
  let ?g = "cpu_guard 19656 0xffe00000" and ?s = "(0xffe00000 :: clock, example_one)"
  have "fst (snd (clk_guard_prevent_overflow ?g ?s)) < fst ?s \<and>
      CLKGUARD_SUB_MIN \<le> fst (snd (clk_guard_prevent_overflow ?g ?s))"
    using clk_guard_prevents_overflow [OF example_guard_ok, of ?s]
    unfolding cpu_guard_fields alarm_warp_callback_def by auto
  then show ?thesis by simp
qed

text \<open>
  C29: The guard of the CPU and its alarm callback keep the schedule. When the clock has reached the limit, no alarm is overdue and one is
  pending, the clock goes back by exactly the amount that the guard gives to its callbacks, the same alarms are set as before, and every one is
  as many cycles ahead of the clock as it was, and still ahead of it; the scheduler's invariant holds.
\<close>

theorem clk_guard_keeps_schedule:
  assumes "guard_ok (cpu_guard base m)" and "m \<le> clk" and "alarm_ok c"
    and "clk < alarm_context_next_pending_clk c" and "alarm_context_next_pending_clk c \<noteq> CLOCK_MAX"
    and "clk_guard_prevent_overflow (cpu_guard base m) (clk, c) = (sub, clk', c')"
  shows "alarm_ok c' \<and> clk' = clk - sub \<and> clk' < clk \<and> dom (alarm_due c') = dom (alarm_due c)
    \<and> (\<forall>a t. alarm_due c a = Some t \<longrightarrow> (\<exists>t'. alarm_due c' a = Some t' \<and> t' - clk' = t - clk \<and> clk' < t'))"
proof -
  let ?g = "cpu_guard base m"
  have sub: "sub = clk_guard_clock_sub ?g" "clk' = clk - sub"
    using cpu_clk.overflow_counter [OF cpu_guard_guards, of base m "(clk, c)"] assms(2,6) by simp_all
  have c': "c' = alarm_context_time_warp sub (-1) c"
    using cpu_guard_alarms [OF assms(2), of base c] assms(6) sub by simp
  have less: "clk' < clk"
    using cpu_clk.overflow_bounds(1) [OF cpu_guard_guards assms(1), of "(clk, c)"] assms(2,6) by simp
  have "m - CLKGUARD_SUB_MIN \<le> m"
    using assms(1) by (simp add: guard_ok_def word_le_nat_alt unat_sub)
  then have sub_le: "sub \<le> clk"
    using clock_sub_le [of ?g] assms(2) sub by simp
  then have "sub \<le> next_pending_alarm_clk c"
    using assms(4) by (simp add: alarm_context_next_pending_clk_def)
  then have ok: "alarm_ok c'"
    using assms(3,5) by (simp add: c' warp_back_ok alarm_context_next_pending_clk_def)
  have due: "alarm_due c' = map_option (\<lambda>t. t - sub) \<circ> alarm_due c"
    using assms(3) warp_due [of c "-1" sub] by (simp add: c' alarm_ok_def)
  have "\<exists>t'. alarm_due c' a = Some t' \<and> t' - clk' = t - clk \<and> clk' < t'" if t: "alarm_due c a = Some t" for a t
  proof -
    have "clk < t" using t assms(3,4) by (blast intro: alarm_q.none_overdue)
    then show ?thesis using t sub_le sub(2) by (simp add: due minus_less_mono)
  qed
  moreover have "dom (alarm_due c') = dom (alarm_due c)" by (auto simp: due dom_def)
  ultimately show ?thesis using ok less sub(2) by blast
qed

text \<open>An alarm 100 cycles ahead is 100 cycles ahead afterwards.\<close>

theorem clk_guard_keeps_schedule_witness:
  "\<exists>sub clk' c' t'. clk_guard_prevent_overflow (cpu_guard 1000000 0xffe00000) (0xffe00000, alarm_set 7 0xffe00064 example_idle) = (sub, clk', c')
    \<and> clk' = 0xffe00000 - sub \<and> alarm_due c' 7 = Some t' \<and> t' - clk' = 100"
proof -
  let ?c = "alarm_set 7 0xffe00064 example_idle"
  obtain sub clk' c' where res: "clk_guard_prevent_overflow (cpu_guard 1000000 0xffe00000) (0xffe00000, ?c) = (sub, clk', c')"
    using prod_cases3 by blast
  have ok: "guard_ok (cpu_guard 1000000 0xffe00000)" by (simp add: guard_ok_def)
  have c: "alarm_ok ?c" by (simp add: alarm_set_ok example_idle_facts)
  have nxt: "alarm_context_next_pending_clk ?c = 0xffe00064"
    by (simp add: alarm_context_next_pending_clk_def example_idle_def alarm_context_init_def alarm_set_def Let_def)
  have due: "alarm_due ?c 7 = Some 0xffe00064" using example_idle_facts by (simp add: alarm_due_set alarm_ok_def)
  have p: "0xffe00000 < alarm_context_next_pending_clk ?c" "alarm_context_next_pending_clk ?c \<noteq> CLOCK_MAX" by (simp_all add: nxt)
  note all = clk_guard_keeps_schedule [OF ok order_refl c p res]
  from all due obtain t' where "alarm_due c' 7 = Some t'" "t' - clk' = 0xffe00064 - 0xffe00000" by blast
  then have "alarm_due c' 7 = Some t'" "t' - clk' = 100" by simp_all
  with res all show ?thesis by blast
qed

end
