(* ===== verification/Interrupt.thy ===== *)
theory Interrupt
  imports Prelude
begin

text \<open>
  The interrupt lines of a CPU, \<open>interrupt.h\<close> and \<open>interrupt.c\<close>. The word that
  \<open>last_opcode_info_ptr\<close> points to is a field, because only the CPU that owns the status
  shares it. Callback pointers are their identities; an operation that calls one returns it.
\<close>

definition IK_NONE :: dword where "IK_NONE = 0"
definition IK_NMI :: dword where "IK_NMI = push_bit 0 1"
definition IK_IRQ :: dword where "IK_IRQ = push_bit 1 1"
definition IK_RESET :: dword where "IK_RESET = push_bit 2 1"
definition IK_TRAP :: dword where "IK_TRAP = push_bit 3 1"
definition IK_MONITOR :: dword where "IK_MONITOR = push_bit 4 1"
definition IK_DMA :: dword where "IK_DMA = push_bit 5 1"
definition IK_IRQPEND :: dword where "IK_IRQPEND = push_bit 6 1"

lemmas IK_defs = IK_NONE_def IK_NMI_def IK_IRQ_def IK_RESET_def IK_TRAP_def IK_MONITOR_def
  IK_DMA_def IK_IRQPEND_def

text \<open>The cycles the CPU needs to detect an NMI or IRQ.\<close>

abbreviation (input) INTERRUPT_DELAY :: clock where
  "INTERRUPT_DELAY \<equiv> 2"

subsection \<open>Information on the last opcode\<close>

definition OPINFO_DELAYS_INTERRUPT :: "dword \<Rightarrow> bool" where
  "OPINFO_DELAYS_INTERRUPT opinfo \<longleftrightarrow> opinfo AND push_bit 8 1 \<noteq> 0"

definition OPINFO_DISABLES_IRQ :: "dword \<Rightarrow> bool" where
  "OPINFO_DISABLES_IRQ opinfo \<longleftrightarrow> opinfo AND push_bit 9 1 \<noteq> 0"

definition OPINFO_ENABLES_IRQ :: "dword \<Rightarrow> bool" where
  "OPINFO_ENABLES_IRQ opinfo \<longleftrightarrow> opinfo AND push_bit 10 1 \<noteq> 0"

definition OPINFO_SET :: "dword \<Rightarrow> bool \<Rightarrow> bool \<Rightarrow> bool \<Rightarrow> dword" where
  "OPINFO_SET number delays_interrupt disables_irq enables_irq =
     number OR (if delays_interrupt then push_bit 8 1 else 0)
            OR (if disables_irq then push_bit 9 1 else 0)
            OR (if enables_irq then push_bit 10 1 else 0)"

definition OPINFO_SET_DELAYS_INTERRUPT :: "dword \<Rightarrow> bool \<Rightarrow> dword" where
  "OPINFO_SET_DELAYS_INTERRUPT opinfo delay = (if delay then opinfo OR push_bit 8 1 else opinfo)"

definition OPINFO_SET_DISABLES_IRQ :: "dword \<Rightarrow> bool \<Rightarrow> dword" where
  "OPINFO_SET_DISABLES_IRQ opinfo disable = (if disable then opinfo OR push_bit 9 1 else opinfo)"

definition OPINFO_SET_ENABLES_IRQ :: "dword \<Rightarrow> bool \<Rightarrow> dword" where
  "OPINFO_SET_ENABLES_IRQ opinfo enable = (if enable then opinfo OR push_bit 10 1 else opinfo)"

subsection \<open>State\<close>

record interrupt_cpu_status =
  num_ints :: nat
  pending_int :: "dword list"
  nirq :: int
  irq_clk :: clock
  nnmi :: int
  nmi_clk :: clock
  num_dma_per_opcode :: nat
  num_cycles_left :: "dword list"
  dma_start_clk :: "clock list"
  irq_delay_cycles :: dword
  nmi_delay_cycles :: dword
  reset :: int
  trap :: int
  trap_func :: "nat option"
  last_opcode_info :: dword
  num_last_stolen_cycles :: int
  last_stolen_cycles_clk :: clock
  irq_pending_clk :: clock
  global_pending_int :: dword
  nmi_trap_func :: "nat option"
  reset_trap_func :: "nat option"

definition interrupt_cpu_status_init :: "interrupt_cpu_status \<Rightarrow> interrupt_cpu_status" where
  "interrupt_cpu_status_init cs = cs\<lparr>num_ints := 0, pending_int := []\<rparr>"

text \<open>\<open>memset\<close> clears every field but the four that are saved and restored around it.\<close>

definition interrupt_cpu_status_reset :: "interrupt_cpu_status \<Rightarrow> interrupt_cpu_status" where
  "interrupt_cpu_status_reset cs =
     \<lparr>num_ints = num_ints cs,
      pending_int = (if num_ints cs > 0 then replicate (num_ints cs) 0 else pending_int cs),
      nirq = 0, irq_clk = 0, nnmi = 0, nmi_clk = 0, num_dma_per_opcode = 0,
      num_cycles_left = map (\<lambda>_. 0) (num_cycles_left cs),
      dma_start_clk = map (\<lambda>_. 0) (dma_start_clk cs),
      irq_delay_cycles = 0, nmi_delay_cycles = 0, reset = 0, trap = 0, trap_func = None,
      last_opcode_info = last_opcode_info cs,
      num_last_stolen_cycles = 0, last_stolen_cycles_clk = 0, irq_pending_clk = CLOCK_MAX,
      global_pending_int = IK_NONE, nmi_trap_func = None, reset_trap_func = None\<rparr>"

definition interrupt_cpu_status_int_new ::
  "interrupt_cpu_status \<Rightarrow> interrupt_cpu_status \<times> nat" where
  "interrupt_cpu_status_int_new cs =
     (cs\<lparr>num_ints := num_ints cs + 1, pending_int := pending_int cs @ [0]\<rparr>, num_ints cs)"

definition interrupt_set_nmi_trap_func ::
  "interrupt_cpu_status \<Rightarrow> nat option \<Rightarrow> interrupt_cpu_status" where
  "interrupt_set_nmi_trap_func cs f = cs\<lparr>nmi_trap_func := f\<rparr>"

definition interrupt_set_reset_trap_func ::
  "interrupt_cpu_status \<Rightarrow> nat option \<Rightarrow> interrupt_cpu_status" where
  "interrupt_set_reset_trap_func cs f = cs\<lparr>reset_trap_func := f\<rparr>"

subsection \<open>The lines\<close>

text \<open>The \<open>while\<close> loop of \<open>interrupt_fixup_int_clk\<close>, counting \<open>num_dma\<close> down.\<close>

fun fixup_scan ::
  "interrupt_cpu_status \<Rightarrow> clock \<Rightarrow> nat \<Rightarrow> dword \<Rightarrow> dword \<Rightarrow> clock \<Rightarrow> dword \<times> dword \<times> clock" where
  "fixup_scan cs cpu_clk 0 left last_left last_start = (left, last_left, last_start)"
| "fixup_scan cs cpu_clk (Suc n) left last_left last_start =
     (let left' = num_cycles_left cs ! n
      in if dma_start_clk cs ! n - 1 \<le> cpu_clk then (left', last_left, last_start)
         else fixup_scan cs cpu_clk n left' left' (dma_start_clk cs ! n))"

definition interrupt_fixup_int_clk :: "interrupt_cpu_status \<Rightarrow> clock \<Rightarrow> clock" where
  "interrupt_fixup_int_clk cs cpu_clk =
     (let cycles_left_to_trigger_irq = (if OPINFO_DELAYS_INTERRUPT (last_opcode_info cs) then 2 else 1);
          (left, last_left, last_start) = fixup_scan cs cpu_clk (num_dma_per_opcode cs) 0 0 CLOCK_MAX;
          left1 = (if left - last_left > last_start - cpu_clk - 1
                   then last_left + last_start - cpu_clk - 1 else left);
          int_clk = last_stolen_cycles_clk cs;
          int_clk1 = (if num_dma_per_opcode cs > 0 \<and> dma_start_clk cs ! 0 > cpu_clk
                      then int_clk - (dma_start_clk cs ! 0 - cpu_clk) else int_clk)
      in if left1 \<ge> cycles_left_to_trigger_irq
         then int_clk1 - (cycles_left_to_trigger_irq + 1) else int_clk1)"

definition interrupt_set_irq ::
  "interrupt_cpu_status \<Rightarrow> nat \<Rightarrow> bool \<Rightarrow> clock \<Rightarrow> interrupt_cpu_status" where
  "interrupt_set_irq cs int_num value cpu_clk =
     (if int_num \<ge> num_ints cs then cs
      else if value then
        (if pending_int cs ! int_num AND IK_IRQ = 0 then
           (let cs1 = cs\<lparr>nirq := nirq cs + 1,
                         global_pending_int := global_pending_int cs OR (IK_IRQ OR IK_IRQPEND),
                         pending_int := (pending_int cs)[int_num := pending_int cs ! int_num OR IK_IRQ],
                         irq_pending_clk := CLOCK_MAX,
                         irq_delay_cycles := 0\<rparr>
            in if last_stolen_cycles_clk cs1 \<le> cpu_clk then cs1\<lparr>irq_clk := cpu_clk\<rparr>
               else cs1\<lparr>irq_clk := interrupt_fixup_int_clk cs1 cpu_clk\<rparr>)
         else cs)
      else
        (if pending_int cs ! int_num AND IK_IRQ \<noteq> 0 then
           (if nirq cs > 0 then
              (let cs1 = cs\<lparr>pending_int := (pending_int cs)
                               [int_num := pending_int cs ! int_num AND NOT IK_IRQ],
                            nirq := nirq cs - 1\<rparr>
               in if nirq cs1 = 0
                  then cs1\<lparr>global_pending_int := global_pending_int cs1 AND NOT IK_IRQ,
                           irq_pending_clk := cpu_clk + 3\<rparr>
                  else cs1)
            else cs)
         else cs))"

definition interrupt_set_nmi ::
  "interrupt_cpu_status \<Rightarrow> nat \<Rightarrow> bool \<Rightarrow> clock \<Rightarrow> interrupt_cpu_status" where
  "interrupt_set_nmi cs int_num value cpu_clk =
     (if int_num \<ge> num_ints cs then cs
      else if value then
        (if pending_int cs ! int_num AND IK_NMI = 0 then
           (let cs1 =
              (if nnmi cs = 0 \<and> global_pending_int cs AND IK_NMI = 0 then
                 (let cs0 = cs\<lparr>global_pending_int := global_pending_int cs OR IK_NMI,
                               nmi_delay_cycles := 0\<rparr>
                  in if last_stolen_cycles_clk cs0 \<le> cpu_clk then cs0\<lparr>nmi_clk := cpu_clk\<rparr>
                     else cs0\<lparr>nmi_clk := interrupt_fixup_int_clk cs0 cpu_clk\<rparr>)
               else cs)
            in cs1\<lparr>nnmi := nnmi cs1 + 1,
                   pending_int := (pending_int cs1)[int_num := pending_int cs1 ! int_num OR IK_NMI]\<rparr>)
         else cs)
      else
        (if pending_int cs ! int_num AND IK_NMI \<noteq> 0 then
           (if nnmi cs > 0 then
              cs\<lparr>nnmi := nnmi cs - 1,
                 pending_int := (pending_int cs)[int_num := pending_int cs ! int_num AND NOT IK_NMI]\<rparr>
            else cs)
         else cs))"

definition interrupt_set_int ::
  "interrupt_cpu_status \<Rightarrow> nat \<Rightarrow> dword \<Rightarrow> clock \<Rightarrow> interrupt_cpu_status" where
  "interrupt_set_int cs int_num value cpu_clk =
     interrupt_set_irq (interrupt_set_nmi cs int_num (value AND IK_NMI \<noteq> 0) cpu_clk)
       int_num (value AND IK_IRQ \<noteq> 0) cpu_clk"

subsection \<open>Acknowledging and triggering\<close>

definition interrupt_ack_nmi :: "interrupt_cpu_status \<Rightarrow> interrupt_cpu_status \<times> nat option" where
  "interrupt_ack_nmi cs =
     (cs\<lparr>global_pending_int := global_pending_int cs AND NOT IK_NMI\<rparr>, nmi_trap_func cs)"

definition interrupt_ack_irq :: "interrupt_cpu_status \<Rightarrow> interrupt_cpu_status" where
  "interrupt_ack_irq cs =
     cs\<lparr>global_pending_int := global_pending_int cs AND NOT IK_IRQPEND, irq_pending_clk := CLOCK_MAX\<rparr>"

definition interrupt_trigger_dma :: "interrupt_cpu_status \<Rightarrow> interrupt_cpu_status" where
  "interrupt_trigger_dma cs = cs\<lparr>global_pending_int := global_pending_int cs OR IK_DMA\<rparr>"

definition interrupt_ack_dma :: "interrupt_cpu_status \<Rightarrow> interrupt_cpu_status" where
  "interrupt_ack_dma cs = cs\<lparr>global_pending_int := global_pending_int cs AND NOT IK_DMA\<rparr>"

definition interrupt_trigger_reset :: "interrupt_cpu_status \<Rightarrow> interrupt_cpu_status" where
  "interrupt_trigger_reset cs = cs\<lparr>global_pending_int := global_pending_int cs OR IK_RESET\<rparr>"

definition interrupt_ack_reset :: "interrupt_cpu_status \<Rightarrow> interrupt_cpu_status \<times> nat option" where
  "interrupt_ack_reset cs =
     (cs\<lparr>global_pending_int := global_pending_int cs AND NOT IK_RESET\<rparr>, reset_trap_func cs)"

definition interrupt_maincpu_trigger_trap ::
  "interrupt_cpu_status \<Rightarrow> nat \<Rightarrow> interrupt_cpu_status" where
  "interrupt_maincpu_trigger_trap cs f =
     cs\<lparr>global_pending_int := global_pending_int cs OR IK_TRAP, trap_func := Some f\<rparr>"

definition interrupt_do_trap :: "interrupt_cpu_status \<Rightarrow> interrupt_cpu_status \<times> nat option" where
  "interrupt_do_trap cs =
     (cs\<lparr>global_pending_int := global_pending_int cs AND NOT IK_TRAP\<rparr>, trap_func cs)"

definition interrupt_monitor_trap_on :: "interrupt_cpu_status \<Rightarrow> interrupt_cpu_status" where
  "interrupt_monitor_trap_on cs = cs\<lparr>global_pending_int := global_pending_int cs OR IK_MONITOR\<rparr>"

definition interrupt_monitor_trap_off :: "interrupt_cpu_status \<Rightarrow> interrupt_cpu_status" where
  "interrupt_monitor_trap_off cs = cs\<lparr>global_pending_int := global_pending_int cs AND NOT IK_MONITOR\<rparr>"

subsection \<open>Moving the clocks\<close>

definition interrupt_cpu_status_time_warp ::
  "interrupt_cpu_status \<Rightarrow> clock \<Rightarrow> int \<Rightarrow> interrupt_cpu_status" where
  "interrupt_cpu_status_time_warp cs warp_amount warp_direction =
     (if warp_direction = 0 then cs
      else if warp_direction > 0 then
        cs\<lparr>irq_clk := irq_clk cs + warp_amount,
           nmi_clk := nmi_clk cs + warp_amount,
           last_stolen_cycles_clk := last_stolen_cycles_clk cs + warp_amount,
           irq_pending_clk := (if irq_pending_clk cs < CLOCK_MAX then irq_pending_clk cs + warp_amount
                               else irq_pending_clk cs)\<rparr>
      else
        (let back = (\<lambda>clk. if clk > warp_amount then clk - warp_amount else 0)
         in cs\<lparr>irq_clk := back (irq_clk cs),
               nmi_clk := back (nmi_clk cs),
               last_stolen_cycles_clk := back (last_stolen_cycles_clk cs),
               irq_pending_clk := (if irq_pending_clk cs < CLOCK_MAX then back (irq_pending_clk cs)
                                   else irq_pending_clk cs)\<rparr>))"

subsection \<open>Snapshot helpers\<close>

text \<open>Lists are read and written only inside their length; the C code does not check.\<close>

definition interrupt_restore_irq ::
  "interrupt_cpu_status \<Rightarrow> nat \<Rightarrow> bool \<Rightarrow> interrupt_cpu_status" where
  "interrupt_restore_irq cs int_num value =
     cs\<lparr>pending_int := (pending_int cs)
          [int_num := if value then pending_int cs ! int_num OR IK_IRQ
                      else pending_int cs ! int_num AND NOT IK_IRQ]\<rparr>"

definition interrupt_restore_nmi ::
  "interrupt_cpu_status \<Rightarrow> nat \<Rightarrow> bool \<Rightarrow> interrupt_cpu_status" where
  "interrupt_restore_nmi cs int_num value =
     cs\<lparr>pending_int := (pending_int cs)
          [int_num := if value then pending_int cs ! int_num OR IK_NMI
                      else pending_int cs ! int_num AND NOT IK_NMI]\<rparr>"

definition interrupt_get_irq :: "interrupt_cpu_status \<Rightarrow> nat \<Rightarrow> dword" where
  "interrupt_get_irq cs int_num = pending_int cs ! int_num AND IK_IRQ"

definition interrupt_get_nmi :: "interrupt_cpu_status \<Rightarrow> nat \<Rightarrow> dword" where
  "interrupt_get_nmi cs int_num = pending_int cs ! int_num AND IK_NMI"


subsection \<open>The interrupt words, bit by bit\<close>

lemma ik_test:
  "x AND IK_NMI = 0 \<longleftrightarrow> \<not> bit x 0" "x AND IK_IRQ = 0 \<longleftrightarrow> \<not> bit x 1"
  "x AND IK_IRQPEND = 0 \<longleftrightarrow> \<not> bit x 6"
  unfolding IK_defs by (simp_all only: bit_iff_and_push_bit_not_eq_0 not_not)

lemma ik_bits:
  "bit IK_NONE n \<longleftrightarrow> False" "bit IK_NMI n \<longleftrightarrow> n = 0" "bit IK_IRQ n \<longleftrightarrow> n = 1"
  "bit IK_RESET n \<longleftrightarrow> n = 2" "bit IK_TRAP n \<longleftrightarrow> n = 3" "bit IK_MONITOR n \<longleftrightarrow> n = 4"
  "bit IK_DMA n \<longleftrightarrow> n = 5" "bit IK_IRQPEND n \<longleftrightarrow> n = 6"
  unfolding IK_defs bit_push_bit_iff bit_1_iff by auto

lemma ik_nonzero [simp]: "IK_NMI \<noteq> 0" "IK_IRQ \<noteq> 0" "IK_IRQPEND \<noteq> 0" "IK_RESET \<noteq> 0" "IK_DMA \<noteq> 0"
  by (simp_all add: IK_defs)

lemma bit_not_dword: "bit (NOT (x::dword)) n \<longleftrightarrow> n < 32 \<and> \<not> bit x n"
  by (simp add: bit_simps)

lemmas ik_simps = ik_test ik_bits bit_or_iff bit_and_iff bit_not_dword

subsection \<open>The invariant\<close>

text \<open>The number of sources that assert bit \<open>b\<close>.\<close>

definition asserting :: "nat \<Rightarrow> interrupt_cpu_status \<Rightarrow> nat" where
  "asserting b cs = length (filter (\<lambda>p. bit p b) (pending_int cs))"

definition int_ok :: "interrupt_cpu_status \<Rightarrow> bool" where
  "int_ok cs \<longleftrightarrow> length (pending_int cs) = num_ints cs
     \<and> nirq cs = int (asserting 1 cs) \<and> nnmi cs = int (asserting 0 cs)
     \<and> (bit (global_pending_int cs) 1 \<longleftrightarrow> nirq cs > 0)"

lemma int_okD:
  assumes "int_ok cs"
  shows "length (pending_int cs) = num_ints cs" "nirq cs = int (asserting 1 cs)"
    "nnmi cs = int (asserting 0 cs)" "bit (global_pending_int cs) 1 \<longleftrightarrow> nirq cs > 0"
  using assms by (simp_all add: int_ok_def)

lemma asserting_update:
  assumes "i < length (pending_int cs)" "pending_int cs' = (pending_int cs)[i := y]"
  shows "int (asserting b cs') = int (asserting b cs)
           - (if bit (pending_int cs ! i) b then 1 else 0) + (if bit y b then 1 else 0)"
  using assms by (simp add: asserting_def length_filter_update)

lemma asserting_pos_iff: "0 < asserting b cs \<longleftrightarrow> (\<exists>i < length (pending_int cs). bit (pending_int cs ! i) b)"
proof -
  have "0 < asserting b cs \<longleftrightarrow> (\<exists>p \<in> set (pending_int cs). bit p b)"
    by (simp add: asserting_def filter_empty_conv)
  also have "\<dots> \<longleftrightarrow> (\<exists>i < length (pending_int cs). bit (pending_int cs ! i) b)"
    by (metis in_set_conv_nth)
  finally show ?thesis .
qed

lemma asserting_cong: "pending_int cs' = pending_int cs \<Longrightarrow> asserting b cs' = asserting b cs"
  by (simp add: asserting_def)

text \<open>Operations that leave the sources alone and the IRQ bit of the global word.\<close>

lemma int_ok_frame:
  assumes "int_ok cs" "num_ints cs' = num_ints cs" "pending_int cs' = pending_int cs"
    "nirq cs' = nirq cs" "nnmi cs' = nnmi cs"
    "bit (global_pending_int cs') 1 \<longleftrightarrow> bit (global_pending_int cs) 1"
  shows "int_ok cs'"
  using assms unfolding int_ok_def asserting_cong[OF assms(3)] by simp

lemma int_ok_init [inv_intros]: "int_ok (interrupt_cpu_status_reset (interrupt_cpu_status_init cs))"
  by (simp add: int_ok_def interrupt_cpu_status_init_def interrupt_cpu_status_reset_def asserting_def ik_simps)

lemma int_ok_reset [inv_intros]: "int_ok cs \<Longrightarrow> int_ok (interrupt_cpu_status_reset cs)"
  by (auto simp: int_ok_def interrupt_cpu_status_reset_def asserting_def ik_simps)

lemma int_ok_new [inv_intros]: "int_ok cs \<Longrightarrow> int_ok (fst (interrupt_cpu_status_int_new cs))"
  by (simp add: int_ok_def interrupt_cpu_status_int_new_def asserting_def)

lemma int_ok_ack [inv_intros]:
  assumes "int_ok cs"
  shows "int_ok (fst (interrupt_ack_nmi cs))" "int_ok (interrupt_ack_irq cs)"
    "int_ok (interrupt_ack_dma cs)" "int_ok (fst (interrupt_ack_reset cs))"
    "int_ok (fst (interrupt_do_trap cs))" "int_ok (interrupt_monitor_trap_off cs)"
  by (rule int_ok_frame[OF assms];
      simp add: interrupt_ack_nmi_def interrupt_ack_irq_def interrupt_ack_dma_def interrupt_ack_reset_def
        interrupt_do_trap_def interrupt_monitor_trap_off_def ik_simps)+

lemma int_ok_trigger [inv_intros]:
  assumes "int_ok cs"
  shows "int_ok (interrupt_trigger_dma cs)" "int_ok (interrupt_trigger_reset cs)"
    "int_ok (interrupt_maincpu_trigger_trap cs f)" "int_ok (interrupt_monitor_trap_on cs)"
  by (rule int_ok_frame[OF assms];
      simp add: interrupt_trigger_dma_def interrupt_trigger_reset_def interrupt_maincpu_trigger_trap_def
        interrupt_monitor_trap_on_def ik_simps)+

lemma int_ok_time_warp [inv_intros]:
  assumes "int_ok cs" shows "int_ok (interrupt_cpu_status_time_warp cs amount direction)"
  by (rule int_ok_frame[OF assms]) (simp_all add: interrupt_cpu_status_time_warp_def Let_def)

subsection \<open>The two source lines\<close>

text \<open>What a set operation does to the source words, and what it leaves alone.\<close>

lemma set_irq_pending:
  assumes "int_ok cs" "i < num_ints cs"
  shows "pending_int (interrupt_set_irq cs i v clk)
           = (pending_int cs)[i := if v then pending_int cs ! i OR IK_IRQ
                                   else pending_int cs ! i AND NOT IK_IRQ]"
proof -
  have same: "pending_int cs ! i OR IK_IRQ = pending_int cs ! i" if "bit (pending_int cs ! i) 1"
    using that by (intro bit_word_eqI) (auto simp: ik_simps)
  have same': "pending_int cs ! i AND NOT IK_IRQ = pending_int cs ! i" if "\<not> bit (pending_int cs ! i) 1"
    using that by (intro bit_word_eqI) (auto simp: ik_simps)
  have pos: "nirq cs > 0" if "bit (pending_int cs ! i) 1"
    using that assms asserting_pos_iff[of 1 cs] by (auto simp: int_ok_def)
  show ?thesis using assms same same' pos
    by (auto simp: interrupt_set_irq_def Let_def ik_test)
qed

lemma set_nmi_pending:
  assumes "int_ok cs" "i < num_ints cs"
  shows "pending_int (interrupt_set_nmi cs i v clk)
           = (pending_int cs)[i := if v then pending_int cs ! i OR IK_NMI
                                   else pending_int cs ! i AND NOT IK_NMI]"
proof -
  have same: "pending_int cs ! i OR IK_NMI = pending_int cs ! i" if "bit (pending_int cs ! i) 0"
    using that by (intro bit_word_eqI) (auto simp: ik_simps)
  have same': "pending_int cs ! i AND NOT IK_NMI = pending_int cs ! i" if "\<not> bit (pending_int cs ! i) 0"
    using that by (intro bit_word_eqI) (auto simp: ik_simps intro: gr0I)
  have pos: "nnmi cs > 0" if "bit (pending_int cs ! i) 0"
    using that assms asserting_pos_iff[of 0 cs] by (auto simp: int_ok_def)
  show ?thesis using assms same same' pos
    by (auto simp: interrupt_set_nmi_def Let_def ik_test)
qed

lemma set_out_of_range:
  "i \<ge> num_ints cs \<Longrightarrow> interrupt_set_irq cs i v clk = cs"
  "i \<ge> num_ints cs \<Longrightarrow> interrupt_set_nmi cs i v clk = cs"
  by (simp_all add: interrupt_set_irq_def interrupt_set_nmi_def)

lemma set_num_ints [simp]:
  "num_ints (interrupt_set_irq cs i v clk) = num_ints cs"
  "num_ints (interrupt_set_nmi cs i v clk) = num_ints cs"
  by (simp_all add: interrupt_set_irq_def interrupt_set_nmi_def Let_def)

lemma set_other_count [simp]:
  "nnmi (interrupt_set_irq cs i v clk) = nnmi cs"
  "nirq (interrupt_set_nmi cs i v clk) = nirq cs"
  by (simp_all add: interrupt_set_irq_def interrupt_set_nmi_def Let_def)

lemma set_irq_count:
  assumes "int_ok cs" "i < num_ints cs"
  shows "nirq (interrupt_set_irq cs i v clk)
           = nirq cs - (if bit (pending_int cs ! i) 1 then 1 else 0) + (if v then 1 else 0)"
proof -
  have "nirq cs > 0" if "bit (pending_int cs ! i) 1"
    using that assms asserting_pos_iff[of 1 cs] by (auto simp: int_ok_def)
  then show ?thesis using assms by (auto simp: interrupt_set_irq_def Let_def ik_test)
qed

lemma set_nmi_count:
  assumes "int_ok cs" "i < num_ints cs"
  shows "nnmi (interrupt_set_nmi cs i v clk)
           = nnmi cs - (if bit (pending_int cs ! i) 0 then 1 else 0) + (if v then 1 else 0)"
proof -
  have "nnmi cs > 0" if "bit (pending_int cs ! i) 0"
    using that assms asserting_pos_iff[of 0 cs] by (auto simp: int_ok_def)
  then show ?thesis using assms by (auto simp: interrupt_set_nmi_def Let_def ik_test)
qed

lemma set_irq_global:
  assumes "int_ok cs"
  shows "bit (global_pending_int (interrupt_set_irq cs i v clk)) 1
           \<longleftrightarrow> nirq (interrupt_set_irq cs i v clk) > 0"
  using assms by (auto simp: interrupt_set_irq_def Let_def ik_simps int_ok_def)

lemma set_nmi_global:
  "n \<noteq> 0 \<Longrightarrow> bit (global_pending_int (interrupt_set_nmi cs i v clk)) n = bit (global_pending_int cs) n"
  by (auto simp: interrupt_set_nmi_def Let_def ik_simps)

lemma int_ok_set_irq [inv_intros]:
  assumes "int_ok cs" shows "int_ok (interrupt_set_irq cs i v clk)"
proof (cases "i < num_ints cs")
  case True
  note len = int_okD(1)[OF assms]
  note upd = asserting_update[OF _ set_irq_pending[OF assms True, of v clk]]
  show ?thesis unfolding int_ok_def
    using True len int_okD(2,3)[OF assms] set_irq_count[OF assms True, of v clk]
      set_irq_global[OF assms, of i v clk]
    by (auto simp: upd ik_simps set_irq_pending[OF assms True])
qed (simp add: set_out_of_range assms)

lemma int_ok_set_nmi [inv_intros]:
  assumes "int_ok cs" shows "int_ok (interrupt_set_nmi cs i v clk)"
proof (cases "i < num_ints cs")
  case True
  note len = int_okD(1)[OF assms]
  note upd = asserting_update[OF _ set_nmi_pending[OF assms True, of v clk]]
  show ?thesis unfolding int_ok_def
    using True len int_okD(2,3,4)[OF assms] set_nmi_count[OF assms True, of v clk]
    by (auto simp: upd ik_simps set_nmi_pending[OF assms True] set_nmi_global)
qed (simp add: set_out_of_range assms)

lemma int_ok_set_int [inv_intros]: "int_ok cs \<Longrightarrow> int_ok (interrupt_set_int cs i v clk)"
  by (simp add: interrupt_set_int_def int_ok_set_irq int_ok_set_nmi)


subsection \<open>Reachable states\<close>

text \<open>One call of an operation, by a device (set) or by the CPU or the emulator (the rest).\<close>

inductive int_step :: "interrupt_cpu_status \<Rightarrow> interrupt_cpu_status \<Rightarrow> bool" where
  step_set: "int_step cs (interrupt_set_int cs i v clk)"
| step_irq: "int_step cs (interrupt_set_irq cs i v clk)"
| step_nmi: "int_step cs (interrupt_set_nmi cs i v clk)"
| step_ack_irq: "int_step cs (interrupt_ack_irq cs)"
| step_ack_nmi: "int_step cs (fst (interrupt_ack_nmi cs))"
| step_trigger_dma: "int_step cs (interrupt_trigger_dma cs)"
| step_ack_dma: "int_step cs (interrupt_ack_dma cs)"
| step_trigger_reset: "int_step cs (interrupt_trigger_reset cs)"
| step_ack_reset: "int_step cs (fst (interrupt_ack_reset cs))"
| step_trap: "int_step cs (interrupt_maincpu_trigger_trap cs f)"
| step_do_trap: "int_step cs (fst (interrupt_do_trap cs))"
| step_monitor_on: "int_step cs (interrupt_monitor_trap_on cs)"
| step_monitor_off: "int_step cs (interrupt_monitor_trap_off cs)"
| step_warp: "int_step cs (interrupt_cpu_status_time_warp cs amount direction)"
| step_new: "int_step cs (fst (interrupt_cpu_status_int_new cs))"
| step_reset: "int_step cs (interrupt_cpu_status_reset cs)"

inductive int_reachable :: "interrupt_cpu_status \<Rightarrow> bool" where
  reach_init: "int_reachable (interrupt_cpu_status_reset (interrupt_cpu_status_init cs))"
| reach_step: "int_reachable cs \<Longrightarrow> int_step cs cs' \<Longrightarrow> int_reachable cs'"

inductive_cases int_stepE: "int_step cs cs'"

lemma int_ok_step: "int_step cs cs' \<Longrightarrow> int_ok cs \<Longrightarrow> int_ok cs'"
  by (erule int_stepE) (simp_all add: inv_intros)

lemma int_reachable_ok: "int_reachable cs \<Longrightarrow> int_ok cs"
proof (induction rule: int_reachable.induct)
  case (reach_init cs)
  show ?case by (rule int_ok_init)
next
  case (reach_step cs cs')
  then show ?case using int_ok_step by blast
qed

subsection \<open>The interface of a wired line\<close>

text \<open>
  Several sources drive one line, and the line is active exactly when one of them is. Both the
  IRQ and the NMI line of the status have this contract.
\<close>

locale wired_line =
  fixes drive :: "'s \<Rightarrow> nat \<Rightarrow> bool \<Rightarrow> clock \<Rightarrow> 's"
    and level :: "'s \<Rightarrow> nat \<Rightarrow> bool"
    and sources :: "'s \<Rightarrow> nat"
    and active :: "'s \<Rightarrow> bool"
    and inv :: "'s \<Rightarrow> bool"
  assumes drive_inv: "inv s \<Longrightarrow> inv (drive s i v c)"
    and drive_sources: "sources (drive s i v c) = sources s"
    and drive_level: "inv s \<Longrightarrow> i < sources s \<Longrightarrow> j < sources s \<Longrightarrow>
          level (drive s i v c) j = (if j = i then v else level s j)"
    and drive_outside: "sources s \<le> i \<Longrightarrow> drive s i v c = s"
    and active_iff: "inv s \<Longrightarrow> active s \<longleftrightarrow> (\<exists>i < sources s. level s i)"
begin

definition drives :: "(nat \<times> bool \<times> clock) list \<Rightarrow> 's \<Rightarrow> 's" where
  "drives evs s = fold (\<lambda>(i, v, c) s. drive s i v c) evs s"

lemma drives_inv: "inv s \<Longrightarrow> inv (drives evs s)"
  unfolding drives_def by (induction evs arbitrary: s) (auto simp: drive_inv)

lemma drives_sources: "sources (drives evs s) = sources s"
  unfolding drives_def by (induction evs arbitrary: s) (auto simp: drive_sources)

lemma drives_level:
  "inv s \<Longrightarrow> j < sources s \<Longrightarrow>
     level (drives evs s) j = fold (\<lambda>(i, v, c) l. if i = j then v else l) evs (level s j)"
proof (induction evs arbitrary: s)
  case (Cons ev evs)
  obtain i v c where ev: "ev = (i, v, c)" by (cases ev)
  have "level (drive s i v c) j = (if i = j then v else level s j)"
    using Cons.prems drive_level[of s i j v c] drive_outside[of s i v c]
    by (cases "i < sources s") auto
  then show ?case using Cons.IH[of "drive s i v c"] Cons.prems
    by (simp add: drives_def ev drive_inv drive_sources)
qed (simp add: drives_def)

lemma drives_active:
  assumes "inv s"
  shows "active (drives evs s) \<longleftrightarrow>
    (\<exists>j < sources s. fold (\<lambda>(i, v, c) l. if i = j then v else l) evs (level s j))"
  using active_iff[OF drives_inv[OF assms]] by (simp add: drives_sources drives_level assms cong: conj_cong)

end

interpretation irq_line: wired_line interrupt_set_irq "\<lambda>cs j. bit (pending_int cs ! j) 1" num_ints
  "\<lambda>cs. bit (global_pending_int cs) 1" int_ok
proof unfold_locales
  fix s i j v c assume ok: "int_ok s" and ij: "i < num_ints s" "j < num_ints s"
  show "bit (pending_int (interrupt_set_irq s i v c) ! j) 1 = (if j = i then v else bit (pending_int s ! j) 1)"
    using ij int_okD(1)[OF ok] by (simp add: set_irq_pending[OF ok ij(1)] nth_list_update ik_simps)
next
  fix s assume ok: "int_ok s"
  show "bit (global_pending_int s) 1 \<longleftrightarrow> (\<exists>i<num_ints s. bit (pending_int s ! i) 1)"
    using int_okD[OF ok] asserting_pos_iff[of 1 s] by simp
qed (simp_all add: int_ok_set_irq set_out_of_range)

interpretation nmi_line: wired_line interrupt_set_nmi "\<lambda>cs j. bit (pending_int cs ! j) 0" num_ints
  "\<lambda>cs. nnmi cs > 0" int_ok
proof unfold_locales
  fix s i j v c assume ok: "int_ok s" and ij: "i < num_ints s" "j < num_ints s"
  show "bit (pending_int (interrupt_set_nmi s i v c) ! j) 0 = (if j = i then v else bit (pending_int s ! j) 0)"
    using ij int_okD(1)[OF ok] by (simp add: set_nmi_pending[OF ok ij(1)] nth_list_update ik_simps)
next
  fix s assume ok: "int_ok s"
  show "nnmi s > 0 \<longleftrightarrow> (\<exists>i<num_ints s. bit (pending_int s ! i) 0)"
    using int_okD[OF ok] asserting_pos_iff[of 0 s] by simp
qed (simp_all add: int_ok_set_nmi set_out_of_range)

subsection \<open>Properties\<close>

text \<open>A status with two sources, as the machine sets it up, for the concrete runs.\<close>

definition two_sources :: interrupt_cpu_status where
  "two_sources = fst (interrupt_cpu_status_int_new (fst (interrupt_cpu_status_int_new
     (interrupt_cpu_status_reset (interrupt_cpu_status_init
       \<lparr>num_ints = 0, pending_int = [], nirq = 0, irq_clk = 0, nnmi = 0, nmi_clk = 0,
        num_dma_per_opcode = 0, num_cycles_left = [], dma_start_clk = [], irq_delay_cycles = 0,
        nmi_delay_cycles = 0, reset = 0, trap = 0, trap_func = None, last_opcode_info = 0,
        num_last_stolen_cycles = 0, last_stolen_cycles_clk = 0, irq_pending_clk = 0,
        global_pending_int = 0, nmi_trap_func = None, reset_trap_func = None\<rparr>)))))"

lemma two_sources_reachable: "int_reachable two_sources"
  unfolding two_sources_def by (intro reach_step[OF _ step_new] reach_init)

lemma two_sources_simps [simp]:
  "num_ints two_sources = 2" "pending_int two_sources = [0, 0]" "nnmi two_sources = 0"
  "nirq two_sources = 0" "global_pending_int two_sources = 0" "last_stolen_cycles_clk two_sources = 0"
  by (simp_all add: two_sources_def interrupt_cpu_status_int_new_def interrupt_cpu_status_reset_def
      interrupt_cpu_status_init_def IK_NONE_def)

text \<open>
  C8: The IRQ line is the wired OR of its sources: in every reachable state, after any sequence of
  \<open>interrupt_set_irq\<close> calls, \<open>IK_IRQ\<close> is pending exactly when some source was last driven high
  (or was high before and not driven since). Reachable are the states that the operations on the lines lead to, not those that
  restoring a snapshot does.
\<close>

theorem irq_line_wired_or:
  assumes "int_reachable cs"
  shows "global_pending_int (fold (\<lambda>(i, v, c) s. interrupt_set_irq s i v c) evs cs) AND IK_IRQ \<noteq> 0
     \<longleftrightarrow> (\<exists>j < num_ints cs. fold (\<lambda>(i, v, c) l. if i = j then v else l) evs
                            (interrupt_get_irq cs j \<noteq> 0))"
  using irq_line.drives_active[OF int_reachable_ok[OF assms], of evs]
  by (simp add: irq_line.drives_def interrupt_get_irq_def ik_test)

theorem irq_line_wired_or_witness:
  "global_pending_int (fold (\<lambda>(i, v, c) s. interrupt_set_irq s i v c)
     [(0, True, 10), (1, True, 11), (0, False, 12)] two_sources) AND IK_IRQ \<noteq> 0"
  unfolding irq_line_wired_or[OF two_sources_reachable] by (auto intro!: exI[of _ 1])

text \<open>
  C30: The NMI line is edge triggered. A source that rises while no source is active latches
  \<open>IK_NMI\<close>; while the line stays active, no change of any source raises it again; and acknowledging
  it clears the latch without releasing the line.
\<close>

theorem nmi_edge_triggered:
  assumes "int_reachable cs" "i < num_ints cs"
  shows "((\<forall>j < num_ints cs. interrupt_get_nmi cs j = 0)
           \<longrightarrow> global_pending_int (interrupt_set_nmi cs i True clk) AND IK_NMI \<noteq> 0)
     \<and> ((\<exists>j < num_ints cs. interrupt_get_nmi cs j \<noteq> 0)
           \<longrightarrow> global_pending_int (interrupt_set_nmi cs i v clk) = global_pending_int cs)
     \<and> global_pending_int (fst (interrupt_ack_nmi cs)) AND IK_NMI = 0
     \<and> pending_int (fst (interrupt_ack_nmi cs)) = pending_int cs"
    (is "(?quiet \<longrightarrow> ?raised) \<and> (?held \<longrightarrow> ?same) \<and> ?acked \<and> ?kept")
proof (intro conjI impI)
  note ok = int_reachable_ok[OF assms(1)]
  note line = nmi_line.active_iff[OF ok]
  show ?raised if quiet: ?quiet
  proof -
    have low: "\<not> bit (pending_int cs ! j) 0" if "j < num_ints cs" for j
      using quiet that by (simp add: interrupt_get_nmi_def ik_test)
    then have "nnmi cs = 0" using line int_okD(3)[OF ok] by auto
    then show ?thesis using low[OF assms(2)] assms(2)
      by (auto simp: interrupt_set_nmi_def Let_def ik_simps)
  qed
  show ?same if ?held
  proof -
    have "nnmi cs > 0" using that line by (simp add: interrupt_get_nmi_def ik_test)
    then show ?thesis by (simp add: interrupt_set_nmi_def Let_def)
  qed
  show ?acked ?kept by (simp_all add: interrupt_ack_nmi_def ik_simps)
qed

theorem nmi_edge_triggered_witness:
  "global_pending_int (interrupt_set_nmi two_sources 1 True 7) AND IK_NMI \<noteq> 0"
  using nmi_edge_triggered[OF two_sources_reachable, of 1 7 True]
  by (simp add: interrupt_get_nmi_def less_2_cases_iff)

end
