(* ===== verification/Cpu6510.thy ===== *)
theory Cpu6510
  imports Clkguard Interrupt
begin

text \<open>
  The 6510 core, first part: the state of \<open>maincpu.c\<close> and the macros of \<open>6510core.c\<close> for the
  flags, the stack, the memory and the addressing modes. The registers are the local variables
  of \<open>maincpu_mainloop\<close>, so only the core changes them; everything that a memory handler, an
  alarm or the monitor can also change is in the record \<open>machine\<close>, whose field \<open>dev\<close> holds the
  state of the other components. An operation takes the state and returns it changed.
\<close>

subsection \<open>State\<close>

definition P_SIGN :: byte where "P_SIGN = 0x80"
definition P_OVERFLOW :: byte where "P_OVERFLOW = 0x40"
definition P_UNUSED :: byte where "P_UNUSED = 0x20"
definition P_BREAK :: byte where "P_BREAK = 0x10"
definition P_DECIMAL :: byte where "P_DECIMAL = 0x08"
definition P_INTERRUPT :: byte where "P_INTERRUPT = 0x04"
definition P_ZERO :: byte where "P_ZERO = 0x02"
definition P_CARRY :: byte where "P_CARRY = 0x01"

lemmas P_defs = P_SIGN_def P_OVERFLOW_def P_UNUSED_def P_BREAK_def P_DECIMAL_def
  P_INTERRUPT_def P_ZERO_def P_CARRY_def

record mos6510_regs =
  r_pc :: dword
  r_a :: byte
  r_x :: byte
  r_y :: byte
  r_sp :: byte
  r_p :: byte
  r_n :: byte
  r_z :: byte

record 'm machine =
  CLK :: clock
  reg_pc :: dword
  RMW_FLAG :: bool
  LAST_OPCODE_ADDR :: dword
  int_status :: interrupt_cpu_status
  alarm_ctx :: alarm_context
  bank_base :: nat
  bank_start :: dword
  bank_limit :: dword
  maincpu_regs :: mos6510_regs
  mem_ram :: "dword \<Rightarrow> byte"
  dev :: 'm

record 'm cpu =
  reg_a :: byte
  reg_x :: byte
  reg_y :: byte
  reg_p :: byte
  reg_sp :: byte
  flag_n :: byte
  flag_z :: byte
  mc :: "'m machine"

text \<open>
  What the core calls outside itself: the handler tables of the machine, the translation of a
  code address to a directly readable bank, the alarm callbacks, and the other entry points,
  one constructor each. The first component of an external call's result is its return value.
\<close>

datatype ext_call =
    Monitor_Mask
  | Monitor_Check_Icount_Interrupt
  | Monitor_Check_Icount word16
  | Monitor_Force_Import
  | Monitor_Check_Breakpoints word16
  | Monitor_Startup
  | Monitor_Check_Watchpoints dword word16
  | Trap_Func nat word16
  | Nmi_Trap_Func nat
  | Reset_Trap_Func nat
  | Machine_Reset
  | Machine_Jam dword
  | Mem_Powerup
  | Rom_Trap_Allowed word16
  | Traps_Handler
  | Dma_Func

record 'm bus =
  read_tab :: "nat \<Rightarrow> word16 \<Rightarrow> 'm machine \<Rightarrow> byte \<times> 'm machine"
  write_tab :: "nat \<Rightarrow> word16 \<Rightarrow> byte \<Rightarrow> 'm machine \<Rightarrow> 'm machine"
  mmu_translate :: "dword \<Rightarrow> 'm machine \<Rightarrow> nat \<times> dword \<times> dword"
  bank_byte :: "nat \<Rightarrow> dword \<Rightarrow> 'm machine \<Rightarrow> byte"
  alarm_callback :: "nat \<Rightarrow> clock \<Rightarrow> 'm machine \<Rightarrow> 'm machine"
  ext :: "ext_call \<Rightarrow> 'm machine \<Rightarrow> dword \<times> 'm machine"

text \<open>Values that a macro reads with side effects, and the width changes of the C arithmetic.\<close>

type_synonym ('a, 'm) act = "'m cpu \<Rightarrow> 'a \<times> 'm cpu"

abbreviation u32 :: "byte \<Rightarrow> dword" where "u32 b \<equiv> ucast b"
abbreviation u8 :: "dword \<Rightarrow> byte" where "u8 d \<equiv> ucast d"

definition upd_mc :: "('m machine \<Rightarrow> 'm machine) \<Rightarrow> 'm cpu \<Rightarrow> 'm cpu" where
  "upd_mc f s = s\<lparr>mc := f (mc s)\<rparr>"

definition with_mc :: "('m machine \<Rightarrow> 'a \<times> 'm machine) \<Rightarrow> ('a, 'm) act" where
  "with_mc f s = (let (v, m) = f (mc s) in (v, s\<lparr>mc := m\<rparr>))"

abbreviation ret :: "'a \<Rightarrow> ('a, 'm) act" where
  "ret v \<equiv> (\<lambda>s. (v, s))"

abbreviation imm :: "dword \<Rightarrow> (byte, 'm) act" where
  "imm v \<equiv> ret (u8 v)"

definition CLK_ADD :: "clock \<Rightarrow> 'm cpu \<Rightarrow> 'm cpu" where
  "CLK_ADD amount = upd_mc (\<lambda>m. m\<lparr>CLK := CLK m + amount\<rparr>)"

definition SET_RMW :: "bool \<Rightarrow> 'm cpu \<Rightarrow> 'm cpu" where
  "SET_RMW b = upd_mc (\<lambda>m. m\<lparr>RMW_FLAG := b\<rparr>)"

definition INC_PC :: "dword \<Rightarrow> 'm cpu \<Rightarrow> 'm cpu" where
  "INC_PC value = upd_mc (\<lambda>m. m\<lparr>reg_pc := reg_pc m + value\<rparr>)"

definition PROCESS_ALARMS :: "'m bus \<Rightarrow> 'm cpu \<Rightarrow> 'm cpu option" where
  "PROCESS_ALARMS B s =
     (case process_alarms
             (\<lambda>a offset (c, m). let m' = alarm_callback B a offset (m\<lparr>alarm_ctx := c\<rparr>) in (alarm_ctx m', m'))
             CLK (alarm_ctx (mc s), mc s) of
        None \<Rightarrow> None
      | Some (c, m) \<Rightarrow> Some (s\<lparr>mc := m\<lparr>alarm_ctx := c\<rparr>\<rparr>))"

subsection \<open>Flags\<close>

definition LOCAL_SET_NZ :: "byte \<Rightarrow> 'm cpu \<Rightarrow> 'm cpu" where
  "LOCAL_SET_NZ val s = s\<lparr>flag_n := val, flag_z := val\<rparr>"

definition set_p :: "byte \<Rightarrow> bool \<Rightarrow> 'm cpu \<Rightarrow> 'm cpu" where
  "set_p f val s = s\<lparr>reg_p := (if val then reg_p s OR f else reg_p s AND NOT f)\<rparr>"

definition LOCAL_SET_OVERFLOW :: "bool \<Rightarrow> 'm cpu \<Rightarrow> 'm cpu" where
  "LOCAL_SET_OVERFLOW val = set_p P_OVERFLOW val"

definition LOCAL_SET_BREAK :: "bool \<Rightarrow> 'm cpu \<Rightarrow> 'm cpu" where
  "LOCAL_SET_BREAK val = set_p P_BREAK val"

definition LOCAL_SET_DECIMAL :: "bool \<Rightarrow> 'm cpu \<Rightarrow> 'm cpu" where
  "LOCAL_SET_DECIMAL val = set_p P_DECIMAL val"

definition LOCAL_SET_INTERRUPT :: "bool \<Rightarrow> 'm cpu \<Rightarrow> 'm cpu" where
  "LOCAL_SET_INTERRUPT val = set_p P_INTERRUPT val"

definition LOCAL_SET_CARRY :: "bool \<Rightarrow> 'm cpu \<Rightarrow> 'm cpu" where
  "LOCAL_SET_CARRY val = set_p P_CARRY val"

definition LOCAL_SET_SIGN :: "bool \<Rightarrow> 'm cpu \<Rightarrow> 'm cpu" where
  "LOCAL_SET_SIGN val s = s\<lparr>flag_n := (if val then 0x80 else 0)\<rparr>"

definition LOCAL_SET_ZERO :: "bool \<Rightarrow> 'm cpu \<Rightarrow> 'm cpu" where
  "LOCAL_SET_ZERO val s = s\<lparr>flag_z := (if val then 0 else 1)\<rparr>"

definition LOCAL_SET_STATUS :: "byte \<Rightarrow> 'm cpu \<Rightarrow> 'm cpu" where
  "LOCAL_SET_STATUS val s =
     (LOCAL_SET_ZERO (val AND P_ZERO \<noteq> 0) (s\<lparr>reg_p := val AND NOT (P_ZERO OR P_SIGN)\<rparr>))\<lparr>flag_n := val\<rparr>"

definition LOCAL_OVERFLOW :: "'m cpu \<Rightarrow> bool" where "LOCAL_OVERFLOW s \<longleftrightarrow> reg_p s AND P_OVERFLOW \<noteq> 0"
definition LOCAL_DECIMAL :: "'m cpu \<Rightarrow> bool" where "LOCAL_DECIMAL s \<longleftrightarrow> reg_p s AND P_DECIMAL \<noteq> 0"
definition LOCAL_INTERRUPT :: "'m cpu \<Rightarrow> bool" where "LOCAL_INTERRUPT s \<longleftrightarrow> reg_p s AND P_INTERRUPT \<noteq> 0"
definition LOCAL_CARRY :: "'m cpu \<Rightarrow> bool" where "LOCAL_CARRY s \<longleftrightarrow> reg_p s AND P_CARRY \<noteq> 0"
definition LOCAL_SIGN :: "'m cpu \<Rightarrow> bool" where "LOCAL_SIGN s \<longleftrightarrow> flag_n s AND 0x80 \<noteq> 0"
definition LOCAL_ZERO :: "'m cpu \<Rightarrow> bool" where "LOCAL_ZERO s \<longleftrightarrow> flag_z s = 0"

definition LOCAL_STATUS :: "'m cpu \<Rightarrow> byte" where
  "LOCAL_STATUS s =
     reg_p s OR (flag_n s AND 0x80) OR P_UNUSED OR (if LOCAL_ZERO s then P_ZERO else 0)"

text \<open>The information on the last opcode, shared with the interrupt status.\<close>

definition upd_opinfo :: "(dword \<Rightarrow> dword) \<Rightarrow> 'm cpu \<Rightarrow> 'm cpu" where
  "upd_opinfo f = upd_mc (\<lambda>m. m\<lparr>int_status := int_status m
     \<lparr>last_opcode_info := f (last_opcode_info (int_status m))\<rparr>\<rparr>)"

definition SET_LAST_OPCODE :: "dword \<Rightarrow> 'm cpu \<Rightarrow> 'm cpu" where
  "SET_LAST_OPCODE x = upd_opinfo (\<lambda>_. OPINFO_SET x False False False)"

definition OPCODE_DELAYS_INTERRUPT :: "'m cpu \<Rightarrow> 'm cpu" where
  "OPCODE_DELAYS_INTERRUPT = upd_opinfo (\<lambda>i. OPINFO_SET_DELAYS_INTERRUPT i True)"

definition OPCODE_DISABLES_IRQ :: "'m cpu \<Rightarrow> 'm cpu" where
  "OPCODE_DISABLES_IRQ = upd_opinfo (\<lambda>i. OPINFO_SET_DISABLES_IRQ i True)"

definition OPCODE_ENABLES_IRQ :: "'m cpu \<Rightarrow> 'm cpu" where
  "OPCODE_ENABLES_IRQ = upd_opinfo (\<lambda>i. OPINFO_SET_ENABLES_IRQ i True)"

subsection \<open>Memory\<close>

text \<open>\<open>LOAD_ADDR\<close> and \<open>LOAD_ZERO_ADDR\<close> read the high byte first; C leaves that order open.\<close>

definition LOAD :: "'m bus \<Rightarrow> dword \<Rightarrow> (byte, 'm) act" where
  "LOAD B addr = with_mc (read_tab B (unat (drop_bit 8 addr)) (ucast addr))"

definition STORE :: "'m bus \<Rightarrow> dword \<Rightarrow> dword \<Rightarrow> 'm cpu \<Rightarrow> 'm cpu" where
  "STORE B addr value = upd_mc (write_tab B (unat (drop_bit 8 addr)) (ucast addr) (u8 value))"

definition LOAD_ZERO :: "'m bus \<Rightarrow> dword \<Rightarrow> (byte, 'm) act" where
  "LOAD_ZERO B addr = with_mc (read_tab B 0 (ucast addr))"

definition STORE_ZERO :: "'m bus \<Rightarrow> dword \<Rightarrow> dword \<Rightarrow> 'm cpu \<Rightarrow> 'm cpu" where
  "STORE_ZERO B addr value = upd_mc (write_tab B 0 (ucast addr) (u8 value))"

definition LOAD_ADDR :: "'m bus \<Rightarrow> dword \<Rightarrow> (dword, 'm) act" where
  "LOAD_ADDR B addr s =
     (let (hi, s1) = LOAD B (addr + 1) s; (lo, s2) = LOAD B addr s1
      in (push_bit 8 (u32 hi) OR u32 lo, s2))"

definition LOAD_ZERO_ADDR :: "'m bus \<Rightarrow> dword \<Rightarrow> (dword, 'm) act" where
  "LOAD_ZERO_ADDR B addr s =
     (let (hi, s1) = LOAD_ZERO B (addr + 1) s; (lo, s2) = LOAD_ZERO B addr s1
      in (push_bit 8 (u32 hi) OR u32 lo, s2))"

definition PAGE_ONE :: dword where "PAGE_ONE = 0x100"

definition PUSH :: "dword \<Rightarrow> 'm cpu \<Rightarrow> 'm cpu" where
  "PUSH val s =
     (upd_mc (\<lambda>m. m\<lparr>mem_ram := (mem_ram m)(PAGE_ONE + u32 (reg_sp s) := u8 val)\<rparr>) s)
       \<lparr>reg_sp := reg_sp s - 1\<rparr>"

definition PULL :: "(byte, 'm) act" where
  "PULL s = (let sp = reg_sp s + 1 in (mem_ram (mc s) (PAGE_ONE + u32 sp), s\<lparr>reg_sp := sp\<rparr>))"

definition JUMP :: "'m bus \<Rightarrow> dword \<Rightarrow> 'm cpu \<Rightarrow> 'm cpu" where
  "JUMP B addr = upd_mc (\<lambda>m.
     let m1 = m\<lparr>reg_pc := addr\<rparr>
     in if addr \<ge> bank_limit m1 \<or> addr < bank_start m1
        then (case mmu_translate B addr m1 of
                (base, start, limit) \<Rightarrow> m1\<lparr>bank_base := base, bank_start := start, bank_limit := limit\<rparr>)
        else m1)"

definition FETCH_PARAM :: "'m bus \<Rightarrow> dword \<Rightarrow> (byte, 'm) act" where
  "FETCH_PARAM B addr s =
     (if addr <s bank_limit (mc s) then (bank_byte B (bank_base (mc s)) addr (mc s), s)
      else LOAD B addr s)"

definition EXPORT_REGISTERS :: "'m cpu \<Rightarrow> 'm cpu" where
  "EXPORT_REGISTERS s = upd_mc (\<lambda>m. m\<lparr>maincpu_regs :=
     \<lparr>r_pc = reg_pc m, r_a = reg_a s, r_x = reg_x s, r_y = reg_y s, r_sp = reg_sp s,
      r_p = reg_p s, r_n = flag_n s, r_z = flag_z s\<rparr>\<rparr>) s"

definition IMPORT_REGISTERS :: "'m bus \<Rightarrow> 'm cpu \<Rightarrow> 'm cpu" where
  "IMPORT_REGISTERS B s =
     (let r = maincpu_regs (mc s);
          s1 = s\<lparr>reg_a := r_a r, reg_x := r_x r, reg_y := r_y r, reg_sp := r_sp r,
                 reg_p := r_p r, flag_n := r_n r, flag_z := r_z r\<rparr>;
          s2 = upd_mc (\<lambda>m. m\<lparr>bank_start := 0, bank_limit := 0\<rparr>) s1
      in JUMP B (r_pc r) s2)"

subsection \<open>Addressing modes\<close>

abbreviation lo8 :: "dword \<Rightarrow> dword" where "lo8 d \<equiv> d AND 0xFF"
abbreviation hi8 :: "dword \<Rightarrow> dword" where "hi8 d \<equiv> d AND 0xFF00"

definition LOAD_ABS :: "'m bus \<Rightarrow> dword \<Rightarrow> (byte, 'm) act" where
  "LOAD_ABS B addr = LOAD B addr"

text \<open>Reading from a base plus an index; the dummy read stays in the page of the base.\<close>

definition load_indexed :: "('m bus \<Rightarrow> dword \<Rightarrow> (byte, 'm) act) \<Rightarrow> 'm bus \<Rightarrow> dword \<Rightarrow> dword \<Rightarrow> (byte, 'm) act" where
  "load_indexed load B addr idx s =
     (if lo8 addr + idx > 0xFF
      then load B (addr + idx) (CLK_ADD 1 (snd (load B (hi8 addr OR lo8 (addr + idx)) s)))
      else load B (addr + idx) s)"

definition load_indexed_rmw :: "'m bus \<Rightarrow> dword \<Rightarrow> dword \<Rightarrow> (byte, 'm) act" where
  "load_indexed_rmw B addr idx s =
     LOAD B (addr + idx) (CLK_ADD 1 (snd (LOAD B (hi8 addr OR lo8 (addr + idx)) s)))"

definition LOAD_ABS_X :: "'m bus \<Rightarrow> dword \<Rightarrow> (byte, 'm) act" where
  "LOAD_ABS_X B addr s = load_indexed LOAD B addr (u32 (reg_x s)) s"

definition LOAD_ABS_X_RMW :: "'m bus \<Rightarrow> dword \<Rightarrow> (byte, 'm) act" where
  "LOAD_ABS_X_RMW B addr s = load_indexed_rmw B addr (u32 (reg_x s)) s"

definition LOAD_ABS_Y :: "'m bus \<Rightarrow> dword \<Rightarrow> (byte, 'm) act" where
  "LOAD_ABS_Y B addr s = load_indexed LOAD B addr (u32 (reg_y s)) s"

definition LOAD_ABS_Y_RMW :: "'m bus \<Rightarrow> dword \<Rightarrow> (byte, 'm) act" where
  "LOAD_ABS_Y_RMW B addr s = load_indexed_rmw B addr (u32 (reg_y s)) s"

definition LOAD_IND_X :: "'m bus \<Rightarrow> dword \<Rightarrow> (byte, 'm) act" where
  "LOAD_IND_X B addr s =
     (let (a, s1) = LOAD_ZERO_ADDR B (addr + u32 (reg_x s)) (CLK_ADD 3 s) in LOAD B a s1)"

text \<open>Every mention of the pointer in the macro reads it again.\<close>

definition load_ind_y :: "('m bus \<Rightarrow> dword \<Rightarrow> (byte, 'm) act) \<Rightarrow> 'm bus \<Rightarrow> dword \<Rightarrow> (byte, 'm) act" where
  "load_ind_y load B addr s =
     (let y = u32 (reg_y s);
          (a, s1) = LOAD_ZERO_ADDR B addr (CLK_ADD 2 s)
      in if lo8 a + y > 0xFF
         then (let (a1, s2) = LOAD_ZERO_ADDR B addr s1;
                   (a2, s3) = LOAD_ZERO_ADDR B addr s2;
                   s4 = CLK_ADD 1 (snd (load B (hi8 a1 OR lo8 (a2 + y)) s3));
                   (a3, s5) = LOAD_ZERO_ADDR B addr s4
               in load B (a3 + y) s5)
         else (let (a1, s2) = LOAD_ZERO_ADDR B addr s1 in load B (a1 + y) s2))"

definition LOAD_IND :: "'m bus \<Rightarrow> dword \<Rightarrow> (byte, 'm) act" where
  "LOAD_IND B addr = LOAD B addr"

definition STORE_IND :: "'m bus \<Rightarrow> dword \<Rightarrow> dword \<Rightarrow> 'm cpu \<Rightarrow> 'm cpu" where
  "STORE_IND B addr value = STORE B addr value"

definition LOAD_IND_Y :: "'m bus \<Rightarrow> dword \<Rightarrow> (byte, 'm) act" where
  "LOAD_IND_Y B addr = load_ind_y LOAD B addr"

definition LOAD_IND_Y_BANK :: "'m bus \<Rightarrow> dword \<Rightarrow> (byte, 'm) act" where
  "LOAD_IND_Y_BANK B addr = load_ind_y LOAD_IND B addr"

definition LOAD_ZERO_X :: "'m bus \<Rightarrow> dword \<Rightarrow> (byte, 'm) act" where
  "LOAD_ZERO_X B addr s = LOAD_ZERO B (addr + u32 (reg_x s)) s"

definition LOAD_ZERO_Y :: "'m bus \<Rightarrow> dword \<Rightarrow> (byte, 'm) act" where
  "LOAD_ZERO_Y B addr s = LOAD_ZERO B (addr + u32 (reg_y s)) s"

definition STORE_ABS :: "'m bus \<Rightarrow> dword \<Rightarrow> dword \<Rightarrow> clock \<Rightarrow> 'm cpu \<Rightarrow> 'm cpu" where
  "STORE_ABS B addr value inc s = STORE B addr value (CLK_ADD inc s)"

definition store_indexed :: "'m bus \<Rightarrow> dword \<Rightarrow> dword \<Rightarrow> dword \<Rightarrow> clock \<Rightarrow> 'm cpu \<Rightarrow> 'm cpu" where
  "store_indexed B addr idx value inc s =
     (let s1 = CLK_ADD (inc - 2) s;
          s2 = snd (LOAD B (lo8 (addr + idx) OR hi8 addr) s1)
      in STORE B (addr + idx) value (CLK_ADD 2 s2))"

definition STORE_ABS_X :: "'m bus \<Rightarrow> dword \<Rightarrow> dword \<Rightarrow> clock \<Rightarrow> 'm cpu \<Rightarrow> 'm cpu" where
  "STORE_ABS_X B addr value inc s = store_indexed B addr (u32 (reg_x s)) value inc s"

definition STORE_ABS_X_RMW :: "'m bus \<Rightarrow> dword \<Rightarrow> dword \<Rightarrow> clock \<Rightarrow> 'm cpu \<Rightarrow> 'm cpu" where
  "STORE_ABS_X_RMW B addr value inc s = STORE B (addr + u32 (reg_x s)) value (CLK_ADD inc s)"

text \<open>The stores of SHA, SHX, SHY and SHS: on a page crossing the value becomes the high byte.\<close>

definition store_sh :: "'m bus \<Rightarrow> dword \<Rightarrow> dword \<Rightarrow> dword \<Rightarrow> clock \<Rightarrow> 'm cpu \<Rightarrow> 'm cpu" where
  "store_sh B addr idx value inc s =
     (let s1 = CLK_ADD (inc - 2) s;
          s2 = CLK_ADD 2 (snd (LOAD B (lo8 (addr + idx) OR hi8 addr) s1));
          tmp2 = addr + idx;
          tmp3 = (if lo8 addr + idx > 0xFF then lo8 tmp2 OR push_bit 8 value else tmp2)
      in STORE B tmp3 value s2)"

definition STORE_ABS_SH_X :: "'m bus \<Rightarrow> dword \<Rightarrow> dword \<Rightarrow> clock \<Rightarrow> 'm cpu \<Rightarrow> 'm cpu" where
  "STORE_ABS_SH_X B addr value inc s = store_sh B addr (u32 (reg_x s)) value inc s"

definition STORE_ABS_Y :: "'m bus \<Rightarrow> dword \<Rightarrow> dword \<Rightarrow> clock \<Rightarrow> 'm cpu \<Rightarrow> 'm cpu" where
  "STORE_ABS_Y B addr value inc s = store_indexed B addr (u32 (reg_y s)) value inc s"

definition STORE_ABS_Y_RMW :: "'m bus \<Rightarrow> dword \<Rightarrow> dword \<Rightarrow> clock \<Rightarrow> 'm cpu \<Rightarrow> 'm cpu" where
  "STORE_ABS_Y_RMW B addr value inc s = STORE B (addr + u32 (reg_y s)) value (CLK_ADD inc s)"

definition STORE_ABS_SH_Y :: "'m bus \<Rightarrow> dword \<Rightarrow> dword \<Rightarrow> clock \<Rightarrow> 'm cpu \<Rightarrow> 'm cpu" where
  "STORE_ABS_SH_Y B addr value inc s = store_sh B addr (u32 (reg_y s)) value inc s"

end
