(* ===== verification/Cpu6510_Ops.thy ===== *)
theory Cpu6510_Ops
  imports Cpu6510
begin

text \<open>
  The 6510 core, second part: the instruction macros of \<open>6510core.c\<close>, in the order the file has
  them. A macro argument that reads memory is a function of the state, evaluated where the macro
  evaluates it; \<open>load\<close> and \<open>store\<close> are the macros passed as \<open>load_func\<close> and \<open>store_func\<close>.
\<close>

subsection \<open>Cycle counts\<close>

abbreviation (input) CLK_RTS :: clock where "CLK_RTS \<equiv> 3"
abbreviation (input) CLK_RTI :: clock where "CLK_RTI \<equiv> 4"
abbreviation (input) CLK_BRK :: clock where "CLK_BRK \<equiv> 5"
abbreviation (input) CLK_ABS_I_STORE2 :: clock where "CLK_ABS_I_STORE2 \<equiv> 2"
abbreviation (input) CLK_STACK_PUSH :: clock where "CLK_STACK_PUSH \<equiv> 1"
abbreviation (input) CLK_STACK_PULL :: clock where "CLK_STACK_PULL \<equiv> 2"
abbreviation (input) CLK_ABS_RMW2 :: clock where "CLK_ABS_RMW2 \<equiv> 3"
abbreviation (input) CLK_ABS_I_RMW2 :: clock where "CLK_ABS_I_RMW2 \<equiv> 3"
abbreviation (input) CLK_ZERO_I_STORE :: clock where "CLK_ZERO_I_STORE \<equiv> 2"
abbreviation (input) CLK_ZERO_I2 :: clock where "CLK_ZERO_I2 \<equiv> 2"
abbreviation (input) CLK_ZERO_RMW :: clock where "CLK_ZERO_RMW \<equiv> 3"
abbreviation (input) CLK_ZERO_I_RMW :: clock where "CLK_ZERO_I_RMW \<equiv> 4"
abbreviation (input) CLK_IND_X_RMW :: clock where "CLK_IND_X_RMW \<equiv> 3"
abbreviation (input) CLK_IND_Y_RMW1 :: clock where "CLK_IND_Y_RMW1 \<equiv> 1"
abbreviation (input) CLK_IND_Y_RMW2 :: clock where "CLK_IND_Y_RMW2 \<equiv> 3"
abbreviation (input) CLK_BRANCH2 :: clock where "CLK_BRANCH2 \<equiv> 1"
abbreviation (input) CLK_INT_CYCLE :: clock where "CLK_INT_CYCLE \<equiv> 1"
abbreviation (input) CLK_JSR_INT_CYCLE :: clock where "CLK_JSR_INT_CYCLE \<equiv> 1"
abbreviation (input) CLK_IND_Y_W :: clock where "CLK_IND_Y_W \<equiv> 2"
abbreviation (input) CLK_NOOP_ZERO_X :: clock where "CLK_NOOP_ZERO_X \<equiv> 2"

abbreviation carry_in :: "'m cpu \<Rightarrow> dword" where
  "carry_in s \<equiv> u32 (reg_p s AND P_CARRY)"

type_synonym 'm load = "'m bus \<Rightarrow> dword \<Rightarrow> (byte, 'm) act"
type_synonym 'm store = "'m bus \<Rightarrow> dword \<Rightarrow> dword \<Rightarrow> clock \<Rightarrow> 'm cpu \<Rightarrow> 'm cpu"

subsection \<open>Arithmetic and logic\<close>

text \<open>The two decimal corrections of \<open>ADC\<close>: of the low digit, then of the high digit.\<close>

definition bcd_add :: "dword \<Rightarrow> dword \<Rightarrow> dword \<Rightarrow> dword" where
  "bcd_add a tmp_value c =
     (let tmp = (a AND 0xF) + (tmp_value AND 0xF) + c;
          tmp1 = (if tmp > 0x9 then tmp + 0x6 else tmp)
      in if tmp1 \<le> 0x0F then (tmp1 AND 0xF) + (a AND 0xF0) + (tmp_value AND 0xF0)
         else (tmp1 AND 0xF) + (a AND 0xF0) + (tmp_value AND 0xF0) + 0x10)"

definition bcd_add_fix :: "dword \<Rightarrow> dword" where
  "bcd_add_fix tmp = (if tmp AND 0x1F0 > 0x90 then tmp + 0x60 else tmp)"

definition ADC :: "(byte, 'm) act \<Rightarrow> clock \<Rightarrow> dword \<Rightarrow> 'm cpu \<Rightarrow> 'm cpu" where
  "ADC value clk_inc pc_inc s0 =
     (let (v, s1) = value s0;
          s = CLK_ADD clk_inc s1;
          a = u32 (reg_a s); tmp_value = u32 v; c = carry_in s
      in if LOCAL_DECIMAL s then
           (let tmp2 = bcd_add a tmp_value c;
                s2 = LOCAL_SET_ZERO ((a + tmp_value + c) AND 0xFF = 0) s;
                s3 = LOCAL_SET_SIGN (tmp2 AND 0x80 \<noteq> 0) s2;
                s4 = LOCAL_SET_OVERFLOW ((a XOR tmp2) AND 0x80 \<noteq> 0 \<and> (a XOR tmp_value) AND 0x80 = 0) s3;
                tmp3 = bcd_add_fix tmp2;
                s5 = LOCAL_SET_CARRY (tmp3 AND 0xFF0 > 0xF0) s4
            in INC_PC pc_inc (s5\<lparr>reg_a := u8 tmp3\<rparr>))
         else
           (let tmp = tmp_value + a + c;
                s2 = LOCAL_SET_NZ (u8 (tmp AND 0xFF)) s;
                s3 = LOCAL_SET_OVERFLOW ((a XOR tmp_value) AND 0x80 = 0 \<and> (a XOR tmp) AND 0x80 \<noteq> 0) s2;
                s4 = LOCAL_SET_CARRY (tmp > 0xFF) s3
            in INC_PC pc_inc (s4\<lparr>reg_a := u8 tmp\<rparr>)))"

definition ANC :: "(byte, 'm) act \<Rightarrow> dword \<Rightarrow> 'm cpu \<Rightarrow> 'm cpu" where
  "ANC value pc_inc s0 =
     (let (v, s) = value s0; tmp = reg_a s AND v;
          s1 = LOCAL_SET_NZ tmp (s\<lparr>reg_a := tmp\<rparr>)
      in INC_PC pc_inc (LOCAL_SET_CARRY (LOCAL_SIGN s1) s1))"

definition AND_op :: "(byte, 'm) act \<Rightarrow> clock \<Rightarrow> dword \<Rightarrow> 'm cpu \<Rightarrow> 'm cpu" where
  "AND_op value clk_inc pc_inc s0 =
     (let (v, s) = value s0; tmp = reg_a s AND v
      in INC_PC pc_inc (CLK_ADD clk_inc (LOCAL_SET_NZ tmp (s\<lparr>reg_a := tmp\<rparr>))))"

definition ANE :: "(byte, 'm) act \<Rightarrow> dword \<Rightarrow> 'm cpu \<Rightarrow> 'm cpu" where
  "ANE value pc_inc s0 =
     (let (v, s) = value s0; tmp = (reg_a s OR 0xFF) AND reg_x s AND v
      in INC_PC pc_inc (LOCAL_SET_NZ tmp (s\<lparr>reg_a := tmp\<rparr>)))"

definition ARR :: "(byte, 'm) act \<Rightarrow> dword \<Rightarrow> 'm cpu \<Rightarrow> 'm cpu" where
  "ARR value pc_inc s0 =
     (let (v, s) = value s0; tmp = u32 (reg_a s AND v)
      in if LOCAL_DECIMAL s then
           (let tmp_2 = drop_bit 1 (tmp OR push_bit 8 (carry_in s));
                s1 = LOCAL_SET_SIGN (LOCAL_CARRY s) s;
                s2 = LOCAL_SET_ZERO (tmp_2 = 0) s1;
                s3 = LOCAL_SET_OVERFLOW ((tmp_2 XOR tmp) AND 0x40 \<noteq> 0) s2;
                tmp_3 = (if (tmp AND 0xF) + (tmp AND 0x1) > 0x5
                         then (tmp_2 AND 0xF0) OR ((tmp_2 + 0x6) AND 0xF) else tmp_2)
            in if (tmp AND 0xF0) + (tmp AND 0x10) > 0x50
               then INC_PC pc_inc ((LOCAL_SET_CARRY True s3)
                      \<lparr>reg_a := u8 ((tmp_3 AND 0x0F) OR ((tmp_3 + 0x60) AND 0xF0))\<rparr>)
               else INC_PC pc_inc ((LOCAL_SET_CARRY False s3)\<lparr>reg_a := u8 tmp_3\<rparr>))
         else
           (let tmp1 = drop_bit 1 (tmp OR push_bit 8 (carry_in s));
                s1 = LOCAL_SET_NZ (u8 tmp1) s;
                s2 = LOCAL_SET_CARRY (tmp1 AND 0x40 \<noteq> 0) s1;
                s3 = LOCAL_SET_OVERFLOW ((tmp1 AND 0x40) XOR push_bit 1 (tmp1 AND 0x20) \<noteq> 0) s2
            in INC_PC pc_inc (s3\<lparr>reg_a := u8 tmp1\<rparr>)))"

definition ASL :: "'m bus \<Rightarrow> (dword, 'm) act \<Rightarrow> clock \<Rightarrow> dword \<Rightarrow> 'm load \<Rightarrow> 'm store \<Rightarrow> 'm cpu \<Rightarrow> 'm cpu" where
  "ASL B addr clk_inc pc_inc load store s0 =
     (let (tmp_addr, s1) = addr s0; (v, s) = load B tmp_addr s1;
          tmp_value = u32 v;
          s2 = LOCAL_SET_CARRY (tmp_value AND 0x80 \<noteq> 0) s;
          tmp1 = push_bit 1 tmp_value AND 0xFF;
          s3 = INC_PC pc_inc (SET_RMW True (LOCAL_SET_NZ (u8 tmp1) s2))
      in SET_RMW False (store B tmp_addr tmp1 clk_inc s3))"

definition ASL_A :: "'m cpu \<Rightarrow> 'm cpu" where
  "ASL_A s =
     (let tmp = reg_a s; s1 = LOCAL_SET_CARRY (tmp AND 0x80 \<noteq> 0) s; tmp1 = push_bit 1 tmp
      in INC_PC 1 (LOCAL_SET_NZ tmp1 (s1\<lparr>reg_a := tmp1\<rparr>)))"

definition ASR :: "(byte, 'm) act \<Rightarrow> dword \<Rightarrow> 'm cpu \<Rightarrow> 'm cpu" where
  "ASR value pc_inc s0 =
     (let (v, s) = value s0; tmp = u32 (reg_a s AND v);
          s1 = LOCAL_SET_CARRY (tmp AND 0x01 \<noteq> 0) s; tmp1 = drop_bit 1 tmp
      in INC_PC pc_inc (LOCAL_SET_NZ (u8 tmp1) (s1\<lparr>reg_a := u8 tmp1\<rparr>)))"

definition BIT :: "(byte, 'm) act \<Rightarrow> dword \<Rightarrow> 'm cpu \<Rightarrow> 'm cpu" where
  "BIT value pc_inc s0 =
     (let (tmp, s) = value s0;
          s1 = LOCAL_SET_SIGN (tmp AND 0x80 \<noteq> 0) (CLK_ADD 1 s);
          s2 = LOCAL_SET_OVERFLOW (tmp AND 0x40 \<noteq> 0) s1;
          s3 = LOCAL_SET_ZERO (tmp AND reg_a s2 = 0) s2
      in INC_PC pc_inc s3)"

subsection \<open>Branches and flags\<close>

definition BRANCH :: "'m bus \<Rightarrow> bool \<Rightarrow> dword \<Rightarrow> 'm cpu \<Rightarrow> 'm cpu" where
  "BRANCH B cond value s0 =
     (let s = INC_PC 2 s0
      in if cond then
           (let pc = reg_pc (mc s);
                dest_addr = pc + scast (u8 value);
                s1 = CLK_ADD CLK_BRANCH2 (snd (FETCH_PARAM B pc s));
                s2 = (if hi8 (reg_pc (mc s1) XOR dest_addr) \<noteq> 0
                      then CLK_ADD CLK_BRANCH2 (snd (LOAD B (hi8 (reg_pc (mc s1)) OR lo8 dest_addr) s1))
                      else OPCODE_DELAYS_INTERRUPT s1)
            in JUMP B (dest_addr AND 0xFFFF) s2)
         else s)"

definition CLC :: "'m cpu \<Rightarrow> 'm cpu" where
  "CLC s = LOCAL_SET_CARRY False (INC_PC 1 s)"

definition CLD :: "'m cpu \<Rightarrow> 'm cpu" where
  "CLD s = LOCAL_SET_DECIMAL False (INC_PC 1 s)"

definition CLI :: "'m cpu \<Rightarrow> 'm cpu" where
  "CLI s =
     (let s1 = INC_PC 1 s; s2 = (if LOCAL_INTERRUPT s1 then OPCODE_ENABLES_IRQ s1 else s1)
      in LOCAL_SET_INTERRUPT False s2)"

definition CLV :: "'m cpu \<Rightarrow> 'm cpu" where
  "CLV s = LOCAL_SET_OVERFLOW False (INC_PC 1 s)"

text \<open>\<open>CMP\<close>, \<open>CPX\<close> and \<open>CPY\<close> differ in the register only.\<close>

definition compare_with :: "('m cpu \<Rightarrow> byte) \<Rightarrow> (byte, 'm) act \<Rightarrow> clock \<Rightarrow> dword \<Rightarrow> 'm cpu \<Rightarrow> 'm cpu" where
  "compare_with reg value clk_inc pc_inc s0 =
     (let (v, s) = value s0; tmp = u32 (reg s) - u32 v;
          s1 = LOCAL_SET_NZ (u8 (tmp AND 0xFF)) (LOCAL_SET_CARRY (tmp < 0x100) s)
      in INC_PC pc_inc (CLK_ADD clk_inc s1))"

definition CMP :: "(byte, 'm) act \<Rightarrow> clock \<Rightarrow> dword \<Rightarrow> 'm cpu \<Rightarrow> 'm cpu" where "CMP = compare_with reg_a"
definition CPX :: "(byte, 'm) act \<Rightarrow> clock \<Rightarrow> dword \<Rightarrow> 'm cpu \<Rightarrow> 'm cpu" where "CPX = compare_with reg_x"
definition CPY :: "(byte, 'm) act \<Rightarrow> clock \<Rightarrow> dword \<Rightarrow> 'm cpu \<Rightarrow> 'm cpu" where "CPY = compare_with reg_y"

text \<open>
  The read of the undocumented instructions in the \<open>($nn),Y\<close> mode, as their \<open>_IND_Y\<close> macros
  spell it: two cycles, the dummy read in the base page, one cycle, then the real address. The
  macros that read the pointer before adding the two cycles pass \<open>early = True\<close>.
\<close>

definition ind_y_rmw_addr :: "'m bus \<Rightarrow> bool \<Rightarrow> dword \<Rightarrow> (dword, 'm) act" where
  "ind_y_rmw_addr B early addr s =
     (let (tmp_addr, s1) = (if early then (let (a, t) = LOAD_ZERO_ADDR B addr s in (a, CLK_ADD 2 t))
                            else LOAD_ZERO_ADDR B addr (CLK_ADD 2 s));
          y = u32 (reg_y s1);
          s2 = CLK_ADD CLK_IND_Y_RMW1 (snd (LOAD B (hi8 tmp_addr OR lo8 (tmp_addr + y)) s1))
      in (tmp_addr + y, s2))"

definition DCP :: "'m bus \<Rightarrow> (dword, 'm) act \<Rightarrow> clock \<Rightarrow> clock \<Rightarrow> dword \<Rightarrow> 'm load \<Rightarrow> 'm store \<Rightarrow> 'm cpu \<Rightarrow> 'm cpu" where
  "DCP B addr clk_inc1 clk_inc2 pc_inc load store s0 =
     (let (tmp_addr, s1) = addr s0; (v, s) = load B tmp_addr (CLK_ADD clk_inc1 s1);
          tmp = (u32 v - 1) AND 0xFF;
          s2 = LOCAL_SET_CARRY (u32 (reg_a s) \<ge> tmp) s;
          s3 = INC_PC pc_inc (SET_RMW True (LOCAL_SET_NZ (u8 (u32 (reg_a s) - tmp)) s2))
      in SET_RMW False (store B tmp_addr tmp clk_inc2 s3))"

definition DCP_IND_Y :: "'m bus \<Rightarrow> dword \<Rightarrow> 'm cpu \<Rightarrow> 'm cpu" where
  "DCP_IND_Y B addr s0 =
     (let (tmp_addr, s1) = ind_y_rmw_addr B True addr s0; (v, s) = LOAD B tmp_addr s1;
          tmp = (u32 v - 1) AND 0xFF;
          s2 = LOCAL_SET_CARRY (u32 (reg_a s) \<ge> tmp) s;
          s3 = INC_PC 2 (SET_RMW True (LOCAL_SET_NZ (u8 (u32 (reg_a s) - tmp)) s2))
      in SET_RMW False (STORE_ABS B tmp_addr tmp CLK_IND_Y_RMW2 s3))"

definition DEC :: "'m bus \<Rightarrow> (dword, 'm) act \<Rightarrow> clock \<Rightarrow> dword \<Rightarrow> 'm load \<Rightarrow> 'm store \<Rightarrow> 'm cpu \<Rightarrow> 'm cpu" where
  "DEC B addr clk_inc pc_inc load store s0 =
     (let (tmp_addr, s1) = addr s0; (v, s) = load B tmp_addr s1;
          tmp = (u32 v - 1) AND 0xFF;
          s2 = INC_PC pc_inc (SET_RMW True (LOCAL_SET_NZ (u8 tmp) s))
      in SET_RMW False (store B tmp_addr tmp clk_inc s2))"

definition DEX :: "'m cpu \<Rightarrow> 'm cpu" where
  "DEX s = (let s1 = s\<lparr>reg_x := reg_x s - 1\<rparr> in INC_PC 1 (LOCAL_SET_NZ (reg_x s1) s1))"

definition DEY :: "'m cpu \<Rightarrow> 'm cpu" where
  "DEY s = (let s1 = s\<lparr>reg_y := reg_y s - 1\<rparr> in INC_PC 1 (LOCAL_SET_NZ (reg_y s1) s1))"

definition EOR :: "(byte, 'm) act \<Rightarrow> clock \<Rightarrow> dword \<Rightarrow> 'm cpu \<Rightarrow> 'm cpu" where
  "EOR value clk_inc pc_inc s0 =
     (let (v, s) = value s0; tmp = reg_a s XOR v
      in INC_PC pc_inc (CLK_ADD clk_inc (LOCAL_SET_NZ tmp (s\<lparr>reg_a := tmp\<rparr>))))"

definition INC :: "'m bus \<Rightarrow> (dword, 'm) act \<Rightarrow> clock \<Rightarrow> dword \<Rightarrow> 'm load \<Rightarrow> 'm store \<Rightarrow> 'm cpu \<Rightarrow> 'm cpu" where
  "INC B addr clk_inc pc_inc load store s0 =
     (let (tmp_addr, s1) = addr s0; (v, s) = load B tmp_addr s1;
          tmp = (u32 v + 1) AND 0xFF;
          s2 = INC_PC pc_inc (SET_RMW True (LOCAL_SET_NZ (u8 tmp) s))
      in SET_RMW False (store B tmp_addr tmp clk_inc s2))"

definition INX :: "'m cpu \<Rightarrow> 'm cpu" where
  "INX s = (let s1 = s\<lparr>reg_x := reg_x s + 1\<rparr> in INC_PC 1 (LOCAL_SET_NZ (reg_x s1) s1))"

definition INY :: "'m cpu \<Rightarrow> 'm cpu" where
  "INY s = (let s1 = s\<lparr>reg_y := reg_y s + 1\<rparr> in INC_PC 1 (LOCAL_SET_NZ (reg_y s1) s1))"

subsection \<open>Subtraction\<close>

definition bcd_sub :: "dword \<Rightarrow> dword \<Rightarrow> dword \<Rightarrow> dword" where
  "bcd_sub a src borrow =
     (let tmp_a = (a AND 0xF) - (src AND 0xF) - borrow;
          tmp_a1 = (if tmp_a AND 0x10 \<noteq> 0
                    then ((tmp_a - 6) AND 0xF) OR ((a AND 0xF0) - (src AND 0xF0) - 0x10)
                    else (tmp_a AND 0xF) OR ((a AND 0xF0) - (src AND 0xF0)))
      in if tmp_a1 AND 0x100 \<noteq> 0 then tmp_a1 - 0x60 else tmp_a1)"

text \<open>\<open>src\<close> and \<open>tmp\<close> are 16 bits wide here.\<close>

definition SBC :: "(byte, 'm) act \<Rightarrow> clock \<Rightarrow> dword \<Rightarrow> 'm cpu \<Rightarrow> 'm cpu" where
  "SBC value clk_inc pc_inc s0 =
     (let (v, s1) = value s0;
          s = CLK_ADD clk_inc s1;
          src = u32 v; a = u32 (reg_a s); borrow = (if LOCAL_CARRY s then 0 else 1) :: dword;
          tmp = ucast (a - src - borrow) :: word16
      in if LOCAL_DECIMAL s then
           (let tmp_a2 = bcd_sub a src borrow;
                s2 = LOCAL_SET_CARRY (tmp < 0x100) s;
                s3 = LOCAL_SET_NZ (ucast (tmp AND 0xFF)) s2;
                s4 = LOCAL_SET_OVERFLOW ((ucast a XOR tmp) AND 0x80 \<noteq> 0 \<and> (a XOR src) AND 0x80 \<noteq> 0) s3
            in INC_PC pc_inc (s4\<lparr>reg_a := u8 tmp_a2\<rparr>))
         else
           (let s2 = LOCAL_SET_NZ (ucast (tmp AND 0xFF)) s;
                s3 = LOCAL_SET_CARRY (tmp < 0x100) s2;
                s4 = LOCAL_SET_OVERFLOW ((ucast a XOR tmp) AND 0x80 \<noteq> 0 \<and> (a XOR src) AND 0x80 \<noteq> 0) s3
            in INC_PC pc_inc (s4\<lparr>reg_a := ucast tmp\<rparr>)))"

definition ISB :: "'m bus \<Rightarrow> (dword, 'm) act \<Rightarrow> clock \<Rightarrow> clock \<Rightarrow> dword \<Rightarrow> 'm load \<Rightarrow> 'm store \<Rightarrow> 'm cpu \<Rightarrow> 'm cpu" where
  "ISB B addr clk_inc1 clk_inc2 pc_inc load store s0 =
     (let (my_addr, s1) = addr s0; (v, s) = load B my_addr (CLK_ADD clk_inc1 s1);
          my_src = v + 1;
          s2 = INC_PC pc_inc (SET_RMW True (SBC (ret my_src) 0 0 s))
      in SET_RMW False (store B my_addr (u32 my_src) clk_inc2 s2))"

definition ISB_IND_Y :: "'m bus \<Rightarrow> dword \<Rightarrow> 'm cpu \<Rightarrow> 'm cpu" where
  "ISB_IND_Y B addr s0 =
     (let (my_addr, s1) = ind_y_rmw_addr B True addr s0; (v, s) = LOAD B my_addr s1;
          my_src = v + 1;
          s2 = INC_PC 2 (SET_RMW True (SBC (ret my_src) 0 0 s))
      in SET_RMW False (STORE_ABS B my_addr (u32 my_src) CLK_IND_Y_RMW2 s2))"

subsection \<open>Jumps\<close>

definition JMP :: "'m bus \<Rightarrow> dword \<Rightarrow> 'm cpu \<Rightarrow> 'm cpu" where
  "JMP B addr = JUMP B addr"

definition JMP_IND :: "'m bus \<Rightarrow> dword \<Rightarrow> 'm cpu \<Rightarrow> 'm cpu" where
  "JMP_IND B p2 s0 =
     (let (lo, s1) = LOAD B p2 s0;
          (hi, s2) = LOAD B (hi8 p2 OR lo8 (p2 + 1)) (CLK_ADD 1 s1)
      in JUMP B (u32 lo OR push_bit 8 (u32 hi)) (CLK_ADD 1 s2))"

definition JSR :: "'m bus \<Rightarrow> dword \<Rightarrow> 'm cpu \<Rightarrow> 'm cpu" where
  "JSR B p1 s0 =
     (let s1 = CLK_ADD 2 (INC_PC 2 (CLK_ADD 1 s0));
          s2 = PUSH (drop_bit 8 (reg_pc (mc s1)) AND 0xFF) s1;
          s3 = PUSH (reg_pc (mc s2) AND 0xFF) s2;
          (hi, s4) = FETCH_PARAM B (reg_pc (mc s3)) s3
      in JUMP B (p1 OR push_bit 8 (u32 hi)) (CLK_ADD CLK_JSR_INT_CYCLE s4))"

subsection \<open>Loads and shifts\<close>

definition LAS :: "(byte, 'm) act \<Rightarrow> clock \<Rightarrow> dword \<Rightarrow> 'm cpu \<Rightarrow> 'm cpu" where
  "LAS value clk_inc pc_inc s0 =
     (let (v, s) = value s0; sp = reg_sp s AND v
      in INC_PC pc_inc (CLK_ADD clk_inc (LOCAL_SET_NZ sp (s\<lparr>reg_sp := sp, reg_x := sp, reg_a := sp\<rparr>))))"

definition LAX :: "(byte, 'm) act \<Rightarrow> clock \<Rightarrow> dword \<Rightarrow> 'm cpu \<Rightarrow> 'm cpu" where
  "LAX value clk_inc pc_inc s0 =
     (let (tmp, s) = value s0
      in INC_PC pc_inc (CLK_ADD clk_inc (LOCAL_SET_NZ tmp (s\<lparr>reg_x := tmp, reg_a := tmp\<rparr>))))"

definition LDA :: "(byte, 'm) act \<Rightarrow> clock \<Rightarrow> dword \<Rightarrow> 'm cpu \<Rightarrow> 'm cpu" where
  "LDA value clk_inc pc_inc s0 =
     (let (tmp, s) = value s0
      in INC_PC pc_inc (LOCAL_SET_NZ tmp (CLK_ADD clk_inc (s\<lparr>reg_a := tmp\<rparr>))))"

definition LDX :: "(byte, 'm) act \<Rightarrow> clock \<Rightarrow> dword \<Rightarrow> 'm cpu \<Rightarrow> 'm cpu" where
  "LDX value clk_inc pc_inc s0 =
     (let (tmp, s) = value s0
      in INC_PC pc_inc (CLK_ADD clk_inc (LOCAL_SET_NZ tmp (s\<lparr>reg_x := tmp\<rparr>))))"

definition LDY :: "(byte, 'm) act \<Rightarrow> clock \<Rightarrow> dword \<Rightarrow> 'm cpu \<Rightarrow> 'm cpu" where
  "LDY value clk_inc pc_inc s0 =
     (let (tmp, s) = value s0
      in INC_PC pc_inc (CLK_ADD clk_inc (LOCAL_SET_NZ tmp (s\<lparr>reg_y := tmp\<rparr>))))"

definition LSR :: "'m bus \<Rightarrow> (dword, 'm) act \<Rightarrow> clock \<Rightarrow> dword \<Rightarrow> 'm load \<Rightarrow> 'm store \<Rightarrow> 'm cpu \<Rightarrow> 'm cpu" where
  "LSR B addr clk_inc pc_inc load store s0 =
     (let (tmp_addr, s1) = addr s0; (v, s) = load B tmp_addr s1;
          tmp = u32 v;
          s2 = LOCAL_SET_CARRY (tmp AND 0x01 \<noteq> 0) s;
          tmp1 = drop_bit 1 tmp;
          s3 = INC_PC pc_inc (SET_RMW True (LOCAL_SET_NZ (u8 tmp1) s2))
      in SET_RMW False (store B tmp_addr tmp1 clk_inc s3))"

definition LSR_A :: "'m cpu \<Rightarrow> 'm cpu" where
  "LSR_A s =
     (let tmp = reg_a s; s1 = LOCAL_SET_CARRY (tmp AND 0x01 \<noteq> 0) s; tmp1 = drop_bit 1 tmp
      in INC_PC 1 (LOCAL_SET_NZ tmp1 (s1\<lparr>reg_a := tmp1\<rparr>)))"

definition LXA :: "(byte, 'm) act \<Rightarrow> dword \<Rightarrow> 'm cpu \<Rightarrow> 'm cpu" where
  "LXA value pc_inc s0 =
     (let (v, s) = value s0; tmp = (reg_a s OR 0xEE) AND v
      in INC_PC pc_inc (LOCAL_SET_NZ tmp (s\<lparr>reg_x := tmp, reg_a := tmp\<rparr>)))"

definition ORA :: "(byte, 'm) act \<Rightarrow> clock \<Rightarrow> dword \<Rightarrow> 'm cpu \<Rightarrow> 'm cpu" where
  "ORA value clk_inc pc_inc s0 =
     (let (v, s) = value s0; tmp = reg_a s OR v
      in INC_PC pc_inc (CLK_ADD clk_inc (LOCAL_SET_NZ tmp (s\<lparr>reg_a := tmp\<rparr>))))"

subsection \<open>No operation and the stack\<close>

definition NOOP :: "clock \<Rightarrow> dword \<Rightarrow> 'm cpu \<Rightarrow> 'm cpu" where
  "NOOP clk_inc pc_inc s = INC_PC pc_inc (CLK_ADD clk_inc s)"

definition NOOP_IMM :: "dword \<Rightarrow> 'm cpu \<Rightarrow> 'm cpu" where
  "NOOP_IMM pc_inc s = INC_PC pc_inc s"

definition NOOP_ABS :: "'m bus \<Rightarrow> dword \<Rightarrow> 'm cpu \<Rightarrow> 'm cpu" where
  "NOOP_ABS B p2 s = INC_PC 3 (CLK_ADD 1 (snd (LOAD B p2 s)))"

definition NOOP_ABS_X :: "'m bus \<Rightarrow> dword \<Rightarrow> 'm cpu \<Rightarrow> 'm cpu" where
  "NOOP_ABS_X B p2 s = INC_PC 3 (CLK_ADD 1 (snd (LOAD_ABS_X B p2 s)))"

definition NOP :: "'m cpu \<Rightarrow> 'm cpu" where
  "NOP = NOOP_IMM 1"

definition PHA :: "'m cpu \<Rightarrow> 'm cpu" where
  "PHA s = (let s1 = CLK_ADD CLK_STACK_PUSH s in INC_PC 1 (PUSH (u32 (reg_a s1)) s1))"

definition PHP :: "'m cpu \<Rightarrow> 'm cpu" where
  "PHP s = (let s1 = CLK_ADD CLK_STACK_PUSH s in INC_PC 1 (PUSH (u32 (LOCAL_STATUS s1 OR P_BREAK)) s1))"

definition PLA :: "'m cpu \<Rightarrow> 'm cpu" where
  "PLA s0 =
     (let (tmp, s) = PULL (CLK_ADD CLK_STACK_PULL s0)
      in INC_PC 1 (LOCAL_SET_NZ tmp (s\<lparr>reg_a := tmp\<rparr>)))"

definition PLP :: "'m cpu \<Rightarrow> 'm cpu" where
  "PLP s0 =
     (let (v, s) = PULL s0;
          s1 = (if v AND P_INTERRUPT = 0 \<and> LOCAL_INTERRUPT s then OPCODE_ENABLES_IRQ s
                else if v AND P_INTERRUPT \<noteq> 0 \<and> \<not> LOCAL_INTERRUPT s then OPCODE_DISABLES_IRQ s else s)
      in INC_PC 1 (LOCAL_SET_STATUS v (CLK_ADD CLK_STACK_PULL s1)))"

subsection \<open>Rotates\<close>

definition RLA :: "'m bus \<Rightarrow> (dword, 'm) act \<Rightarrow> clock \<Rightarrow> clock \<Rightarrow> dword \<Rightarrow> 'm load \<Rightarrow> 'm store \<Rightarrow> 'm cpu \<Rightarrow> 'm cpu" where
  "RLA B addr clk_inc1 clk_inc2 pc_inc load store s0 =
     (let (tmp_addr, s1) = addr s0; (v, s) = load B tmp_addr (CLK_ADD clk_inc1 s1);
          tmp = push_bit 1 (u32 v) OR carry_in s;
          s2 = LOCAL_SET_CARRY (tmp AND 0x100 \<noteq> 0) s;
          tmp2 = reg_a s2 AND u8 tmp;
          s3 = INC_PC pc_inc (SET_RMW True (LOCAL_SET_NZ tmp2 (s2\<lparr>reg_a := tmp2\<rparr>)))
      in SET_RMW False (store B tmp_addr tmp clk_inc2 s3))"

definition RLA_IND_Y :: "'m bus \<Rightarrow> dword \<Rightarrow> 'm cpu \<Rightarrow> 'm cpu" where
  "RLA_IND_Y B addr s0 =
     (let (tmp_addr, s1) = ind_y_rmw_addr B True addr s0; (v, s) = LOAD B tmp_addr s1;
          tmp = push_bit 1 (u32 v) OR carry_in s;
          s2 = LOCAL_SET_CARRY (tmp AND 0x100 \<noteq> 0) s;
          tmp2 = reg_a s2 AND u8 tmp;
          s3 = INC_PC 2 (SET_RMW True (LOCAL_SET_NZ tmp2 (s2\<lparr>reg_a := tmp2\<rparr>)))
      in SET_RMW False (STORE_ABS B tmp_addr tmp CLK_IND_Y_RMW2 s3))"

definition ROL :: "'m bus \<Rightarrow> (dword, 'm) act \<Rightarrow> clock \<Rightarrow> dword \<Rightarrow> 'm load \<Rightarrow> 'm store \<Rightarrow> 'm cpu \<Rightarrow> 'm cpu" where
  "ROL B addr clk_inc pc_inc load store s0 =
     (let (tmp_addr, s1) = addr s0; (v, s) = load B tmp_addr s1;
          tmp = push_bit 1 (u32 v) OR carry_in s;
          s2 = LOCAL_SET_CARRY (tmp AND 0x100 \<noteq> 0) s;
          s3 = INC_PC pc_inc (SET_RMW True (LOCAL_SET_NZ (u8 (tmp AND 0xFF)) s2))
      in SET_RMW False (store B tmp_addr tmp clk_inc s3))"

definition ROL_A :: "'m cpu \<Rightarrow> 'm cpu" where
  "ROL_A s =
     (let tmp = push_bit 1 (u32 (reg_a s)) OR carry_in s;
          s1 = LOCAL_SET_NZ (u8 tmp) (s\<lparr>reg_a := u8 tmp\<rparr>)
      in INC_PC 1 (LOCAL_SET_CARRY (tmp AND 0x100 \<noteq> 0) s1))"

definition ROR :: "'m bus \<Rightarrow> (dword, 'm) act \<Rightarrow> clock \<Rightarrow> dword \<Rightarrow> 'm load \<Rightarrow> 'm store \<Rightarrow> 'm cpu \<Rightarrow> 'm cpu" where
  "ROR B addr clk_inc pc_inc load store s0 =
     (let (tmp_addr, s1) = addr s0; (v, s) = load B tmp_addr s1;
          src = (if LOCAL_CARRY s then u32 v OR 0x100 else u32 v);
          s2 = LOCAL_SET_CARRY (src AND 0x01 \<noteq> 0) s;
          src1 = drop_bit 1 src;
          s3 = INC_PC pc_inc (SET_RMW True (LOCAL_SET_NZ (u8 src1) s2))
      in SET_RMW False (store B tmp_addr src1 clk_inc s3))"

definition ROR_A :: "'m cpu \<Rightarrow> 'm cpu" where
  "ROR_A s =
     (let tmp = u32 (reg_a s); tmp2 = drop_bit 1 tmp OR push_bit 7 (u32 (reg_p s));
          s1 = LOCAL_SET_CARRY (tmp AND 0x01 \<noteq> 0) s
      in INC_PC 1 (LOCAL_SET_NZ (u8 tmp2) (s1\<lparr>reg_a := u8 tmp2\<rparr>)))"

definition RRA :: "'m bus \<Rightarrow> (dword, 'm) act \<Rightarrow> clock \<Rightarrow> clock \<Rightarrow> dword \<Rightarrow> 'm load \<Rightarrow> 'm store \<Rightarrow> 'm cpu \<Rightarrow> 'm cpu" where
  "RRA B addr clk_inc1 clk_inc2 pc_inc load store s0 =
     (let (tmp_addr, s1) = addr (CLK_ADD clk_inc1 s0); (src, s) = load B tmp_addr s1;
          my_temp = (if LOCAL_CARRY s then drop_bit 1 (u32 src) OR 0x80 else drop_bit 1 (u32 src));
          s2 = LOCAL_SET_CARRY (src AND 0x1 \<noteq> 0) s;
          s3 = ADC (imm my_temp) 0 0 (INC_PC pc_inc (SET_RMW True s2))
      in SET_RMW False (store B tmp_addr my_temp clk_inc2 s3))"

definition RRA_IND_Y :: "'m bus \<Rightarrow> dword \<Rightarrow> 'm cpu \<Rightarrow> 'm cpu" where
  "RRA_IND_Y B addr s0 =
     (let (tmp_addr, s1) = ind_y_rmw_addr B False addr s0; (src, s) = LOAD B tmp_addr s1;
          s2 = INC_PC 2 (SET_RMW True s);
          my_temp = (if LOCAL_CARRY s2 then drop_bit 1 (u32 src) OR 0x80 else drop_bit 1 (u32 src));
          s3 = ADC (imm my_temp) 0 0 (LOCAL_SET_CARRY (src AND 0x1 \<noteq> 0) s2)
      in SET_RMW False (STORE_ABS B tmp_addr my_temp CLK_IND_Y_RMW2 s3))"

subsection \<open>Returns\<close>

definition RTI :: "'m bus \<Rightarrow> 'm cpu \<Rightarrow> 'm cpu" where
  "RTI B s0 =
     (let (p, s1) = PULL (CLK_ADD CLK_RTI s0);
          s2 = LOCAL_SET_STATUS p s1;
          (lo, s3) = PULL s2; (hi, s4) = PULL s3
      in JUMP B (u32 lo OR push_bit 8 (u32 hi)) s4)"

definition RTS :: "'m bus \<Rightarrow> 'm cpu \<Rightarrow> 'm cpu" where
  "RTS B s0 =
     (let (lo, s1) = PULL (CLK_ADD CLK_RTS s0); (hi, s2) = PULL s1;
          s3 = JUMP B (u32 lo OR push_bit 8 (u32 hi)) s2;
          s4 = snd (FETCH_PARAM B (reg_pc (mc s3)) s3)
      in INC_PC 1 (CLK_ADD CLK_INT_CYCLE s4))"

subsection \<open>Stores\<close>

definition SAX :: "'m bus \<Rightarrow> (dword, 'm) act \<Rightarrow> clock \<Rightarrow> clock \<Rightarrow> dword \<Rightarrow> 'm cpu \<Rightarrow> 'm cpu" where
  "SAX B addr clk_inc1 clk_inc2 pc_inc s0 =
     (let (tmp, s1) = addr (CLK_ADD clk_inc1 s0);
          s = INC_PC pc_inc (CLK_ADD clk_inc2 s1)
      in STORE B tmp (u32 (reg_a s AND reg_x s)) s)"

definition SAX_ZERO :: "'m bus \<Rightarrow> dword \<Rightarrow> clock \<Rightarrow> dword \<Rightarrow> 'm cpu \<Rightarrow> 'm cpu" where
  "SAX_ZERO B addr clk_inc pc_inc s0 =
     (let s = CLK_ADD clk_inc s0 in INC_PC pc_inc (STORE_ZERO B addr (u32 (reg_a s AND reg_x s)) s))"

definition SBX :: "(byte, 'm) act \<Rightarrow> dword \<Rightarrow> 'm cpu \<Rightarrow> 'm cpu" where
  "SBX value pc_inc s0 =
     (let (v, s1) = value s0; s = INC_PC pc_inc s1;
          tmp = u32 (reg_a s AND reg_x s) - u32 v;
          s2 = (LOCAL_SET_CARRY (tmp < 0x100) s)\<lparr>reg_x := u8 (tmp AND 0xFF)\<rparr>
      in LOCAL_SET_NZ (reg_x s2) s2)"

definition SEC :: "'m cpu \<Rightarrow> 'm cpu" where
  "SEC s = INC_PC 1 (LOCAL_SET_CARRY True s)"

definition SED :: "'m cpu \<Rightarrow> 'm cpu" where
  "SED s = INC_PC 1 (LOCAL_SET_DECIMAL True s)"

definition SEI :: "'m cpu \<Rightarrow> 'm cpu" where
  "SEI s =
     (let s1 = (if LOCAL_INTERRUPT s then s else OPCODE_DISABLES_IRQ s)
      in INC_PC 1 (LOCAL_SET_INTERRUPT True s1))"

text \<open>The high byte of the address plus one, which the unstable stores mask their value with.\<close>

abbreviation hi_plus_1 :: "dword \<Rightarrow> dword" where
  "hi_plus_1 addr \<equiv> drop_bit 8 addr + 1"

definition SHA_ABS_Y :: "'m bus \<Rightarrow> dword \<Rightarrow> 'm cpu \<Rightarrow> 'm cpu" where
  "SHA_ABS_Y B tmp s0 =
     (let s = INC_PC 3 s0
      in STORE_ABS_SH_Y B tmp (u32 (reg_a s AND reg_x s) AND hi_plus_1 tmp) CLK_ABS_I_STORE2 s)"

definition SHA_IND_Y :: "'m bus \<Rightarrow> dword \<Rightarrow> 'm cpu \<Rightarrow> 'm cpu" where
  "SHA_IND_Y B addr s0 =
     (let (tmp, s1) = LOAD_ZERO_ADDR B addr (CLK_ADD 2 s0);
          y = u32 (reg_y s1);
          s = CLK_ADD CLK_IND_Y_W (snd (LOAD B (hi8 tmp OR lo8 (tmp + y)) s1));
          val = u8 (u32 (reg_a s AND reg_x s) AND hi_plus_1 tmp);
          tmp1 = (if lo8 tmp + y > 0xFF then lo8 (tmp + y) OR push_bit 8 (u32 val) else tmp + y)
      in STORE B tmp1 (u32 val) (INC_PC 2 s))"

definition SHX_ABS_Y :: "'m bus \<Rightarrow> dword \<Rightarrow> 'm cpu \<Rightarrow> 'm cpu" where
  "SHX_ABS_Y B tmp s0 =
     (let s = INC_PC 3 s0
      in STORE_ABS_SH_Y B tmp (u32 (reg_x s) AND hi_plus_1 tmp) CLK_ABS_I_STORE2 s)"

definition SHY_ABS_X :: "'m bus \<Rightarrow> dword \<Rightarrow> 'm cpu \<Rightarrow> 'm cpu" where
  "SHY_ABS_X B tmp s0 =
     (let s = INC_PC 3 s0
      in STORE_ABS_SH_X B tmp (u32 (reg_y s) AND hi_plus_1 tmp) CLK_ABS_I_STORE2 s)"

definition SHS_ABS_Y :: "'m bus \<Rightarrow> dword \<Rightarrow> 'm cpu \<Rightarrow> 'm cpu" where
  "SHS_ABS_Y B tmp s0 =
     (let s = INC_PC 3 s0;
          s1 = STORE_ABS_SH_Y B tmp (u32 (reg_a s AND reg_x s) AND hi_plus_1 tmp) CLK_ABS_I_STORE2 s
      in s1\<lparr>reg_sp := reg_a s1 AND reg_x s1\<rparr>)"

definition SLO :: "'m bus \<Rightarrow> (dword, 'm) act \<Rightarrow> clock \<Rightarrow> clock \<Rightarrow> dword \<Rightarrow> 'm load \<Rightarrow> 'm store \<Rightarrow> 'm cpu \<Rightarrow> 'm cpu" where
  "SLO B addr clk_inc1 clk_inc2 pc_inc load store s0 =
     (let (tmp_addr, s1) = addr (CLK_ADD clk_inc1 s0); (tmp, s) = load B tmp_addr s1;
          s2 = LOCAL_SET_CARRY (tmp AND 0x80 \<noteq> 0) s;
          tmp1 = push_bit 1 tmp; tmp2 = reg_a s2 OR tmp1;
          s3 = INC_PC pc_inc (SET_RMW True (LOCAL_SET_NZ tmp2 (s2\<lparr>reg_a := tmp2\<rparr>)))
      in SET_RMW False (store B tmp_addr (u32 tmp1) clk_inc2 s3))"

definition SLO_IND_Y :: "'m bus \<Rightarrow> dword \<Rightarrow> 'm cpu \<Rightarrow> 'm cpu" where
  "SLO_IND_Y B addr s0 =
     (let (tmp_addr, s1) = ind_y_rmw_addr B False addr s0; (tmp, s) = LOAD B tmp_addr s1;
          s2 = LOCAL_SET_CARRY (tmp AND 0x80 \<noteq> 0) s;
          tmp1 = push_bit 1 tmp; tmp2 = reg_a s2 OR tmp1;
          s3 = INC_PC 2 (SET_RMW True (LOCAL_SET_NZ tmp2 (s2\<lparr>reg_a := tmp2\<rparr>)))
      in SET_RMW False (STORE_ABS B tmp_addr (u32 tmp1) CLK_IND_Y_RMW2 s3))"

definition SRE :: "'m bus \<Rightarrow> (dword, 'm) act \<Rightarrow> clock \<Rightarrow> clock \<Rightarrow> dword \<Rightarrow> 'm load \<Rightarrow> 'm store \<Rightarrow> 'm cpu \<Rightarrow> 'm cpu" where
  "SRE B addr clk_inc1 clk_inc2 pc_inc load store s0 =
     (let (tmp_addr, s1) = addr (CLK_ADD clk_inc1 s0); (v, s) = load B tmp_addr s1;
          tmp = u32 v;
          s2 = LOCAL_SET_CARRY (tmp AND 0x01 \<noteq> 0) s;
          tmp1 = drop_bit 1 tmp; tmp2 = reg_a s2 XOR u8 tmp1;
          s3 = INC_PC pc_inc (SET_RMW True (LOCAL_SET_NZ tmp2 (s2\<lparr>reg_a := tmp2\<rparr>)))
      in SET_RMW False (store B tmp_addr tmp1 clk_inc2 s3))"

definition SRE_IND_Y :: "'m bus \<Rightarrow> dword \<Rightarrow> 'm cpu \<Rightarrow> 'm cpu" where
  "SRE_IND_Y B addr s0 =
     (let (tmp_addr, s1) = ind_y_rmw_addr B True addr s0; (v, s) = LOAD B tmp_addr s1;
          tmp = u32 v;
          s2 = LOCAL_SET_CARRY (tmp AND 0x01 \<noteq> 0) s;
          tmp1 = drop_bit 1 tmp; tmp2 = reg_a s2 XOR u8 tmp1;
          s3 = INC_PC 2 (SET_RMW True (LOCAL_SET_NZ tmp2 (s2\<lparr>reg_a := tmp2\<rparr>)))
      in SET_RMW False (STORE_ABS B tmp_addr tmp1 CLK_IND_Y_RMW2 s3))"

definition STA :: "'m bus \<Rightarrow> (dword, 'm) act \<Rightarrow> clock \<Rightarrow> clock \<Rightarrow> dword \<Rightarrow> 'm store \<Rightarrow> 'm cpu \<Rightarrow> 'm cpu" where
  "STA B addr clk_inc1 clk_inc2 pc_inc store s0 =
     (let (tmp, s1) = addr (CLK_ADD clk_inc1 s0); s = INC_PC pc_inc s1
      in store B tmp (u32 (reg_a s)) clk_inc2 s)"

definition STA_ZERO :: "'m bus \<Rightarrow> dword \<Rightarrow> clock \<Rightarrow> dword \<Rightarrow> 'm cpu \<Rightarrow> 'm cpu" where
  "STA_ZERO B addr clk_inc pc_inc s0 =
     (let s = CLK_ADD clk_inc s0 in INC_PC pc_inc (STORE_ZERO B addr (u32 (reg_a s)) s))"

definition STA_IND_Y :: "'m bus \<Rightarrow> dword \<Rightarrow> 'm cpu \<Rightarrow> 'm cpu" where
  "STA_IND_Y B addr s0 =
     (let (tmp, s1) = LOAD_ZERO_ADDR B addr (CLK_ADD 2 s0);
          y = u32 (reg_y s1);
          s2 = CLK_ADD CLK_IND_Y_W (snd (LOAD_IND B (hi8 tmp OR lo8 (tmp + y)) s1));
          s = INC_PC 2 s2
      in STORE_IND B (tmp + y) (u32 (reg_a s)) s)"

definition STX :: "'m bus \<Rightarrow> dword \<Rightarrow> clock \<Rightarrow> dword \<Rightarrow> 'm cpu \<Rightarrow> 'm cpu" where
  "STX B tmp clk_inc pc_inc s0 =
     (let s = INC_PC pc_inc (CLK_ADD clk_inc s0) in STORE B tmp (u32 (reg_x s)) s)"

definition STX_ZERO :: "'m bus \<Rightarrow> dword \<Rightarrow> clock \<Rightarrow> dword \<Rightarrow> 'm cpu \<Rightarrow> 'm cpu" where
  "STX_ZERO B addr clk_inc pc_inc s0 =
     (let s = CLK_ADD clk_inc s0 in INC_PC pc_inc (STORE_ZERO B addr (u32 (reg_x s)) s))"

definition STY :: "'m bus \<Rightarrow> dword \<Rightarrow> clock \<Rightarrow> dword \<Rightarrow> 'm cpu \<Rightarrow> 'm cpu" where
  "STY B tmp clk_inc pc_inc s0 =
     (let s = INC_PC pc_inc (CLK_ADD clk_inc s0) in STORE B tmp (u32 (reg_y s)) s)"

definition STY_ZERO :: "'m bus \<Rightarrow> dword \<Rightarrow> clock \<Rightarrow> dword \<Rightarrow> 'm cpu \<Rightarrow> 'm cpu" where
  "STY_ZERO B addr clk_inc pc_inc s0 =
     (let s = CLK_ADD clk_inc s0 in INC_PC pc_inc (STORE_ZERO B addr (u32 (reg_y s)) s))"

subsection \<open>Transfers\<close>

definition TAX :: "'m cpu \<Rightarrow> 'm cpu" where
  "TAX s = (let s1 = s\<lparr>reg_x := reg_a s\<rparr> in INC_PC 1 (LOCAL_SET_NZ (reg_x s1) s1))"

definition TAY :: "'m cpu \<Rightarrow> 'm cpu" where
  "TAY s = (let s1 = s\<lparr>reg_y := reg_a s\<rparr> in INC_PC 1 (LOCAL_SET_NZ (reg_y s1) s1))"

definition TSX :: "'m cpu \<Rightarrow> 'm cpu" where
  "TSX s = (let s1 = s\<lparr>reg_x := reg_sp s\<rparr> in INC_PC 1 (LOCAL_SET_NZ (reg_sp s1) s1))"

definition TXA :: "'m cpu \<Rightarrow> 'm cpu" where
  "TXA s = (let s1 = s\<lparr>reg_a := reg_x s\<rparr> in INC_PC 1 (LOCAL_SET_NZ (reg_x s1) s1))"

definition TXS :: "'m cpu \<Rightarrow> 'm cpu" where
  "TXS s = INC_PC 1 (s\<lparr>reg_sp := reg_x s\<rparr>)"

definition TYA :: "'m cpu \<Rightarrow> 'm cpu" where
  "TYA s = (let s1 = s\<lparr>reg_a := reg_y s\<rparr> in INC_PC 1 (LOCAL_SET_NZ (reg_y s1) s1))"

end
