(* ===== verification/Cpu6510_Core.thy ===== *)
theory Cpu6510_Core
  imports Cpu6510_Ops
begin

text \<open>
  The 6510 core, third part: interrupts, opcode fetch, the opcode switch and one pass of the main
  loop. \<open>None\<close> is a run of the alarm loop that does not end (see \<open>process_alarms\<close>). The switch
  is one list per row of sixteen opcodes, in the order of the opcode numbers.
\<close>

subsection \<open>Delays and reset\<close>

definition interrupt_check_nmi_delay :: "interrupt_cpu_status \<Rightarrow> clock \<Rightarrow> bool" where
  "interrupt_check_nmi_delay cs cpu_clk =
     (if last_opcode_info cs AND 0xFF = 0x00 then False
      else (let nmi_clk1 = nmi_clk cs + INTERRUPT_DELAY;
                nmi_clk2 = (if OPINFO_DELAYS_INTERRUPT (last_opcode_info cs) then nmi_clk1 + 1 else nmi_clk1)
            in cpu_clk \<ge> nmi_clk2))"

definition interrupt_check_irq_delay ::
  "interrupt_cpu_status \<Rightarrow> clock \<Rightarrow> bool \<times> interrupt_cpu_status" where
  "interrupt_check_irq_delay cs cpu_clk =
     (let irq_clk1 = irq_clk cs + INTERRUPT_DELAY;
          irq_clk2 = (if OPINFO_DELAYS_INTERRUPT (last_opcode_info cs) then irq_clk1 + 1 else irq_clk1)
      in if cpu_clk \<ge> irq_clk2 then
           (if \<not> OPINFO_ENABLES_IRQ (last_opcode_info cs) then (True, cs)
            else (False, cs\<lparr>global_pending_int := global_pending_int cs OR IK_IRQPEND\<rparr>))
         else (False, cs))"

definition upd_int :: "(interrupt_cpu_status \<Rightarrow> interrupt_cpu_status) \<Rightarrow> 'm cpu \<Rightarrow> 'm cpu" where
  "upd_int f = upd_mc (\<lambda>m. m\<lparr>int_status := f (int_status m)\<rparr>)"

abbreviation cpu_int :: "'m cpu \<Rightarrow> interrupt_cpu_status" where
  "cpu_int s \<equiv> int_status (mc s)"

definition call_ext :: "'m bus \<Rightarrow> ext_call \<Rightarrow> (dword, 'm) act" where
  "call_ext B c = with_mc (ext B c)"

definition run_ext :: "'m bus \<Rightarrow> ext_call \<Rightarrow> 'm cpu \<Rightarrow> 'm cpu" where
  "run_ext B c s = snd (call_ext B c s)"

definition cpu_reset :: "'m bus \<Rightarrow> 'm cpu \<Rightarrow> 'm cpu" where
  "cpu_reset B s =
     (let preserve_monitor = global_pending_int (cpu_int s) AND IK_MONITOR \<noteq> 0;
          s1 = upd_int interrupt_cpu_status_reset s;
          s2 = (if preserve_monitor then upd_int interrupt_monitor_trap_on s1 else s1)
      in run_ext B Machine_Reset (upd_mc (\<lambda>m. m\<lparr>CLK := 6\<rparr>) s2))"

text \<open>The operations of \<open>interrupt.h\<close> that call a trap function, on the whole state.\<close>

definition cpu_ack_nmi :: "'m bus \<Rightarrow> 'm cpu \<Rightarrow> 'm cpu" where
  "cpu_ack_nmi B s =
     (let (cs, f) = interrupt_ack_nmi (cpu_int s); s1 = upd_int (\<lambda>_. cs) s
      in case f of None \<Rightarrow> s1 | Some g \<Rightarrow> run_ext B (Nmi_Trap_Func g) s1)"

definition cpu_ack_reset :: "'m bus \<Rightarrow> 'm cpu \<Rightarrow> 'm cpu" where
  "cpu_ack_reset B s =
     (let (cs, f) = interrupt_ack_reset (cpu_int s); s1 = upd_int (\<lambda>_. cs) s
      in case f of None \<Rightarrow> s1 | Some g \<Rightarrow> run_ext B (Reset_Trap_Func g) s1)"

definition cpu_do_trap :: "'m bus \<Rightarrow> word16 \<Rightarrow> 'm cpu \<Rightarrow> 'm cpu" where
  "cpu_do_trap B addr s =
     (let (cs, f) = interrupt_do_trap (cpu_int s); s1 = upd_int (\<lambda>_. cs) s
      in case f of None \<Rightarrow> s1 | Some g \<Rightarrow> run_ext B (Trap_Func g addr) s1)"

definition jump_vector :: "'m bus \<Rightarrow> dword \<Rightarrow> 'm cpu \<Rightarrow> 'm cpu" where
  "jump_vector B addr s = (let (a, s1) = LOAD_ADDR B addr s in JUMP B a s1)"

subsection \<open>DO_INTERRUPT\<close>

abbreviation (input) MI_BREAK :: dword where "MI_BREAK \<equiv> 1"
abbreviation (input) MI_WATCH :: dword where "MI_WATCH \<equiv> 2"
abbreviation (input) MI_STEP :: dword where "MI_STEP \<equiv> 4"

definition monitor_step_interrupt :: "'m bus \<Rightarrow> 'm cpu \<Rightarrow> 'm cpu" where
  "monitor_step_interrupt B s =
     (let (mm, s1) = call_ext B Monitor_Mask s
      in if mm AND MI_STEP \<noteq> 0 then run_ext B Monitor_Check_Icount_Interrupt s1 else s1)"

definition nmi_now :: "'m cpu \<Rightarrow> bool" where
  "nmi_now s \<longleftrightarrow> global_pending_int (cpu_int s) AND IK_NMI \<noteq> 0
     \<and> CLK (mc s) \<ge> nmi_clk (cpu_int s) + INTERRUPT_DELAY"

text \<open>Whether an NMI or IRQ is taken; asking about the IRQ may leave it pending.\<close>

definition int_taken :: "dword \<Rightarrow> (bool, 'm) act" where
  "int_taken ik s =
     (if ik AND IK_NMI \<noteq> 0 \<and> interrupt_check_nmi_delay (cpu_int s) (CLK (mc s)) then (True, s)
      else if ik AND (IK_IRQ OR IK_IRQPEND) \<noteq> 0
              \<and> (\<not> LOCAL_INTERRUPT s \<or> OPINFO_DISABLES_IRQ (last_opcode_info (cpu_int s)))
      then (let (taken, cs) = interrupt_check_irq_delay (cpu_int s) (CLK (mc s))
            in (taken, upd_int (\<lambda>_. cs) s))
      else (False, s))"

definition int_sequence :: "'m bus \<Rightarrow> 'm cpu \<Rightarrow> 'm cpu option" where
  "int_sequence B s0 =
     (let s1 = monitor_step_interrupt B s0;
          s2 = CLK_ADD 1 (snd (FETCH_PARAM B (reg_pc (mc s1)) s1));
          s3 = CLK_ADD 1 (snd (FETCH_PARAM B (reg_pc (mc s2)) s2));
          s4 = LOCAL_SET_BREAK False s3;
          s5 = PUSH (drop_bit 8 (reg_pc (mc s4))) s4;
          s6 = CLK_ADD 2 (PUSH (reg_pc (mc s5) AND 0xFF) s5);
          s7 = CLK_ADD 1 (PUSH (u32 (LOCAL_STATUS s6)) s6)
      in case PROCESS_ALARMS B (LOCAL_SET_INTERRUPT True s7) of
           None \<Rightarrow> None
         | Some s8 \<Rightarrow>
             (let s9 = (if nmi_now s8 then jump_vector B 0xFFFA (cpu_ack_nmi B s8)
                        else jump_vector B 0xFFFE (upd_int interrupt_ack_irq s8))
              in Some (CLK_ADD 2 (SET_LAST_OPCODE 0 s9))))"

definition do_reset :: "'m bus \<Rightarrow> 'm cpu \<Rightarrow> 'm cpu" where
  "do_reset B s =
     (let s1 = cpu_reset B (cpu_ack_reset B s)
      in jump_vector B 0xFFFC (upd_mc (\<lambda>m. m\<lparr>bank_start := 0, bank_limit := 0\<rparr>) s1))"

definition do_trap_reset :: "'m bus \<Rightarrow> dword \<Rightarrow> 'm cpu \<Rightarrow> 'm cpu" where
  "do_trap_reset B ik s =
     (if ik AND IK_TRAP \<noteq> 0 then
        (let s1 = EXPORT_REGISTERS s;
             s2 = cpu_do_trap B (ucast (reg_pc (mc s1))) s1;
             s3 = IMPORT_REGISTERS B s2;
             ik1 = (if global_pending_int (cpu_int s3) AND IK_RESET \<noteq> 0 then ik OR IK_RESET else ik)
         in if ik1 AND IK_RESET \<noteq> 0 then do_reset B s3 else s3)
      else if ik AND IK_RESET \<noteq> 0 then do_reset B s else s)"

definition do_monitor :: "'m bus \<Rightarrow> 'm cpu \<Rightarrow> 'm cpu" where
  "do_monitor B s =
     (let (imp, s1) = call_ext B Monitor_Force_Import s;
          s2 = (if imp \<noteq> 0 then IMPORT_REGISTERS B s1 else s1);
          (m1, s3) = call_ext B Monitor_Mask s2;
          s4 = (if m1 \<noteq> 0 then EXPORT_REGISTERS s3 else s3);
          (m2, s5) = call_ext B Monitor_Mask s4;
          s6 = (if m2 AND MI_STEP \<noteq> 0
                then IMPORT_REGISTERS B (run_ext B (Monitor_Check_Icount (ucast (reg_pc (mc s5)))) s5)
                else s5);
          (m3, s7) = call_ext B Monitor_Mask s6;
          s8 = (if m3 AND MI_BREAK \<noteq> 0
                then (let (hit, t) = call_ext B (Monitor_Check_Breakpoints (ucast (reg_pc (mc s7)))) s7
                      in if hit \<noteq> 0 then IMPORT_REGISTERS B (run_ext B Monitor_Startup t) else t)
                else s7);
          (m4, s9) = call_ext B Monitor_Mask s8
      in if m4 AND MI_WATCH \<noteq> 0
         then IMPORT_REGISTERS B (run_ext B (Monitor_Check_Watchpoints (LAST_OPCODE_ADDR (mc s9))
                                               (ucast (reg_pc (mc s9)))) s9)
         else s9)"

definition do_dma :: "'m bus \<Rightarrow> 'm cpu \<Rightarrow> 'm cpu" where
  "do_dma B s = IMPORT_REGISTERS B (upd_int interrupt_ack_dma (run_ext B Dma_Func (EXPORT_REGISTERS s)))"

text \<open>The mask is kept in a byte.\<close>

definition DO_INTERRUPT :: "'m bus \<Rightarrow> dword \<Rightarrow> 'm cpu \<Rightarrow> 'm cpu option" where
  "DO_INTERRUPT B int_kind s0 =
     (let ik = int_kind AND 0xFF;
          r = (if ik AND (IK_IRQ OR IK_IRQPEND OR IK_NMI) \<noteq> 0
               then (let (taken, s) = int_taken ik s0 in if taken then int_sequence B s else Some s)
               else Some s0)
      in case r of
           None \<Rightarrow> None
         | Some s1 \<Rightarrow>
             (let s2 = (if ik AND (IK_TRAP OR IK_RESET) \<noteq> 0 then do_trap_reset B ik s1 else s1);
                  s3 = (if ik AND IK_MONITOR \<noteq> 0 then do_monitor B s2 else s2)
              in Some (if ik AND IK_DMA \<noteq> 0 then do_dma B s3 else s3)))"

subsection \<open>Fetch\<close>

record opcode_t =
  ins :: byte
  op16 :: word16

definition p1 :: "opcode_t \<Rightarrow> dword" where "p1 oc = ucast (op16 oc) AND 0xFF"
definition p2 :: "opcode_t \<Rightarrow> dword" where "p2 oc = ucast (op16 oc)"

definition fetch_tab :: "bool list" where
  "fetch_tab =
     (let even = replicate 12 False @ replicate 4 True;
          odd = replicate 9 False @ [True, False] @ replicate 5 True
      in concat (replicate 8 (even @ odd)))"

definition FETCH_OPCODE :: "'m bus \<Rightarrow> 'm cpu \<Rightarrow> opcode_t \<times> 'm cpu" where
  "FETCH_OPCODE B s =
     (let pc = reg_pc (mc s)
      in if pc <s bank_limit (mc s) then
           (let b = (\<lambda>i. bank_byte B (bank_base (mc s)) (pc + i) (mc s));
                o_ins = b 0;
                o_op = ucast (b 1) OR push_bit 8 (ucast (b 2));
                s1 = CLK_ADD 2 s
            in (\<lparr>ins = o_ins, op16 = o_op\<rparr>, if fetch_tab ! unat o_ins then CLK_ADD 1 s1 else s1))
         else
           (let (o_ins, s1) = LOAD B pc s;
                (lo, s2) = LOAD B (reg_pc (mc s1) + 1) (CLK_ADD 1 s1);
                s3 = CLK_ADD 1 s2
            in if fetch_tab ! unat o_ins
               then (let (hi, s4) = LOAD B (reg_pc (mc s3) + 2) s3
                     in (\<lparr>ins = o_ins, op16 = ucast lo OR push_bit 8 (ucast hi)\<rparr>, CLK_ADD 1 s4))
               else (\<lparr>ins = o_ins, op16 = ucast lo\<rparr>, s3)))"

definition SET_OPCODE :: "dword \<Rightarrow> opcode_t" where
  "SET_OPCODE d = \<lparr>ins = u8 d, op16 = ucast (drop_bit 8 d)\<rparr>"

definition REWIND_FETCH_OPCODE :: "'m cpu \<Rightarrow> 'm cpu" where
  "REWIND_FETCH_OPCODE s = upd_mc (\<lambda>m. m\<lparr>CLK := CLK m - 2\<rparr>) s"

subsection \<open>BRK and JAM\<close>

text \<open>
  An instruction may run the alarm loop (\<open>None\<close> when that does not end) and may ask for another
  opcode to be run in its place, which is the jump to \<open>trap_skipped\<close>.
\<close>

type_synonym 'm exec = "'m cpu \<Rightarrow> ('m cpu \<times> opcode_t option) option"

definition op :: "('m cpu \<Rightarrow> 'm cpu) \<Rightarrow> 'm exec" where
  "op f s = Some (f s, None)"

definition irq_now :: "'m cpu \<Rightarrow> bool" where
  "irq_now s \<longleftrightarrow> global_pending_int (cpu_int s) AND (IK_IRQ OR IK_IRQPEND) \<noteq> 0
     \<and> \<not> LOCAL_INTERRUPT s \<and> CLK (mc s) \<ge> irq_clk (cpu_int s) + INTERRUPT_DELAY"

definition BRK :: "'m bus \<Rightarrow> 'm exec" where
  "BRK B s0 =
     (let s1 = LOCAL_SET_BREAK True (INC_PC 2 (EXPORT_REGISTERS s0));
          s2 = PUSH (drop_bit 8 (reg_pc (mc s1))) s1;
          s3 = CLK_ADD (CLK_BRK - 3) (PUSH (reg_pc (mc s2) AND 0xFF) s2);
          s4 = CLK_ADD 1 (PUSH (u32 (LOCAL_STATUS s3)) s3)
      in case PROCESS_ALARMS B s4 of
           None \<Rightarrow> None
         | Some s5 \<Rightarrow>
             (let s6 =
                (if nmi_now s5
                 then jump_vector B 0xFFFA (cpu_ack_nmi B (monitor_step_interrupt B (LOCAL_SET_INTERRUPT True s5)))
                 else if irq_now s5
                 then jump_vector B 0xFFFE
                        (upd_int interrupt_ack_irq (monitor_step_interrupt B (LOCAL_SET_INTERRUPT True s5)))
                 else jump_vector B 0xFFFE (LOCAL_SET_INTERRUPT True s5))
              in Some (CLK_ADD 2 s6, None)))"

abbreviation (input) JAM_RESET :: dword where "JAM_RESET \<equiv> 1"
abbreviation (input) JAM_HARD_RESET :: dword where "JAM_HARD_RESET \<equiv> 2"
abbreviation (input) JAM_MONITOR :: dword where "JAM_MONITOR \<equiv> 3"

definition JAM :: "'m bus \<Rightarrow> 'm cpu \<Rightarrow> 'm cpu option" where
  "JAM B s =
     (let s1 = EXPORT_REGISTERS s;
          (tmp, s2) = call_ext B (Machine_Jam (reg_pc (mc s1))) s1
      in if tmp = JAM_RESET then DO_INTERRUPT B IK_RESET s2
         else if tmp = JAM_HARD_RESET then DO_INTERRUPT B IK_RESET (run_ext B Mem_Powerup s2)
         else if tmp = JAM_MONITOR then Some (IMPORT_REGISTERS B (run_ext B Monitor_Startup s2))
         else Some (CLK_ADD 1 s2))"

definition JAM_rewound :: "'m bus \<Rightarrow> 'm exec" where
  "JAM_rewound B s = map_option (\<lambda>t. (t, None)) (JAM B (REWIND_FETCH_OPCODE s))"

definition JAM_02 :: "'m bus \<Rightarrow> 'm exec" where
  "JAM_02 B s =
     (let s1 = EXPORT_REGISTERS s;
          (allowed, s2) = call_ext B (Rom_Trap_Allowed (ucast (reg_pc (mc s1)))) s1
      in if allowed = 0 then JAM_rewound B s2
         else (let (trap_result, s3) = call_ext B Traps_Handler s2
               in if trap_result = - 1 then JAM_rewound B s3
                  else if trap_result \<noteq> 0
                  then Some (IMPORT_REGISTERS B (REWIND_FETCH_OPCODE s3), Some (SET_OPCODE trap_result))
                  else Some (IMPORT_REGISTERS B s3, None)))"

subsection \<open>The opcode switch\<close>

definition row_0 :: "'m bus \<Rightarrow> opcode_t \<Rightarrow> 'm exec list" where
  "row_0 B oc =
    [BRK B,
     op (ORA (LOAD_IND_X B (p1 oc)) 1 2),
     JAM_02 B,
     op (SLO B (\<lambda>s. LOAD_ZERO_ADDR B (p1 oc + u32 (reg_x s)) s) 3 CLK_IND_X_RMW 2 LOAD_ABS STORE_ABS),
     op (NOOP 1 2),
     op (ORA (LOAD_ZERO B (p1 oc)) 1 2),
     op (ASL B (ret (p1 oc)) CLK_ZERO_RMW 2 LOAD_ZERO STORE_ABS),
     op (SLO B (ret (p1 oc)) 0 CLK_ZERO_RMW 2 LOAD_ZERO STORE_ABS),
     op PHP,
     op (ORA (imm (p1 oc)) 0 2),
     op ASL_A,
     op (ANC (imm (p1 oc)) 2),
     op (NOOP_ABS B (p2 oc)),
     op (ORA (LOAD B (p2 oc)) 1 3),
     op (ASL B (ret (p2 oc)) CLK_ABS_RMW2 3 LOAD_ABS STORE_ABS),
     op (SLO B (ret (p2 oc)) 0 CLK_ABS_RMW2 3 LOAD_ABS STORE_ABS)]"

definition row_1 :: "'m bus \<Rightarrow> opcode_t \<Rightarrow> 'm exec list" where
  "row_1 B oc =
    [op (\<lambda>s. BRANCH B (\<not> LOCAL_SIGN s) (p1 oc) s),
     op (ORA (LOAD_IND_Y B (p1 oc)) 1 2),
     JAM_rewound B,
     op (SLO_IND_Y B (p1 oc)),
     op (NOOP CLK_NOOP_ZERO_X 2),
     op (ORA (LOAD_ZERO_X B (p1 oc)) CLK_ZERO_I2 2),
     op (ASL B (\<lambda>s. (lo8 (p1 oc + u32 (reg_x s)), s)) CLK_ZERO_I_RMW 2 LOAD_ZERO STORE_ABS),
     op (SLO B (\<lambda>s. (lo8 (p1 oc + u32 (reg_x s)), s)) 0 CLK_ZERO_I_RMW 2 LOAD_ZERO STORE_ABS),
     op CLC,
     op (ORA (LOAD_ABS_Y B (p2 oc)) 1 3),
     op (NOOP_IMM 1),
     op (SLO B (ret (p2 oc)) 0 CLK_ABS_I_RMW2 3 LOAD_ABS_Y_RMW STORE_ABS_Y_RMW),
     op (NOOP_ABS_X B (p2 oc)),
     op (ORA (LOAD_ABS_X B (p2 oc)) 1 3),
     op (ASL B (ret (p2 oc)) CLK_ABS_I_RMW2 3 LOAD_ABS_X_RMW STORE_ABS_X_RMW),
     op (SLO B (ret (p2 oc)) 0 CLK_ABS_I_RMW2 3 LOAD_ABS_X_RMW STORE_ABS_X_RMW)]"

definition row_2 :: "'m bus \<Rightarrow> opcode_t \<Rightarrow> 'm exec list" where
  "row_2 B oc =
    [op (JSR B (p1 oc)),
     op (AND_op (LOAD_IND_X B (p1 oc)) 1 2),
     JAM_rewound B,
     op (RLA B (\<lambda>s. LOAD_ZERO_ADDR B (p1 oc + u32 (reg_x s)) s) 3 CLK_IND_X_RMW 2 LOAD_ABS STORE_ABS),
     op (BIT (LOAD_ZERO B (p1 oc)) 2),
     op (AND_op (LOAD_ZERO B (p1 oc)) 1 2),
     op (ROL B (ret (p1 oc)) CLK_ZERO_RMW 2 LOAD_ZERO STORE_ABS),
     op (RLA B (ret (p1 oc)) 0 CLK_ZERO_RMW 2 LOAD_ZERO STORE_ABS),
     op PLP,
     op (AND_op (imm (p1 oc)) 0 2),
     op ROL_A,
     op (ANC (imm (p1 oc)) 2),
     op (BIT (LOAD B (p2 oc)) 3),
     op (AND_op (LOAD B (p2 oc)) 1 3),
     op (ROL B (ret (p2 oc)) CLK_ABS_RMW2 3 LOAD_ABS STORE_ABS),
     op (RLA B (ret (p2 oc)) 0 CLK_ABS_RMW2 3 LOAD_ABS STORE_ABS)]"

definition row_3 :: "'m bus \<Rightarrow> opcode_t \<Rightarrow> 'm exec list" where
  "row_3 B oc =
    [op (\<lambda>s. BRANCH B (LOCAL_SIGN s) (p1 oc) s),
     op (AND_op (LOAD_IND_Y B (p1 oc)) 1 2),
     JAM_rewound B,
     op (RLA_IND_Y B (p1 oc)),
     op (NOOP CLK_NOOP_ZERO_X 2),
     op (AND_op (LOAD_ZERO_X B (p1 oc)) CLK_ZERO_I2 2),
     op (ROL B (\<lambda>s. (lo8 (p1 oc + u32 (reg_x s)), s)) CLK_ZERO_I_RMW 2 LOAD_ZERO STORE_ABS),
     op (RLA B (\<lambda>s. (lo8 (p1 oc + u32 (reg_x s)), s)) 0 CLK_ZERO_I_RMW 2 LOAD_ZERO STORE_ABS),
     op SEC,
     op (AND_op (LOAD_ABS_Y B (p2 oc)) 1 3),
     op (NOOP_IMM 1),
     op (RLA B (ret (p2 oc)) 0 CLK_ABS_I_RMW2 3 LOAD_ABS_Y_RMW STORE_ABS_Y_RMW),
     op (NOOP_ABS_X B (p2 oc)),
     op (AND_op (LOAD_ABS_X B (p2 oc)) 1 3),
     op (ROL B (ret (p2 oc)) CLK_ABS_I_RMW2 3 LOAD_ABS_X_RMW STORE_ABS_X_RMW),
     op (RLA B (ret (p2 oc)) 0 CLK_ABS_I_RMW2 3 LOAD_ABS_X_RMW STORE_ABS_X_RMW)]"

definition row_4 :: "'m bus \<Rightarrow> opcode_t \<Rightarrow> 'm exec list" where
  "row_4 B oc =
    [op (RTI B),
     op (EOR (LOAD_IND_X B (p1 oc)) 1 2),
     JAM_rewound B,
     op (SRE B (\<lambda>s. LOAD_ZERO_ADDR B (p1 oc + u32 (reg_x s)) s) 3 CLK_IND_X_RMW 2 LOAD_ABS STORE_ABS),
     op (NOOP 1 2),
     op (EOR (LOAD_ZERO B (p1 oc)) 1 2),
     op (LSR B (ret (p1 oc)) CLK_ZERO_RMW 2 LOAD_ZERO STORE_ABS),
     op (SRE B (ret (p1 oc)) 0 CLK_ZERO_RMW 2 LOAD_ZERO STORE_ABS),
     op PHA,
     op (EOR (imm (p1 oc)) 0 2),
     op LSR_A,
     op (ASR (imm (p1 oc)) 2),
     op (JMP B (p2 oc)),
     op (EOR (LOAD B (p2 oc)) 1 3),
     op (LSR B (ret (p2 oc)) CLK_ABS_RMW2 3 LOAD_ABS STORE_ABS),
     op (SRE B (ret (p2 oc)) 0 CLK_ABS_RMW2 3 LOAD_ABS STORE_ABS)]"

definition row_5 :: "'m bus \<Rightarrow> opcode_t \<Rightarrow> 'm exec list" where
  "row_5 B oc =
    [op (\<lambda>s. BRANCH B (\<not> LOCAL_OVERFLOW s) (p1 oc) s),
     op (EOR (LOAD_IND_Y B (p1 oc)) 1 2),
     JAM_rewound B,
     op (SRE_IND_Y B (p1 oc)),
     op (NOOP CLK_NOOP_ZERO_X 2),
     op (EOR (LOAD_ZERO_X B (p1 oc)) CLK_ZERO_I2 2),
     op (LSR B (\<lambda>s. (lo8 (p1 oc + u32 (reg_x s)), s)) CLK_ZERO_I_RMW 2 LOAD_ZERO STORE_ABS),
     op (SRE B (\<lambda>s. (lo8 (p1 oc + u32 (reg_x s)), s)) 0 CLK_ZERO_I_RMW 2 LOAD_ZERO STORE_ABS),
     op CLI,
     op (EOR (LOAD_ABS_Y B (p2 oc)) 1 3),
     op (NOOP_IMM 1),
     op (SRE B (ret (p2 oc)) 0 CLK_ABS_I_RMW2 3 LOAD_ABS_Y_RMW STORE_ABS_Y_RMW),
     op (NOOP_ABS_X B (p2 oc)),
     op (EOR (LOAD_ABS_X B (p2 oc)) 1 3),
     op (LSR B (ret (p2 oc)) CLK_ABS_I_RMW2 3 LOAD_ABS_X_RMW STORE_ABS_X_RMW),
     op (SRE B (ret (p2 oc)) 0 CLK_ABS_I_RMW2 3 LOAD_ABS_X_RMW STORE_ABS_X_RMW)]"

definition row_6 :: "'m bus \<Rightarrow> opcode_t \<Rightarrow> 'm exec list" where
  "row_6 B oc =
    [op (RTS B),
     op (ADC (LOAD_IND_X B (p1 oc)) 1 2),
     JAM_rewound B,
     op (RRA B (\<lambda>s. LOAD_ZERO_ADDR B (p1 oc + u32 (reg_x s)) s) 3 CLK_IND_X_RMW 2 LOAD_ABS STORE_ABS),
     op (NOOP 1 2),
     op (ADC (LOAD_ZERO B (p1 oc)) 1 2),
     op (ROR B (ret (p1 oc)) CLK_ZERO_RMW 2 LOAD_ZERO STORE_ABS),
     op (RRA B (ret (p1 oc)) 0 CLK_ZERO_RMW 2 LOAD_ZERO STORE_ABS),
     op PLA,
     op (ADC (imm (p1 oc)) 0 2),
     op ROR_A,
     op (ARR (imm (p1 oc)) 2),
     op (JMP_IND B (p2 oc)),
     op (ADC (LOAD B (p2 oc)) 1 3),
     op (ROR B (ret (p2 oc)) CLK_ABS_RMW2 3 LOAD_ABS STORE_ABS),
     op (RRA B (ret (p2 oc)) 0 CLK_ABS_RMW2 3 LOAD_ABS STORE_ABS)]"

definition row_7 :: "'m bus \<Rightarrow> opcode_t \<Rightarrow> 'm exec list" where
  "row_7 B oc =
    [op (\<lambda>s. BRANCH B (LOCAL_OVERFLOW s) (p1 oc) s),
     op (ADC (LOAD_IND_Y B (p1 oc)) 1 2),
     JAM_rewound B,
     op (RRA_IND_Y B (p1 oc)),
     op (NOOP CLK_NOOP_ZERO_X 2),
     op (ADC (LOAD_ZERO_X B (p1 oc)) CLK_ZERO_I2 2),
     op (ROR B (\<lambda>s. (lo8 (p1 oc + u32 (reg_x s)), s)) CLK_ZERO_I_RMW 2 LOAD_ZERO STORE_ABS),
     op (RRA B (\<lambda>s. (lo8 (p1 oc + u32 (reg_x s)), s)) 0 CLK_ZERO_I_RMW 2 LOAD_ZERO STORE_ABS),
     op SEI,
     op (ADC (LOAD_ABS_Y B (p2 oc)) 1 3),
     op (NOOP_IMM 1),
     op (RRA B (ret (p2 oc)) 0 CLK_ABS_I_RMW2 3 LOAD_ABS_Y_RMW STORE_ABS_Y_RMW),
     op (NOOP_ABS_X B (p2 oc)),
     op (ADC (LOAD_ABS_X B (p2 oc)) 1 3),
     op (ROR B (ret (p2 oc)) CLK_ABS_I_RMW2 3 LOAD_ABS_X_RMW STORE_ABS_X_RMW),
     op (RRA B (ret (p2 oc)) 0 CLK_ABS_I_RMW2 3 LOAD_ABS_X_RMW STORE_ABS_X_RMW)]"

definition row_8 :: "'m bus \<Rightarrow> opcode_t \<Rightarrow> 'm exec list" where
  "row_8 B oc =
    [op (NOOP_IMM 2),
     op (STA B (\<lambda>s. LOAD_ZERO_ADDR B (p1 oc + u32 (reg_x s)) s) 3 1 2 STORE_ABS),
     op (NOOP_IMM 2),
     op (SAX B (\<lambda>s. LOAD_ZERO_ADDR B (p1 oc + u32 (reg_x s)) s) 3 1 2),
     op (STY_ZERO B (p1 oc) 1 2),
     op (STA_ZERO B (p1 oc) 1 2),
     op (STX_ZERO B (p1 oc) 1 2),
     op (SAX_ZERO B (p1 oc) 1 2),
     op DEY,
     op (NOOP_IMM 2),
     op TXA,
     op (ANE (imm (p1 oc)) 2),
     op (STY B (p2 oc) 1 3),
     op (STA B (ret (p2 oc)) 0 1 3 STORE_ABS),
     op (STX B (p2 oc) 1 3),
     op (SAX B (ret (p2 oc)) 0 1 3)]"

definition row_9 :: "'m bus \<Rightarrow> opcode_t \<Rightarrow> 'm exec list" where
  "row_9 B oc =
    [op (\<lambda>s. BRANCH B (\<not> LOCAL_CARRY s) (p1 oc) s),
     op (STA_IND_Y B (p1 oc)),
     JAM_rewound B,
     op (SHA_IND_Y B (p1 oc)),
     op (\<lambda>s. STY_ZERO B (p1 oc + u32 (reg_x s)) CLK_ZERO_I_STORE 2 s),
     op (\<lambda>s. STA_ZERO B (p1 oc + u32 (reg_x s)) CLK_ZERO_I_STORE 2 s),
     op (\<lambda>s. STX_ZERO B (p1 oc + u32 (reg_y s)) CLK_ZERO_I_STORE 2 s),
     op (SAX B (\<lambda>s. (lo8 (p1 oc + u32 (reg_y s)), s)) 0 CLK_ZERO_I_STORE 2),
     op TYA,
     op (STA B (ret (p2 oc)) 0 CLK_ABS_I_STORE2 3 STORE_ABS_Y),
     op TXS,
     op (SHS_ABS_Y B (p2 oc)),
     op (SHY_ABS_X B (p2 oc)),
     op (STA B (ret (p2 oc)) 0 CLK_ABS_I_STORE2 3 STORE_ABS_X),
     op (SHX_ABS_Y B (p2 oc)),
     op (SHA_ABS_Y B (p2 oc))]"

definition row_A :: "'m bus \<Rightarrow> opcode_t \<Rightarrow> 'm exec list" where
  "row_A B oc =
    [op (LDY (imm (p1 oc)) 0 2),
     op (LDA (LOAD_IND_X B (p1 oc)) 1 2),
     op (LDX (imm (p1 oc)) 0 2),
     op (LAX (LOAD_IND_X B (p1 oc)) 1 2),
     op (LDY (LOAD_ZERO B (p1 oc)) 1 2),
     op (LDA (LOAD_ZERO B (p1 oc)) 1 2),
     op (LDX (LOAD_ZERO B (p1 oc)) 1 2),
     op (LAX (LOAD_ZERO B (p1 oc)) 1 2),
     op TAY,
     op (LDA (imm (p1 oc)) 0 2),
     op TAX,
     op (LXA (imm (p1 oc)) 2),
     op (LDY (LOAD B (p2 oc)) 1 3),
     op (LDA (LOAD B (p2 oc)) 1 3),
     op (LDX (LOAD B (p2 oc)) 1 3),
     op (LAX (LOAD B (p2 oc)) 1 3)]"

definition row_B :: "'m bus \<Rightarrow> opcode_t \<Rightarrow> 'm exec list" where
  "row_B B oc =
    [op (\<lambda>s. BRANCH B (LOCAL_CARRY s) (p1 oc) s),
     op (LDA (LOAD_IND_Y_BANK B (p1 oc)) 1 2),
     JAM_rewound B,
     op (LAX (LOAD_IND_Y B (p1 oc)) 1 2),
     op (LDY (LOAD_ZERO_X B (p1 oc)) CLK_ZERO_I2 2),
     op (LDA (LOAD_ZERO_X B (p1 oc)) CLK_ZERO_I2 2),
     op (LDX (LOAD_ZERO_Y B (p1 oc)) CLK_ZERO_I2 2),
     op (LAX (LOAD_ZERO_Y B (p1 oc)) CLK_ZERO_I2 2),
     op CLV,
     op (LDA (LOAD_ABS_Y B (p2 oc)) 1 3),
     op TSX,
     op (LAS (LOAD_ABS_Y B (p2 oc)) 1 3),
     op (LDY (LOAD_ABS_X B (p2 oc)) 1 3),
     op (LDA (LOAD_ABS_X B (p2 oc)) 1 3),
     op (LDX (LOAD_ABS_Y B (p2 oc)) 1 3),
     op (LAX (LOAD_ABS_Y B (p2 oc)) 1 3)]"

definition row_C :: "'m bus \<Rightarrow> opcode_t \<Rightarrow> 'm exec list" where
  "row_C B oc =
    [op (CPY (imm (p1 oc)) 0 2),
     op (CMP (LOAD_IND_X B (p1 oc)) 1 2),
     op (NOOP_IMM 2),
     op (DCP B (\<lambda>s. LOAD_ZERO_ADDR B (p1 oc + u32 (reg_x s)) s) 3 CLK_IND_X_RMW 2 LOAD_ABS STORE_ABS),
     op (CPY (LOAD_ZERO B (p1 oc)) 1 2),
     op (CMP (LOAD_ZERO B (p1 oc)) 1 2),
     op (DEC B (ret (p1 oc)) CLK_ZERO_RMW 2 LOAD_ZERO STORE_ABS),
     op (DCP B (ret (p1 oc)) 0 CLK_ZERO_RMW 2 LOAD_ZERO STORE_ABS),
     op INY,
     op (CMP (imm (p1 oc)) 0 2),
     op DEX,
     op (SBX (imm (p1 oc)) 2),
     op (CPY (LOAD B (p2 oc)) 1 3),
     op (CMP (LOAD B (p2 oc)) 1 3),
     op (DEC B (ret (p2 oc)) CLK_ABS_RMW2 3 LOAD_ABS STORE_ABS),
     op (DCP B (ret (p2 oc)) 0 CLK_ABS_RMW2 3 LOAD_ABS STORE_ABS)]"

definition row_D :: "'m bus \<Rightarrow> opcode_t \<Rightarrow> 'm exec list" where
  "row_D B oc =
    [op (\<lambda>s. BRANCH B (\<not> LOCAL_ZERO s) (p1 oc) s),
     op (CMP (LOAD_IND_Y B (p1 oc)) 1 2),
     JAM_rewound B,
     op (DCP_IND_Y B (p1 oc)),
     op (NOOP CLK_NOOP_ZERO_X 2),
     op (CMP (LOAD_ZERO_X B (p1 oc)) CLK_ZERO_I2 2),
     op (DEC B (\<lambda>s. (lo8 (p1 oc + u32 (reg_x s)), s)) CLK_ZERO_I_RMW 2 LOAD_ABS STORE_ABS),
     op (DCP B (\<lambda>s. (lo8 (p1 oc + u32 (reg_x s)), s)) 0 CLK_ZERO_I_RMW 2 LOAD_ABS STORE_ABS),
     op CLD,
     op (CMP (LOAD_ABS_Y B (p2 oc)) 1 3),
     op (NOOP_IMM 1),
     op (DCP B (ret (p2 oc)) 0 CLK_ABS_I_RMW2 3 LOAD_ABS_Y_RMW STORE_ABS_Y_RMW),
     op (NOOP_ABS_X B (p2 oc)),
     op (CMP (LOAD_ABS_X B (p2 oc)) 1 3),
     op (DEC B (ret (p2 oc)) CLK_ABS_I_RMW2 3 LOAD_ABS_X_RMW STORE_ABS_X_RMW),
     op (DCP B (ret (p2 oc)) 0 CLK_ABS_I_RMW2 3 LOAD_ABS_X_RMW STORE_ABS_X_RMW)]"

definition row_E :: "'m bus \<Rightarrow> opcode_t \<Rightarrow> 'm exec list" where
  "row_E B oc =
    [op (CPX (imm (p1 oc)) 0 2),
     op (SBC (LOAD_IND_X B (p1 oc)) 1 2),
     op (NOOP_IMM 2),
     op (ISB B (\<lambda>s. LOAD_ZERO_ADDR B (p1 oc + u32 (reg_x s)) s) 3 CLK_IND_X_RMW 2 LOAD_ABS STORE_ABS),
     op (CPX (LOAD_ZERO B (p1 oc)) 1 2),
     op (SBC (LOAD_ZERO B (p1 oc)) 1 2),
     op (INC B (ret (p1 oc)) CLK_ZERO_RMW 2 LOAD_ZERO STORE_ABS),
     op (ISB B (ret (p1 oc)) 0 CLK_ZERO_RMW 2 LOAD_ZERO STORE_ABS),
     op INX,
     op (SBC (imm (p1 oc)) 0 2),
     op NOP,
     op (SBC (imm (p1 oc)) 0 2),
     op (CPX (LOAD B (p2 oc)) 1 3),
     op (SBC (LOAD B (p2 oc)) 1 3),
     op (INC B (ret (p2 oc)) CLK_ABS_RMW2 3 LOAD_ABS STORE_ABS),
     op (ISB B (ret (p2 oc)) 0 CLK_ABS_RMW2 3 LOAD_ABS STORE_ABS)]"

definition row_F :: "'m bus \<Rightarrow> opcode_t \<Rightarrow> 'm exec list" where
  "row_F B oc =
    [op (\<lambda>s. BRANCH B (LOCAL_ZERO s) (p1 oc) s),
     op (SBC (LOAD_IND_Y B (p1 oc)) 1 2),
     JAM_rewound B,
     op (ISB_IND_Y B (p1 oc)),
     op (NOOP CLK_NOOP_ZERO_X 2),
     op (SBC (LOAD_ZERO_X B (p1 oc)) CLK_ZERO_I2 2),
     op (INC B (\<lambda>s. (lo8 (p1 oc + u32 (reg_x s)), s)) CLK_ZERO_I_RMW 2 LOAD_ZERO STORE_ABS),
     op (ISB B (\<lambda>s. (lo8 (p1 oc + u32 (reg_x s)), s)) 0 CLK_ZERO_I_RMW 2 LOAD_ZERO STORE_ABS),
     op SED,
     op (SBC (LOAD_ABS_Y B (p2 oc)) 1 3),
     op (NOOP_IMM 1),
     op (ISB B (ret (p2 oc)) 0 CLK_ABS_I_RMW2 3 LOAD_ABS_Y_RMW STORE_ABS_Y_RMW),
     op (NOOP_ABS_X B (p2 oc)),
     op (SBC (LOAD_ABS_X B (p2 oc)) 1 3),
     op (INC B (ret (p2 oc)) CLK_ABS_I_RMW2 3 LOAD_ABS_X_RMW STORE_ABS_X_RMW),
     op (ISB B (ret (p2 oc)) 0 CLK_ABS_I_RMW2 3 LOAD_ABS_X_RMW STORE_ABS_X_RMW)]"

definition opcode_rows :: "'m bus \<Rightarrow> opcode_t \<Rightarrow> 'm exec list list" where
  "opcode_rows B oc =
     [row_0 B oc, row_1 B oc, row_2 B oc, row_3 B oc, row_4 B oc, row_5 B oc, row_6 B oc, row_7 B oc,
      row_8 B oc, row_9 B oc, row_A B oc, row_B B oc, row_C B oc, row_D B oc, row_E B oc, row_F B oc]"

definition exec_opcode :: "'m bus \<Rightarrow> opcode_t \<Rightarrow> 'm exec" where
  "exec_opcode B oc s =
     (opcode_rows B oc ! unat (drop_bit 4 (ins oc)) ! unat (ins oc AND 0xF))
       (SET_LAST_OPCODE (u32 (ins oc)) s)"

partial_function (option) run_opcode :: "'m bus \<Rightarrow> opcode_t \<Rightarrow> 'm cpu \<Rightarrow> 'm cpu option" where
  "run_opcode B oc s =
     (case exec_opcode B oc s of
        None \<Rightarrow> None
      | Some r \<Rightarrow> (case snd r of None \<Rightarrow> Some (fst r) | Some oc' \<Rightarrow> run_opcode B oc' (fst r)))"

subsection \<open>One pass of the main loop\<close>

text \<open>\<open>IK_IRQPEND\<close> alone is dropped once its clock has passed, and after an interrupt.\<close>

definition only_irqpend :: "'m cpu \<Rightarrow> bool" where
  "only_irqpend s \<longleftrightarrow> global_pending_int (cpu_int s) AND IK_IRQ = 0
     \<and> global_pending_int (cpu_int s) AND IK_IRQPEND \<noteq> 0"

definition handle_pending :: "'m bus \<Rightarrow> 'm cpu \<Rightarrow> 'm cpu option" where
  "handle_pending B s0 =
     (let s1 = (if only_irqpend s0 \<and> irq_pending_clk (cpu_int s0) \<le> CLK (mc s0)
                then upd_int interrupt_ack_irq s0 else s0);
          pending_interrupt = global_pending_int (cpu_int s1)
      in if pending_interrupt \<noteq> IK_NONE then
           (case DO_INTERRUPT B pending_interrupt s1 of
              None \<Rightarrow> None
            | Some s2 \<Rightarrow> PROCESS_ALARMS B
                (if only_irqpend s2
                 then upd_int (\<lambda>cs. cs\<lparr>global_pending_int := global_pending_int cs AND NOT IK_IRQPEND\<rparr>) s2
                 else s2))
         else Some s1)"

definition cpu_step :: "'m bus \<Rightarrow> 'm cpu \<Rightarrow> 'm cpu option" where
  "cpu_step B s0 =
     (case PROCESS_ALARMS B s0 of None \<Rightarrow> None | Some s1 \<Rightarrow>
       (case handle_pending B s1 of None \<Rightarrow> None | Some s2 \<Rightarrow>
         (let s3 = upd_mc (\<lambda>m. m\<lparr>LAST_OPCODE_ADDR := reg_pc m\<rparr>) s2;
              (oc, s4) = FETCH_OPCODE B s3
          in case run_opcode B oc s4 of None \<Rightarrow> None | Some s5 \<Rightarrow>
               Some (upd_int (\<lambda>cs. cs\<lparr>num_dma_per_opcode := 0\<rparr>) s5))))"

fun cpu_run :: "'m bus \<Rightarrow> nat \<Rightarrow> 'm cpu \<Rightarrow> 'm cpu option" where
  "cpu_run B 0 s = Some s"
| "cpu_run B (Suc n) s = (case cpu_step B s of None \<Rightarrow> None | Some t \<Rightarrow> cpu_run B n t)"

end
