(* ===== verification/Cpu6510_Arith.thy ===== *)
theory Cpu6510_Arith
  imports Cpu6510_Core
begin

text \<open>
  The 6510 arithmetic: what \<open>ADC\<close>, \<open>SBC\<close> and the comparisons compute, in binary and in decimal
  mode, as arithmetic on numbers, and the round trips of the status register.
\<close>

subsection \<open>Flags\<close>

text \<open>The effect of the flag macros on each other, on the registers and on the machine.\<close>

lemma upd_mc_simps [simp]:
  "reg_a (upd_mc f s) = reg_a s" "reg_x (upd_mc f s) = reg_x s" "reg_y (upd_mc f s) = reg_y s"
  "reg_p (upd_mc f s) = reg_p s" "reg_sp (upd_mc f s) = reg_sp s" "flag_n (upd_mc f s) = flag_n s"
  "flag_z (upd_mc f s) = flag_z s" "mc (upd_mc f s) = f (mc s)"
  by (simp_all add: upd_mc_def)

lemma regs_of_clock [simp]:
  "reg_a (CLK_ADD c s) = reg_a s" "reg_a (INC_PC n s) = reg_a s" "reg_a (SET_RMW b s) = reg_a s"
  "reg_x (CLK_ADD c s) = reg_x s" "reg_x (INC_PC n s) = reg_x s" "reg_x (SET_RMW b s) = reg_x s"
  "reg_y (CLK_ADD c s) = reg_y s" "reg_y (INC_PC n s) = reg_y s" "reg_y (SET_RMW b s) = reg_y s"
  "reg_p (CLK_ADD c s) = reg_p s" "reg_p (INC_PC n s) = reg_p s" "reg_p (SET_RMW b s) = reg_p s"
  "reg_sp (CLK_ADD c s) = reg_sp s" "reg_sp (INC_PC n s) = reg_sp s" "reg_sp (SET_RMW b s) = reg_sp s"
  "flag_n (CLK_ADD c s) = flag_n s" "flag_n (INC_PC n s) = flag_n s" "flag_n (SET_RMW b s) = flag_n s"
  "flag_z (CLK_ADD c s) = flag_z s" "flag_z (INC_PC n s) = flag_z s" "flag_z (SET_RMW b s) = flag_z s"
  by (simp_all add: CLK_ADD_def INC_PC_def SET_RMW_def)

lemmas clk_pc_defs = CLK_ADD_def INC_PC_def SET_RMW_def

lemmas set_flag_defs = LOCAL_SET_OVERFLOW_def LOCAL_SET_BREAK_def LOCAL_SET_DECIMAL_def
  LOCAL_SET_INTERRUPT_def LOCAL_SET_CARRY_def LOCAL_SET_SIGN_def LOCAL_SET_ZERO_def LOCAL_SET_NZ_def
  set_p_def

lemmas get_flag_defs = LOCAL_OVERFLOW_def LOCAL_DECIMAL_def LOCAL_INTERRUPT_def LOCAL_CARRY_def
  LOCAL_SIGN_def LOCAL_ZERO_def

text \<open>The status bits, bit by bit.\<close>

lemma p_bits:
  "bit P_SIGN n \<longleftrightarrow> n = 7" "bit P_OVERFLOW n \<longleftrightarrow> n = 6" "bit P_UNUSED n \<longleftrightarrow> n = 5"
  "bit P_BREAK n \<longleftrightarrow> n = 4" "bit P_DECIMAL n \<longleftrightarrow> n = 3" "bit P_INTERRUPT n \<longleftrightarrow> n = 2"
  "bit P_ZERO n \<longleftrightarrow> n = 1" "bit P_CARRY n \<longleftrightarrow> n = 0"
proof -
  have pw: "P_SIGN = push_bit 7 1" "P_OVERFLOW = push_bit 6 1" "P_UNUSED = push_bit 5 1"
    "P_BREAK = push_bit 4 1" "P_DECIMAL = push_bit 3 1" "P_INTERRUPT = push_bit 2 1"
    "P_ZERO = push_bit 1 1" "P_CARRY = push_bit 0 1"
    by (simp_all add: P_defs)
  show "bit P_SIGN n \<longleftrightarrow> n = 7" "bit P_OVERFLOW n \<longleftrightarrow> n = 6" "bit P_UNUSED n \<longleftrightarrow> n = 5"
    "bit P_BREAK n \<longleftrightarrow> n = 4" "bit P_DECIMAL n \<longleftrightarrow> n = 3" "bit P_INTERRUPT n \<longleftrightarrow> n = 2"
    "bit P_ZERO n \<longleftrightarrow> n = 1" "bit P_CARRY n \<longleftrightarrow> n = 0"
    unfolding pw bit_push_bit_iff bit_1_iff by auto
qed

lemma and_pow_test: "(x::'a::len word) AND push_bit n 1 = 0 \<longleftrightarrow> \<not> bit x n"
  by (simp only: bit_iff_and_push_bit_not_eq_0 not_not)

lemma p_tests:
  "x AND P_SIGN = 0 \<longleftrightarrow> \<not> bit x 7" "x AND P_OVERFLOW = 0 \<longleftrightarrow> \<not> bit x 6"
  "x AND P_DECIMAL = 0 \<longleftrightarrow> \<not> bit x 3" "x AND P_INTERRUPT = 0 \<longleftrightarrow> \<not> bit x 2"
  "x AND P_ZERO = 0 \<longleftrightarrow> \<not> bit x 1" "x AND P_CARRY = 0 \<longleftrightarrow> \<not> bit x 0"
  using and_pow_test[of x 7] and_pow_test[of x 6] and_pow_test[of x 3] and_pow_test[of x 2]
    and_pow_test[of x 1] and_pow_test[of x 0]
  by (simp_all add: P_defs)

lemma mask_tests:
  "(x::dword) AND 0x80 = 0 \<longleftrightarrow> \<not> bit x 7" "(y::word16) AND 0x80 = 0 \<longleftrightarrow> \<not> bit y 7"
  "(z::byte) AND 0x80 = 0 \<longleftrightarrow> \<not> bit z 7" "(z::byte) AND 0x40 = 0 \<longleftrightarrow> \<not> bit z 6"
  using and_pow_test[of x 7] and_pow_test[of y 7] and_pow_test[of z 7] and_pow_test[of z 6]
  by simp_all

lemma bit_not_byte: "bit (NOT (x::byte)) n \<longleftrightarrow> n < 8 \<and> \<not> bit x n"
  by (simp add: bit_simps)

lemmas flag_bits = p_bits p_tests mask_tests bit_or_iff bit_and_iff bit_xor_iff bit_not_byte

text \<open>Reading back what was set.\<close>

lemma get_set_flags [simp]:
  "LOCAL_CARRY (LOCAL_SET_CARRY v s) = v" "LOCAL_CARRY (LOCAL_SET_OVERFLOW v s) = LOCAL_CARRY s"
  "LOCAL_CARRY (LOCAL_SET_NZ b s) = LOCAL_CARRY s" "LOCAL_CARRY (LOCAL_SET_SIGN v s) = LOCAL_CARRY s"
  "LOCAL_CARRY (LOCAL_SET_ZERO v s) = LOCAL_CARRY s" "LOCAL_CARRY (INC_PC n s) = LOCAL_CARRY s"
  "LOCAL_CARRY (CLK_ADD c s) = LOCAL_CARRY s" "LOCAL_CARRY (s\<lparr>reg_a := b\<rparr>) = LOCAL_CARRY s"
  "LOCAL_OVERFLOW (LOCAL_SET_CARRY v s) = LOCAL_OVERFLOW s" "LOCAL_OVERFLOW (LOCAL_SET_OVERFLOW v s) = v"
  "LOCAL_OVERFLOW (LOCAL_SET_NZ b s) = LOCAL_OVERFLOW s" "LOCAL_OVERFLOW (LOCAL_SET_SIGN v s) = LOCAL_OVERFLOW s"
  "LOCAL_OVERFLOW (LOCAL_SET_ZERO v s) = LOCAL_OVERFLOW s" "LOCAL_OVERFLOW (INC_PC n s) = LOCAL_OVERFLOW s"
  "LOCAL_OVERFLOW (CLK_ADD c s) = LOCAL_OVERFLOW s" "LOCAL_OVERFLOW (s\<lparr>reg_a := b\<rparr>) = LOCAL_OVERFLOW s"
  "LOCAL_DECIMAL (LOCAL_SET_CARRY v s) = LOCAL_DECIMAL s" "LOCAL_DECIMAL (LOCAL_SET_OVERFLOW v s) = LOCAL_DECIMAL s"
  "LOCAL_DECIMAL (LOCAL_SET_NZ b s) = LOCAL_DECIMAL s" "LOCAL_DECIMAL (LOCAL_SET_SIGN v s) = LOCAL_DECIMAL s"
  "LOCAL_DECIMAL (LOCAL_SET_ZERO v s) = LOCAL_DECIMAL s" "LOCAL_DECIMAL (INC_PC n s) = LOCAL_DECIMAL s"
  "LOCAL_DECIMAL (CLK_ADD c s) = LOCAL_DECIMAL s" "LOCAL_DECIMAL (s\<lparr>reg_a := b\<rparr>) = LOCAL_DECIMAL s"
  by (simp_all add: set_flag_defs get_flag_defs clk_pc_defs flag_bits)

lemma get_nz [simp]:
  "LOCAL_ZERO (LOCAL_SET_NZ b s) \<longleftrightarrow> b = 0" "LOCAL_SIGN (LOCAL_SET_NZ b s) \<longleftrightarrow> bit b 7"
  "LOCAL_ZERO (LOCAL_SET_CARRY v s) = LOCAL_ZERO s" "LOCAL_SIGN (LOCAL_SET_CARRY v s) = LOCAL_SIGN s"
  "LOCAL_ZERO (LOCAL_SET_OVERFLOW v s) = LOCAL_ZERO s" "LOCAL_SIGN (LOCAL_SET_OVERFLOW v s) = LOCAL_SIGN s"
  "LOCAL_ZERO (LOCAL_SET_SIGN v s) = LOCAL_ZERO s" "LOCAL_SIGN (LOCAL_SET_SIGN v s) = v"
  "LOCAL_ZERO (LOCAL_SET_ZERO v s) = v" "LOCAL_SIGN (LOCAL_SET_ZERO v s) = LOCAL_SIGN s"
  "LOCAL_ZERO (INC_PC n s) = LOCAL_ZERO s" "LOCAL_SIGN (INC_PC n s) = LOCAL_SIGN s"
  "LOCAL_ZERO (CLK_ADD c s) = LOCAL_ZERO s" "LOCAL_SIGN (CLK_ADD c s) = LOCAL_SIGN s"
  "LOCAL_ZERO (s\<lparr>reg_a := a\<rparr>) = LOCAL_ZERO s" "LOCAL_SIGN (s\<lparr>reg_a := a\<rparr>) = LOCAL_SIGN s"
  by (simp_all add: set_flag_defs get_flag_defs clk_pc_defs flag_bits)

lemma regs_of_flags [simp]:
  "reg_a (LOCAL_SET_CARRY v s) = reg_a s" "reg_a (LOCAL_SET_OVERFLOW v s) = reg_a s"
  "reg_a (LOCAL_SET_NZ b s) = reg_a s" "reg_a (LOCAL_SET_SIGN v s) = reg_a s" "reg_a (LOCAL_SET_ZERO v s) = reg_a s"
  "reg_x (LOCAL_SET_CARRY v s) = reg_x s" "reg_x (LOCAL_SET_OVERFLOW v s) = reg_x s"
  "reg_x (LOCAL_SET_NZ b s) = reg_x s" "reg_x (LOCAL_SET_SIGN v s) = reg_x s" "reg_x (LOCAL_SET_ZERO v s) = reg_x s"
  "reg_y (LOCAL_SET_CARRY v s) = reg_y s" "reg_y (LOCAL_SET_OVERFLOW v s) = reg_y s"
  "reg_y (LOCAL_SET_NZ b s) = reg_y s" "reg_y (LOCAL_SET_SIGN v s) = reg_y s" "reg_y (LOCAL_SET_ZERO v s) = reg_y s"
  "reg_sp (LOCAL_SET_CARRY v s) = reg_sp s" "reg_sp (LOCAL_SET_OVERFLOW v s) = reg_sp s"
  "reg_sp (LOCAL_SET_NZ b s) = reg_sp s" "reg_sp (LOCAL_SET_SIGN v s) = reg_sp s" "reg_sp (LOCAL_SET_ZERO v s) = reg_sp s"
  "reg_a (LOCAL_SET_STATUS b s) = reg_a s" "reg_x (LOCAL_SET_STATUS b s) = reg_x s"
  "reg_y (LOCAL_SET_STATUS b s) = reg_y s" "reg_sp (LOCAL_SET_STATUS b s) = reg_sp s"
  by (simp_all add: set_flag_defs LOCAL_SET_STATUS_def)

lemma mc_of_flags [simp]:
  "mc (LOCAL_SET_CARRY v s) = mc s" "mc (LOCAL_SET_OVERFLOW v s) = mc s" "mc (LOCAL_SET_NZ b s) = mc s"
  "mc (LOCAL_SET_SIGN v s) = mc s" "mc (LOCAL_SET_ZERO v s) = mc s" "mc (LOCAL_SET_INTERRUPT v s) = mc s"
  "mc (LOCAL_SET_BREAK v s) = mc s" "mc (LOCAL_SET_DECIMAL v s) = mc s" "mc (LOCAL_SET_STATUS b s) = mc s"
  by (simp_all add: set_flag_defs LOCAL_SET_STATUS_def)

lemma mc_of_clock [simp]:
  "mc (CLK_ADD c s) = (mc s)\<lparr>CLK := CLK (mc s) + c\<rparr>"
  "mc (INC_PC n s) = (mc s)\<lparr>reg_pc := reg_pc (mc s) + n\<rparr>"
  "mc (SET_RMW b s) = (mc s)\<lparr>RMW_FLAG := b\<rparr>"
  by (simp_all add: clk_pc_defs)

lemma status_of_clock [simp]:
  "LOCAL_STATUS (CLK_ADD c s) = LOCAL_STATUS s" "LOCAL_STATUS (INC_PC n s) = LOCAL_STATUS s"
  "LOCAL_STATUS (upd_mc f s) = LOCAL_STATUS s"
  by (simp_all add: LOCAL_STATUS_def LOCAL_ZERO_def)

subsection \<open>An example state\<close>

definition example_machine :: "unit machine" where
  "example_machine =
     \<lparr>CLK = 0, reg_pc = 0x1000, RMW_FLAG = False, LAST_OPCODE_ADDR = 0, int_status = two_sources,
      alarm_ctx = example_idle, bank_base = 0, bank_start = 0, bank_limit = 0,
      maincpu_regs = \<lparr>r_pc = 0, r_a = 0, r_x = 0, r_y = 0, r_sp = 0, r_p = 0, r_n = 0, r_z = 0\<rparr>,
      mem_ram = (\<lambda>_. 0), dev = ()\<rparr>"

definition example_cpu :: "unit cpu" where
  "example_cpu = \<lparr>reg_a = 0, reg_x = 0, reg_y = 0, reg_p = 0, reg_sp = 0xFF, flag_n = 0, flag_z = 1,
     mc = example_machine\<rparr>"

subsection \<open>Decimal and binary addition\<close>

lemma decimal_digits:
  fixes al vl ah vh :: nat and c :: nat
  assumes "al \<le> 9" "vl \<le> 9" "ah \<le> 9" "vh \<le> 9" "c \<le> 1"
  defines "t1 \<equiv> (if al + vl + c > 9 then al + vl + c + 6 else al + vl + c)"
  defines "t2 \<equiv> (if t1 \<le> 15 then t1 mod 16 + 16 * ah + 16 * vh else t1 mod 16 + 16 * ah + 16 * vh + 16)"
  defines "t3 \<equiv> (if t2 div 16 mod 32 * 16 > 144 then t2 + 96 else t2)"
  defines "tot \<equiv> 10 * ah + al + (10 * vh + vl) + c"
  shows "t3 mod 256 = 16 * (tot mod 100 div 10) + tot mod 10"
    and "t3 div 16 mod 256 * 16 > 240 \<longleftrightarrow> tot \<ge> 100" "t1 < 32" "t2 < 400" "t3 < 500"
proof -
  define k where "k = (if al + vl + c > 9 then 1 else 0 :: nat)"
  define lo where "lo = al + vl + c - 10 * k"
  define h where "h = ah + vh + k"
  define j where "j = (if h > 9 then 1 else 0 :: nat)"
  have lo: "lo \<le> 9" and lo': "al + vl + c = lo + 10 * k" and h: "h \<le> 19"
    using assms(1-5) by (auto simp: lo_def k_def h_def)
  have t1: "t1 = lo + 16 * k" using lo' unfolding t1_def k_def by (cases "al + vl + c > 9") (simp_all (no_asm_use), simp_all)
  have t2: "t2 = lo + 16 * h" using lo by (simp add: t2_def t1 h_def k_def)
  have t2h: "t2 div 16 = h" using lo by (simp add: t2)
  have t3: "t3 = lo + 16 * (h + 6 * j)" using h unfolding t3_def t2h by (simp add: t2 j_def)
  have t3h: "t3 div 16 = h + 6 * j" using lo unfolding t3 mod_mult_self2 by simp
  have s: "tot = 10 * h + lo" using lo' by (simp add: tot_def h_def)
  have s10: "tot mod 10 = lo" "tot div 10 = h" using lo by (simp_all add: s)
  have hd: "tot mod 100 div 10 = h - 10 * j"
  proof -
    have "tot mod 100 div 10 = tot div 10 mod 10" using mod_mult2_eq[of tot 10 10] by simp
    moreover have "h mod 10 = h - 10 * j" using h by (simp add: j_def le_mod_geq)
    ultimately show ?thesis by (simp add: s10)
  qed
  have "t3 mod 256 = 16 * ((h + 6 * j) mod 16) + t3 mod 16"
    using mod_mult2_eq[of t3 16 16] by (simp add: t3h)
  also have "(h + 6 * j) mod 16 = h - 10 * j" using h by (simp add: j_def le_mod_geq)
  also have "t3 mod 16 = lo" using lo unfolding t3 mod_mult_self2 by simp
  finally show "t3 mod 256 = 16 * (tot mod 100 div 10) + tot mod 10" by (simp add: hd s10)
  show "t3 div 16 mod 256 * 16 > 240 \<longleftrightarrow> tot \<ge> 100" using h lo by (auto simp: t3h j_def s)
  show "t1 < 32" "t2 < 400" "t3 < 500" using h lo by (simp_all add: t1 t2 t3 k_def j_def)
qed

lemma unat_carry_in: "unat (reg_p s AND P_CARRY) = of_bool (LOCAL_CARRY s)"
proof -
  have "reg_p s AND P_CARRY = (if bit (reg_p s) 0 then 1 else 0)"
    by (rule bit_word_eqI) (auto simp: flag_bits bit_1_iff intro: gr0I)
  then show ?thesis by (simp add: LOCAL_CARRY_def p_tests)
qed

definition bcd :: "nat \<Rightarrow> byte" where
  "bcd n = of_nat (16 * (n div 10) + n mod 10)"

lemma unat_bcd: assumes "n < 100" shows "unat (bcd n) = 16 * (n div 10) + n mod 10"
proof -
  have "16 * (n div 10) + n mod 10 < 256" using assms by simp
  then show ?thesis unfolding bcd_def unat_of_nat by simp
qed

lemma bcd_nibbles: assumes "n < 100"
  shows "unat (u32 (bcd n) AND 0xF) = n mod 10" "unat (u32 (bcd n) AND 0xF0) = 16 * (n div 10)"
  using assms by (simp_all add: unat_and_mask unat_bcd unat_ucast_byte_dword)

lemma adc_decimal_word:
  fixes m n :: nat and c :: dword
  assumes "m < 100" "n < 100" "unat c \<le> 1"
  defines "r \<equiv> bcd_add_fix (bcd_add (u32 (bcd m)) (u32 (bcd n)) c)"
  shows "u8 r = bcd ((m + n + unat c) mod 100)" "r AND 0xFF0 > 0xF0 \<longleftrightarrow> m + n + unat c \<ge> 100"
proof -
  define a v where "a = u32 (bcd m)" and "v = u32 (bcd n)"
  define t where "t = (a AND 0xF) + (v AND 0xF) + c"
  define t1 where "t1 = (if t > 0x9 then t + 0x6 else t)"
  define t2 where "t2 = (if t1 \<le> 0x0F then (t1 AND 0xF) + (a AND 0xF0) + (v AND 0xF0)
                 else (t1 AND 0xF) + (a AND 0xF0) + (v AND 0xF0) + 0x10)"
  define t3 where "t3 = (if t2 AND 0x1F0 > 0x90 then t2 + 0x60 else t2)"
  have r: "r = t3"
    unfolding r_def bcd_add_def bcd_add_fix_def Let_def t3_def t2_def t1_def t_def a_def v_def ..
  note dig = decimal_digits[of "m mod 10" "n mod 10" "m div 10" "n div 10" "unat c"]
  have d: "m mod 10 \<le> 9" "n mod 10 \<le> 9" "m div 10 \<le> 9" "n div 10 \<le> 9" using assms(1,2) by auto
  note nib = bcd_nibbles[OF assms(1)] bcd_nibbles[OF assms(2)]
  have ut: "unat t = m mod 10 + n mod 10 + unat c"
    using d assms(3) by (simp add: t_def a_def v_def unat_word_ariths nib take_bit_nat_eq_self)
  have ut1: "unat t1 = (if m mod 10 + n mod 10 + unat c > 9 then m mod 10 + n mod 10 + unat c + 6
                        else m mod 10 + n mod 10 + unat c)"
    using d assms(3) by (simp add: t1_def word_less_nat_alt ut unat_word_ariths)
  have t1_32: "unat t1 < 32" unfolding ut1 by (rule dig(3)[OF d assms(3)])
  obtain L where L: "unat t1 mod 16 = L" "L < 16" by simp
  have ut2: "unat t2 = (if unat t1 \<le> 15 then unat t1 mod 16 + 16 * (m div 10) + 16 * (n div 10)
      else unat t1 mod 16 + 16 * (m div 10) + 16 * (n div 10) + 16)"
    using d t1_32 nib(2,4) L
    by (simp add: t2_def a_def v_def word_le_nat_alt unat_word_ariths unat_and_mask)
  have t2_400: "unat t2 < 400" unfolding ut2 ut1 by (rule dig(4)[OF d assms(3)])
  have ut3: "unat t3 = (if unat t2 div 16 mod 32 * 16 > 144 then unat t2 + 96 else unat t2)"
    using t2_400 by (simp add: t3_def word_less_nat_alt unat_word_ariths unat_and_mask)
  have mn: "10 * (m div 10) + m mod 10 + (10 * (n div 10) + n mod 10) + unat c = m + n + unat c" by simp
  note res = dig(1)[OF d assms(3), folded ut1, folded ut2, folded ut3, unfolded mn]
  have "(m + n + unat c) mod 100 mod 10 = (m + n + unat c) mod 10"
    by (rule mod_mod_cancel) simp
  then have "unat (u8 r) = unat (bcd ((m + n + unat c) mod 100))"
    by (simp add: r unat_ucast_dword_byte res unat_bcd)
  then show "u8 r = bcd ((m + n + unat c) mod 100)" by (rule word_unat_eq_iff[THEN iffD2])
  show "r AND 0xFF0 > 0xF0 \<longleftrightarrow> m + n + unat c \<ge> 100"
    using dig(2)[OF d assms(3), folded ut1, folded ut2, folded ut3, unfolded mn]
    by (simp add: r word_less_nat_alt unat_and_mask)
qed

text \<open>
  C34: In decimal mode \<open>ADC\<close> adds two packed BCD numbers: for operands below 100 the accumulator
  becomes the BCD form of the sum modulo 100, and the carry is set exactly when the sum reaches 100.
\<close>

theorem adc_decimal:
  assumes "LOCAL_DECIMAL s" "m < 100" "n < 100" "reg_a s = bcd m"
  shows "reg_a (ADC (ret (bcd n)) clk_inc pc_inc s) = bcd ((m + n + of_bool (LOCAL_CARRY s)) mod 100)
    \<and> (LOCAL_CARRY (ADC (ret (bcd n)) clk_inc pc_inc s) \<longleftrightarrow> m + n + of_bool (LOCAL_CARRY s) \<ge> 100)"
proof -
  have c: "unat (carry_in s) = of_bool (LOCAL_CARRY s)" and c1: "unat (carry_in s) \<le> 1"
    by (simp_all add: unat_carry_in)
  show ?thesis
    using adc_decimal_word[OF assms(2,3) c1] assms(1,4)
    unfolding ADC_def Let_def c by (simp del: if_split)
qed

theorem adc_decimal_witness:
  "reg_a (ADC (ret (bcd 46)) 0 2 (example_cpu\<lparr>reg_p := 0x09, reg_a := bcd 58\<rparr>)) = bcd 5
   \<and> LOCAL_CARRY (ADC (ret (bcd 46)) 0 2 (example_cpu\<lparr>reg_p := 0x09, reg_a := bcd 58\<rparr>))"
  using adc_decimal[of "example_cpu\<lparr>reg_p := 0x09, reg_a := bcd 58\<rparr>" 58 46 0 2]
  by (simp add: LOCAL_DECIMAL_def LOCAL_CARRY_def P_defs)

lemma signed_overflow_nat:
  fixes x y c :: nat
  assumes "x < 256" "y < 256" "c \<le> 1"
  shows "((128 \<le> x) = (128 \<le> y) \<and> (128 \<le> x) \<noteq> (128 \<le> (x + y + c) mod 256))
    \<longleftrightarrow> (if 128 \<le> x then int x - 256 else int x) + (if 128 \<le> y then int y - 256 else int y) + int c
        \<notin> {-128..127}"
proof (cases "x + y + c < 256")
  case True
  then show ?thesis using assms by auto
next
  case False
  then have "(x + y + c) mod 256 = x + y + c - 256" using assms by (simp add: le_mod_geq)
  then show ?thesis using assms False by auto
qed

text \<open>
  In binary mode \<open>ADC\<close> adds the operand and the carry modulo 256; carry is the overflow of the
  unsigned sum, the overflow flag that of the signed sum, and zero and sign describe the result.
\<close>

theorem adc_binary:
  fixes s :: "'m cpu" and v :: byte and clk_inc :: clock and pc_inc :: dword
  assumes "\<not> LOCAL_DECIMAL s"
  defines "s' \<equiv> ADC (ret v) clk_inc pc_inc s"
  shows "unat (reg_a s') = (unat (reg_a s) + unat v + of_bool (LOCAL_CARRY s)) mod 256
    \<and> (LOCAL_CARRY s' \<longleftrightarrow> unat (reg_a s) + unat v + of_bool (LOCAL_CARRY s) \<ge> 256)
    \<and> (LOCAL_OVERFLOW s' \<longleftrightarrow> sint (reg_a s) + sint v + of_bool (LOCAL_CARRY s) \<notin> {-128..127})
    \<and> (LOCAL_ZERO s' \<longleftrightarrow> reg_a s' = 0) \<and> (LOCAL_SIGN s' \<longleftrightarrow> sint (reg_a s') < 0)"
proof -
  let ?t = "u32 v + u32 (reg_a s) + carry_in s"
  have ut: "unat ?t = unat v + unat (reg_a s) + of_bool (LOCAL_CARRY s)"
    using unat_byte_less[of v] unat_byte_less[of "reg_a s"]
    by (simp add: unat_word_ariths unat_carry_in unat_ucast_byte_dword del: unat_byte_less)
  have a: "reg_a s' = u8 ?t" and cc: "LOCAL_CARRY s' \<longleftrightarrow> ?t > 0xFF"
    and z: "LOCAL_ZERO s' \<longleftrightarrow> u8 (?t AND 0xFF) = 0" and n: "LOCAL_SIGN s' \<longleftrightarrow> bit (u8 (?t AND 0xFF)) 7"
    and o: "LOCAL_OVERFLOW s' \<longleftrightarrow> bit (u32 (reg_a s)) 7 = bit (u32 v) 7 \<and> bit (u32 (reg_a s)) 7 \<noteq> bit ?t 7"
    using assms(1) by (simp_all add: s'_def ADC_def Let_def mask_tests bit_xor_iff)
  have b8: "u8 (?t AND 0xFF) = u8 ?t" by (simp add: word_unat_eq_iff unat_ucast_dword_byte unat_and_mask)
  have "bit ?t 7 \<longleftrightarrow> bit (reg_a s') 7" by (simp add: a bit_ucast_iff)
  have ua: "unat (reg_a s') = (unat (reg_a s) + unat v + of_bool (LOCAL_CARRY s)) mod 256"
    unfolding a unat_ucast_dword_byte ut by (simp add: ac_simps)
  have "LOCAL_OVERFLOW s' \<longleftrightarrow> bit (reg_a s) 7 = bit v 7 \<and> bit (reg_a s) 7 \<noteq> bit (reg_a s') 7"
    using o by (simp add: bit_ucast_iff a)
  also have "\<dots> \<longleftrightarrow> sint (reg_a s) + sint v + of_bool (LOCAL_CARRY s) \<notin> {-128..127}"
    using signed_overflow_nat[of "unat (reg_a s)" "unat v" "of_bool (LOCAL_CARRY s)"]
    unfolding bit7_byte sint_byte ua by simp
  finally have ov: "LOCAL_OVERFLOW s' \<longleftrightarrow> sint (reg_a s) + sint v + of_bool (LOCAL_CARRY s) \<notin> {-128..127}" .
  have "LOCAL_CARRY s' \<longleftrightarrow> unat (reg_a s) + unat v + of_bool (LOCAL_CARRY s) \<ge> 256"
    unfolding cc word_less_nat_alt ut by (simp add: not_less) arith
  then show ?thesis using ua ov z n unfolding b8 a[symmetric]
    by (simp add: bit7_byte sint_byte)
qed

theorem adc_binary_witness:
  "unat (reg_a (ADC (ret 0x7F) 0 2 (example_cpu\<lparr>reg_a := 1\<rparr>))) = 128
   \<and> LOCAL_OVERFLOW (ADC (ret 0x7F) 0 2 (example_cpu\<lparr>reg_a := 1\<rparr>))"
  using adc_binary[of "example_cpu\<lparr>reg_a := 1\<rparr>" "0x7F" 0 2]
  by (simp add: example_cpu_def LOCAL_DECIMAL_def LOCAL_CARRY_def)

subsection \<open>Subtraction\<close>

lemma sbc_word:
  fixes a v :: byte and b :: bool
  defines "t \<equiv> u32 a - u32 v - (if b then 0 else 1)"
  shows "(ucast t :: word16) < 0x100 \<longleftrightarrow> unat v + of_bool (\<not> b) \<le> unat a"
    and "u32 (NOT v) + u32 a + (if b then 1 else 0) = t + 0x100"
    and "u32 (NOT v) + u32 a + (if b then 1 else 0) > 0xFF \<longleftrightarrow> unat v + of_bool (\<not> b) \<le> unat a"
proof -
  let ?s = "u32 (NOT v) + u32 a + (if b then 1 else 0)"
  have "v = NOT (NOT v)" by simp
  then have "NOT v = 255 - v" by (simp add: not_eq_complement)
  moreover have "v \<le> 255" using unat_byte_less[of v] by (simp add: word_le_nat_alt del: unat_byte_less)
  ultimately have nv: "unat (NOT v) = 255 - unat v" by (simp add: unat_sub)
  have "u32 (NOT v) = 0xFF - u32 v"
    using unat_byte_less[of v]
    by (simp add: word_unat_eq_iff nv unat_sub_if' del: unat_byte_less)
  then show eq: "?s = t + 0x100" by (simp add: t_def)
  have us: "unat ?s = 255 - unat v + unat a + of_bool b"
    using unat_byte_less[of v] unat_byte_less[of a]
    by (simp add: unat_word_ariths unat_ucast_byte_dword nv del: unat_byte_less)
  show gt: "?s > 0xFF \<longleftrightarrow> unat v + of_bool (\<not> b) \<le> unat a"
    using unat_byte_less[of v] unfolding word_less_nat_alt us by (auto simp: of_bool_def simp del: unat_byte_less)
  have t: "unat t = (if 256 \<le> unat ?s then unat ?s - 256 else unat ?s + 2 ^ 32 - 256)"
    using unat_sub_if'[of ?s "0x100"] by (simp add: eq)
  have wrap: "(u + 2 ^ 32 - 256) mod 65536 = u + 65280" if "u < 256" for u :: nat
  proof -
    have "u + 2 ^ 32 - 256 = (u + 65280) + 65535 * 65536" by simp
    then show ?thesis using that by (simp only: mod_mult_self1) simp
  qed
  have s512: "unat ?s < 512"
  proof -
    have "(of_bool b :: nat) \<le> 1" by simp
    then show ?thesis using unat_byte_less[of a] unfolding us by linarith
  qed
  have "unat (ucast t :: word16) = (if 256 \<le> unat ?s then unat ?s - 256 else unat ?s + 65280)"
    using s512 wrap[of "unat ?s"] by (simp add: unsigned_ucast_eq take_bit_eq_mod t)
  then have "(ucast t :: word16) < 0x100 \<longleftrightarrow> ?s > 0xFF"
    using s512 by (auto simp: word_less_nat_alt)
  then show "(ucast t :: word16) < 0x100 \<longleftrightarrow> unat v + of_bool (\<not> b) \<le> unat a" using gt by simp
qed

lemma low_bits: "n < 8 \<Longrightarrow> bit ((t::dword) + 0x100) n \<longleftrightarrow> bit t n"
proof -
  assume "n < 8"
  have "take_bit 8 (t + 0x100) = take_bit 8 t"
    by (simp add: word_unat_eq_iff unsigned_take_bit_eq take_bit_eq_mod unat_word_ariths mod_mod_cancel)
  then show ?thesis using \<open>n < 8\<close> by (metis bit_take_bit_iff)
qed

lemma carry_overflow_commute:
  "LOCAL_SET_OVERFLOW x (LOCAL_SET_CARRY y s) = LOCAL_SET_CARRY y (LOCAL_SET_OVERFLOW x s)"
proof -
  have "reg_p (LOCAL_SET_OVERFLOW x (LOCAL_SET_CARRY y s)) = reg_p (LOCAL_SET_CARRY y (LOCAL_SET_OVERFLOW x s))"
    by (rule bit_word_eqI) (auto simp: set_flag_defs flag_bits)
  then show ?thesis by (simp add: set_flag_defs)
qed

text \<open>
  In binary mode \<open>SBC\<close> is \<open>ADC\<close> of the complement: the two leave the same state, flags,
  clock and program counter included.
\<close>

theorem sbc_is_adc_of_complement:
  fixes s :: "'m cpu"
  assumes "\<not> LOCAL_DECIMAL s"
  shows "SBC (ret v) clk_inc pc_inc s = ADC (ret (NOT v)) clk_inc pc_inc s"
proof -
  let ?a = "reg_a s" and ?c = "LOCAL_CARRY s"
  let ?t = "u32 ?a - u32 v - (if ?c then 0 else 1)"
  have ci: "carry_in s = (if ?c then 1 else 0)"
    by (simp add: word_unat_eq_iff unat_carry_in)
  have eq: "u32 (NOT v) + u32 ?a + carry_in s = ?t + 0x100"
    using sbc_word(2)[of v ?a ?c] by (simp only: ci)
  have low: "ucast (ucast ?t AND 0xFF :: word16) = u8 ((?t + 0x100) AND 0xFF)"
    "(ucast (ucast ?t :: word16) :: byte) = u8 (?t + 0x100)"
    by (rule bit_word_eqI; simp add: bit_simps low_bits)+
  have car: "(ucast ?t :: word16) < 0x100 \<longleftrightarrow> ?t + 0x100 > 0xFF"
    using sbc_word(1)[of ?a v ?c] sbc_word(3)[of v ?a ?c] unfolding eq[unfolded ci] by simp
  have b7: "(ucast (u32 ?a) XOR (ucast ?t :: word16)) AND 0x80 = 0 \<longleftrightarrow> (u32 ?a XOR (?t + 0x100)) AND 0x80 = 0"
    "(u32 ?a XOR u32 v) AND 0x80 \<noteq> 0 \<longleftrightarrow> (u32 ?a XOR u32 (NOT v)) AND 0x80 = 0"
    using low_bits[of 7 ?t] by (simp_all add: mask_tests bit_xor_iff bit_ucast_iff bit_not_byte)
  show ?thesis
    using assms unfolding SBC_def ADC_def Let_def
    by (simp add: eq low car b7 conj_commute carry_overflow_commute split del: if_split cong: if_cong)
qed

theorem sbc_is_adc_of_complement_witness:
  "SBC (ret 0x30) 0 2 (example_cpu\<lparr>reg_a := 0x50\<rparr>) = ADC (ret (NOT 0x30)) 0 2 (example_cpu\<lparr>reg_a := 0x50\<rparr>)"
  by (rule sbc_is_adc_of_complement) (simp add: example_cpu_def LOCAL_DECIMAL_def)

lemma uint_woi_mask:
  "word_of_int x AND (0xF::dword) = word_of_int (x mod 16)"
  "word_of_int x AND (0x10::dword) = 0 \<longleftrightarrow> even (x div 16)"
  "word_of_int x AND (0x100::dword) = 0 \<longleftrightarrow> even (x div 256)"
proof -
  show "word_of_int x AND (0xF::dword) = word_of_int (x mod 16)"
    by (rule bit_word_eqI) (simp add: bit_simps flip: take_bit_eq_mod[of 4 x, simplified] take_bit_eq_mask[of 4, where 'a = "32 word", simplified mask_eq_exp_minus_1, simplified])
  have p: "(0x10::dword) = push_bit 4 1" "(0x100::dword) = push_bit 8 1" by simp_all
  show "word_of_int x AND (0x10::dword) = 0 \<longleftrightarrow> even (x div 16)"
    "word_of_int x AND (0x100::dword) = 0 \<longleftrightarrow> even (x div 256)"
    unfolding p and_pow_test bit_word_of_int_iff bit_iff_odd[of x] by simp_all
qed

lemma nibble_or:
  assumes "0 \<le> lo" "lo < 16"
  shows "word_of_int lo OR word_of_int (16 * h) = (word_of_int (lo + 16 * h) :: dword)"
proof -
  have "lo AND 16 * h = 0"
  proof (rule bit_eqI)
    fix n
    have "bit (16 * h) n \<longleftrightarrow> 4 \<le> n \<and> bit h (n - 4)"
      using bit_push_bit_iff_int[of 4 h n] by (simp add: push_bit_eq_mult mult.commute)
    moreover have "n < 4" if "bit lo n"
    proof (rule ccontr)
      assume "\<not> n < 4"
      then have "(2::int) ^ 4 \<le> 2 ^ n" by (intro power_increasing) auto
      then have "lo div 2 ^ n = 0" using assms by (simp add: div_pos_pos_trivial)
      then show False using that by (simp add: bit_iff_odd)
    qed
    ultimately show "bit (lo AND 16 * h) n = bit (0::int) n" by (auto simp: bit_and_iff)
  qed
  then have "lo OR 16 * h = lo + 16 * h" by (simp add: disjunctive_add_eq_or)
  then show ?thesis unfolding word_wi_log_defs by simp
qed

lemma borrow_digits:
  fixes al ah sl sh b :: int
  assumes "0 \<le> al" "al \<le> 9" "0 \<le> sl" "sl \<le> 9" "0 \<le> ah" "ah \<le> 9" "0 \<le> sh" "sh \<le> 9" "0 \<le> b" "b \<le> 1"
  defines "d \<equiv> al - sl - b"
  defines "k \<equiv> (if odd (d div 16) then 1 else 0 :: int)"
  defines "lo \<equiv> (if odd (d div 16) then (d - 6) mod 16 else d mod 16)"
  defines "e \<equiv> lo + 16 * (ah - sh - k)"
  defines "f \<equiv> (if odd (e div 256) then e - 96 else e)"
  shows "0 \<le> lo" "lo < 16"
    and "f mod 256 = 16 * ((10 * ah + al - (10 * sh + sl) - b) mod 100 div 10) + (10 * ah + al - (10 * sh + sl) - b) mod 10"
proof -
  have d: "-10 \<le> d" "d \<le> 9" using assms(1-10) by (simp_all add: d_def)
  have dd: "d div 16 = (if d < 0 then -1 else 0)"
    using d int_div_pos_eq[of d 16 "-1" "d + 16"] by (simp add: div_pos_pos_trivial)
  have lo: "lo = (if d < 0 then d + 10 else d)"
    using d int_mod_pos_eq[of "d - 6" 16 "-1" "d + 10"] unfolding lo_def dd
    by (simp add: mod_pos_pos_trivial)
  define h where "h = ah - sh - (if d < 0 then 1 else 0)"
  have lo9: "0 \<le> lo" "lo \<le> 9" using d lo by auto
  then show "0 \<le> lo" "lo < 16" by auto
  have h: "-10 \<le> h" "h \<le> 9" using assms(1-10) by (auto simp: h_def)
  have e: "e = lo + 16 * h" by (simp add: e_def h_def k_def dd)
  have ee: "e div 256 = (if h < 0 then -1 else 0)"
    using h lo9 int_div_pos_eq[of e 256 "-1" "e + 256"] by (simp add: e div_pos_pos_trivial)
  have t: "10 * ah + al - (10 * sh + sl) - b = 10 * h + lo" using d lo by (auto simp: h_def d_def)
  have lo10: "(10 * h + lo) mod 10 = lo" using lo9 int_mod_pos_eq[of "10 * h + lo" 10 h lo] by simp
  define g where "g = (if h < 0 then h + 10 else h)"
  have g: "0 \<le> g" "g \<le> 9" using h by (auto simp: g_def)
  have m100: "(10 * h + lo) mod 100 = 10 * g + lo"
    using lo9 g by (cases "h < 0"; intro int_mod_pos_eq[where q = "if h < 0 then -1 else 0"]; simp add: g_def)
  have d10: "(10 * g + lo) div 10 = g" using lo9 int_div_pos_eq[of "10 * g + lo" 10 g lo] by simp
  have fv: "f = (if h < 0 then e - 96 else e)" unfolding f_def ee by simp
  have "f mod 256 = 16 * g + lo"
    using lo9 g
    by (cases "h < 0"; intro int_mod_pos_eq[where q = "if h < 0 then -1 else 0"]; simp add: g_def fv e)
  then show "f mod 256 = 16 * ((10 * ah + al - (10 * sh + sl) - b) mod 100 div 10)
      + (10 * ah + al - (10 * sh + sl) - b) mod 10"
    unfolding t lo10 m100 d10 .
qed

lemma woi_unat: "int (unat x) = k \<Longrightarrow> x = word_of_int k"
  by auto

lemma sbc_decimal_word:
  fixes m n :: nat and c :: bool
  assumes "m < 100" "n < 100"
  shows "u8 (bcd_sub (u32 (bcd m)) (u32 (bcd n)) (if c then 0 else 1))
           = bcd (nat ((int m - int n - of_bool (\<not> c)) mod 100))"
proof -
  let ?b = "of_bool (\<not> c) :: int"
  define al ah sl sh where "al = int m mod 10" and "ah = int m div 10" and "sl = int n mod 10" and "sh = int n div 10"
  have dig: "0 \<le> al" "al \<le> 9" "0 \<le> sl" "sl \<le> 9" "0 \<le> ah" "ah \<le> 9" "0 \<le> sh" "sh \<le> 9" "0 \<le> ?b" "?b \<le> 1"
    using assms by (auto simp: al_def ah_def sl_def sh_def)
  note bd = borrow_digits[OF dig]
  have w: "u32 (bcd m) AND 0xF = word_of_int al" "u32 (bcd m) AND 0xF0 = word_of_int (16 * ah)"
    "u32 (bcd n) AND 0xF = word_of_int sl" "u32 (bcd n) AND 0xF0 = word_of_int (16 * sh)"
    unfolding al_def ah_def sl_def sh_def
    using bcd_nibbles[OF assms(1)] bcd_nibbles[OF assms(2)]
    by (intro woi_unat; simp add: zmod_int zdiv_int)+
  have b: "(if c then 0 else 1) = (word_of_int ?b :: dword)" by simp
  define d where "d = al - sl - ?b"
  define k where "k = (if odd (d div 16) then 1 else 0 :: int)"
  define lo where "lo = (if odd (d div 16) then (d - 6) mod 16 else d mod 16)"
  define e where "e = lo + 16 * (ah - sh - k)"
  define f where "f = (if odd (e div 256) then e - 96 else e)"
  note bd' = bd[folded d_def, folded k_def lo_def, folded e_def, folded f_def]
  have t: "(u32 (bcd m) AND 0xF) - (u32 (bcd n) AND 0xF) - (if c then 0 else 1) = word_of_int d"
    unfolding w b d_def by simp
  have hi: "(u32 (bcd m) AND 0xF0) - (u32 (bcd n) AND 0xF0) = word_of_int (16 * (ah - sh))"
    "(u32 (bcd m) AND 0xF0) - (u32 (bcd n) AND 0xF0) - 0x10 = word_of_int (16 * (ah - sh - 1))"
    unfolding w by (simp_all add: algebra_simps)
  have six: "word_of_int d - 6 = (word_of_int (d - 6) :: dword)" by simp
  have "bcd_sub (u32 (bcd m)) (u32 (bcd n)) (if c then 0 else 1)
          = (if word_of_int e AND (0x100::dword) \<noteq> 0 then word_of_int e - 0x60 else word_of_int e)"
  proof (cases "odd (d div 16)")
    case True
    then have c16: "(word_of_int d AND (0x10::dword) \<noteq> 0) = True" and l: "(d - 6) mod 16 = lo"
      by (simp_all only: uint_woi_mask lo_def if_True not_False_eq_True)
    have e: "word_of_int lo OR word_of_int (16 * (ah - sh - 1)) = (word_of_int e :: dword)"
      unfolding nibble_or[OF bd'(1,2)] e_def k_def using True by (simp only: if_True not_False_eq_True)
    show ?thesis unfolding bcd_sub_def Let_def t c16 if_True hi(2) six uint_woi_mask(1) l e ..
  next
    case False
    then have c16: "(word_of_int d AND (0x10::dword) \<noteq> 0) = False" and l: "d mod 16 = lo"
      by (simp_all only: uint_woi_mask lo_def if_False simp_thms)
    have e: "word_of_int lo OR word_of_int (16 * (ah - sh)) = (word_of_int e :: dword)"
      unfolding nibble_or[OF bd'(1,2)] e_def k_def using False by (simp only: if_False diff_0_right)
    show ?thesis unfolding bcd_sub_def Let_def t c16 if_False hi(1) uint_woi_mask(1) l e ..
  qed
  also have "\<dots> = word_of_int f" unfolding f_def uint_woi_mask by simp
  finally have bs: "bcd_sub (u32 (bcd m)) (u32 (bcd n)) (if c then 0 else 1) = word_of_int f" .
  have "uint (u8 (bcd_sub (u32 (bcd m)) (u32 (bcd n)) (if c then 0 else 1))) = f mod 256"
    unfolding bs by (simp add: unsigned_ucast_eq uint_word_of_int take_bit_eq_mod mod_mod_cancel)
  moreover have x: "10 * ah + al - (10 * sh + sl) - ?b = int m - int n - ?b"
    by (simp add: al_def ah_def sl_def sh_def)
  moreover define q where "q = (int m - int n - ?b) mod 100"
  have q: "0 \<le> q" "q < 100" by (simp_all add: q_def)
  have q10: "(int m - int n - ?b) mod 10 = q mod 10" unfolding q_def by (rule mod_mod_cancel[symmetric]) simp
  have "nat q < 100" using q by simp
  from unat_bcd[OF this] have "uint (bcd (nat q)) = 16 * (q div 10) + q mod 10"
    using q by (simp add: uint_nat zdiv_int zmod_int)
  ultimately have "uint (u8 (bcd_sub (u32 (bcd m)) (u32 (bcd n)) (if c then 0 else 1))) = uint (bcd (nat q))"
    using bd'(3) by (simp only: q10 q_def[symmetric])
  then show ?thesis unfolding q_def by (simp only: word_uint_eq_iff)
qed

lemma digits_le:
  fixes al sl b sh ah :: nat
  assumes "al < 10" "sl < 10" "b \<le> 1"
  shows "16 * sh + sl + b \<le> 16 * ah + al \<longleftrightarrow> 10 * sh + sl + b \<le> 10 * ah + al"
proof -
  consider "sh < ah" | "sh = ah" | "ah < sh" by linarith
  then show ?thesis by cases (use assms in auto)
qed

text \<open>
  In decimal mode \<open>SBC\<close> subtracts packed BCD numbers: for operands below 100 the accumulator
  becomes the BCD form of the difference modulo 100, and the carry is set exactly when nothing was
  borrowed.
\<close>

theorem sbc_decimal:
  assumes "LOCAL_DECIMAL s" "m < 100" "n < 100" "reg_a s = bcd m"
  shows "reg_a (SBC (ret (bcd n)) clk_inc pc_inc s)
           = bcd (nat ((int m - int n - of_bool (\<not> LOCAL_CARRY s)) mod 100))
    \<and> (LOCAL_CARRY (SBC (ret (bcd n)) clk_inc pc_inc s) \<longleftrightarrow> m \<ge> n + of_bool (\<not> LOCAL_CARRY s))"
proof
  show "reg_a (SBC (ret (bcd n)) clk_inc pc_inc s)
      = bcd (nat ((int m - int n - of_bool (\<not> LOCAL_CARRY s)) mod 100))"
    using assms(1,4) sbc_decimal_word[OF assms(2,3), of "LOCAL_CARRY s"]
    unfolding SBC_def Let_def by (simp split del: if_split)
  have raw: "LOCAL_CARRY (SBC (ret (bcd n)) clk_inc pc_inc s)
      \<longleftrightarrow> unat (bcd n) + of_bool (\<not> LOCAL_CARRY s) \<le> unat (bcd m)"
    using assms(1,4) sbc_word(1)[of "bcd m" "bcd n" "LOCAL_CARRY s"]
    unfolding SBC_def Let_def by (simp split del: if_split)
  show "LOCAL_CARRY (SBC (ret (bcd n)) clk_inc pc_inc s) \<longleftrightarrow> m \<ge> n + of_bool (\<not> LOCAL_CARRY s)"
    using digits_le[of "m mod 10" "n mod 10" "of_bool (\<not> LOCAL_CARRY s)" "n div 10" "m div 10"]
    unfolding raw unat_bcd[OF assms(2)] unat_bcd[OF assms(3)] by (simp del: of_bool_eq_iff)
qed

theorem sbc_decimal_witness:
  "reg_a (SBC (ret (bcd 46)) 0 2 (example_cpu\<lparr>reg_p := 0x09, reg_a := bcd 12\<rparr>)) = bcd 66
   \<and> \<not> LOCAL_CARRY (SBC (ret (bcd 46)) 0 2 (example_cpu\<lparr>reg_p := 0x09, reg_a := bcd 12\<rparr>))"
  using sbc_decimal[of "example_cpu\<lparr>reg_p := 0x09, reg_a := bcd 12\<rparr>" 12 46 0 2]
  by (simp add: LOCAL_DECIMAL_def LOCAL_CARRY_def P_defs)

subsection \<open>Comparison, status and rotation\<close>

lemma compare_flags_gen:
  fixes r v :: byte
  shows "u32 r - u32 v < 0x100 \<longleftrightarrow> v \<le> r" "u8 ((u32 r - u32 v) AND 0xFF) = r - v"
proof -
  have "u8 ((u32 r - u32 v) AND 0xFF) = u8 (u32 r - u32 v)"
    by (simp add: word_unat_eq_iff unat_ucast_dword_byte unat_and_mask)
  also have "\<dots> = r - v"
    by (simp add: word_uint_eq_iff unsigned_ucast_eq uint_word_ariths take_bit_eq_mod mod_diff_eq mod_mod_cancel)
  finally show "u8 ((u32 r - u32 v) AND 0xFF) = r - v" .
  show "u32 r - u32 v < 0x100 \<longleftrightarrow> v \<le> r"
    using unat_byte_less[of r] unat_byte_less[of v]
    by (auto simp: word_less_nat_alt word_le_nat_alt unat_sub_if' simp del: unat_byte_less)
qed

text \<open>
  The comparisons set carry, zero and sign to what the register and the operand say, and leave
  the registers alone.
\<close>

theorem compare_flags:
  fixes s :: "'m cpu"
  assumes "(cmp, reg) \<in> {(CMP, reg_a), (CPX, reg_x), (CPY, reg_y)}"
  shows "(LOCAL_CARRY (cmp (ret v) clk_inc pc_inc s) \<longleftrightarrow> reg s \<ge> v)
    \<and> (LOCAL_ZERO (cmp (ret v) clk_inc pc_inc s) \<longleftrightarrow> reg s = v)
    \<and> (LOCAL_SIGN (cmp (ret v) clk_inc pc_inc s) \<longleftrightarrow> bit (reg s - v) 7)
    \<and> reg_a (cmp (ret v) clk_inc pc_inc s) = reg_a s \<and> reg_x (cmp (ret v) clk_inc pc_inc s) = reg_x s
    \<and> reg_y (cmp (ret v) clk_inc pc_inc s) = reg_y s"
proof -
  have "(LOCAL_CARRY (compare_with reg (ret v) clk_inc pc_inc s) \<longleftrightarrow> reg s \<ge> v)
    \<and> (LOCAL_ZERO (compare_with reg (ret v) clk_inc pc_inc s) \<longleftrightarrow> reg s = v)
    \<and> (LOCAL_SIGN (compare_with reg (ret v) clk_inc pc_inc s) \<longleftrightarrow> bit (reg s - v) 7)
    \<and> reg_a (compare_with reg (ret v) clk_inc pc_inc s) = reg_a s
    \<and> reg_x (compare_with reg (ret v) clk_inc pc_inc s) = reg_x s
    \<and> reg_y (compare_with reg (ret v) clk_inc pc_inc s) = reg_y s"
    by (simp add: compare_with_def compare_flags_gen regs_of_flags)
  then show ?thesis using assms by (auto simp: CMP_def CPX_def CPY_def)
qed

theorem compare_flags_witness:
  "LOCAL_CARRY (CPX (ret 3) 0 2 (example_cpu\<lparr>reg_x := 5\<rparr>))
   \<and> \<not> LOCAL_ZERO (CPX (ret 3) 0 2 (example_cpu\<lparr>reg_x := 5\<rparr>))"
  using compare_flags[of CPX reg_x 3 0 2 "example_cpu\<lparr>reg_x := 5\<rparr>"] by simp

lemma status_of_set_status: "LOCAL_STATUS (LOCAL_SET_STATUS v s) = v OR P_UNUSED"
proof (rule bit_word_eqI)
  fix n assume "n < LENGTH(8)"
  then show "bit (LOCAL_STATUS (LOCAL_SET_STATUS v s)) n = bit (v OR P_UNUSED) n"
    using and_pow_test[of v 7] bit_push_bit_iff[of 7 "1::byte" n]
    by (auto simp: LOCAL_STATUS_def LOCAL_SET_STATUS_def LOCAL_SET_ZERO_def LOCAL_ZERO_def flag_bits bit_1_iff
        split: if_splits)
qed

lemma pull_push: "PULL (PUSH (u32 v) s) = (v, upd_mc (\<lambda>m. m\<lparr>mem_ram := (mem_ram m)(PAGE_ONE + u32 (reg_sp s) := v)\<rparr>) s)"
  by (simp add: PULL_def PUSH_def upd_mc_def)

lemma status_int: "LOCAL_STATUS s AND P_INTERRUPT = 0 \<longleftrightarrow> \<not> LOCAL_INTERRUPT s"
  by (simp add: LOCAL_STATUS_def LOCAL_INTERRUPT_def flag_bits and_pow_test[of _ 7, symmetric])

text \<open>
  Pushing the status and pulling it back restores every flag, the stack pointer and the
  accumulator, and does not count as a change of the I flag; bit 4 of the status is set.
\<close>

theorem php_plp:
  "LOCAL_STATUS (PLP (PHP s)) = LOCAL_STATUS s OR P_BREAK \<and> reg_sp (PLP (PHP s)) = reg_sp s
   \<and> reg_a (PLP (PHP s)) = reg_a s
   \<and> last_opcode_info (int_status (mc (PLP (PHP s)))) = last_opcode_info (int_status (mc s))"
proof -
  let ?s1 = "CLK_ADD CLK_STACK_PUSH s"
  let ?v = "LOCAL_STATUS ?s1 OR P_BREAK"
  have pl: "PULL (PHP s) = (?v, INC_PC 1 (upd_mc (\<lambda>m. m\<lparr>mem_ram := (mem_ram m)(PAGE_ONE + u32 (reg_sp s) := ?v)\<rparr>) ?s1))"
    by (simp add: PHP_def Let_def PULL_def PUSH_def upd_mc_def INC_PC_def CLK_ADD_def)
  have int: "?v AND P_INTERRUPT = 0 \<longleftrightarrow> \<not> LOCAL_INTERRUPT s"
    by (simp add: LOCAL_INTERRUPT_def LOCAL_STATUS_def flag_bits)
  have un: "?v OR P_UNUSED = ?v" by (rule bit_word_eqI) (auto simp: LOCAL_STATUS_def flag_bits)
  show ?thesis unfolding PLP_def pl Let_def prod.case using int un
    by (simp add: LOCAL_INTERRUPT_def status_of_set_status)
qed

text \<open>
  Rotating the accumulator left and then right restores the accumulator and the carry.
\<close>

theorem rol_ror:
  "reg_a (ROR_A (ROL_A s)) = reg_a s \<and> LOCAL_CARRY (ROR_A (ROL_A s)) = LOCAL_CARRY s"
proof
  define t where "t = push_bit 1 (u32 (reg_a s)) OR carry_in s"
  have t: "bit t n \<longleftrightarrow> (if n = 0 then LOCAL_CARRY s else n \<le> 8 \<and> bit (reg_a s) (n - 1))" for n
    unfolding t_def bit_or_iff bit_push_bit_iff bit_ucast_iff LOCAL_CARRY_def bit_and_iff p_bits p_tests
    using bit_imp_le_length[of "reg_a s" "n - 1"] by auto
  have c1: "t AND 0x01 = (0::dword) \<longleftrightarrow> \<not> bit t 0" "t AND 0x100 = (0::dword) \<longleftrightarrow> \<not> bit t 8" for t
    using and_pow_test[of t 0] and_pow_test[of t 8] by simp_all
  have s1: "reg_a (ROL_A s) = u8 t" "LOCAL_CARRY (ROL_A s) \<longleftrightarrow> bit (reg_a s) 7"
    unfolding ROL_A_def Let_def t_def[symmetric] c1 by (simp_all add: t)
  have s2: "reg_a (ROR_A u) = u8 (drop_bit 1 (u32 (reg_a u)) OR push_bit 7 (u32 (reg_p u)))"
    "LOCAL_CARRY (ROR_A u) \<longleftrightarrow> bit (reg_a u) 0" for u :: "'a cpu"
    by (simp_all add: ROR_A_def Let_def c1 bit_ucast_iff)
  show "LOCAL_CARRY (ROR_A (ROL_A s)) = LOCAL_CARRY s"
    by (simp add: s2 s1 bit_ucast_iff t)
  have "bit (reg_p (ROL_A s)) 0 \<longleftrightarrow> bit (reg_a s) 7"
    using s1(2) by (simp add: LOCAL_CARRY_def p_tests)
  then have top: "bit (push_bit 7 (u32 (reg_p (ROL_A s)))) n \<longleftrightarrow> n = 7 \<and> bit (reg_a s) 7" if "n < 8" for n
    unfolding bit_push_bit_iff bit_ucast_iff using that by (cases "n = 7") auto
  show "reg_a (ROR_A (ROL_A s)) = reg_a s"
  proof (rule bit_word_eqI)
    fix n assume n: "n < LENGTH(8)"
    then show "bit (reg_a (ROR_A (ROL_A s))) n = bit (reg_a s) n"
      unfolding s2 s1(1) using top[of n]
      by (cases "n = 7") (simp_all add: bit_ucast_iff bit_or_iff bit_drop_bit_eq t del: push_bit_numeral)
  qed
qed

end
