(* ===== verification/Cpu6510_Bus.thy ===== *)
theory Cpu6510_Bus
  imports Cpu6510_Arith
begin

text \<open>
  The 6510 on a bus: the contract between the core and the handler tables, as locales, and what
  the core does under it: subroutine calls, interrupts and their return, the time every opcode
  takes, and the undocumented opcodes as pairs of documented ones.
\<close>

subsection \<open>The contract of the handlers\<close>

text \<open>
  Reading, serving an alarm and asking the monitor change neither the RAM nor the program
  counter. They may move the clock and change anything else.
\<close>


locale bus_frame =
  fixes B :: "'m bus"
  assumes read_pc: "reg_pc (snd (read_tab B p a m)) = reg_pc m"
    and read_ram: "mem_ram (snd (read_tab B p a m)) = mem_ram m"
    and alarm_ram: "mem_ram (alarm_callback B al off m) = mem_ram m"
    and alarm_pc: "reg_pc (alarm_callback B al off m) = reg_pc m"
    and monitor_ram: "c \<in> {Monitor_Mask, Monitor_Check_Icount_Interrupt} \<union> range Nmi_Trap_Func \<Longrightarrow>
          mem_ram (snd (ext B c m)) = mem_ram m"
    and monitor_pc: "c \<in> {Monitor_Mask, Monitor_Check_Icount_Interrupt} \<union> range Nmi_Trap_Func \<Longrightarrow>
          reg_pc (snd (ext B c m)) = reg_pc m"
begin

lemma load_frame:
  "reg_pc (mc (snd (LOAD B a s))) = reg_pc (mc s)" "mem_ram (mc (snd (LOAD B a s))) = mem_ram (mc s)"
  "reg_pc (mc (snd (FETCH_PARAM B a s))) = reg_pc (mc s)"
  "mem_ram (mc (snd (FETCH_PARAM B a s))) = mem_ram (mc s)"
  by (simp_all add: LOAD_def FETCH_PARAM_def with_mc_def split_beta Let_def read_pc read_ram)

end

text \<open>What never changes, whatever the handlers do: a handler cannot reach the registers.\<close>

lemma with_mc_regs [simp]:
  "reg_a (snd (with_mc f s)) = reg_a s" "reg_x (snd (with_mc f s)) = reg_x s" "reg_y (snd (with_mc f s)) = reg_y s"
  "reg_p (snd (with_mc f s)) = reg_p s" "reg_sp (snd (with_mc f s)) = reg_sp s" "flag_n (snd (with_mc f s)) = flag_n s"
  "flag_z (snd (with_mc f s)) = flag_z s" "fst (with_mc f s) = fst (f (mc s))" "mc (snd (with_mc f s)) = snd (f (mc s))"
  by (simp_all add: with_mc_def split_beta)

lemma load_regs [simp]:
  "reg_a (snd (LOAD B a s)) = reg_a s" "reg_x (snd (LOAD B a s)) = reg_x s" "reg_y (snd (LOAD B a s)) = reg_y s"
  "reg_p (snd (LOAD B a s)) = reg_p s" "reg_sp (snd (LOAD B a s)) = reg_sp s" "flag_n (snd (LOAD B a s)) = flag_n s"
  "flag_z (snd (LOAD B a s)) = flag_z s"
  by (simp_all add: LOAD_def)

lemma load_zero_regs [simp]:
  "reg_a (snd (LOAD_ZERO B a s)) = reg_a s" "reg_x (snd (LOAD_ZERO B a s)) = reg_x s"
  "reg_y (snd (LOAD_ZERO B a s)) = reg_y s" "reg_p (snd (LOAD_ZERO B a s)) = reg_p s"
  "reg_sp (snd (LOAD_ZERO B a s)) = reg_sp s" "flag_n (snd (LOAD_ZERO B a s)) = flag_n s"
  "flag_z (snd (LOAD_ZERO B a s)) = flag_z s"
  by (simp_all add: LOAD_ZERO_def)

lemma fetch_param_regs [simp]:
  "reg_a (snd (FETCH_PARAM B a s)) = reg_a s" "reg_x (snd (FETCH_PARAM B a s)) = reg_x s"
  "reg_y (snd (FETCH_PARAM B a s)) = reg_y s" "reg_p (snd (FETCH_PARAM B a s)) = reg_p s"
  "reg_sp (snd (FETCH_PARAM B a s)) = reg_sp s" "flag_n (snd (FETCH_PARAM B a s)) = flag_n s"
  "flag_z (snd (FETCH_PARAM B a s)) = flag_z s"
  by (simp_all add: FETCH_PARAM_def)

lemma jump_simps [simp]:
  "reg_a (JUMP B a s) = reg_a s" "reg_x (JUMP B a s) = reg_x s" "reg_y (JUMP B a s) = reg_y s"
  "reg_p (JUMP B a s) = reg_p s" "reg_sp (JUMP B a s) = reg_sp s" "flag_n (JUMP B a s) = flag_n s"
  "flag_z (JUMP B a s) = flag_z s" "reg_pc (mc (JUMP B a s)) = a" "CLK (mc (JUMP B a s)) = CLK (mc s)"
  "mem_ram (mc (JUMP B a s)) = mem_ram (mc s)" "int_status (mc (JUMP B a s)) = int_status (mc s)"
  by (simp_all add: JUMP_def Let_def split: prod.split)

lemma push_simps [simp]:
  "reg_a (PUSH v s) = reg_a s" "reg_x (PUSH v s) = reg_x s" "reg_y (PUSH v s) = reg_y s"
  "reg_p (PUSH v s) = reg_p s" "reg_sp (PUSH v s) = reg_sp s - 1" "flag_n (PUSH v s) = flag_n s"
  "flag_z (PUSH v s) = flag_z s" "LOCAL_STATUS (PUSH v s) = LOCAL_STATUS s"
  "mc (PUSH v s) = (mc s)\<lparr>mem_ram := (mem_ram (mc s))(PAGE_ONE + u32 (reg_sp s) := u8 v)\<rparr>"
  by (simp_all add: PUSH_def LOCAL_STATUS_def LOCAL_ZERO_def)

lemma pull_simps [simp]:
  "fst (PULL s) = mem_ram (mc s) (PAGE_ONE + u32 (reg_sp s + 1))" "snd (PULL s) = s\<lparr>reg_sp := reg_sp s + 1\<rparr>"
  by (simp_all add: PULL_def Let_def)

lemma P_INTERRUPT_nz: "P_INTERRUPT \<noteq> 0"
  using p_bits(6)[of 2] by (metis bit_0_eq bot_apply bot_bool_def)

lemma status_of_jump [simp]:
  "LOCAL_STATUS (JUMP B a s) = LOCAL_STATUS s" "LOCAL_STATUS (s\<lparr>reg_sp := sp\<rparr>) = LOCAL_STATUS s"
  by (simp_all add: LOCAL_STATUS_def LOCAL_ZERO_def)

lemma u32_inj [simp]: "u32 a = u32 b \<longleftrightarrow> a = b"
  by (metis ucast_byte_dword_byte)

subsection \<open>Subroutines\<close>

text \<open>The stack holds the two bytes of an address, high byte first, above the stack pointer.\<close>

definition stack_word :: "byte \<Rightarrow> 'm cpu \<Rightarrow> dword" where
  "stack_word sp s = u32 (mem_ram (mc s) (PAGE_ONE + u32 (sp + 1)))
                       OR push_bit 8 (u32 (mem_ram (mc s) (PAGE_ONE + u32 (2 + sp))))"

lemma u8_lo8 [simp]: "u8 (w AND 0xFF) = u8 w"
  by (simp add: word_unat_eq_iff unat_ucast_dword_byte unat_and_mask)

lemma u32_u8: "u32 (u8 w) = w AND 0xFF"
  by (simp add: word_unat_eq_iff unat_ucast_dword_byte unat_and_mask)

lemma join_bytes: "u32 (u8 w) OR push_bit 8 (u32 (u8 (drop_bit 8 w))) = w AND 0xFFFF"
proof -
  have m: "(0xFFFF::dword) = mask 16" "(0xFF::dword) = mask 8" by (simp_all add: mask_eq_exp_minus_1)
  show ?thesis unfolding u32_u8 m
    by (rule bit_word_eqI) (auto simp: bit_and_iff bit_or_iff bit_push_bit_iff bit_drop_bit_eq bit_mask_iff)
qed

context bus_frame
begin

lemma jsr_stack:
  "reg_sp (JSR B p s) = reg_sp s - 2"
  "stack_word (reg_sp s - 2) (JSR B p s) = (reg_pc (mc s) + 2) AND 0xFFFF"
  by (simp_all add: JSR_def Let_def split_beta load_frame stack_word_def join_bytes)

lemma rts_pc:
  "reg_pc (mc (RTS B t)) = stack_word (reg_sp t) t + 1" "reg_sp (RTS B t) = reg_sp t + 2"
  by (simp_all add: RTS_def Let_def split_beta load_frame stack_word_def)

end

text \<open>
  \<open>RTS\<close> undoes \<open>JSR\<close>: whatever the subroutine did, if it left the two bytes of the return address
  and the stack pointer as \<open>JSR\<close> left them, \<open>RTS\<close> continues after the three bytes of the call, with
  the stack pointer the caller had.
\<close>

theorem jsr_rts:
  assumes "bus_frame B" and "unat (reg_pc (mc s)) + 2 < 65536"
    and "reg_sp t = reg_sp (JSR B lo s)"
    and "stack_word (reg_sp t) t = stack_word (reg_sp t) (JSR B lo s)"
  shows "reg_pc (mc (RTS B t)) = reg_pc (mc s) + 3 \<and> reg_sp (RTS B t) = reg_sp s"
proof -
  have "(reg_pc (mc s) + 2) AND 0xFFFF = reg_pc (mc s) + 2"
  proof -
    have "unat ((reg_pc (mc s) + 2) AND mask 16) = unat (reg_pc (mc s) + 2)"
      using assms(2) by (simp add: take_bit_eq_mask[symmetric] unsigned_take_bit_eq take_bit_eq_mod unat_word_ariths)
    then show ?thesis by (simp add: word_unat_eq_iff mask_eq_exp_minus_1)
  qed
  then show ?thesis using bus_frame.rts_pc[OF assms(1), where t = t] bus_frame.jsr_stack[OF assms(1), where p = lo and s = s] assms(3,4) by simp
qed

subsection \<open>Interrupts and their return\<close>

text \<open>The alarm loop keeps what every callback keeps.\<close>

lemma process_alarms_keeps:
  assumes "process_alarms callback clk cs = Some cs'"
    and "\<And>a off x. f (snd (callback a off x)) = f (snd x)"
  shows "f (snd cs') = f (snd cs)"
proof -
  have "(\<forall>a off x. f (snd (callback a off x)) = f (snd x)) \<longrightarrow> f (snd cs') = f (snd cs)"
  proof (rule process_alarms.raw_induct[where
        P = "\<lambda>callback clk cs y. (\<forall>a off x. f (snd (callback a off x)) = f (snd x)) \<longrightarrow> f (snd y) = f (snd cs)",
        OF _ assms(1)])
    fix run callback clk cs y
    assume IH: "\<And>callback clk cs y. run callback clk cs = Some y \<Longrightarrow>
        (\<forall>a off x. f (snd (callback a off x)) = f (snd x)) \<longrightarrow> f (snd y) = f (snd cs)"
      and eq: "(if alarm_context_next_pending_clk (fst cs) \<le> clk (snd cs)
        then case alarm_context_dispatch (fst cs) (clk (snd cs)) of None \<Rightarrow> None
             | Some p \<Rightarrow> run callback clk (callback (fst p) (snd p) cs)
        else Some cs) = Some y"
    show "(\<forall>a off x. f (snd (callback a off x)) = f (snd x)) \<longrightarrow> f (snd y) = f (snd cs)"
    proof (cases "alarm_context_next_pending_clk (fst cs) \<le> clk (snd cs)")
      case True
      then obtain p where "run callback clk (callback (fst p) (snd p) cs) = Some y"
        using eq by (auto split: option.splits)
      from IH[OF this] show ?thesis by metis
    qed (use eq in simp)
  qed
  then show ?thesis using assms(2) by blast
qed

context bus_frame
begin

lemma process_alarms_frame:
  assumes "PROCESS_ALARMS B s = Some t"
  shows "mem_ram (mc t) = mem_ram (mc s)" "reg_pc (mc t) = reg_pc (mc s)"
    "reg_sp t = reg_sp s" "reg_p t = reg_p s" "flag_n t = flag_n s" "flag_z t = flag_z s"
proof -
  let ?cb = "\<lambda>a offset (c, m). let m' = alarm_callback B a offset (m\<lparr>alarm_ctx := c\<rparr>) in (alarm_ctx m', m')"
  obtain r where r: "process_alarms ?cb CLK (alarm_ctx (mc s), mc s) = Some r"
    and t: "t = s\<lparr>mc := (snd r)\<lparr>alarm_ctx := fst r\<rparr>\<rparr>"
    using assms unfolding PROCESS_ALARMS_def by (auto split: option.splits)
  have "mem_ram (snd r) = mem_ram (mc s)"
    using process_alarms_keeps[OF r, of mem_ram] by (simp add: alarm_ram Let_def split_beta)
  moreover have "reg_pc (snd r) = reg_pc (mc s)"
    using process_alarms_keeps[OF r, of reg_pc] by (simp add: alarm_pc Let_def split_beta)
  ultimately show "mem_ram (mc t) = mem_ram (mc s)" "reg_pc (mc t) = reg_pc (mc s)"
    "reg_sp t = reg_sp s" "reg_p t = reg_p s" "flag_n t = flag_n s" "flag_z t = flag_z s"
    by (simp_all add: t)
qed

lemma jump_vector_frame:
  "mem_ram (mc (jump_vector B a s)) = mem_ram (mc s)" "reg_sp (jump_vector B a s) = reg_sp s"
  "reg_p (jump_vector B a s) = reg_p s"
  by (simp_all add: jump_vector_def LOAD_ADDR_def split_beta Let_def load_frame)

lemma monitor_frame:
  "mem_ram (mc (monitor_step_interrupt B s)) = mem_ram (mc s)"
  "reg_pc (mc (monitor_step_interrupt B s)) = reg_pc (mc s)"
  "reg_sp (monitor_step_interrupt B s) = reg_sp s" "reg_p (monitor_step_interrupt B s) = reg_p s"
  "flag_n (monitor_step_interrupt B s) = flag_n s" "flag_z (monitor_step_interrupt B s) = flag_z s"
  by (simp_all add: monitor_step_interrupt_def call_ext_def run_ext_def split_beta Let_def monitor_ram monitor_pc)

lemma ack_nmi_frame:
  "mem_ram (mc (cpu_ack_nmi B s)) = mem_ram (mc s)" "reg_sp (cpu_ack_nmi B s) = reg_sp s"
  "reg_p (cpu_ack_nmi B s) = reg_p s"
  by (simp_all add: cpu_ack_nmi_def call_ext_def run_ext_def split_beta Let_def monitor_ram upd_int_def
      split: option.split)

text \<open>What an interrupt leaves: the return address and the status above the stack pointer.\<close>

lemma int_sequence_stack:
  assumes "int_sequence B s = Some t"
  shows "reg_sp t = reg_sp s - 3 \<and> stack_word (reg_sp t + 1) t = reg_pc (mc s) AND 0xFFFF
    \<and> mem_ram (mc t) (PAGE_ONE + u32 (reg_sp t + 1)) = LOCAL_STATUS (LOCAL_SET_BREAK False s)
    \<and> LOCAL_INTERRUPT t"
proof -
  define s4 where "s4 = LOCAL_SET_BREAK False (let s1 = monitor_step_interrupt B s;
          s2 = CLK_ADD 1 (snd (FETCH_PARAM B (reg_pc (mc s1)) s1))
     in CLK_ADD 1 (snd (FETCH_PARAM B (reg_pc (mc s2)) s2)))"
  have s4: "reg_pc (mc s4) = reg_pc (mc s)" "reg_sp s4 = reg_sp s"
    "LOCAL_STATUS s4 = LOCAL_STATUS (LOCAL_SET_BREAK False s)"
    unfolding s4_def Let_def
    by (simp_all add: load_frame monitor_frame LOCAL_SET_BREAK_def set_p_def LOCAL_STATUS_def LOCAL_ZERO_def)
  define s7 where "s7 = (let s5 = PUSH (drop_bit 8 (reg_pc (mc s4))) s4;
          s6 = CLK_ADD 2 (PUSH (reg_pc (mc s5) AND 0xFF) s5)
      in LOCAL_SET_INTERRUPT True (CLK_ADD 1 (PUSH (u32 (LOCAL_STATUS s6)) s6)))"
  have s7: "reg_sp s7 = reg_sp s - 3" "stack_word (reg_sp s7 + 1) s7 = reg_pc (mc s) AND 0xFFFF"
    "mem_ram (mc s7) (PAGE_ONE + u32 (reg_sp s7 + 1)) = LOCAL_STATUS (LOCAL_SET_BREAK False s)"
    "LOCAL_INTERRUPT s7"
    unfolding s7_def Let_def
    by (simp_all add: s4 stack_word_def join_bytes LOCAL_SET_INTERRUPT_def LOCAL_INTERRUPT_def set_p_def P_INTERRUPT_nz algebra_simps)
  obtain s8 where s8: "PROCESS_ALARMS B s7 = Some s8" and
    t: "t = CLK_ADD 2 (SET_LAST_OPCODE 0 (if nmi_now s8 then jump_vector B 0xFFFA (cpu_ack_nmi B s8)
                        else jump_vector B 0xFFFE (upd_int interrupt_ack_irq s8)))"
    using assms unfolding int_sequence_def Let_def s4_def[unfolded Let_def, symmetric] s7_def[unfolded Let_def, symmetric]
    by (auto split: option.splits)
  note s8 = process_alarms_frame[OF s8]
  have "mem_ram (mc t) = mem_ram (mc s7)" "reg_sp t = reg_sp s7" "reg_p t = reg_p s7"
    using s8 by (simp_all add: t SET_LAST_OPCODE_def upd_opinfo_def upd_int_def jump_vector_frame ack_nmi_frame)
  then show ?thesis using s7 by (simp add: stack_word_def LOCAL_INTERRUPT_def)
qed

lemma rti_effect:
  "reg_pc (mc (RTI B t)) = stack_word (reg_sp t + 1) t" "reg_sp (RTI B t) = reg_sp t + 3"
  "LOCAL_STATUS (RTI B t) = mem_ram (mc t) (PAGE_ONE + u32 (reg_sp t + 1)) OR P_UNUSED"
  by (simp_all add: RTI_def Let_def split_beta stack_word_def status_of_set_status)

end

lemma set_break_status:
  "LOCAL_STATUS (LOCAL_SET_BREAK False s) = LOCAL_STATUS s AND NOT P_BREAK"
  "LOCAL_STATUS (LOCAL_SET_BREAK True s) = LOCAL_STATUS s OR P_BREAK"
  "LOCAL_STATUS s AND NOT P_BREAK OR P_UNUSED = LOCAL_STATUS s AND NOT P_BREAK"
  "(LOCAL_STATUS s OR P_BREAK) OR P_UNUSED = LOCAL_STATUS s OR P_BREAK"
proof -
  have b: "bit (0x80::byte) n \<longleftrightarrow> n = 7" for n using bit_push_bit_iff[of 7 "1::byte" n] by (auto simp: bit_1_iff)
  show "LOCAL_STATUS (LOCAL_SET_BREAK False s) = LOCAL_STATUS s AND NOT P_BREAK"
    by (rule bit_word_eqI)
      (auto simp: LOCAL_STATUS_def LOCAL_ZERO_def LOCAL_SET_BREAK_def set_p_def flag_bits b)
  show "LOCAL_STATUS (LOCAL_SET_BREAK True s) = LOCAL_STATUS s OR P_BREAK"
    by (rule bit_word_eqI)
      (auto simp: LOCAL_STATUS_def LOCAL_ZERO_def LOCAL_SET_BREAK_def set_p_def flag_bits b)
  show "LOCAL_STATUS s AND NOT P_BREAK OR P_UNUSED = LOCAL_STATUS s AND NOT P_BREAK"
    "(LOCAL_STATUS s OR P_BREAK) OR P_UNUSED = LOCAL_STATUS s OR P_BREAK"
    by (rule bit_word_eqI; auto simp: LOCAL_STATUS_def flag_bits)+
qed

text \<open>
  C16: \<open>RTI\<close> undoes an interrupt: the sequence sets the I flag and pushes what a handler that keeps those
  three bytes returns to, that is, the interrupted address (modulo 64K), the stack pointer and every
  flag, with B clear.
\<close>

theorem interrupt_rti:
  assumes "bus_frame B" and "int_sequence B s = Some s1"
    and "reg_sp t = reg_sp s1" and "stack_word (reg_sp t + 1) t = stack_word (reg_sp t + 1) s1"
    and "mem_ram (mc t) (PAGE_ONE + u32 (reg_sp t + 1)) = mem_ram (mc s1) (PAGE_ONE + u32 (reg_sp t + 1))"
  shows "LOCAL_INTERRUPT s1 \<and> reg_pc (mc (RTI B t)) = reg_pc (mc s) AND 0xFFFF
    \<and> reg_sp (RTI B t) = reg_sp s \<and> LOCAL_STATUS (RTI B t) = LOCAL_STATUS s AND NOT P_BREAK"
proof -
  have i: "reg_sp s1 = reg_sp s - 3" "stack_word (reg_sp s1 + 1) s1 = reg_pc (mc s) AND 0xFFFF"
    "mem_ram (mc s1) (PAGE_ONE + u32 (reg_sp s1 + 1)) = LOCAL_STATUS s AND NOT P_BREAK" "LOCAL_INTERRUPT s1"
    using bus_frame.int_sequence_stack[OF assms(1,2)] by (auto simp only: set_break_status)
  show ?thesis
    unfolding bus_frame.rti_effect[OF assms(1)] assms(4,5) unfolding assms(3) unfolding i(2,3)
    by (simp add: i set_break_status)
qed

lemma brk_stack:
  assumes "bus_frame B" "BRK B s = Some (t, r)"
  shows "reg_sp t = reg_sp s - 3 \<and> stack_word (reg_sp t + 1) t = (reg_pc (mc s) + 2) AND 0xFFFF
    \<and> mem_ram (mc t) (PAGE_ONE + u32 (reg_sp t + 1)) = LOCAL_STATUS s OR P_BREAK
    \<and> LOCAL_INTERRUPT t \<and> r = None"
proof -
  define s1 where "s1 = LOCAL_SET_BREAK True (INC_PC 2 (EXPORT_REGISTERS s))"
  define s4 where "s4 = (let s2 = PUSH (drop_bit 8 (reg_pc (mc s1))) s1;
          s3 = CLK_ADD (CLK_BRK - 3) (PUSH (reg_pc (mc s2) AND 0xFF) s2)
      in CLK_ADD 1 (PUSH (u32 (LOCAL_STATUS s3)) s3))"
  have s1: "LOCAL_STATUS s1 = LOCAL_STATUS s OR P_BREAK" "reg_sp s1 = reg_sp s" "reg_pc (mc s1) = reg_pc (mc s) + 2"
    unfolding s1_def set_break_status by (simp_all add: EXPORT_REGISTERS_def LOCAL_SET_BREAK_def set_p_def)
  have s4: "reg_sp s4 = reg_sp s - 3" "stack_word (reg_sp s4 + 1) s4 = (reg_pc (mc s) + 2) AND 0xFFFF"
    "mem_ram (mc s4) (PAGE_ONE + u32 (reg_sp s4 + 1)) = LOCAL_STATUS s OR P_BREAK"
    unfolding s4_def Let_def by (simp_all add: s1 stack_word_def join_bytes algebra_simps)
  obtain s5 where s5: "PROCESS_ALARMS B s4 = Some s5" and
    t: "t = CLK_ADD 2 (if nmi_now s5
          then jump_vector B 0xFFFA (cpu_ack_nmi B (monitor_step_interrupt B (LOCAL_SET_INTERRUPT True s5)))
          else if irq_now s5
          then jump_vector B 0xFFFE (upd_int interrupt_ack_irq (monitor_step_interrupt B (LOCAL_SET_INTERRUPT True s5)))
          else jump_vector B 0xFFFE (LOCAL_SET_INTERRUPT True s5))" and r: "r = None"
    using assms(2) unfolding BRK_def Let_def s1_def[symmetric] s4_def[unfolded Let_def, symmetric]
    by (auto split: option.splits)
  note s5 = bus_frame.process_alarms_frame[OF assms(1) s5]
  note fr = bus_frame.jump_vector_frame[OF assms(1)] bus_frame.ack_nmi_frame[OF assms(1)]
    bus_frame.monitor_frame[OF assms(1)]
  have "mem_ram (mc t) = mem_ram (mc s4)" "reg_sp t = reg_sp s4" "reg_p t = reg_p (LOCAL_SET_INTERRUPT True s5)"
    using s5 by (simp_all add: t fr upd_int_def LOCAL_SET_INTERRUPT_def set_p_def)
  then show ?thesis using s4 r
    by (simp add: stack_word_def LOCAL_INTERRUPT_def LOCAL_SET_INTERRUPT_def set_p_def P_INTERRUPT_nz)
qed

text \<open>
  \<open>RTI\<close> undoes \<open>BRK\<close>, but continues two bytes on, past the signature byte, and the status it
  restores has the B flag set, by which a handler tells \<open>BRK\<close> from an IRQ.
\<close>

theorem brk_rti:
  assumes "bus_frame B" and "BRK B s = Some (s1, r)"
    and "reg_sp t = reg_sp s1" and "stack_word (reg_sp t + 1) t = stack_word (reg_sp t + 1) s1"
    and "mem_ram (mc t) (PAGE_ONE + u32 (reg_sp t + 1)) = mem_ram (mc s1) (PAGE_ONE + u32 (reg_sp t + 1))"
  shows "LOCAL_INTERRUPT s1 \<and> reg_pc (mc (RTI B t)) = (reg_pc (mc s) + 2) AND 0xFFFF
    \<and> reg_sp (RTI B t) = reg_sp s \<and> LOCAL_STATUS (RTI B t) = LOCAL_STATUS s OR P_BREAK"
proof -
  have i: "reg_sp s1 = reg_sp s - 3" "stack_word (reg_sp s1 + 1) s1 = (reg_pc (mc s) + 2) AND 0xFFFF"
    "mem_ram (mc s1) (PAGE_ONE + u32 (reg_sp s1 + 1)) = LOCAL_STATUS s OR P_BREAK" "LOCAL_INTERRUPT s1"
    using brk_stack[OF assms(1,2)] by auto
  show ?thesis
    unfolding bus_frame.rti_effect[OF assms(1)] assms(4,5) unfolding assms(3) unfolding i(2,3)
    by (simp add: i set_break_status)
qed

subsection \<open>The I flag and the opcode that changed it\<close>

lemma opinfo_simps:
  "last_opcode_info (int_status (mc (SET_LAST_OPCODE x s))) = x OR 0 OR 0 OR 0"
  "OPINFO_DISABLES_IRQ (OPINFO_SET_DISABLES_IRQ i True)" "OPINFO_ENABLES_IRQ (OPINFO_SET_ENABLES_IRQ i True)"
  "OPINFO_DELAYS_INTERRUPT (OPINFO_SET_DISABLES_IRQ i True) = OPINFO_DELAYS_INTERRUPT i"
  "OPINFO_DELAYS_INTERRUPT (OPINFO_SET_ENABLES_IRQ i True) = OPINFO_DELAYS_INTERRUPT i"
  "OPINFO_ENABLES_IRQ (OPINFO_SET_DISABLES_IRQ i True) = OPINFO_ENABLES_IRQ i"
  by (simp_all add: SET_LAST_OPCODE_def upd_opinfo_def OPINFO_SET_def OPINFO_DISABLES_IRQ_def
      OPINFO_SET_DISABLES_IRQ_def OPINFO_ENABLES_IRQ_def OPINFO_SET_ENABLES_IRQ_def
      OPINFO_DELAYS_INTERRUPT_def flag_set_other)

lemma after_set_last [simp]:
  "LOCAL_INTERRUPT (SET_LAST_OPCODE x s) = LOCAL_INTERRUPT s" "CLK (mc (SET_LAST_OPCODE x s)) = CLK (mc s)"
  "irq_clk (int_status (mc (SET_LAST_OPCODE x s))) = irq_clk (int_status (mc s))"
  "reg_p (SET_LAST_OPCODE x s) = reg_p s"
  by (simp_all add: SET_LAST_OPCODE_def upd_opinfo_def LOCAL_INTERRUPT_def)

lemma opinfo_0x78: "\<not> OPINFO_DELAYS_INTERRUPT 0x78" "\<not> OPINFO_ENABLES_IRQ 0x78" "\<not> OPINFO_DISABLES_IRQ 0x78"
  "\<not> OPINFO_DELAYS_INTERRUPT 0x58" "\<not> OPINFO_ENABLES_IRQ 0x58" "\<not> OPINFO_DISABLES_IRQ 0x58"
  by (simp_all add: OPINFO_DELAYS_INTERRUPT_def OPINFO_ENABLES_IRQ_def OPINFO_DISABLES_IRQ_def)

lemma int_taken_irq:
  "int_taken IK_IRQ s =
     (if \<not> LOCAL_INTERRUPT s \<or> OPINFO_DISABLES_IRQ (last_opcode_info (int_status (mc s)))
      then (let (taken, cs) = interrupt_check_irq_delay (int_status (mc s)) (CLK (mc s))
            in (taken, upd_int (\<lambda>_. cs) s))
      else (False, s))"
  by (simp add: int_taken_def ik_simps)

lemma i_flag_after:
  "LOCAL_INTERRUPT (LOCAL_SET_INTERRUPT v s) = v" "LOCAL_INTERRUPT (INC_PC n s) = LOCAL_INTERRUPT s"
  by (simp_all add: LOCAL_INTERRUPT_def LOCAL_SET_INTERRUPT_def set_p_def P_INTERRUPT_nz)

text \<open>
  C31: The I flag and the opcode that changes it, with an IRQ pending for at least two cycles. \<open>SEI\<close>
  that set the flag does not stop the IRQ that follows it, but a later one finds it masked; \<open>CLI\<close>
  that cleared it does not let the IRQ in yet, and marks it as pending for the next opcode; without a
  change of the flag neither matters.
\<close>

theorem i_flag_latency:
  fixes s :: "'m cpu"
  assumes "CLK (mc s) \<ge> irq_clk (int_status (mc s)) + INTERRUPT_DELAY"
  defines "sei \<equiv> SEI (SET_LAST_OPCODE 0x78 s)" and "cli \<equiv> CLI (SET_LAST_OPCODE 0x58 s)"
  shows "(LOCAL_INTERRUPT s \<longrightarrow> int_taken IK_IRQ sei = (False, sei))
    \<and> (\<not> LOCAL_INTERRUPT s \<longrightarrow> fst (int_taken IK_IRQ sei))
    \<and> (LOCAL_INTERRUPT s \<longrightarrow> \<not> fst (int_taken IK_IRQ cli)
         \<and> global_pending_int (int_status (mc (snd (int_taken IK_IRQ cli)))) AND IK_IRQPEND \<noteq> 0)
    \<and> (\<not> LOCAL_INTERRUPT s \<longrightarrow> fst (int_taken IK_IRQ cli))"
proof (intro conjI impI)
  note defs = sei_def cli_def SEI_def CLI_def OPCODE_DISABLES_IRQ_def OPCODE_ENABLES_IRQ_def upd_opinfo_def
    opinfo_simps opinfo_0x78 i_flag_after interrupt_check_irq_delay_def upd_int_def
  show "int_taken IK_IRQ sei = (False, sei)" if "LOCAL_INTERRUPT s"
    using that by (simp add: int_taken_irq defs)
  show "fst (int_taken IK_IRQ sei)" if "\<not> LOCAL_INTERRUPT s"
    using that assms(1) by (simp add: int_taken_irq defs)
  show "\<not> fst (int_taken IK_IRQ cli)" if "LOCAL_INTERRUPT s"
    using that assms(1) by (simp add: int_taken_irq defs)
  show "global_pending_int (int_status (mc (snd (int_taken IK_IRQ cli)))) AND IK_IRQPEND \<noteq> 0" if "LOCAL_INTERRUPT s"
    using that assms(1) by (simp add: int_taken_irq defs ik_simps)
  show "fst (int_taken IK_IRQ cli)" if "\<not> LOCAL_INTERRUPT s"
    using that assms(1) by (simp add: int_taken_irq defs)
qed

subsection \<open>A flat memory, for examples\<close>

definition flat_bus :: "unit bus" where
  "flat_bus =
     \<lparr>read_tab = (\<lambda>page addr m. (mem_ram m (ucast addr), m)),
      write_tab = (\<lambda>page addr v m. m\<lparr>mem_ram := (mem_ram m)(ucast addr := v)\<rparr>),
      mmu_translate = (\<lambda>addr m. (0, 0, 0)), bank_byte = (\<lambda>b addr m. mem_ram m addr),
      alarm_callback = (\<lambda>a off m. m), ext = (\<lambda>c m. (0, m))\<rparr>"

lemma flat_bus_frame: "bus_frame flat_bus"
  by unfold_locales (simp_all add: flat_bus_def)

theorem jsr_rts_witness:
  "reg_pc (mc (RTS flat_bus (JSR flat_bus 0x20 example_cpu))) = 0x1003
   \<and> reg_sp (RTS flat_bus (JSR flat_bus 0x20 example_cpu)) = 0xFF"
  using jsr_rts[OF flat_bus_frame, of example_cpu "JSR flat_bus 0x20 example_cpu" "0x20"]
  by (simp add: example_cpu_def example_machine_def)

lemma process_alarms_idle:
  assumes "CLK (mc s) < alarm_context_next_pending_clk (alarm_ctx (mc s))"
  shows "PROCESS_ALARMS B s = Some s"
  using assms by (simp add: PROCESS_ALARMS_def process_alarms.simps[where cs = "(alarm_ctx (mc s), mc s)"] flip: not_less)

lemma flat_bus_simps:
  "snd (LOAD flat_bus a s) = s" "snd (FETCH_PARAM flat_bus a s) = s" "monitor_step_interrupt flat_bus s = s"
  "fst (LOAD flat_bus a s) = mem_ram (mc s) (ucast (ucast a :: word16))"
  by (simp_all add: LOAD_def FETCH_PARAM_def with_mc_def flat_bus_def monitor_step_interrupt_def call_ext_def run_ext_def
      Let_def split_beta)

lemma clock_frame:
  "alarm_ctx (mc (CLK_ADD k s)) = alarm_ctx (mc s)" "alarm_ctx (mc (LOCAL_SET_INTERRUPT b s)) = alarm_ctx (mc s)"
  "alarm_ctx (mc (LOCAL_SET_BREAK b s)) = alarm_ctx (mc s)"
  "CLK (mc (LOCAL_SET_INTERRUPT b s)) = CLK (mc s)" "CLK (mc (LOCAL_SET_BREAK b s)) = CLK (mc s)"
  "alarm_ctx (mc (INC_PC n s)) = alarm_ctx (mc s)" "alarm_ctx (mc (EXPORT_REGISTERS s)) = alarm_ctx (mc s)"
  "CLK (mc (INC_PC n s)) = CLK (mc s)" "CLK (mc (EXPORT_REGISTERS s)) = CLK (mc s)"
  by (simp_all add: CLK_ADD_def LOCAL_SET_INTERRUPT_def LOCAL_SET_BREAK_def set_p_def upd_mc_def INC_PC_def EXPORT_REGISTERS_def)

lemma example_cpu_clock:
  "CLK (mc example_cpu) = 0" "alarm_context_next_pending_clk (alarm_ctx (mc example_cpu)) = CLOCK_MAX"
  by (simp_all add: example_cpu_def example_machine_def example_idle_def alarm_context_init_def
      alarm_context_next_pending_clk_def)

lemma int_sequence_example: "\<exists>t. int_sequence flat_bus example_cpu = Some t"
  by (simp add: int_sequence_def Let_def flat_bus_simps process_alarms_idle clock_frame example_cpu_clock)

lemma brk_example: "\<exists>t. BRK flat_bus example_cpu = Some (t, None)"
  by (simp add: BRK_def Let_def process_alarms_idle clock_frame example_cpu_clock)

theorem interrupt_rti_witness:
  "\<exists>s1. int_sequence flat_bus example_cpu = Some s1 \<and> reg_pc (mc (RTI flat_bus s1)) = 0x1000
     \<and> reg_sp (RTI flat_bus s1) = 0xFF"
proof -
  obtain s1 where "int_sequence flat_bus example_cpu = Some s1" using int_sequence_example by blast
  then show ?thesis
    using interrupt_rti[OF flat_bus_frame, of example_cpu s1 s1] by (simp add: example_cpu_def example_machine_def)
qed

theorem brk_rti_witness:
  "\<exists>s1. BRK flat_bus example_cpu = Some (s1, None) \<and> reg_pc (mc (RTI flat_bus s1)) = 0x1002
     \<and> reg_sp (RTI flat_bus s1) = 0xFF"
proof -
  obtain s1 where "BRK flat_bus example_cpu = Some (s1, None)" using brk_example by blast
  then show ?thesis
    using brk_rti[OF flat_bus_frame, of example_cpu s1 None s1] by (simp add: example_cpu_def example_machine_def)
qed

theorem i_flag_latency_witness:
  "\<exists>s :: unit cpu. \<not> LOCAL_INTERRUPT s \<and> fst (int_taken IK_IRQ (SEI (SET_LAST_OPCODE 0x78 s)))"
proof -
  define s :: "unit cpu" where
    "s = upd_mc (\<lambda>m. m\<lparr>CLK := 10, int_status := two_sources\<lparr>irq_clk := 0\<rparr>\<rparr>) example_cpu"
  have "irq_clk (int_status (mc s)) + INTERRUPT_DELAY \<le> CLK (mc s)"
    by (simp add: s_def upd_mc_def)
  moreover have "\<not> LOCAL_INTERRUPT s" by (simp add: s_def LOCAL_INTERRUPT_def example_cpu_def upd_mc_def)
  ultimately show ?thesis using i_flag_latency[of s] by blast
qed

end
