(* ===== verification/Cpu6510_Timing.thy ===== *)
theory Cpu6510_Timing
  imports Cpu6510_Bus
begin

text \<open>
  The time the 6510 opcodes take, against the cycle table of the processor's data sheet, on a bus
  whose handlers move neither the clock nor the program counter.
\<close>

locale bus_timed =
  fixes B :: "'m bus"
  assumes read_clk: "CLK (snd (read_tab B p a m)) = CLK m"
    and write_clk: "CLK (write_tab B p a v m) = CLK m"
    and read_pc: "reg_pc (snd (read_tab B p a m)) = reg_pc m"

text \<open>
  The table: the cycles of every opcode, the fetch included, and what may add to them. An indexed read takes one more when
  the index carries into the next page, a branch one more when it is taken and another one when it is taken into another
  page. \<open>BRK\<close> and the jamming opcodes have no entry.
\<close>

datatype cpu_flag = Sign | Overflow | Zero | Carry

datatype opcode_time = Cycles nat | Plus_X nat | Plus_Y nat | Plus_Ind_Y nat | Relative nat cpu_flag bool

fun flag_set :: "cpu_flag \<Rightarrow> 'm cpu \<Rightarrow> bool" where
  "flag_set Sign s = LOCAL_SIGN s"
| "flag_set Overflow s = LOCAL_OVERFLOW s"
| "flag_set Zero s = LOCAL_ZERO s"
| "flag_set Carry s = LOCAL_CARRY s"

fun base_time :: "opcode_time \<Rightarrow> nat" where
  "base_time (Cycles n) = n"
| "base_time (Plus_X n) = n"
| "base_time (Plus_Y n) = n"
| "base_time (Plus_Ind_Y n) = n"
| "base_time (Relative n f v) = n"

text \<open>The address plus the index is in the next page.\<close>

definition carries :: "dword \<Rightarrow> byte \<Rightarrow> bool" where
  "carries a i \<longleftrightarrow> lo8 a + u32 i > 0xFF"

text \<open>The extra cycles, in the state in which the opcode starts: \<open>p1\<close> and \<open>p2\<close> are its operands.\<close>

fun extra_time :: "'m bus \<Rightarrow> opcode_t \<Rightarrow> 'm cpu \<Rightarrow> opcode_time \<Rightarrow> nat" where
  "extra_time B oc s (Cycles n) = 0"
| "extra_time B oc s (Plus_X n) = (if carries (p2 oc) (reg_x s) then 1 else 0)"
| "extra_time B oc s (Plus_Y n) = (if carries (p2 oc) (reg_y s) then 1 else 0)"
| "extra_time B oc s (Plus_Ind_Y n) = (if carries (fst (LOAD_ZERO_ADDR B (p1 oc) (CLK_ADD 2 s))) (reg_y s) then 1 else 0)"
| "extra_time B oc s (Relative n f v) =
     (let next_pc = reg_pc (mc s) + 2; target = next_pc + scast (u8 (p1 oc))
      in if flag_set f s \<noteq> v then 0 else if hi8 next_pc = hi8 target then 1 else 2)"

definition time_of :: "'m bus \<Rightarrow> opcode_t \<Rightarrow> 'm cpu \<Rightarrow> opcode_time \<Rightarrow> nat" where
  "time_of B oc s t = base_time t + extra_time B oc s t"

definition opcode_cycles :: "opcode_time option list list" where
  "opcode_cycles =
    [[None, Some (Cycles 6), None, Some (Cycles 8), Some (Cycles 3), Some (Cycles 3), Some (Cycles 5), Some (Cycles 5), Some (Cycles 3), Some (Cycles 2), Some (Cycles 2), Some (Cycles 2), Some (Cycles 4), Some (Cycles 4), Some (Cycles 6), Some (Cycles 6)],
     [Some (Relative 2 Sign False), Some (Plus_Ind_Y 5), None, Some (Cycles 8), Some (Cycles 4), Some (Cycles 4), Some (Cycles 6), Some (Cycles 6), Some (Cycles 2), Some (Plus_Y 4), Some (Cycles 2), Some (Cycles 7), Some (Plus_X 4), Some (Plus_X 4), Some (Cycles 7), Some (Cycles 7)],
     [Some (Cycles 6), Some (Cycles 6), None, Some (Cycles 8), Some (Cycles 3), Some (Cycles 3), Some (Cycles 5), Some (Cycles 5), Some (Cycles 4), Some (Cycles 2), Some (Cycles 2), Some (Cycles 2), Some (Cycles 4), Some (Cycles 4), Some (Cycles 6), Some (Cycles 6)],
     [Some (Relative 2 Sign True), Some (Plus_Ind_Y 5), None, Some (Cycles 8), Some (Cycles 4), Some (Cycles 4), Some (Cycles 6), Some (Cycles 6), Some (Cycles 2), Some (Plus_Y 4), Some (Cycles 2), Some (Cycles 7), Some (Plus_X 4), Some (Plus_X 4), Some (Cycles 7), Some (Cycles 7)],
     [Some (Cycles 6), Some (Cycles 6), None, Some (Cycles 8), Some (Cycles 3), Some (Cycles 3), Some (Cycles 5), Some (Cycles 5), Some (Cycles 3), Some (Cycles 2), Some (Cycles 2), Some (Cycles 2), Some (Cycles 3), Some (Cycles 4), Some (Cycles 6), Some (Cycles 6)],
     [Some (Relative 2 Overflow False), Some (Plus_Ind_Y 5), None, Some (Cycles 8), Some (Cycles 4), Some (Cycles 4), Some (Cycles 6), Some (Cycles 6), Some (Cycles 2), Some (Plus_Y 4), Some (Cycles 2), Some (Cycles 7), Some (Plus_X 4), Some (Plus_X 4), Some (Cycles 7), Some (Cycles 7)],
     [Some (Cycles 6), Some (Cycles 6), None, Some (Cycles 8), Some (Cycles 3), Some (Cycles 3), Some (Cycles 5), Some (Cycles 5), Some (Cycles 4), Some (Cycles 2), Some (Cycles 2), Some (Cycles 2), Some (Cycles 5), Some (Cycles 4), Some (Cycles 6), Some (Cycles 6)],
     [Some (Relative 2 Overflow True), Some (Plus_Ind_Y 5), None, Some (Cycles 8), Some (Cycles 4), Some (Cycles 4), Some (Cycles 6), Some (Cycles 6), Some (Cycles 2), Some (Plus_Y 4), Some (Cycles 2), Some (Cycles 7), Some (Plus_X 4), Some (Plus_X 4), Some (Cycles 7), Some (Cycles 7)],
     [Some (Cycles 2), Some (Cycles 6), Some (Cycles 2), Some (Cycles 6), Some (Cycles 3), Some (Cycles 3), Some (Cycles 3), Some (Cycles 3), Some (Cycles 2), Some (Cycles 2), Some (Cycles 2), Some (Cycles 2), Some (Cycles 4), Some (Cycles 4), Some (Cycles 4), Some (Cycles 4)],
     [Some (Relative 2 Carry False), Some (Cycles 6), None, Some (Cycles 6), Some (Cycles 4), Some (Cycles 4), Some (Cycles 4), Some (Cycles 4), Some (Cycles 2), Some (Cycles 5), Some (Cycles 2), Some (Cycles 5), Some (Cycles 5), Some (Cycles 5), Some (Cycles 5), Some (Cycles 5)],
     [Some (Cycles 2), Some (Cycles 6), Some (Cycles 2), Some (Cycles 6), Some (Cycles 3), Some (Cycles 3), Some (Cycles 3), Some (Cycles 3), Some (Cycles 2), Some (Cycles 2), Some (Cycles 2), Some (Cycles 2), Some (Cycles 4), Some (Cycles 4), Some (Cycles 4), Some (Cycles 4)],
     [Some (Relative 2 Carry True), Some (Plus_Ind_Y 5), None, Some (Plus_Ind_Y 5), Some (Cycles 4), Some (Cycles 4), Some (Cycles 4), Some (Cycles 4), Some (Cycles 2), Some (Plus_Y 4), Some (Cycles 2), Some (Plus_Y 4), Some (Plus_X 4), Some (Plus_X 4), Some (Plus_Y 4), Some (Plus_Y 4)],
     [Some (Cycles 2), Some (Cycles 6), Some (Cycles 2), Some (Cycles 8), Some (Cycles 3), Some (Cycles 3), Some (Cycles 5), Some (Cycles 5), Some (Cycles 2), Some (Cycles 2), Some (Cycles 2), Some (Cycles 2), Some (Cycles 4), Some (Cycles 4), Some (Cycles 6), Some (Cycles 6)],
     [Some (Relative 2 Zero False), Some (Plus_Ind_Y 5), None, Some (Cycles 8), Some (Cycles 4), Some (Cycles 4), Some (Cycles 6), Some (Cycles 6), Some (Cycles 2), Some (Plus_Y 4), Some (Cycles 2), Some (Cycles 7), Some (Plus_X 4), Some (Plus_X 4), Some (Cycles 7), Some (Cycles 7)],
     [Some (Cycles 2), Some (Cycles 6), Some (Cycles 2), Some (Cycles 8), Some (Cycles 3), Some (Cycles 3), Some (Cycles 5), Some (Cycles 5), Some (Cycles 2), Some (Cycles 2), Some (Cycles 2), Some (Cycles 2), Some (Cycles 4), Some (Cycles 4), Some (Cycles 6), Some (Cycles 6)],
     [Some (Relative 2 Zero True), Some (Plus_Ind_Y 5), None, Some (Cycles 8), Some (Cycles 4), Some (Cycles 4), Some (Cycles 6), Some (Cycles 6), Some (Cycles 2), Some (Plus_Y 4), Some (Cycles 2), Some (Cycles 7), Some (Plus_X 4), Some (Plus_X 4), Some (Cycles 7), Some (Cycles 7)]]"

definition takes :: "'m exec \<Rightarrow> 'm cpu \<Rightarrow> nat \<Rightarrow> bool" where
  "takes e s n \<longleftrightarrow> (\<exists>t. e s = Some (t, None) \<and> CLK (mc t) = CLK (mc s) + of_nat n)"

lemma takes_op [simp]: "takes (op f) s n \<longleftrightarrow> CLK (mc (f s)) = CLK (mc s) + of_nat n"
  by (simp add: takes_def op_def)

text \<open>Operations that only touch registers and flags, and those that pass a read on.\<close>

lemma clk_flags:
  "CLK (mc (LOCAL_SET_STATUS v s)) = CLK (mc s)" "CLK (mc (upd_opinfo f s)) = CLK (mc s)"
  by (simp_all add: upd_opinfo_def)

lemmas read_ops = ADC_def SBC_def AND_op_def ORA_def EOR_def BIT_def LDA_def LDX_def LDY_def LAX_def LAS_def
  ANC_def ANE_def ARR_def ASR_def LXA_def SBX_def CMP_def CPX_def CPY_def compare_with_def

lemma clk_read_ops:
  "CLK (mc (ADC v c p s)) = CLK (mc (snd (v s))) + c" "CLK (mc (SBC v c p s)) = CLK (mc (snd (v s))) + c"
  "CLK (mc (AND_op v c p s)) = CLK (mc (snd (v s))) + c" "CLK (mc (ORA v c p s)) = CLK (mc (snd (v s))) + c"
  "CLK (mc (EOR v c p s)) = CLK (mc (snd (v s))) + c" "CLK (mc (LDA v c p s)) = CLK (mc (snd (v s))) + c"
  "CLK (mc (LDX v c p s)) = CLK (mc (snd (v s))) + c" "CLK (mc (LDY v c p s)) = CLK (mc (snd (v s))) + c"
  "CLK (mc (LAX v c p s)) = CLK (mc (snd (v s))) + c" "CLK (mc (LAS v c p s)) = CLK (mc (snd (v s))) + c"
  "CLK (mc (CMP v c p s)) = CLK (mc (snd (v s))) + c" "CLK (mc (CPX v c p s)) = CLK (mc (snd (v s))) + c"
  "CLK (mc (CPY v c p s)) = CLK (mc (snd (v s))) + c" "CLK (mc (BIT v p s)) = CLK (mc (snd (v s))) + 1"
  "CLK (mc (ANC v p s)) = CLK (mc (snd (v s)))" "CLK (mc (ANE v p s)) = CLK (mc (snd (v s)))"
  "CLK (mc (ARR v p s)) = CLK (mc (snd (v s)))" "CLK (mc (ASR v p s)) = CLK (mc (snd (v s)))"
  "CLK (mc (LXA v p s)) = CLK (mc (snd (v s)))" "CLK (mc (SBX v p s)) = CLK (mc (snd (v s)))"
  by (simp_all add: read_ops Let_def split_beta)

lemmas implied_ops = CLC_def CLD_def CLI_def CLV_def SEC_def SED_def SEI_def DEX_def DEY_def INX_def INY_def
  TAX_def TAY_def TSX_def TXA_def TXS_def TYA_def ASL_A_def LSR_A_def ROL_A_def ROR_A_def NOOP_def NOOP_IMM_def
  NOP_def

lemma clk_implied_ops:
  "CLK (mc (CLC s)) = CLK (mc s)" "CLK (mc (CLD s)) = CLK (mc s)" "CLK (mc (CLI s)) = CLK (mc s)"
  "CLK (mc (CLV s)) = CLK (mc s)" "CLK (mc (SEC s)) = CLK (mc s)" "CLK (mc (SED s)) = CLK (mc s)"
  "CLK (mc (SEI s)) = CLK (mc s)" "CLK (mc (DEX s)) = CLK (mc s)" "CLK (mc (DEY s)) = CLK (mc s)"
  "CLK (mc (INX s)) = CLK (mc s)" "CLK (mc (INY s)) = CLK (mc s)" "CLK (mc (TAX s)) = CLK (mc s)"
  "CLK (mc (TAY s)) = CLK (mc s)" "CLK (mc (TSX s)) = CLK (mc s)" "CLK (mc (TXA s)) = CLK (mc s)"
  "CLK (mc (TXS s)) = CLK (mc s)" "CLK (mc (TYA s)) = CLK (mc s)" "CLK (mc (ASL_A s)) = CLK (mc s)"
  "CLK (mc (LSR_A s)) = CLK (mc s)" "CLK (mc (ROL_A s)) = CLK (mc s)" "CLK (mc (ROR_A s)) = CLK (mc s)"
  "CLK (mc (NOOP c p s)) = CLK (mc s) + c" "CLK (mc (NOOP_IMM p s)) = CLK (mc s)" "CLK (mc (NOP s)) = CLK (mc s)"
  "CLK (mc (PHA s)) = CLK (mc s) + 1" "CLK (mc (PHP s)) = CLK (mc s) + 1" "CLK (mc (PLA s)) = CLK (mc s) + 2"
  "CLK (mc (PLP s)) = CLK (mc s) + 2" "CLK (mc (JMP B a s)) = CLK (mc s)" "CLK (mc (RTI B s)) = CLK (mc s) + 4"
  by (simp_all add: implied_ops PHA_def PHP_def PLA_def PLP_def JMP_def RTI_def OPCODE_ENABLES_IRQ_def
      OPCODE_DISABLES_IRQ_def upd_opinfo_def Let_def split_beta)

context bus_timed
begin

lemma clk_load:
  "CLK (mc (snd (LOAD B a s))) = CLK (mc s)" "CLK (mc (snd (LOAD_ZERO B a s))) = CLK (mc s)"
  "CLK (mc (snd (FETCH_PARAM B a s))) = CLK (mc s)"
  "CLK (mc (snd (LOAD_ABS B a s))) = CLK (mc s)" "CLK (mc (snd (LOAD_IND B a s))) = CLK (mc s)"
  by (simp_all add: LOAD_def LOAD_ZERO_def FETCH_PARAM_def LOAD_ABS_def LOAD_IND_def read_clk)

lemma clk_load_addr:
  "CLK (mc (snd (LOAD_ADDR B a s))) = CLK (mc s)" "CLK (mc (snd (LOAD_ZERO_ADDR B a s))) = CLK (mc s)"
  "CLK (mc (snd (LOAD_ZERO_X B a s))) = CLK (mc s)" "CLK (mc (snd (LOAD_ZERO_Y B a s))) = CLK (mc s)"
  "CLK (mc (snd (LOAD_IND_X B a s))) = CLK (mc s) + 3"
  by (simp_all add: LOAD_ADDR_def LOAD_ZERO_ADDR_def LOAD_ZERO_X_def LOAD_ZERO_Y_def LOAD_IND_X_def Let_def split_beta clk_load)

lemma clk_load_indexed:
  "CLK (mc (snd (LOAD_ABS_X B a s))) = CLK (mc s) + (if lo8 a + u32 (reg_x s) > 0xFF then 1 else 0)"
  "CLK (mc (snd (LOAD_ABS_Y B a s))) = CLK (mc s) + (if lo8 a + u32 (reg_y s) > 0xFF then 1 else 0)"
  "CLK (mc (snd (LOAD_ABS_X_RMW B a s))) = CLK (mc s) + 1"
  "CLK (mc (snd (LOAD_ABS_Y_RMW B a s))) = CLK (mc s) + 1"
  by (simp_all add: LOAD_ABS_X_def LOAD_ABS_Y_def LOAD_ABS_X_RMW_def LOAD_ABS_Y_RMW_def load_indexed_def
      load_indexed_rmw_def clk_load)

lemma clk_load_ind_y:
  "CLK (mc (snd (LOAD_IND_Y B a s)))
     = CLK (mc s) + (if lo8 (fst (LOAD_ZERO_ADDR B a (CLK_ADD 2 s))) + u32 (reg_y s) > 0xFF then 3 else 2)"
  "CLK (mc (snd (LOAD_IND_Y_BANK B a s)))
     = CLK (mc s) + (if lo8 (fst (LOAD_ZERO_ADDR B a (CLK_ADD 2 s))) + u32 (reg_y s) > 0xFF then 3 else 2)"
  by (simp_all add: LOAD_IND_Y_def LOAD_IND_Y_BANK_def load_ind_y_def Let_def split_beta clk_load clk_load_addr)

lemma clk_store:
  "CLK (mc (STORE B a v s)) = CLK (mc s)" "CLK (mc (STORE_ZERO B a v s)) = CLK (mc s)"
  "CLK (mc (STORE_IND B a v s)) = CLK (mc s)" "CLK (mc (STORE_ABS B a v c s)) = CLK (mc s) + c"
  "CLK (mc (STORE_ABS_X_RMW B a v c s)) = CLK (mc s) + c" "CLK (mc (STORE_ABS_Y_RMW B a v c s)) = CLK (mc s) + c"
  "CLK (mc (STORE_ABS_X B a v c s)) = CLK (mc s) + c" "CLK (mc (STORE_ABS_Y B a v c s)) = CLK (mc s) + c"
  "CLK (mc (STORE_ABS_SH_X B a v c s)) = CLK (mc s) + c" "CLK (mc (STORE_ABS_SH_Y B a v c s)) = CLK (mc s) + c"
  by (simp_all add: STORE_def STORE_ZERO_def STORE_IND_def STORE_ABS_def STORE_ABS_X_RMW_def STORE_ABS_Y_RMW_def
      STORE_ABS_X_def STORE_ABS_Y_def STORE_ABS_SH_X_def STORE_ABS_SH_Y_def store_indexed_def store_sh_def
      Let_def clk_load write_clk)

lemma clk_ind_y_rmw: "CLK (mc (snd (ind_y_rmw_addr B early a s))) = CLK (mc s) + 3"
  by (cases early) (simp_all add: ind_y_rmw_addr_def Let_def split_beta clk_load clk_load_addr)

lemma clk_rmw_ops:
  assumes "\<And>a v s. CLK (mc (store B a v c s)) = CLK (mc s) + c"
  shows
  "CLK (mc (ASL B addr c p load store s)) = CLK (mc (snd (load B (fst (addr s)) (snd (addr s))))) + c"
  "CLK (mc (LSR B addr c p load store s)) = CLK (mc (snd (load B (fst (addr s)) (snd (addr s))))) + c"
  "CLK (mc (ROL B addr c p load store s)) = CLK (mc (snd (load B (fst (addr s)) (snd (addr s))))) + c"
  "CLK (mc (ROR B addr c p load store s)) = CLK (mc (snd (load B (fst (addr s)) (snd (addr s))))) + c"
  "CLK (mc (INC B addr c p load store s)) = CLK (mc (snd (load B (fst (addr s)) (snd (addr s))))) + c"
  "CLK (mc (DEC B addr c p load store s)) = CLK (mc (snd (load B (fst (addr s)) (snd (addr s))))) + c"
  "CLK (mc (DCP B addr c1 c p load store s)) = CLK (mc (snd (load B (fst (addr s)) (CLK_ADD c1 (snd (addr s)))))) + c"
  "CLK (mc (RLA B addr c1 c p load store s)) = CLK (mc (snd (load B (fst (addr s)) (CLK_ADD c1 (snd (addr s)))))) + c"
  "CLK (mc (ISB B addr c1 c p load store s)) = CLK (mc (snd (load B (fst (addr s)) (CLK_ADD c1 (snd (addr s)))))) + c"
  "CLK (mc (SLO B addr c1 c p load store s))
     = CLK (mc (snd (load B (fst (addr (CLK_ADD c1 s))) (snd (addr (CLK_ADD c1 s)))))) + c"
  "CLK (mc (SRE B addr c1 c p load store s))
     = CLK (mc (snd (load B (fst (addr (CLK_ADD c1 s))) (snd (addr (CLK_ADD c1 s)))))) + c"
  "CLK (mc (RRA B addr c1 c p load store s))
     = CLK (mc (snd (load B (fst (addr (CLK_ADD c1 s))) (snd (addr (CLK_ADD c1 s)))))) + c"
  by (simp_all add: ASL_def LSR_def ROL_def ROR_def INC_def DEC_def DCP_def RLA_def ISB_def SLO_def SRE_def RRA_def
      Let_def split_beta assms clk_read_ops)

lemma clk_ind_y_ops:
  "CLK (mc (SLO_IND_Y B a s)) = CLK (mc s) + 6"
  "CLK (mc (RLA_IND_Y B a s)) = CLK (mc s) + 6"
  "CLK (mc (SRE_IND_Y B a s)) = CLK (mc s) + 6"
  "CLK (mc (RRA_IND_Y B a s)) = CLK (mc s) + 6"
  "CLK (mc (DCP_IND_Y B a s)) = CLK (mc s) + 6"
  "CLK (mc (ISB_IND_Y B a s)) = CLK (mc s) + 6"
  by (simp_all add: SLO_IND_Y_def RLA_IND_Y_def SRE_IND_Y_def RRA_IND_Y_def DCP_IND_Y_def ISB_IND_Y_def
      Let_def split_beta clk_read_ops clk_load clk_store clk_ind_y_rmw)

lemma clk_store_ops:
  "CLK (mc (SAX B addr c1 c2 p s)) = CLK (mc (snd (addr (CLK_ADD c1 s)))) + c2"
  "CLK (mc (SAX_ZERO B a c p s)) = CLK (mc s) + c" "CLK (mc (STA_ZERO B a c p s)) = CLK (mc s) + c"
  "CLK (mc (STX_ZERO B a c p s)) = CLK (mc s) + c" "CLK (mc (STY_ZERO B a c p s)) = CLK (mc s) + c"
  "CLK (mc (STX B a c p s)) = CLK (mc s) + c" "CLK (mc (STY B a c p s)) = CLK (mc s) + c"
  "CLK (mc (STA_IND_Y B a s)) = CLK (mc s) + 4" "CLK (mc (SHA_IND_Y B a s)) = CLK (mc s) + 4"
  "CLK (mc (SHA_ABS_Y B a s)) = CLK (mc s) + 2" "CLK (mc (SHX_ABS_Y B a s)) = CLK (mc s) + 2"
  "CLK (mc (SHY_ABS_X B a s)) = CLK (mc s) + 2" "CLK (mc (SHS_ABS_Y B a s)) = CLK (mc s) + 2"
  by (simp_all add: SAX_def SAX_ZERO_def STA_ZERO_def STX_ZERO_def STY_ZERO_def STX_def STY_def STA_IND_Y_def
      SHA_IND_Y_def SHA_ABS_Y_def SHX_ABS_Y_def SHY_ABS_X_def SHS_ABS_Y_def Let_def split_beta
      clk_load clk_load_addr clk_store)

lemma clk_sta:
  assumes "\<And>a v s. CLK (mc (store B a v c2 s)) = CLK (mc s) + c2"
  shows "CLK (mc (STA B addr c1 c2 p store s)) = CLK (mc (snd (addr (CLK_ADD c1 s)))) + c2"
  by (simp add: STA_def Let_def split_beta assms)

lemma clk_control:
  "CLK (mc (JMP_IND B a s)) = CLK (mc s) + 2" "CLK (mc (JSR B a s)) = CLK (mc s) + 4"
  "CLK (mc (RTS B s)) = CLK (mc s) + 4" "CLK (mc (NOOP_ABS B a s)) = CLK (mc s) + 1"
  "CLK (mc (NOOP_ABS_X B a s)) = CLK (mc s) + (if lo8 a + u32 (reg_x s) > 0xFF then 2 else 1)"
  by (simp_all add: JMP_IND_def JSR_def RTS_def NOOP_ABS_def NOOP_ABS_X_def Let_def split_beta clk_load clk_load_indexed)

lemma masked_xor: "((x::dword) XOR y) AND m = 0 \<longleftrightarrow> x AND m = y AND m"
  by (auto simp: bit_eq_iff bit_simps)

lemma pc_fetch_param: "reg_pc (mc (snd (FETCH_PARAM B a s))) = reg_pc (mc s)"
  by (simp add: FETCH_PARAM_def LOAD_def read_pc)

lemma clk_branch:
  "CLK (mc (BRANCH B cond v s)) = CLK (mc s) + (let next_pc = reg_pc (mc s) + 2; target = next_pc + scast (u8 v)
      in if \<not> cond then 0 else if hi8 next_pc = hi8 target then 1 else 2)"
  by (simp add: BRANCH_def Let_def split_beta clk_load OPCODE_DELAYS_INTERRUPT_def upd_opinfo_def masked_xor pc_fetch_param)

lemmas clk_all = clk_implied_ops clk_read_ops clk_load clk_load_addr clk_load_indexed clk_load_ind_y clk_store
  clk_rmw_ops clk_ind_y_ops clk_store_ops clk_sta clk_control clk_branch

end

text \<open>What is left of each entry after the fetch, which takes two cycles or, for the long opcodes, three.\<close>

definition exec_cycles :: "opcode_time option list list" where
  "exec_cycles =
    [[None, Some (Cycles 4), None, Some (Cycles 6), Some (Cycles 1), Some (Cycles 1), Some (Cycles 3), Some (Cycles 3), Some (Cycles 1), Some (Cycles 0), Some (Cycles 0), Some (Cycles 0), Some (Cycles 1), Some (Cycles 1), Some (Cycles 3), Some (Cycles 3)],
     [Some (Relative 0 Sign False), Some (Plus_Ind_Y 3), None, Some (Cycles 6), Some (Cycles 2), Some (Cycles 2), Some (Cycles 4), Some (Cycles 4), Some (Cycles 0), Some (Plus_Y 1), Some (Cycles 0), Some (Cycles 4), Some (Plus_X 1), Some (Plus_X 1), Some (Cycles 4), Some (Cycles 4)],
     [Some (Cycles 4), Some (Cycles 4), None, Some (Cycles 6), Some (Cycles 1), Some (Cycles 1), Some (Cycles 3), Some (Cycles 3), Some (Cycles 2), Some (Cycles 0), Some (Cycles 0), Some (Cycles 0), Some (Cycles 1), Some (Cycles 1), Some (Cycles 3), Some (Cycles 3)],
     [Some (Relative 0 Sign True), Some (Plus_Ind_Y 3), None, Some (Cycles 6), Some (Cycles 2), Some (Cycles 2), Some (Cycles 4), Some (Cycles 4), Some (Cycles 0), Some (Plus_Y 1), Some (Cycles 0), Some (Cycles 4), Some (Plus_X 1), Some (Plus_X 1), Some (Cycles 4), Some (Cycles 4)],
     [Some (Cycles 4), Some (Cycles 4), None, Some (Cycles 6), Some (Cycles 1), Some (Cycles 1), Some (Cycles 3), Some (Cycles 3), Some (Cycles 1), Some (Cycles 0), Some (Cycles 0), Some (Cycles 0), Some (Cycles 0), Some (Cycles 1), Some (Cycles 3), Some (Cycles 3)],
     [Some (Relative 0 Overflow False), Some (Plus_Ind_Y 3), None, Some (Cycles 6), Some (Cycles 2), Some (Cycles 2), Some (Cycles 4), Some (Cycles 4), Some (Cycles 0), Some (Plus_Y 1), Some (Cycles 0), Some (Cycles 4), Some (Plus_X 1), Some (Plus_X 1), Some (Cycles 4), Some (Cycles 4)],
     [Some (Cycles 4), Some (Cycles 4), None, Some (Cycles 6), Some (Cycles 1), Some (Cycles 1), Some (Cycles 3), Some (Cycles 3), Some (Cycles 2), Some (Cycles 0), Some (Cycles 0), Some (Cycles 0), Some (Cycles 2), Some (Cycles 1), Some (Cycles 3), Some (Cycles 3)],
     [Some (Relative 0 Overflow True), Some (Plus_Ind_Y 3), None, Some (Cycles 6), Some (Cycles 2), Some (Cycles 2), Some (Cycles 4), Some (Cycles 4), Some (Cycles 0), Some (Plus_Y 1), Some (Cycles 0), Some (Cycles 4), Some (Plus_X 1), Some (Plus_X 1), Some (Cycles 4), Some (Cycles 4)],
     [Some (Cycles 0), Some (Cycles 4), Some (Cycles 0), Some (Cycles 4), Some (Cycles 1), Some (Cycles 1), Some (Cycles 1), Some (Cycles 1), Some (Cycles 0), Some (Cycles 0), Some (Cycles 0), Some (Cycles 0), Some (Cycles 1), Some (Cycles 1), Some (Cycles 1), Some (Cycles 1)],
     [Some (Relative 0 Carry False), Some (Cycles 4), None, Some (Cycles 4), Some (Cycles 2), Some (Cycles 2), Some (Cycles 2), Some (Cycles 2), Some (Cycles 0), Some (Cycles 2), Some (Cycles 0), Some (Cycles 2), Some (Cycles 2), Some (Cycles 2), Some (Cycles 2), Some (Cycles 2)],
     [Some (Cycles 0), Some (Cycles 4), Some (Cycles 0), Some (Cycles 4), Some (Cycles 1), Some (Cycles 1), Some (Cycles 1), Some (Cycles 1), Some (Cycles 0), Some (Cycles 0), Some (Cycles 0), Some (Cycles 0), Some (Cycles 1), Some (Cycles 1), Some (Cycles 1), Some (Cycles 1)],
     [Some (Relative 0 Carry True), Some (Plus_Ind_Y 3), None, Some (Plus_Ind_Y 3), Some (Cycles 2), Some (Cycles 2), Some (Cycles 2), Some (Cycles 2), Some (Cycles 0), Some (Plus_Y 1), Some (Cycles 0), Some (Plus_Y 1), Some (Plus_X 1), Some (Plus_X 1), Some (Plus_Y 1), Some (Plus_Y 1)],
     [Some (Cycles 0), Some (Cycles 4), Some (Cycles 0), Some (Cycles 6), Some (Cycles 1), Some (Cycles 1), Some (Cycles 3), Some (Cycles 3), Some (Cycles 0), Some (Cycles 0), Some (Cycles 0), Some (Cycles 0), Some (Cycles 1), Some (Cycles 1), Some (Cycles 3), Some (Cycles 3)],
     [Some (Relative 0 Zero False), Some (Plus_Ind_Y 3), None, Some (Cycles 6), Some (Cycles 2), Some (Cycles 2), Some (Cycles 4), Some (Cycles 4), Some (Cycles 0), Some (Plus_Y 1), Some (Cycles 0), Some (Cycles 4), Some (Plus_X 1), Some (Plus_X 1), Some (Cycles 4), Some (Cycles 4)],
     [Some (Cycles 0), Some (Cycles 4), Some (Cycles 0), Some (Cycles 6), Some (Cycles 1), Some (Cycles 1), Some (Cycles 3), Some (Cycles 3), Some (Cycles 0), Some (Cycles 0), Some (Cycles 0), Some (Cycles 0), Some (Cycles 1), Some (Cycles 1), Some (Cycles 3), Some (Cycles 3)],
     [Some (Relative 0 Zero True), Some (Plus_Ind_Y 3), None, Some (Cycles 6), Some (Cycles 2), Some (Cycles 2), Some (Cycles 4), Some (Cycles 4), Some (Cycles 0), Some (Plus_Y 1), Some (Cycles 0), Some (Cycles 4), Some (Plus_X 1), Some (Plus_X 1), Some (Cycles 4), Some (Cycles 4)]]"

fun less_time :: "nat \<Rightarrow> opcode_time \<Rightarrow> opcode_time" where
  "less_time k (Cycles n) = Cycles (n - k)"
| "less_time k (Plus_X n) = Plus_X (n - k)"
| "less_time k (Plus_Y n) = Plus_Y (n - k)"
| "less_time k (Plus_Ind_Y n) = Plus_Ind_Y (n - k)"
| "less_time k (Relative n f v) = Relative (n - k) f v"

lemma time_of_less: "k \<le> base_time t \<Longrightarrow> time_of B oc s t = k + time_of B oc s (less_time k t)"
  by (cases t) (simp_all add: time_of_def)

lemma exec_cycles_fetch:
  "exec_cycles = map (\<lambda>r. map (\<lambda>c. map_option (less_time (2 + of_bool (fetch_tab ! (16 * r + c)))) (opcode_cycles ! r ! c)) [0..<16]) [0..<16]"
  by code_simp

lemma opcode_cycles_min:
  "\<forall>r \<in> set [0..<16]. \<forall>c \<in> set [0..<16].
     case opcode_cycles ! r ! c of None \<Rightarrow> True | Some t \<Rightarrow> 2 + of_bool (fetch_tab ! (16 * r + c)) \<le> base_time t"
  by code_simp

definition in_time :: "'m bus \<Rightarrow> opcode_t \<Rightarrow> 'm cpu \<Rightarrow> 'm exec \<Rightarrow> opcode_time option \<Rightarrow> bool" where
  "in_time B oc s e b \<longleftrightarrow> (case b of None \<Rightarrow> True | Some t \<Rightarrow> takes e s (time_of B oc s t))"

lemma in_time_simps [simp]: "in_time B oc s e None" "in_time B oc s e (Some t) = takes e s (time_of B oc s t)"
  by (simp_all add: in_time_def)

lemma upto_16: "[0..<16] = [0, 1, 2, 3, 4, 5, 6, 7, 8, 9, 10, 11, 12, 13, 14, 15]"
  by code_simp

context bus_timed
begin

lemma row_0_in_time: "list_all2 (in_time B oc s) (row_0 B oc) (exec_cycles ! 0)"
  by (simp add: row_0_def exec_cycles_def clk_all time_of_def carries_def Let_def)

lemma row_1_in_time: "list_all2 (in_time B oc s) (row_1 B oc) (exec_cycles ! 1)"
  by (simp add: row_1_def exec_cycles_def clk_all time_of_def carries_def Let_def)

lemma row_2_in_time: "list_all2 (in_time B oc s) (row_2 B oc) (exec_cycles ! 2)"
  by (simp add: row_2_def exec_cycles_def clk_all time_of_def carries_def Let_def)

lemma row_3_in_time: "list_all2 (in_time B oc s) (row_3 B oc) (exec_cycles ! 3)"
  by (simp add: row_3_def exec_cycles_def clk_all time_of_def carries_def Let_def)

lemma row_4_in_time: "list_all2 (in_time B oc s) (row_4 B oc) (exec_cycles ! 4)"
  by (simp add: row_4_def exec_cycles_def clk_all time_of_def carries_def Let_def)

lemma row_5_in_time: "list_all2 (in_time B oc s) (row_5 B oc) (exec_cycles ! 5)"
  by (simp add: row_5_def exec_cycles_def clk_all time_of_def carries_def Let_def)

lemma row_6_in_time: "list_all2 (in_time B oc s) (row_6 B oc) (exec_cycles ! 6)"
  by (simp add: row_6_def exec_cycles_def clk_all time_of_def carries_def Let_def)

lemma row_7_in_time: "list_all2 (in_time B oc s) (row_7 B oc) (exec_cycles ! 7)"
  by (simp add: row_7_def exec_cycles_def clk_all time_of_def carries_def Let_def)

lemma row_8_in_time: "list_all2 (in_time B oc s) (row_8 B oc) (exec_cycles ! 8)"
  by (simp add: row_8_def exec_cycles_def clk_all time_of_def carries_def Let_def)

lemma row_9_in_time: "list_all2 (in_time B oc s) (row_9 B oc) (exec_cycles ! 9)"
  by (simp add: row_9_def exec_cycles_def clk_all time_of_def carries_def Let_def)

lemma row_A_in_time: "list_all2 (in_time B oc s) (row_A B oc) (exec_cycles ! 10)"
  by (simp add: row_A_def exec_cycles_def clk_all time_of_def carries_def Let_def)

lemma row_B_in_time: "list_all2 (in_time B oc s) (row_B B oc) (exec_cycles ! 11)"
  by (simp add: row_B_def exec_cycles_def clk_all time_of_def carries_def Let_def)

lemma row_C_in_time: "list_all2 (in_time B oc s) (row_C B oc) (exec_cycles ! 12)"
  by (simp add: row_C_def exec_cycles_def clk_all time_of_def carries_def Let_def)

lemma row_D_in_time: "list_all2 (in_time B oc s) (row_D B oc) (exec_cycles ! 13)"
  by (simp add: row_D_def exec_cycles_def clk_all time_of_def carries_def Let_def)

lemma row_E_in_time: "list_all2 (in_time B oc s) (row_E B oc) (exec_cycles ! 14)"
  by (simp add: row_E_def exec_cycles_def clk_all time_of_def carries_def Let_def)

lemma row_F_in_time: "list_all2 (in_time B oc s) (row_F B oc) (exec_cycles ! 15)"
  by (simp add: row_F_def exec_cycles_def clk_all time_of_def carries_def Let_def)

lemmas rows_in_time = row_0_in_time row_1_in_time row_2_in_time row_3_in_time row_4_in_time row_5_in_time row_6_in_time row_7_in_time row_8_in_time row_9_in_time row_A_in_time row_B_in_time row_C_in_time row_D_in_time row_E_in_time row_F_in_time

lemma all_rows_in_time: "list_all2 (list_all2 (in_time B oc s)) (opcode_rows B oc) exec_cycles"
proof -
  have "length exec_cycles = 16" by (simp add: exec_cycles_def)
  then have "exec_cycles = map ((!) exec_cycles) [0..<16]" by (metis map_nth)
  moreover have "list_all2 (list_all2 (in_time B oc s)) (opcode_rows B oc) (map ((!) exec_cycles) [0..<16])"
    unfolding opcode_rows_def upto_16 by (simp only: list.map list_all2_Cons list_all2_Nil rows_in_time)
  ultimately show ?thesis by simp
qed

lemma fetch_clk:
  "CLK (mc (snd (FETCH_OPCODE B s)))
     = CLK (mc s) + 2 + of_bool (fetch_tab ! unat (ins (fst (FETCH_OPCODE B s))))"
  by (simp add: FETCH_OPCODE_def Let_def split_beta clk_load)

end

lemma table_entry:
  assumes "r < 16" "c < 16" "opcode_cycles ! r ! c = Some t"
  shows "exec_cycles ! r ! c = Some (less_time (2 + of_bool (fetch_tab ! (16 * r + c))) t)"
    and "2 + of_bool (fetch_tab ! (16 * r + c)) \<le> base_time t"
proof -
  show "exec_cycles ! r ! c = Some (less_time (2 + of_bool (fetch_tab ! (16 * r + c))) t)"
    by (subst exec_cycles_fetch) (use assms in simp)
  show "2 + of_bool (fetch_tab ! (16 * r + c)) \<le> base_time t"
    using opcode_cycles_min[rule_format, of r c] assms by simp
qed

lemma nibbles_lt: "unat (drop_bit 4 (b::byte)) < 16" "unat (b AND 0xF) < 16"
  "16 * unat (drop_bit 4 b) + unat (b AND 0xF) = unat b"
proof -
  have d: "unat (drop_bit 4 b) = unat b div 16" by (simp add: drop_bit_eq_div unat_div)
  have a: "unat (b AND 0xF) = unat b mod 16"
    using take_bit_eq_mask[of 4 b, symmetric] by (simp add: mask_eq_exp_minus_1 take_bit_eq_mod unat_mod)
  show "unat (drop_bit 4 (b::byte)) < 16" using unat_byte_less[of b] unfolding d by (simp add: div_less_iff_less_mult del: unat_byte_less)
  show "unat (b AND 0xF) < 16" unfolding a by simp
  show "16 * unat (drop_bit 4 b) + unat (b AND 0xF) = unat b" unfolding a d by simp
qed

text \<open>
  C2: every opcode but \<open>BRK\<close> and the jamming ones takes exactly the cycles of the data sheet, from the fetch to the end
  of the instruction, on a bus whose handlers move neither the clock nor the program counter (a store to the VIC-II that steals
  cycles is not of this kind): those of its table entry, one more for an indexed
  read exactly when the index carries into the next page, one more for a branch exactly when it is taken, and another
  one exactly when it is taken into another page. It ends without asking for another opcode.
\<close>

theorem opcode_timing:
  assumes "bus_timed B" and "FETCH_OPCODE B s = (oc, s1)"
    and "opcode_cycles ! unat (drop_bit 4 (ins oc)) ! unat (ins oc AND 0xF) = Some t"
  shows "\<exists>s2. exec_opcode B oc s1 = Some (s2, None)
    \<and> CLK (mc s2) = CLK (mc s) + of_nat (time_of B oc (SET_LAST_OPCODE (u32 (ins oc)) s1) t)"
proof -
  define r c where "r = unat (drop_bit 4 (ins oc))" and "c = unat (ins oc AND 0xF)"
  have rc: "r < 16" "c < 16" "16 * r + c = unat (ins oc)" using nibbles_lt[of "ins oc"] by (simp_all add: r_def c_def)
  define k :: nat where "k = 2 + of_bool (fetch_tab ! (16 * r + c))"
  note te = table_entry[OF rc(1,2) assms(3)[folded r_def c_def], folded k_def]
  define s1' where "s1' = SET_LAST_OPCODE (u32 (ins oc)) s1"
  have "list_all2 (list_all2 (in_time B oc s1')) (opcode_rows B oc) exec_cycles"
    by (rule bus_timed.all_rows_in_time[OF assms(1)])
  moreover have "length (opcode_rows B oc) = 16" by (simp add: opcode_rows_def)
  ultimately have row: "list_all2 (in_time B oc s1') (opcode_rows B oc ! r) (exec_cycles ! r)"
    using rc(1) list_all2_nthD by metis
  moreover have "length (exec_cycles ! r) = 16" using rc(1) by (subst exec_cycles_fetch) simp
  ultimately have "in_time B oc s1' (opcode_rows B oc ! r ! c) (exec_cycles ! r ! c)"
    using rc(2) by (simp add: list_all2_conv_all_nth)
  then have "takes (opcode_rows B oc ! r ! c) s1' (time_of B oc s1' (less_time k t))" by (simp add: te(1))
  then obtain s2 where s2: "(opcode_rows B oc ! r ! c) s1' = Some (s2, None)"
    "CLK (mc s2) = CLK (mc s1') + of_nat (time_of B oc s1' (less_time k t))"
    by (auto simp: takes_def)
  have "CLK (mc s1') = CLK (mc s) + of_nat k"
    using bus_timed.fetch_clk[OF assms(1), of s] assms(2) rc(3) by (simp add: s1'_def k_def)
  then have "CLK (mc s2) = CLK (mc s) + of_nat (time_of B oc s1' t)"
    using s2(2) time_of_less[OF te(2), of B oc s1'] by simp
  moreover have "exec_opcode B oc s1 = Some (s2, None)"
    using s2(1) by (simp add: exec_opcode_def s1'_def r_def c_def)
  ultimately show ?thesis unfolding s1'_def by blast
qed

lemma flat_bus_timed: "bus_timed flat_bus"
  by unfold_locales (simp_all add: flat_bus_def)

text \<open>At $10F0 a \<open>BNE\<close> 32 bytes ahead, into the next page, with the zero flag clear.\<close>

theorem opcode_timing_witness:
  "\<exists>s s2. CLK (mc s) = 0 \<and> exec_opcode flat_bus \<lparr>ins = 0xD0, op16 = 0x20\<rparr> (CLK_ADD 2 s) = Some (s2, None) \<and> CLK (mc s2) = 4"
proof -
  define s where "s = LOCAL_SET_ZERO False (upd_mc (\<lambda>m. m\<lparr>reg_pc := 0x10F0, mem_ram := (mem_ram m)(0x10F0 := 0xD0, 0x10F1 := 0x20)\<rparr>) example_cpu)"
  have f: "FETCH_OPCODE flat_bus s = (\<lparr>ins = 0xD0, op16 = 0x20\<rparr>, CLK_ADD 2 s)"
  proof -
    have "\<not> fetch_tab ! 208" "\<not> (0x10F0::dword) <s 0" by code_simp+
    then show ?thesis
      by (simp add: FETCH_OPCODE_def s_def upd_mc_def example_cpu_def example_machine_def LOAD_def with_mc_def
          flat_bus_def CLK_ADD_def)
  qed
  have t: "opcode_cycles ! unat (drop_bit 4 (ins \<lparr>ins = 0xD0, op16 = 0x20\<rparr>)) ! unat (ins \<lparr>ins = 0xD0, op16 = 0x20\<rparr> AND 0xF)
      = Some (Relative 2 Zero False)"
    by (simp add: opcode_cycles_def)
  obtain s2 where s2: "exec_opcode flat_bus \<lparr>ins = 0xD0, op16 = 0x20\<rparr> (CLK_ADD 2 s) = Some (s2, None)"
    "CLK (mc s2) = CLK (mc s) + of_nat (time_of flat_bus \<lparr>ins = 0xD0, op16 = 0x20\<rparr> (SET_LAST_OPCODE 0xD0 (CLK_ADD 2 s)) (Relative 2 Zero False))"
    using opcode_timing[OF flat_bus_timed f t] by auto
  have "CLK (mc s) = 0" by (simp add: s_def upd_mc_def example_cpu_def example_machine_def)
  moreover have "reg_pc (mc (SET_LAST_OPCODE 0xD0 (CLK_ADD 2 s))) = 0x10F0" "\<not> LOCAL_ZERO (SET_LAST_OPCODE 0xD0 (CLK_ADD 2 s))"
    by (simp_all add: s_def SET_LAST_OPCODE_def upd_opinfo_def LOCAL_ZERO_def LOCAL_SET_ZERO_def CLK_ADD_def upd_mc_def)
  then have "time_of flat_bus \<lparr>ins = 0xD0, op16 = 0x20\<rparr> (SET_LAST_OPCODE 0xD0 (CLK_ADD 2 s)) (Relative 2 Zero False) = 4"
    by (simp add: time_of_def Let_def p1_def)
  ultimately show ?thesis using s2 by auto
qed

end
