(* ===== verification/C64mem.thy ===== *)
theory C64mem
  imports Cpu6510_Timing
begin

text \<open>
  The memory of the C64: the processor port of \<open>c64pla.c\<close>, the handlers and handler tables of
  \<open>c64mem.c\<close>, and the read limits of \<open>c64memlimit.c\<close>. It is the bus of the 6510 core. A handler
  of another component (I/O chips, cartridges, memory expansions) is a parameter: it sees the clock
  and the RAM and changes the alarms, the interrupt lines and the state of its component, and a
  store handler the RAM as well. Of these parameters only an alarm callback moves the clock.
\<close>

subsection \<open>State\<close>

record pport_t =
  p_dir :: byte
  p_data :: byte
  p_dir_read :: byte
  p_data_read :: byte
  p_data_out :: byte
  data_set_clk_bit6 :: clock
  data_set_clk_bit7 :: clock
  data_set_bit6 :: byte
  data_set_bit7 :: byte
  data_falloff_bit6 :: bool
  data_falloff_bit7 :: bool

datatype read_handler = Zero_Read | Ram_Read | Chargen_Read | Colorram_Read | Void_Read
  | Basic64_Read | Kernal64_Read
  | IO_Read nat | Cia1_Read | Cia2_Read | Roml_Read | Romh_Read | Ultimax_Romh_Hirom_Read
  | Ultimax_1000_Read | Ultimax_A000_Read | Ultimax_C000_Read | Ultimax_D000_Read
  | Segment_Read nat | Plus256k_Low_Read | Plus256k_High_Read | Plus60k_Read | Unset_Read

datatype store_handler = Zero_Store | Ram_Store | Ram_Hi_Store | Vbank_Store | Vbank_39xx_Store
  | Vbank_3fxx_Store | Chargen_Store | Colorram_Store | Void_Store
  | IO_Store nat | Cia1_Store | Cia2_Store | Roml_Store | Romh_Store | Roml_No_Ultimax_Store
  | Raml_No_Ultimax_Store | Romh_No_Ultimax_Store | Ramh_No_Ultimax_Store
  | Ultimax_1000_Store | Ultimax_A000_Store | Ultimax_C000_Store | Ultimax_D000_Store
  | Segment_Store nat | Plus256k_Low_Store | Plus256k_High_Store
  | Plus60k_Store | Plus60k_Hi_Store | Plus60k_Vbank_Store | Plus60k_Vbank_39xx_Store
  | Plus60k_Vbank_3fxx_Store | Unset_Store

record 'd c64 =
  pport :: pport_t
  old_port_data_out :: byte
  old_port_write_bit :: byte
  old_port_sense_out :: byte
  vbank :: nat
  mem_config :: nat
  tape_sense :: bool
  tape_write_in :: bool
  tape_motor_in :: bool
  watchpoints_active :: bool
  exrom :: bool
  game :: bool
  c64_256k_enabled :: bool
  plus256k_enabled :: bool
  mem_color_ram :: "dword \<Rightarrow> byte"
  mem_chargen_rom :: "dword \<Rightarrow> byte"
  basic64_rom :: "dword \<Rightarrow> byte"
  kernal64_rom :: "dword \<Rightarrow> byte"
  kernal64_trap_rom :: "dword \<Rightarrow> byte"
  mem_read_tab :: "nat \<Rightarrow> nat \<Rightarrow> read_handler"
  mem_write_tab :: "nat \<Rightarrow> nat \<Rightarrow> nat \<Rightarrow> store_handler"
  mem_read_base_tab :: "nat \<Rightarrow> nat \<Rightarrow> nat option"
  mem_read_limit_tab :: "nat \<Rightarrow> nat \<Rightarrow> dword"
  rest :: 'd

text \<open>What the other components contribute, on their own state.\<close>

datatype c64_event =
    Watch_Load word16
  | Watch_Store word16
  | Tapeport_Set_Motor bool
  | Tapeport_Toggle_Write_Bit byte
  | Tapeport_Set_Sense_Out bool
  | Vicii_Vbank_Store word16 byte
  | Vicii_39xx_Store word16 byte
  | Vicii_3fxx_Store word16 byte
  | Vicii_Set_Vbank nat
  | Handle_Pending_Alarms nat

type_synonym 'd env = "alarm_context \<times> interrupt_cpu_status \<times> 'd"

record 'd c64_devs =
  event :: "c64_event \<Rightarrow> clock \<Rightarrow> 'd env \<Rightarrow> 'd env"
  other_read :: "read_handler \<Rightarrow> word16 \<Rightarrow> clock \<Rightarrow> (dword \<Rightarrow> byte) \<Rightarrow> 'd env \<Rightarrow> byte \<times> 'd env"
  other_store :: "store_handler \<Rightarrow> word16 \<Rightarrow> byte \<Rightarrow> clock \<Rightarrow> (dword \<Rightarrow> byte) \<times> 'd env \<Rightarrow> (dword \<Rightarrow> byte) \<times> 'd env"
  reu_dma :: "clock \<Rightarrow> (dword \<Rightarrow> byte) \<times> 'd env \<Rightarrow> (dword \<Rightarrow> byte) \<times> 'd env"
  read_phi1 :: "'d \<Rightarrow> byte"
  read_phi1_lowlevel :: "'d \<Rightarrow> byte"
  cartridge_mmu :: "dword \<Rightarrow> 'd \<Rightarrow> nat \<times> dword \<times> dword"
  other_bank :: "nat \<Rightarrow> dword \<Rightarrow> 'd \<Rightarrow> byte"
  on_alarm :: "nat \<Rightarrow> clock \<Rightarrow> clock \<times> 'd env \<Rightarrow> clock \<times> 'd env"
  on_ext :: "ext_call \<Rightarrow> 'd env \<Rightarrow> dword \<times> 'd env"

type_synonym 'd c64_machine = "'d c64 machine"

definition upd_c64 :: "('d c64 \<Rightarrow> 'd c64) \<Rightarrow> 'd c64_machine \<Rightarrow> 'd c64_machine" where
  "upd_c64 f m = m\<lparr>dev := f (dev m)\<rparr>"

definition get_env :: "'d c64_machine \<Rightarrow> 'd env" where
  "get_env m = (alarm_ctx m, int_status m, rest (dev m))"

definition put_env :: "'d env \<Rightarrow> 'd c64_machine \<Rightarrow> 'd c64_machine" where
  "put_env e m = (case e of (a, i, d) \<Rightarrow> upd_c64 (\<lambda>c. c\<lparr>rest := d\<rparr>) (m\<lparr>alarm_ctx := a, int_status := i\<rparr>))"

definition emit :: "'d c64_devs \<Rightarrow> c64_event \<Rightarrow> 'd c64_machine \<Rightarrow> 'd c64_machine" where
  "emit D e m = put_env (event D e (CLK m) (get_env m)) m"

definition call_read :: "'d c64_devs \<Rightarrow> read_handler \<Rightarrow> word16 \<Rightarrow> 'd c64_machine \<Rightarrow> byte \<times> 'd c64_machine" where
  "call_read D h addr m =
     (let (v, e) = other_read D h addr (CLK m) (mem_ram m) (get_env m) in (v, put_env e m))"

definition call_store :: "'d c64_devs \<Rightarrow> store_handler \<Rightarrow> word16 \<Rightarrow> byte \<Rightarrow> 'd c64_machine \<Rightarrow> 'd c64_machine" where
  "call_store D h addr v m =
     (let (ram, e) = other_store D h addr v (CLK m) (mem_ram m, get_env m)
      in put_env e (m\<lparr>mem_ram := ram\<rparr>))"

subsection \<open>Processor port\<close>

abbreviation (input) FALL_OFF_CYCLES :: clock where
  "FALL_OFF_CYCLES \<equiv> 350000"

definition c64pla_port_values ::
  "bool \<Rightarrow> bool \<Rightarrow> bool \<Rightarrow> bool \<Rightarrow> byte \<Rightarrow> pport_t \<Rightarrow> pport_t" where
  "c64pla_port_values sense write_in motor_in caps_sense pullup p =
     (let out = (p_data_out p AND NOT (p_dir p)) OR (p_data p AND p_dir p);
          r0 = (p_data p OR NOT (p_dir p)) AND (out OR pullup);
          r1 = (if pullup AND 0x40 \<noteq> 0 \<and> \<not> caps_sense then r0 AND 0xBF else r0);
          r2 = (if p_dir p AND 0x20 = 0 then r1 AND 0xDF else r1);
          r3 = (if sense \<and> p_dir p AND 0x10 = 0 then r2 AND 0xEF else r2);
          r4 = (if write_in \<and> p_dir p AND 0x08 = 0 then r3 AND 0xF7 else r3);
          r5 = (if motor_in \<and> p_dir p AND 0x20 = 0 then r4 AND 0xDF else r4)
      in p\<lparr>p_data_out := out, p_data_read := r5, p_dir_read := p_dir p\<rparr>)"

definition c64pla_config_changed ::
  "'d c64_devs \<Rightarrow> bool \<Rightarrow> bool \<Rightarrow> bool \<Rightarrow> bool \<Rightarrow> byte \<Rightarrow> 'd c64_machine \<Rightarrow> 'd c64_machine" where
  "c64pla_config_changed D sense write_in motor_in caps_sense pullup m0 =
     (let m = upd_c64 (\<lambda>c. c\<lparr>pport := c64pla_port_values sense write_in motor_in caps_sense pullup (pport c)\<rparr>) m0;
          p = pport (dev m);
          motor = (p_dir p AND p_data p) AND 0x20;
          m1 = (if motor \<noteq> old_port_data_out (dev m)
                then emit D (Tapeport_Set_Motor (motor = 0)) (upd_c64 (\<lambda>c. c\<lparr>old_port_data_out := motor\<rparr>) m) else m);
          wr = (NOT (p_dir p) OR p_data p) AND 0x08;
          m2 = (if wr \<noteq> old_port_write_bit (dev m1)
                then emit D (Tapeport_Toggle_Write_Bit wr) (upd_c64 (\<lambda>c. c\<lparr>old_port_write_bit := wr\<rparr>) m1) else m1);
          so = (p_dir p AND p_data p) AND 0x10
      in if so \<noteq> old_port_sense_out (dev m2)
         then emit D (Tapeport_Set_Sense_Out (so = 0)) (upd_c64 (\<lambda>c. c\<lparr>old_port_sense_out := so\<rparr>) m2) else m2)"

definition c64pla_pport_reset :: "pport_t \<Rightarrow> pport_t" where
  "c64pla_pport_reset p =
     p\<lparr>p_data := 0x3F, p_data_out := 0x3F, p_data_read := 0x3F, p_dir := 0, p_dir_read := 0,
       data_set_bit6 := 0, data_set_bit7 := 0, data_falloff_bit6 := False, data_falloff_bit7 := False\<rparr>"

text \<open>The two unused bits discharge once their clock has passed.\<close>

definition pport_falloff :: "clock \<Rightarrow> pport_t \<Rightarrow> pport_t" where
  "pport_falloff clk p0 =
     (let p1 = (if data_falloff_bit6 p0 \<and> data_set_clk_bit6 p0 < clk
                then p0\<lparr>data_falloff_bit6 := False, data_set_bit6 := 0\<rparr> else p0)
      in if data_falloff_bit7 p1 \<and> data_set_clk_bit7 p1 < clk
         then p1\<lparr>data_falloff_bit7 := False, data_set_bit7 := 0\<rparr> else p1)"

definition clk_overflow_callback :: "clock \<Rightarrow> clock \<Rightarrow> pport_t \<Rightarrow> pport_t" where
  "clk_overflow_callback sub clk p0 =
     (let p1 = (if data_set_clk_bit6 p0 > 0 then p0\<lparr>data_set_clk_bit6 := data_set_clk_bit6 p0 - sub\<rparr> else p0);
          p2 = (if data_falloff_bit6 p1 \<and> data_set_clk_bit6 p1 < clk
                then p1\<lparr>data_falloff_bit6 := False, data_set_bit6 := 0\<rparr> else p1);
          p3 = (if data_set_clk_bit7 p2 > 0 then p2\<lparr>data_set_clk_bit7 := data_set_clk_bit7 p2 - sub\<rparr> else p2)
      in if data_falloff_bit7 p3 \<and> data_set_clk_bit7 p3 < clk
         then p3\<lparr>data_falloff_bit7 := False, data_set_bit7 := 0\<rparr> else p3)"

subsection \<open>Memory configuration\<close>

definition pla_mem_config :: "pport_t \<Rightarrow> bool \<Rightarrow> bool \<Rightarrow> nat" where
  "pla_mem_config p ex ga =
     unat ((NOT (p_dir p) OR p_data p) AND 0x7) + (if ex then 8 else 0) + (if ga then 16 else 0)"

text \<open>\<open>mem_mmu_translate\<close> uses the tables of the current configuration.\<close>

definition mem_mmu_translate :: "'d c64_devs \<Rightarrow> dword \<Rightarrow> 'd c64_machine \<Rightarrow> nat \<times> dword \<times> dword" where
  "mem_mmu_translate D addr m =
     (let c = dev m; page = unat (drop_bit 8 addr)
      in case mem_read_base_tab c (mem_config c) page of
           Some p \<Rightarrow>
             (if addr > 1
              then (let limits = mem_read_limit_tab c (mem_config c) page
                    in (p, drop_bit 16 limits, limits AND 0xFFFF))
              else cartridge_mmu D addr (rest c))
         | None \<Rightarrow> cartridge_mmu D addr (rest c))"

definition maincpu_resync_limits :: "'d c64_devs \<Rightarrow> 'd c64_machine \<Rightarrow> 'd c64_machine" where
  "maincpu_resync_limits D m =
     (case mem_mmu_translate D (reg_pc m) m of
        (b, st, l) \<Rightarrow> m\<lparr>bank_base := b, bank_start := st, bank_limit := l\<rparr>)"

definition mem_pla_config_changed :: "'d c64_devs \<Rightarrow> 'd c64_machine \<Rightarrow> 'd c64_machine" where
  "mem_pla_config_changed D m =
     (let m1 = upd_c64 (\<lambda>c. c\<lparr>mem_config := pla_mem_config (pport c) (exrom c) (game c)\<rparr>) m;
          c = dev m1;
          m2 = c64pla_config_changed D (tape_sense c) (tape_write_in c) (tape_motor_in c) True 0x17 m1
      in maincpu_resync_limits D m2)"

definition mem_toggle_watchpoints :: "bool \<Rightarrow> 'd c64 \<Rightarrow> 'd c64" where
  "mem_toggle_watchpoints flag c = c\<lparr>watchpoints_active := flag\<rparr>"

subsection \<open>Handlers\<close>

definition zero_read :: "'d c64_devs \<Rightarrow> word16 \<Rightarrow> 'd c64_machine \<Rightarrow> byte \<times> 'd c64_machine" where
  "zero_read D addr0 m =
     (let addr = addr0 AND 0xFF; p = pport (dev m)
      in if addr = 0 then (p_dir_read p, m)
         else if addr = 1 then
           (let p1 = pport_falloff (CLK m) p;
                v0 = p_data_read p;
                v1 = (if p_dir_read p AND 0x40 = 0 then (v0 AND NOT 0x40) OR data_set_bit6 p1 else v0);
                v2 = (if p_dir_read p AND 0x80 = 0 then (v1 AND NOT 0x80) OR data_set_bit7 p1 else v1)
            in (v2, upd_c64 (\<lambda>c. c\<lparr>pport := p1\<rparr>) m))
         else if c64_256k_enabled (dev m) then call_read D (Segment_Read 0) addr m
         else if plus256k_enabled (dev m) then call_read D Plus256k_Low_Read addr m
         else (mem_ram m (ucast addr), m))"

definition ram_store :: "word16 \<Rightarrow> byte \<Rightarrow> 'd c64_machine \<Rightarrow> 'd c64_machine" where
  "ram_store addr v m = m\<lparr>mem_ram := (mem_ram m)(ucast addr := v)\<rparr>"

text \<open>A store into the video bank reaches the RAM, and the VIC-II is told.\<close>

definition vbank_store :: "'d c64_devs \<Rightarrow> c64_event \<Rightarrow> word16 \<Rightarrow> byte \<Rightarrow> 'd c64_machine \<Rightarrow> 'd c64_machine" where
  "vbank_store D e addr v m = ram_store addr v (emit D e m)"

text \<open>The part of \<open>zero_store\<close> that chooses among the memory expansions.\<close>

definition zero_ram_store :: "'d c64_devs \<Rightarrow> word16 \<Rightarrow> byte \<Rightarrow> 'd c64_machine \<Rightarrow> 'd c64_machine" where
  "zero_ram_store D addr v m =
     (if c64_256k_enabled (dev m) then call_store D (Segment_Store 0) addr v m
      else if plus256k_enabled (dev m) then call_store D Plus256k_Low_Store addr v m
      else vbank_store D (Vicii_Vbank_Store addr v) addr v m)"

definition port_ram_store :: "'d c64_devs \<Rightarrow> word16 \<Rightarrow> 'd c64_machine \<Rightarrow> 'd c64_machine" where
  "port_ram_store D addr m =
     (let v = read_phi1_lowlevel D (rest (dev m))
      in if vbank (dev m) = 0 then zero_ram_store D addr v m
         else emit D (Handle_Pending_Alarms (if RMW_FLAG m then 2 else 1)) (ram_store addr v m))"

definition charge_dir :: "clock \<Rightarrow> byte \<Rightarrow> pport_t \<Rightarrow> pport_t" where
  "charge_dir clk v p0 =
     (let p1 = (if p_dir p0 AND 0x40 \<noteq> 0 \<and> (p_dir p0 XOR v) AND 0x40 \<noteq> 0
                then p0\<lparr>data_set_clk_bit6 := clk + FALL_OFF_CYCLES, data_set_bit6 := p_data p0 AND 0x40,
                        data_falloff_bit6 := True\<rparr> else p0)
      in if p_dir p1 AND 0x80 \<noteq> 0 \<and> (p_dir p1 XOR v) AND 0x80 \<noteq> 0
         then p1\<lparr>data_set_clk_bit7 := clk + FALL_OFF_CYCLES, data_set_bit7 := p_data p1 AND 0x80,
                 data_falloff_bit7 := True\<rparr> else p1)"

definition charge_data :: "clock \<Rightarrow> byte \<Rightarrow> pport_t \<Rightarrow> pport_t" where
  "charge_data clk v p0 =
     (let p1 = (if p_dir p0 AND 0x80 \<noteq> 0
                then p0\<lparr>data_set_bit7 := v AND 0x80, data_set_clk_bit7 := clk + FALL_OFF_CYCLES,
                        data_falloff_bit7 := True\<rparr> else p0)
      in if p_dir p1 AND 0x40 \<noteq> 0
         then p1\<lparr>data_set_bit6 := v AND 0x40, data_set_clk_bit6 := clk + FALL_OFF_CYCLES,
                 data_falloff_bit6 := True\<rparr> else p1)"

definition upd_pport :: "(pport_t \<Rightarrow> pport_t) \<Rightarrow> 'd c64_machine \<Rightarrow> 'd c64_machine" where
  "upd_pport f = upd_c64 (\<lambda>c. c\<lparr>pport := f (pport c)\<rparr>)"

definition zero_store :: "'d c64_devs \<Rightarrow> word16 \<Rightarrow> byte \<Rightarrow> 'd c64_machine \<Rightarrow> 'd c64_machine" where
  "zero_store D addr0 v m0 =
     (let addr = addr0 AND 0xFF
      in if addr = 0 then
           (let m1 = port_ram_store D 0 m0; m = upd_pport (charge_dir (CLK m1) v) m1
            in if p_dir (pport (dev m)) \<noteq> v
               then mem_pla_config_changed D (upd_pport (\<lambda>p. p\<lparr>p_dir := v\<rparr>) m) else m)
         else if addr = 1 then
           (let m1 = port_ram_store D 1 m0; m = upd_pport (charge_data (CLK m1) v) m1
            in if p_data (pport (dev m)) \<noteq> v
               then mem_pla_config_changed D (upd_pport (\<lambda>p. p\<lparr>p_data := v\<rparr>) m) else m)
         else if vbank (dev m0) = 0 then zero_ram_store D addr v m0
         else ram_store addr v m0)"

definition ram_hi_store :: "'d c64_devs \<Rightarrow> word16 \<Rightarrow> byte \<Rightarrow> 'd c64_machine \<Rightarrow> 'd c64_machine" where
  "ram_hi_store D addr v m =
     (let m1 = (if vbank (dev m) = 3 then vbank_store D (Vicii_3fxx_Store addr v) addr v m else ram_store addr v m)
      in if addr = 0xFF00 then (let (ram, e) = reu_dma D (CLK m1) (mem_ram m1, get_env m1) in put_env e (m1\<lparr>mem_ram := ram\<rparr>))
         else m1)"

subsection \<open>The handler tables\<close>

definition plain_read :: "'d c64_devs \<Rightarrow> read_handler \<Rightarrow> word16 \<Rightarrow> 'd c64_machine \<Rightarrow> byte \<times> 'd c64_machine" where
  "plain_read D h addr m =
     (case h of
        Ram_Read \<Rightarrow> (mem_ram m (ucast addr), m)
      | Chargen_Read \<Rightarrow> (mem_chargen_rom (dev m) (ucast (addr AND 0xFFF)), m)
      | Colorram_Read \<Rightarrow> (mem_color_ram (dev m) (ucast (addr AND 0x3FF)) OR (read_phi1 D (rest (dev m)) AND 0xF0), m)
      | Void_Read \<Rightarrow> (read_phi1 D (rest (dev m)), m)
      | Zero_Read \<Rightarrow> zero_read D addr m
      | Basic64_Read \<Rightarrow> (basic64_rom (dev m) (ucast (addr AND 0x1FFF)), m)
      | Kernal64_Read \<Rightarrow> (kernal64_rom (dev m) (ucast (addr AND 0x1FFF)), m)
      | _ \<Rightarrow> call_read D h addr m)"

definition plain_store :: "'d c64_devs \<Rightarrow> store_handler \<Rightarrow> word16 \<Rightarrow> byte \<Rightarrow> 'd c64_machine \<Rightarrow> 'd c64_machine" where
  "plain_store D h addr v m =
     (case h of
        Ram_Store \<Rightarrow> ram_store addr v m
      | Ram_Hi_Store \<Rightarrow> ram_hi_store D addr v m
      | Vbank_Store \<Rightarrow> vbank_store D (Vicii_Vbank_Store addr v) addr v m
      | Vbank_39xx_Store \<Rightarrow> vbank_store D (Vicii_39xx_Store addr v) addr v m
      | Vbank_3fxx_Store \<Rightarrow> vbank_store D (Vicii_3fxx_Store addr v) addr v m
      | Chargen_Store \<Rightarrow> upd_c64 (\<lambda>c. c\<lparr>mem_chargen_rom := (mem_chargen_rom c)(ucast (addr AND 0xFFF) := v)\<rparr>) m
      | Colorram_Store \<Rightarrow> upd_c64 (\<lambda>c. c\<lparr>mem_color_ram := (mem_color_ram c)(ucast (addr AND 0x3FF) := v AND 0xF)\<rparr>) m
      | Void_Store \<Rightarrow> m
      | Zero_Store \<Rightarrow> zero_store D addr v m
      | _ \<Rightarrow> call_store D h addr v m)"

text \<open>With watchpoints active every handler first tells the monitor, then does its work.\<close>

definition c64_read :: "'d c64_devs \<Rightarrow> nat \<Rightarrow> word16 \<Rightarrow> 'd c64_machine \<Rightarrow> byte \<times> 'd c64_machine" where
  "c64_read D page addr m =
     (if watchpoints_active (dev m) then
        (let a = (if page = 0 then addr AND 0xFF else addr);
             pg = (if page = 0 then 0 else unat (drop_bit 8 addr));
             m1 = emit D (Watch_Load a) m
         in plain_read D (mem_read_tab (dev m1) (mem_config (dev m1)) pg) a m1)
      else plain_read D (mem_read_tab (dev m) (mem_config (dev m)) page) addr m)"

definition c64_store :: "'d c64_devs \<Rightarrow> nat \<Rightarrow> word16 \<Rightarrow> byte \<Rightarrow> 'd c64_machine \<Rightarrow> 'd c64_machine" where
  "c64_store D page addr v m =
     (if watchpoints_active (dev m) then
        (let a = (if page = 0 then addr AND 0xFF else addr);
             pg = (if page = 0 then 0 else unat (drop_bit 8 addr));
             m1 = emit D (Watch_Store a) m
         in plain_store D (mem_write_tab (dev m1) (vbank (dev m1)) (mem_config (dev m1)) pg) a v m1)
      else plain_store D (mem_write_tab (dev m) (vbank (dev m)) (mem_config (dev m)) page) addr v m)"

definition mem_read :: "'d c64_devs \<Rightarrow> word16 \<Rightarrow> 'd c64_machine \<Rightarrow> byte \<times> 'd c64_machine" where
  "mem_read D addr = c64_read D (unat (drop_bit 8 addr)) addr"

definition mem_store :: "'d c64_devs \<Rightarrow> word16 \<Rightarrow> byte \<Rightarrow> 'd c64_machine \<Rightarrow> 'd c64_machine" where
  "mem_store D addr v = c64_store D (unat (drop_bit 8 addr)) addr v"

subsection \<open>The other operations of the memory\<close>

definition mem_store_without_ultimax :: "'d c64_devs \<Rightarrow> word16 \<Rightarrow> byte \<Rightarrow> 'd c64_machine \<Rightarrow> 'd c64_machine" where
  "mem_store_without_ultimax D addr v m =
     plain_store D (mem_write_tab (dev m) (vbank (dev m)) (mem_config (dev m) AND 7) (unat (drop_bit 8 addr))) addr v m"

definition mem_read_without_ultimax :: "'d c64_devs \<Rightarrow> word16 \<Rightarrow> 'd c64_machine \<Rightarrow> byte \<times> 'd c64_machine" where
  "mem_read_without_ultimax D addr m =
     plain_read D (mem_read_tab (dev m) (mem_config (dev m) AND 7) (unat (drop_bit 8 addr))) addr m"

definition mem_store_without_romlh :: "'d c64_devs \<Rightarrow> word16 \<Rightarrow> byte \<Rightarrow> 'd c64_machine \<Rightarrow> 'd c64_machine" where
  "mem_store_without_romlh D addr v m =
     plain_store D (mem_write_tab (dev m) (vbank (dev m)) 0 (unat (drop_bit 8 addr))) addr v m"

definition mem_set_vbank :: "'d c64_devs \<Rightarrow> nat \<Rightarrow> 'd c64_machine \<Rightarrow> 'd c64_machine" where
  "mem_set_vbank D new_vbank m = emit D (Vicii_Set_Vbank new_vbank) (upd_c64 (\<lambda>c. c\<lparr>vbank := new_vbank\<rparr>) m)"

definition mem_set_tape_sense :: "'d c64_devs \<Rightarrow> bool \<Rightarrow> 'd c64_machine \<Rightarrow> 'd c64_machine" where
  "mem_set_tape_sense D sense m = mem_pla_config_changed D (upd_c64 (\<lambda>c. c\<lparr>tape_sense := sense\<rparr>) m)"

definition mem_set_tape_write_in :: "'d c64_devs \<Rightarrow> bool \<Rightarrow> 'd c64_machine \<Rightarrow> 'd c64_machine" where
  "mem_set_tape_write_in D val m = mem_pla_config_changed D (upd_c64 (\<lambda>c. c\<lparr>tape_write_in := val\<rparr>) m)"

definition mem_set_tape_motor_in :: "'d c64_devs \<Rightarrow> bool \<Rightarrow> 'd c64_machine \<Rightarrow> 'd c64_machine" where
  "mem_set_tape_motor_in D val m = mem_pla_config_changed D (upd_c64 (\<lambda>c. c\<lparr>tape_motor_in := val\<rparr>) m)"

definition mem_get_basic_text :: "'d c64_machine \<Rightarrow> word16 \<times> word16" where
  "mem_get_basic_text m =
     (ucast (u32 (mem_ram m 0x2B) OR push_bit 8 (u32 (mem_ram m 0x2C))),
      ucast (u32 (mem_ram m 0x2D) OR push_bit 8 (u32 (mem_ram m 0x2E))))"

definition mem_set_basic_text :: "word16 \<Rightarrow> word16 \<Rightarrow> 'd c64_machine \<Rightarrow> 'd c64_machine" where
  "mem_set_basic_text st en m =
     (let sl = ucast (st AND 0xFF); sh = ucast (drop_bit 8 st); el = ucast (en AND 0xFF); eh = ucast (drop_bit 8 en)
      in m\<lparr>mem_ram := (mem_ram m)(0xAC := sl, 0x2B := sl, 0xAD := sh, 0x2C := sh,
            0xAE := el, 0x31 := el, 0x2F := el, 0x2D := el, 0xAF := eh, 0x32 := eh, 0x30 := eh, 0x2E := eh)\<rparr>)"

definition mem_inject :: "dword \<Rightarrow> byte \<Rightarrow> 'd c64_machine \<Rightarrow> 'd c64_machine" where
  "mem_inject addr v m = m\<lparr>mem_ram := (mem_ram m)(addr AND 0xFFFF := v)\<rparr>"

definition mem_rom_trap_allowed :: "word16 \<Rightarrow> nat \<Rightarrow> bool" where
  "mem_rom_trap_allowed addr config \<longleftrightarrow>
     addr \<ge> 0xE000 \<and> config \<in> set [2, 3, 6, 7, 10, 11, 14, 15, 26, 27, 30, 31]"

definition c64memrom_trap_read :: "word16 \<Rightarrow> 'd c64 \<Rightarrow> byte" where
  "c64memrom_trap_read addr c =
     (if addr AND 0xF000 = 0xE000 \<or> addr AND 0xF000 = 0xF000
      then kernal64_trap_rom c (ucast (addr AND 0x1FFF)) else 0)"

definition c64memrom_trap_store :: "word16 \<Rightarrow> byte \<Rightarrow> 'd c64 \<Rightarrow> 'd c64" where
  "c64memrom_trap_store addr v c =
     (if addr AND 0xF000 = 0xE000 \<or> addr AND 0xF000 = 0xF000
      then c\<lparr>kernal64_trap_rom := (kernal64_trap_rom c)(ucast (addr AND 0x1FFF) := v)\<rparr> else c)"

definition c64memrom_rom64_read :: "word16 \<Rightarrow> 'd c64 \<Rightarrow> byte" where
  "c64memrom_rom64_read addr c =
     (if addr AND 0xF000 = 0xA000 \<or> addr AND 0xF000 = 0xB000 then basic64_rom c (ucast (addr AND 0x1FFF))
      else if addr AND 0xF000 = 0xD000 then mem_chargen_rom c (ucast (addr AND 0xFFF))
      else if addr AND 0xF000 = 0xE000 \<or> addr AND 0xF000 = 0xF000 then kernal64_rom c (ucast (addr AND 0x1FFF))
      else 0)"

definition c64memrom_rom64_store :: "word16 \<Rightarrow> byte \<Rightarrow> 'd c64 \<Rightarrow> 'd c64" where
  "c64memrom_rom64_store addr v c =
     (if addr AND 0xF000 = 0xA000 \<or> addr AND 0xF000 = 0xB000
      then c\<lparr>basic64_rom := (basic64_rom c)(ucast (addr AND 0x1FFF) := v)\<rparr>
      else if addr AND 0xF000 = 0xD000
      then c\<lparr>mem_chargen_rom := (mem_chargen_rom c)(ucast (addr AND 0xFFF) := v)\<rparr>
      else if addr AND 0xF000 = 0xE000 \<or> addr AND 0xF000 = 0xF000
      then c\<lparr>kernal64_rom := (kernal64_rom c)(ucast (addr AND 0x1FFF) := v)\<rparr> else c)"

subsection \<open>The bus\<close>

text \<open>The banks a code address can point into. The base pointers of C are biased by the start of the ROM.\<close>

abbreviation (input) RAM_BASE :: nat where "RAM_BASE \<equiv> 0"
abbreviation (input) CHARGEN_BASE :: nat where "CHARGEN_BASE \<equiv> 1"
abbreviation (input) BASIC_BASE :: nat where "BASIC_BASE \<equiv> 2"
abbreviation (input) KERNAL_TRAP_BASE :: nat where "KERNAL_TRAP_BASE \<equiv> 3"

definition c64_bank_byte :: "'d c64_devs \<Rightarrow> nat \<Rightarrow> dword \<Rightarrow> 'd c64_machine \<Rightarrow> byte" where
  "c64_bank_byte D b addr m =
     (if b = RAM_BASE then mem_ram m addr
      else if b = CHARGEN_BASE then mem_chargen_rom (dev m) (addr - 0xD000)
      else if b = BASIC_BASE then basic64_rom (dev m) (addr - 0xA000)
      else if b = KERNAL_TRAP_BASE then kernal64_trap_rom (dev m) (addr - 0xE000)
      else other_bank D b addr (rest (dev m)))"

definition c64_bus :: "'d c64_devs \<Rightarrow> 'd c64 bus" where
  "c64_bus D =
     \<lparr>read_tab = c64_read D, write_tab = c64_store D, mmu_translate = mem_mmu_translate D,
      bank_byte = c64_bank_byte D,
      alarm_callback = (\<lambda>a off m. let (k, e) = on_alarm D a off (CLK m, get_env m) in put_env e (m\<lparr>CLK := k\<rparr>)),
      ext = (\<lambda>c m. let (r, e) = on_ext D c (get_env m) in (r, put_env e m))\<rparr>"

subsection \<open>What the handlers leave alone\<close>

lemma put_env_frame [simp]:
  "CLK (put_env e m) = CLK m" "reg_pc (put_env e m) = reg_pc m" "mem_ram (put_env e m) = mem_ram m"
  "RMW_FLAG (put_env e m) = RMW_FLAG m" "bank_base (put_env e m) = bank_base m"
  "bank_start (put_env e m) = bank_start m" "bank_limit (put_env e m) = bank_limit m"
  by (simp_all add: put_env_def upd_c64_def split: prod.split)

lemma upd_c64_frame [simp]:
  "CLK (upd_c64 f m) = CLK m" "reg_pc (upd_c64 f m) = reg_pc m" "mem_ram (upd_c64 f m) = mem_ram m"
  "RMW_FLAG (upd_c64 f m) = RMW_FLAG m" "dev (upd_c64 f m) = f (dev m)" "dev (m\<lparr>mem_ram := ram\<rparr>) = dev m"
  by (simp_all add: upd_c64_def)

lemma dev_put_env [simp]:
  "\<exists>d. dev (put_env e m) = (dev m)\<lparr>rest := d\<rparr>"
  by (cases e) (auto simp: put_env_def upd_c64_def)

lemma emit_frame [simp]:
  "CLK (emit D e m) = CLK m" "reg_pc (emit D e m) = reg_pc m" "mem_ram (emit D e m) = mem_ram m"
  by (simp_all add: emit_def)

lemma put_env_dev [simp]:
  "pport (dev (put_env e m)) = pport (dev m)" "vbank (dev (put_env e m)) = vbank (dev m)"
  "mem_config (dev (put_env e m)) = mem_config (dev m)" "tape_sense (dev (put_env e m)) = tape_sense (dev m)"
  "tape_write_in (dev (put_env e m)) = tape_write_in (dev m)" "tape_motor_in (dev (put_env e m)) = tape_motor_in (dev m)"
  "exrom (dev (put_env e m)) = exrom (dev m)" "game (dev (put_env e m)) = game (dev m)"
  "watchpoints_active (dev (put_env e m)) = watchpoints_active (dev m)"
  "c64_256k_enabled (dev (put_env e m)) = c64_256k_enabled (dev m)"
  "plus256k_enabled (dev (put_env e m)) = plus256k_enabled (dev m)"
  by (simp_all add: put_env_def split: prod.split)

lemma call_read_frame [simp]:
  "CLK (snd (call_read D h a m)) = CLK m" "reg_pc (snd (call_read D h a m)) = reg_pc m"
  "mem_ram (snd (call_read D h a m)) = mem_ram m"
  by (simp_all add: call_read_def Let_def split_beta)

lemma call_store_frame [simp]:
  "CLK (call_store D h a v m) = CLK m" "reg_pc (call_store D h a v m) = reg_pc m"
  by (simp_all add: call_store_def Let_def split_beta)

lemma zero_read_frame [simp]:
  "CLK (snd (zero_read D a m)) = CLK m" "reg_pc (snd (zero_read D a m)) = reg_pc m"
  "mem_ram (snd (zero_read D a m)) = mem_ram m"
  by (simp_all add: zero_read_def Let_def)

lemma plain_read_frame [simp]:
  "CLK (snd (plain_read D h a m)) = CLK m" "reg_pc (snd (plain_read D h a m)) = reg_pc m"
  "mem_ram (snd (plain_read D h a m)) = mem_ram m"
  by (cases h; simp add: plain_read_def)+

lemma c64_read_frame [simp]:
  "CLK (snd (c64_read D p a m)) = CLK m" "reg_pc (snd (c64_read D p a m)) = reg_pc m"
  "mem_ram (snd (c64_read D p a m)) = mem_ram m"
  by (simp_all add: c64_read_def Let_def)

lemma ram_store_frame [simp]:
  "CLK (ram_store a v m) = CLK m" "reg_pc (ram_store a v m) = reg_pc m" "dev (ram_store a v m) = dev m"
  by (simp_all add: ram_store_def)

lemma vbank_store_frame [simp]:
  "CLK (vbank_store D e a v m) = CLK m" "reg_pc (vbank_store D e a v m) = reg_pc m"
  by (simp_all add: vbank_store_def)

lemma zero_ram_store_frame [simp]:
  "CLK (zero_ram_store D a v m) = CLK m" "reg_pc (zero_ram_store D a v m) = reg_pc m"
  by (simp_all add: zero_ram_store_def)

lemma port_ram_store_frame [simp]:
  "CLK (port_ram_store D a m) = CLK m" "reg_pc (port_ram_store D a m) = reg_pc m"
  by (simp_all add: port_ram_store_def Let_def)

lemma config_changed_frame [simp]:
  "CLK (c64pla_config_changed D s w mo ca pu m) = CLK m" "reg_pc (c64pla_config_changed D s w mo ca pu m) = reg_pc m"
  "CLK (mem_pla_config_changed D m) = CLK m" "reg_pc (mem_pla_config_changed D m) = reg_pc m"
  by (simp_all add: c64pla_config_changed_def mem_pla_config_changed_def maincpu_resync_limits_def Let_def split: prod.split)

lemma upd_pport_frame [simp]:
  "CLK (upd_pport f m) = CLK m" "reg_pc (upd_pport f m) = reg_pc m" "mem_ram (upd_pport f m) = mem_ram m"
  "dev (upd_pport f m) = (dev m)\<lparr>pport := f (pport (dev m))\<rparr>"
  by (simp_all add: upd_pport_def)

lemma zero_store_frame [simp]: "CLK (zero_store D a v m) = CLK m" "reg_pc (zero_store D a v m) = reg_pc m"
  by (simp_all add: zero_store_def Let_def)

lemma ram_hi_store_frame [simp]: "CLK (ram_hi_store D a v m) = CLK m" "reg_pc (ram_hi_store D a v m) = reg_pc m"
  by (simp_all add: ram_hi_store_def Let_def split_beta)

lemma plain_store_frame [simp]:
  "CLK (plain_store D h a v m) = CLK m" "reg_pc (plain_store D h a v m) = reg_pc m"
  by (cases h; simp add: plain_store_def)+

lemma c64_store_frame [simp]: "CLK (c64_store D p a v m) = CLK m" "reg_pc (c64_store D p a v m) = reg_pc m"
  by (simp_all add: c64_store_def Let_def)

text \<open>So the memory of the C64 is a bus of the kind the core's theorems ask for.\<close>

interpretation c64_frame: bus_frame "c64_bus D" for D
  by unfold_locales (simp_all add: c64_bus_def Let_def split_beta)

interpretation c64_timed: bus_timed "c64_bus D" for D
  by unfold_locales (simp_all add: c64_bus_def Let_def split_beta)

end
