(* ===== verification/C64_Port.thy ===== *)
theory C64_Port
  imports C64mem
begin

text \<open>
  What the processor port at $0000/$0001 promises to a program: the direction register and the
  output bits read back, the memory configuration follows the port, and an unused bit that is
  switched to input keeps its charge for a while.
\<close>

subsection \<open>The invariant of the port\<close>

definition port_ok :: "pport_t \<Rightarrow> bool" where
  "port_ok p \<longleftrightarrow> p_dir_read p = p_dir p \<and> p_data_read p AND p_dir p = p_data p AND p_dir p
     \<and> data_set_bit6 p AND 0x40 = data_set_bit6 p \<and> data_set_bit7 p AND 0x80 = data_set_bit7 p"

definition c64_ok :: "'d c64_machine \<Rightarrow> bool" where
  "c64_ok m \<longleftrightarrow> port_ok (pport (dev m)) \<and> mem_config (dev m) = pla_mem_config (pport (dev m)) (exrom (dev m)) (game (dev m))"

lemma c64_okI [inv_intros]:
  "port_ok (pport (dev m)) \<Longrightarrow> mem_config (dev m) = pla_mem_config (pport (dev m)) (exrom (dev m)) (game (dev m)) \<Longrightarrow> c64_ok m"
  by (simp add: c64_ok_def)

lemma port_value_bits:
  "p_dir (c64pla_port_values s w mo ca pu p) = p_dir p" "p_data (c64pla_port_values s w mo ca pu p) = p_data p"
  "p_dir_read (c64pla_port_values s w mo ca pu p) = p_dir p"
  "data_falloff_bit6 (c64pla_port_values s w mo ca pu p) = data_falloff_bit6 p"
  "data_falloff_bit7 (c64pla_port_values s w mo ca pu p) = data_falloff_bit7 p"
  "data_set_clk_bit6 (c64pla_port_values s w mo ca pu p) = data_set_clk_bit6 p"
  "data_set_clk_bit7 (c64pla_port_values s w mo ca pu p) = data_set_clk_bit7 p"
  "data_set_bit6 (c64pla_port_values s w mo ca pu p) = data_set_bit6 p"
  "data_set_bit7 (c64pla_port_values s w mo ca pu p) = data_set_bit7 p"
  by (simp_all add: c64pla_port_values_def Let_def)

lemma byte_masks:
  "\<forall>n \<in> set [0..<8]. (bit (0x80::byte) n \<longleftrightarrow> n = 7) \<and> (bit (0x40::byte) n \<longleftrightarrow> n = 6)
     \<and> (bit (0xBF::byte) n \<longleftrightarrow> n \<noteq> 6) \<and> (bit (0xDF::byte) n \<longleftrightarrow> n \<noteq> 5)
     \<and> (bit (0xEF::byte) n \<longleftrightarrow> n \<noteq> 4) \<and> (bit (0xF7::byte) n \<longleftrightarrow> n \<noteq> 3)"
  by code_simp

lemma byte_mask_bit:
  assumes "n < 8"
  shows "bit (0x80::byte) n \<longleftrightarrow> n = 7" "bit (0x40::byte) n \<longleftrightarrow> n = 6" "bit (0xBF::byte) n \<longleftrightarrow> n \<noteq> 6"
    "bit (0xDF::byte) n \<longleftrightarrow> n \<noteq> 5" "bit (0xEF::byte) n \<longleftrightarrow> n \<noteq> 4" "bit (0xF7::byte) n \<longleftrightarrow> n \<noteq> 3"
  using byte_masks[rule_format, of n] assms by (simp_all only: set_upt atLeastLessThan_iff simp_thms zero_le)

lemma and_bit_zero:
  assumes "k < 8"
  shows "((d::byte) AND push_bit k 1 = 0) = (\<not> bit d k)"
proof
  assume "d AND push_bit k 1 = 0"
  then have "bit (d AND push_bit k 1) k = bit (0::byte) k" by simp
  then show "\<not> bit d k" using assms by (simp add: bit_simps)
next
  assume "\<not> bit d k"
  then show "d AND push_bit k 1 = 0" by (intro bit_word_eqI) (auto simp: bit_simps)
qed

lemma mask_test:
  "((d::byte) AND 0x80 = 0) = (\<not> bit d 7)" "(d AND 0x40 = 0) = (\<not> bit d 6)" "(d AND 0x20 = 0) = (\<not> bit d 5)"
  "(d AND 0x10 = 0) = (\<not> bit d 4)" "(d AND 0x08 = 0) = (\<not> bit d 3)"
  using and_bit_zero[of 7 d] and_bit_zero[of 6 d] and_bit_zero[of 5 d] and_bit_zero[of 4 d] and_bit_zero[of 3 d]
  by simp_all

lemma port_values_ok:
  assumes "data_set_bit6 p AND 0x40 = data_set_bit6 p" "data_set_bit7 p AND 0x80 = data_set_bit7 p"
  shows "port_ok (c64pla_port_values s w mo True pu p)"
proof -
  have "bit (p_data_read (c64pla_port_values s w mo True pu p) AND p_dir p) n = bit (p_data p AND p_dir p) n" if "n < 8" for n
    using that byte_mask_bit[OF that] by (auto simp: c64pla_port_values_def Let_def bit_simps mask_test)
  then have "p_data_read (c64pla_port_values s w mo True pu p) AND p_dir p = p_data p AND p_dir p"
    by (intro bit_word_eqI) simp
  then show ?thesis using assms by (simp add: port_ok_def port_value_bits)
qed

subsection \<open>The operations keep it\<close>

lemma emit_dev [simp]:
  "pport (dev (emit D e m)) = pport (dev m)" "mem_config (dev (emit D e m)) = mem_config (dev m)"
  "exrom (dev (emit D e m)) = exrom (dev m)" "game (dev (emit D e m)) = game (dev m)"
  "vbank (dev (emit D e m)) = vbank (dev m)"
  by (simp_all add: emit_def)

lemma call_store_dev [simp]:
  "pport (dev (call_store D h a v m)) = pport (dev m)" "mem_config (dev (call_store D h a v m)) = mem_config (dev m)"
  "exrom (dev (call_store D h a v m)) = exrom (dev m)" "game (dev (call_store D h a v m)) = game (dev m)"
  by (simp_all add: call_store_def Let_def split_beta)

lemma port_ram_store_dev [simp]:
  "pport (dev (port_ram_store D a m)) = pport (dev m)" "mem_config (dev (port_ram_store D a m)) = mem_config (dev m)"
  "exrom (dev (port_ram_store D a m)) = exrom (dev m)" "game (dev (port_ram_store D a m)) = game (dev m)"
  by (simp_all add: port_ram_store_def zero_ram_store_def vbank_store_def Let_def)

lemma config_changed_dev:
  "pport (dev (c64pla_config_changed D s w mo ca pu m)) = c64pla_port_values s w mo ca pu (pport (dev m))"
  "mem_config (dev (c64pla_config_changed D s w mo ca pu m)) = mem_config (dev m)"
  "exrom (dev (c64pla_config_changed D s w mo ca pu m)) = exrom (dev m)"
  "game (dev (c64pla_config_changed D s w mo ca pu m)) = game (dev m)"
  by (simp_all add: c64pla_config_changed_def Let_def)

lemma pla_config_dev:
  "\<exists>s w mo. pport (dev (mem_pla_config_changed D m)) = c64pla_port_values s w mo True 0x17 (pport (dev m))"
  "mem_config (dev (mem_pla_config_changed D m)) = pla_mem_config (pport (dev m)) (exrom (dev m)) (game (dev m))"
  "exrom (dev (mem_pla_config_changed D m)) = exrom (dev m)" "game (dev (mem_pla_config_changed D m)) = game (dev m)"
  by (auto simp: mem_pla_config_changed_def maincpu_resync_limits_def Let_def config_changed_dev split: prod.split)

lemma port_of_config_changed [simp]:
  "p_dir (pport (dev (mem_pla_config_changed D m))) = p_dir (pport (dev m))" (is ?A)
  "p_data (pport (dev (mem_pla_config_changed D m))) = p_data (pport (dev m))" (is ?B)
  "p_dir_read (pport (dev (mem_pla_config_changed D m))) = p_dir (pport (dev m))" (is ?C)
  "data_falloff_bit6 (pport (dev (mem_pla_config_changed D m))) = data_falloff_bit6 (pport (dev m))" (is ?D)
  "data_falloff_bit7 (pport (dev (mem_pla_config_changed D m))) = data_falloff_bit7 (pport (dev m))" (is ?E)
  "data_set_clk_bit6 (pport (dev (mem_pla_config_changed D m))) = data_set_clk_bit6 (pport (dev m))" (is ?F)
  "data_set_clk_bit7 (pport (dev (mem_pla_config_changed D m))) = data_set_clk_bit7 (pport (dev m))" (is ?G)
  "data_set_bit6 (pport (dev (mem_pla_config_changed D m))) = data_set_bit6 (pport (dev m))" (is ?H)
  "data_set_bit7 (pport (dev (mem_pla_config_changed D m))) = data_set_bit7 (pport (dev m))" (is ?I)
  "exrom (dev (mem_pla_config_changed D m)) = exrom (dev m)" (is ?J) "game (dev (mem_pla_config_changed D m)) = game (dev m)" (is ?K)
proof -
  obtain s w mo where p: "pport (dev (mem_pla_config_changed D m)) = c64pla_port_values s w mo True 0x17 (pport (dev m))"
    using pla_config_dev(1) by blast
  show ?A ?B ?C ?D ?E ?F ?G ?H ?I ?J ?K
    unfolding p pla_config_dev by (simp_all add: port_value_bits)
qed

definition charges_ok :: "'d c64_machine \<Rightarrow> bool" where
  "charges_ok m \<longleftrightarrow> (let p = pport (dev m) in data_set_bit6 p AND 0x40 = data_set_bit6 p \<and> data_set_bit7 p AND 0x80 = data_set_bit7 p)"

lemma pla_config_ok [inv_intros]:
  assumes "charges_ok m"
  shows "c64_ok (mem_pla_config_changed D m)"
proof -
  obtain s w mo where p: "pport (dev (mem_pla_config_changed D m)) = c64pla_port_values s w mo True 0x17 (pport (dev m))"
    using pla_config_dev(1) by blast
  show ?thesis
    unfolding c64_ok_def pla_config_dev(2) unfolding p
    using assms by (simp add: port_values_ok pla_mem_config_def port_value_bits charges_ok_def Let_def)
qed

lemma charge_fields [simp]:
  "p_dir (charge_dir k v p) = p_dir p" "p_data (charge_dir k v p) = p_data p" "p_dir_read (charge_dir k v p) = p_dir_read p"
  "p_data_read (charge_dir k v p) = p_data_read p"
  "p_dir (charge_data k v p) = p_dir p" "p_data (charge_data k v p) = p_data p" "p_dir_read (charge_data k v p) = p_dir_read p"
  "p_data_read (charge_data k v p) = p_data_read p"
  "p_dir (pport_falloff k p) = p_dir p" "p_data (pport_falloff k p) = p_data p" "p_dir_read (pport_falloff k p) = p_dir_read p"
  "p_data_read (pport_falloff k p) = p_data_read p"
  "p_dir (clk_overflow_callback b k p) = p_dir p" "p_data (clk_overflow_callback b k p) = p_data p"
  "p_dir_read (clk_overflow_callback b k p) = p_dir_read p" "p_data_read (clk_overflow_callback b k p) = p_data_read p"
  by (simp_all add: charge_dir_def charge_data_def pport_falloff_def clk_overflow_callback_def Let_def)

lemma port_ok_charge:
  "port_ok p \<Longrightarrow> port_ok (charge_dir k v p)" "port_ok p \<Longrightarrow> port_ok (charge_data k v p)"
  "port_ok p \<Longrightarrow> port_ok (pport_falloff k p)" "port_ok p \<Longrightarrow> port_ok (clk_overflow_callback b k p)"
  unfolding port_ok_def charge_fields
  by (auto simp: charge_dir_def charge_data_def pport_falloff_def clk_overflow_callback_def Let_def)

lemma pla_config_charge [simp]:
  "pla_mem_config (charge_dir k v p) ex ga = pla_mem_config p ex ga"
  "pla_mem_config (charge_data k v p) ex ga = pla_mem_config p ex ga"
  "pla_mem_config (pport_falloff k p) ex ga = pla_mem_config p ex ga"
  "pla_mem_config (clk_overflow_callback b k p) ex ga = pla_mem_config p ex ga"
  by (simp_all add: pla_mem_config_def)

lemma c64_ok_charges: "c64_ok m \<Longrightarrow> charges_ok m"
  by (simp add: c64_ok_def charges_ok_def port_ok_def Let_def)

lemma port_ok_charges: "port_ok p \<Longrightarrow> data_set_bit6 p AND 0x40 = data_set_bit6 p" "port_ok p \<Longrightarrow> data_set_bit7 p AND 0x80 = data_set_bit7 p"
  by (simp_all add: port_ok_def)

lemma zero_store_port:
  "addr AND 0xFF = 0 \<Longrightarrow> p_dir (pport (dev (zero_store D addr v m))) = v
     \<and> p_data (pport (dev (zero_store D addr v m))) = p_data (pport (dev m))"
  "addr AND 0xFF = 1 \<Longrightarrow> p_data (pport (dev (zero_store D addr v m))) = v
     \<and> p_dir (pport (dev (zero_store D addr v m))) = p_dir (pport (dev m))"
  "exrom (dev (zero_store D addr v m)) = exrom (dev m)" "game (dev (zero_store D addr v m)) = game (dev m)"
  by (auto simp: zero_store_def Let_def zero_ram_store_def vbank_store_def)

lemma zero_store_ok [inv_intros]:
  assumes "c64_ok m"
  shows "c64_ok (zero_store D addr v m)"
proof -
  have p: "port_ok (pport (dev m))" using assms by (simp add: c64_ok_def)
  note c = port_ok_charge[OF p] port_ok_charges[OF port_ok_charge(1)[OF p]] port_ok_charges[OF port_ok_charge(2)[OF p]]
  show ?thesis
    by (auto simp: zero_store_def Let_def charges_ok_def c intro!: pla_config_ok)
      (use assms c in \<open>auto simp: c64_ok_def zero_ram_store_def vbank_store_def\<close>)
qed

lemma port_ops_ok [inv_intros]:
  assumes "c64_ok m"
  shows "c64_ok (snd (zero_read D addr m))" "c64_ok (emit D e m)"
  "c64_ok (upd_pport (clk_overflow_callback b k) m)"
  "c64_ok (mem_set_tape_sense D s m)" "c64_ok (mem_set_tape_write_in D s m)" "c64_ok (mem_set_tape_motor_in D s m)"
  "c64_ok (mem_set_vbank D nv m)"
proof -
  have p: "port_ok (pport (dev m))" and ch: "charges_ok m" using assms c64_ok_charges by (auto simp: c64_ok_def)
  show "c64_ok (snd (zero_read D addr m))"
    using assms port_ok_charge(3)[OF p] by (auto simp: zero_read_def call_read_def Let_def split_beta c64_ok_def)
  show "c64_ok (emit D e m)" "c64_ok (upd_pport (clk_overflow_callback b k) m)" "c64_ok (mem_set_vbank D nv m)"
    using assms port_ok_charge(4)[OF p] by (auto simp: c64_ok_def mem_set_vbank_def)
  show "c64_ok (mem_set_tape_sense D s m)" "c64_ok (mem_set_tape_write_in D s m)" "c64_ok (mem_set_tape_motor_in D s m)"
    using ch by (auto simp: mem_set_tape_sense_def mem_set_tape_write_in_def mem_set_tape_motor_in_def charges_ok_def
        intro!: pla_config_ok)
qed

lemma c64_access_ok [inv_intros]:
  "c64_ok m \<Longrightarrow> c64_ok (snd (c64_read D p a m))" "c64_ok m \<Longrightarrow> c64_ok (c64_store D p a v m)"
proof -
  have r: "c64_ok m \<Longrightarrow> c64_ok (snd (plain_read D h a m))" for h a m
    by (cases h; simp add: plain_read_def inv_intros) (simp_all add: c64_ok_def call_read_def Let_def split_beta)
  have s: "c64_ok m \<Longrightarrow> c64_ok (plain_store D h a v m)" for h a v m
    by (cases h; simp add: plain_store_def inv_intros)
      (simp_all add: c64_ok_def ram_hi_store_def vbank_store_def Let_def split_beta)
  show "c64_ok m \<Longrightarrow> c64_ok (snd (c64_read D p a m))" "c64_ok m \<Longrightarrow> c64_ok (c64_store D p a v m)"
    by (simp_all add: c64_read_def c64_store_def Let_def r s inv_intros)
qed

subsection \<open>Reading back\<close>

lemma read_port_dir: "fst (zero_read D 0 m) = p_dir_read (pport (dev m))"
  by (simp add: zero_read_def)

lemma read_port_bit:
  assumes "n < 8" "charges_ok m"
  shows "bit (fst (zero_read D 1 m)) n =
    (if n = 6 \<and> \<not> bit (p_dir_read (pport (dev m))) 6 then data_set_bit6 (pport_falloff (CLK m) (pport (dev m))) \<noteq> 0
     else if n = 7 \<and> \<not> bit (p_dir_read (pport (dev m))) 7 then data_set_bit7 (pport_falloff (CLK m) (pport (dev m))) \<noteq> 0
     else bit (p_data_read (pport (dev m))) n)"
proof -
  define q where "q = pport_falloff (CLK m) (pport (dev m))"
  have c: "data_set_bit6 q AND 0x40 = data_set_bit6 q" "data_set_bit7 q AND 0x80 = data_set_bit7 q"
    using assms(2) by (auto simp: q_def pport_falloff_def charges_ok_def Let_def)
  have b6: "bit (data_set_bit6 q) k \<longleftrightarrow> k = 6 \<and> data_set_bit6 q \<noteq> 0" if "k < 8" for k
    using c(1) mask_test(2)[of "data_set_bit6 q"] byte_mask_bit(2)[OF that] by (metis bit_and_iff)
  have b7: "bit (data_set_bit7 q) k \<longleftrightarrow> k = 7 \<and> data_set_bit7 q \<noteq> 0" if "k < 8" for k
    using c(2) mask_test(1)[of "data_set_bit7 q"] byte_mask_bit(1)[OF that] by (metis bit_and_iff)
  show ?thesis
    using assms(1) byte_mask_bit(1,2)[OF assms(1)]
    by (auto simp: zero_read_def Let_def q_def[symmetric] bit_simps mask_test b6 b7)
qed

text \<open>
  C17: The processor port. After a store to $01, $00 reads the direction register, the bits of $01
  that are outputs read the value just stored, the memory configuration is the one that the three
  low bits of the port (inputs count as 1) and the cartridge lines select and indexes the tables
  of 32 configurations, and the port is consistent again.
\<close>

theorem processor_port:
  assumes "c64_ok m"
  shows "fst (zero_read D 0 (zero_store D 1 v m)) = p_dir (pport (dev m))
    \<and> fst (zero_read D 1 (zero_store D 1 v m)) AND p_dir (pport (dev m)) = v AND p_dir (pport (dev m))
    \<and> mem_config (dev (zero_store D 1 v m)) = unat ((NOT (p_dir (pport (dev m))) OR v) AND 7)
         + (if exrom (dev m) then 8 else 0) + (if game (dev m) then 16 else 0)
    \<and> mem_config (dev (zero_store D 1 v m)) < 32
    \<and> c64_ok (zero_store D 1 v m)"
proof -
  define m1 where "m1 = zero_store D 1 v m"
  have ok: "c64_ok m1" unfolding m1_def by (rule zero_store_ok[OF assms])
  then have p: "p_dir_read (pport (dev m1)) = p_dir (pport (dev m1))"
      "p_data_read (pport (dev m1)) AND p_dir (pport (dev m1)) = p_data (pport (dev m1)) AND p_dir (pport (dev m1))"
      "mem_config (dev m1) = pla_mem_config (pport (dev m1)) (exrom (dev m1)) (game (dev m1))"
    by (simp_all add: c64_ok_def port_ok_def)
  have d: "p_dir (pport (dev m1)) = p_dir (pport (dev m))" "p_data (pport (dev m1)) = v"
    "exrom (dev m1) = exrom (dev m)" "game (dev m1) = game (dev m)"
    by (simp_all add: m1_def zero_store_port)
  have "bit (fst (zero_read D 1 m1) AND p_dir (pport (dev m))) n = bit (v AND p_dir (pport (dev m))) n" if "n < 8" for n
  proof -
    have "bit (p_data_read (pport (dev m1))) n \<and> bit (p_dir (pport (dev m))) n \<longleftrightarrow> bit v n \<and> bit (p_dir (pport (dev m))) n"
      using arg_cong[OF p(2), of "\<lambda>w. bit w n"] unfolding d(1,2) by (simp add: bit_and_iff)
    then show ?thesis
      using read_port_bit[OF that c64_ok_charges[OF ok], where D = D] p(1) d(1) by (auto simp: bit_and_iff)
  qed
  moreover have "unat ((NOT (p_dir (pport (dev m))) OR v) AND 7) < 8"
    by (rule le_less_trans[where y = 7]) (use word_and_le1[of _ "7::byte"] in \<open>simp_all add: word_le_nat_alt\<close>)
  ultimately show ?thesis
    using ok p d by (auto simp: m1_def[symmetric] read_port_dir pla_mem_config_def intro!: bit_word_eqI)
qed

subsection \<open>The unused bits\<close>

text \<open>
  An unused bit of the port (6 or 7) that is switched from output to input while it is 1 keeps
  reading 1 for 350000 cycles and reads 0 from then on, as long as the port is not written again
  and the clock does not wrap in between.
\<close>

theorem unused_bit_discharges:
  assumes "c64_ok m" "k \<in> {6, 7}" "bit (p_dir (pport (dev m))) k" "bit (p_data (pport (dev m))) k" "\<not> bit v k"
    and "unat (CLK m) + 350000 < 2 ^ 32"
  shows "bit (fst (zero_read D 1 ((zero_store D 0 v m)\<lparr>CLK := clk\<rparr>))) k \<longleftrightarrow> unat clk \<le> unat (CLK m) + 350000"
proof -
  define m1 where "m1 = zero_store D 0 v m"
  define p where "p = pport (dev m)"
  have x6: "bit (p_dir p XOR v) 6 \<longleftrightarrow> bit (p_dir p) 6 \<noteq> bit v 6" and x7: "bit (p_dir p XOR v) 7 \<longleftrightarrow> bit (p_dir p) 7 \<noteq> bit v 7"
    by (simp_all add: bit_xor_iff)
  have d: "p_dir p \<noteq> v" using assms(3,5) by (auto simp: p_def)
  have m1: "pport (dev m1) = pport (dev (mem_pla_config_changed D (upd_pport (\<lambda>q. q\<lparr>p_dir := v\<rparr>)
      (upd_pport (charge_dir (CLK m) v) (port_ram_store D 0 m)))))"
    using d by (simp add: m1_def zero_store_def Let_def p_def)
  have f: "p_dir_read (pport (dev m1)) = v"
    "data_falloff_bit6 (pport (dev m1)) = data_falloff_bit6 (charge_dir (CLK m) v p)"
    "data_falloff_bit7 (pport (dev m1)) = data_falloff_bit7 (charge_dir (CLK m) v p)"
    "data_set_clk_bit6 (pport (dev m1)) = data_set_clk_bit6 (charge_dir (CLK m) v p)"
    "data_set_clk_bit7 (pport (dev m1)) = data_set_clk_bit7 (charge_dir (CLK m) v p)"
    "data_set_bit6 (pport (dev m1)) = data_set_bit6 (charge_dir (CLK m) v p)"
    "data_set_bit7 (pport (dev m1)) = data_set_bit7 (charge_dir (CLK m) v p)"
    by (simp_all add: m1 p_def)
  have lt: "CLK m + FALL_OFF_CYCLES < clk \<longleftrightarrow> unat (CLK m) + 350000 < unat clk"
    using assms(6) by (simp add: word_less_nat_alt unat_word_ariths)
  have ok: "charges_ok (m1\<lparr>CLK := clk\<rparr>)"
    using c64_ok_charges[OF zero_store_ok[OF assms(1), where D = D and addr = 0 and v = v]] by (simp add: charges_ok_def m1_def)
  have k: "k < 8" using assms(2) by auto
  have nz: "p_data p AND 0x40 \<noteq> 0 \<longleftrightarrow> bit (p_data p) 6" "p_data p AND 0x80 \<noteq> 0 \<longleftrightarrow> bit (p_data p) 7"
    by (simp_all add: mask_test)
  show ?thesis
    unfolding m1_def[symmetric]
    using assms(2-5) unfolding p_def[symmetric] read_port_bit[OF k ok, where D = D]
    by (auto simp: f pport_falloff_def Let_def charge_dir_def lt mask_test x6 x7 nz)
qed

text \<open>
  C40: The overflow callback of the port loses the discharge of an unused bit. When the charge of
  bit 6 has run out and the port has not been read since, a read gives 0; but if the clock guard
  first moves the clocks back by more than the charge's clock, the subtraction wraps, and reads
  give the charged bit again until the clock reaches the wrapped value.
\<close>

theorem clk_overflow_recharges:
  assumes "data_falloff_bit6 p" "0 < data_set_clk_bit6 p" "data_set_clk_bit6 p < sub" "sub \<le> clk"
    and "clk' \<le> data_set_clk_bit6 p - sub"
  shows "data_set_bit6 (pport_falloff clk p) = 0
    \<and> clk - sub < data_set_clk_bit6 p - sub
    \<and> data_set_bit6 (pport_falloff clk' (clk_overflow_callback sub (clk - sub) p)) = data_set_bit6 p"
proof -
  define a where "a = data_set_clk_bit6 p"
  have le: "unat a < unat sub" "unat sub \<le> unat clk"
    using assms(3,4) by (simp_all add: a_def word_less_nat_alt word_le_nat_alt)
  then have "unat (clk - sub) = unat clk - unat sub" "unat (a - sub) = unat a + 4294967296 - unat sub"
    using unat_dword_less[of sub] by (simp_all add: unat_sub_if' del: unat_dword_less)
  moreover have "unat clk < 4294967296" by (rule unat_dword_less)
  ultimately have lt: "clk - sub < a - sub"
    using le by (simp add: word_less_nat_alt del: unat_dword_less)
  have "a < clk" using assms(3,4) by (simp add: a_def)
  then have 1: "data_set_bit6 (pport_falloff clk p) = 0"
    using assms(1) by (simp add: pport_falloff_def Let_def a_def)
  have "\<not> a - sub < clk - sub" "\<not> a - sub < clk'" using lt assms(5) by (auto simp: a_def not_less)
  then have "data_set_bit6 (pport_falloff clk' (clk_overflow_callback sub (clk - sub) p)) = data_set_bit6 p"
    using assms(2) by (auto simp: pport_falloff_def clk_overflow_callback_def Let_def a_def[symmetric])
  then show ?thesis using 1 lt by (simp add: a_def)
qed

subsection \<open>A machine for examples\<close>

definition quiet_devs :: "unit c64_devs" where
  "quiet_devs =
     \<lparr>event = (\<lambda>e k x. x), other_read = (\<lambda>h a k ram x. (0, x)), other_store = (\<lambda>h a v k x. x),
      reu_dma = (\<lambda>k x. x), read_phi1 = (\<lambda>d. 0xFF), read_phi1_lowlevel = (\<lambda>d. 0xFF),
      cartridge_mmu = (\<lambda>a d. (0, 0, 0)), other_bank = (\<lambda>b a d. 0), on_alarm = (\<lambda>a off x. x),
      on_ext = (\<lambda>c x. (0, x))\<rparr>"

definition c64_with_port :: "byte \<Rightarrow> byte \<Rightarrow> unit c64_machine" where
  "c64_with_port dir data =
     \<lparr>CLK = 0, reg_pc = 0x1000, RMW_FLAG = False, LAST_OPCODE_ADDR = 0, int_status = two_sources,
      alarm_ctx = example_idle, bank_base = 0, bank_start = 0, bank_limit = 0,
      maincpu_regs = \<lparr>r_pc = 0, r_a = 0, r_x = 0, r_y = 0, r_sp = 0, r_p = 0, r_n = 0, r_z = 0\<rparr>,
      mem_ram = (\<lambda>_. 0),
      dev = \<lparr>pport = (c64pla_pport_reset \<lparr>p_dir = 0, p_data = 0, p_dir_read = 0, p_data_read = 0, p_data_out = 0,
                 data_set_clk_bit6 = 0, data_set_clk_bit7 = 0, data_set_bit6 = 0, data_set_bit7 = 0,
                 data_falloff_bit6 = False, data_falloff_bit7 = False\<rparr>)\<lparr>p_dir := dir, p_data := data\<rparr>,
             old_port_data_out = 0xFF, old_port_write_bit = 0xFF, old_port_sense_out = 0xFF, vbank = 0, mem_config = 0,
             tape_sense = False, tape_write_in = False, tape_motor_in = False, watchpoints_active = False,
             exrom = False, game = False, c64_256k_enabled = False, plus256k_enabled = False,
             mem_color_ram = (\<lambda>_. 0), mem_chargen_rom = (\<lambda>_. 0), basic64_rom = (\<lambda>_. 0), kernal64_rom = (\<lambda>_. 0),
             kernal64_trap_rom = (\<lambda>_. 0), mem_read_tab = (\<lambda>_ _. Ram_Read), mem_write_tab = (\<lambda>_ _ _. Ram_Store),
             mem_read_base_tab = (\<lambda>_ _. None), mem_read_limit_tab = (\<lambda>_ _. 0), rest = ()\<rparr>\<rparr>"

definition example_c64 :: "byte \<Rightarrow> byte \<Rightarrow> unit c64_machine" where
  "example_c64 dir data = mem_pla_config_changed quiet_devs (c64_with_port dir data)"

lemma example_c64_facts:
  "c64_ok (example_c64 dir data)" "p_dir (pport (dev (example_c64 dir data))) = dir"
  "p_data (pport (dev (example_c64 dir data))) = data" "CLK (example_c64 dir data) = 0"
  "exrom (dev (example_c64 dir data)) = False" "game (dev (example_c64 dir data)) = False"
  unfolding example_c64_def
  by (auto intro!: pla_config_ok simp: charges_ok_def c64_with_port_def c64pla_pport_reset_def)

theorem processor_port_witness:
  "fst (zero_read quiet_devs 1 (zero_store quiet_devs 1 0x35 (example_c64 0x2F 0x37))) AND 0x2F = 0x25
   \<and> mem_config (dev (zero_store quiet_devs 1 0x35 (example_c64 0x2F 0x37))) = 5"
  using processor_port[OF example_c64_facts(1)[of "0x2F" "0x37"], where D = quiet_devs and v = "0x35"]
  by (simp add: example_c64_facts)

theorem unused_bit_discharges_witness:
  "bit (fst (zero_read quiet_devs 1 ((zero_store quiet_devs 0 0x2F (example_c64 0x6F 0x77))\<lparr>CLK := 350000\<rparr>))) 6
   \<and> \<not> bit (fst (zero_read quiet_devs 1 ((zero_store quiet_devs 0 0x2F (example_c64 0x6F 0x77))\<lparr>CLK := 350001\<rparr>))) 6"
proof -
  have b: "bit (0x6F::byte) 6" "bit (0x77::byte) 6" "\<not> bit (0x2F::byte) 6" by code_simp+
  note w = unused_bit_discharges[OF example_c64_facts(1)[of "0x6F" "0x77"], of 6 "0x2F" quiet_devs,
      unfolded example_c64_facts, OF _ b]
  show ?thesis using w[of 350000] w[of 350001] by simp
qed

theorem clk_overflow_recharges_witness:
  "\<exists>p. data_set_bit6 p = 0x40 \<and> data_set_bit6 (pport_falloff 0xFFF00000 p) = 0
     \<and> data_set_bit6 (pport_falloff 0x200000 (clk_overflow_callback 0xFFE00000 0x100000 p)) = 0x40"
proof -
  define p where "p = (c64pla_pport_reset (pport (dev (example_c64 0 0))))
    \<lparr>data_falloff_bit6 := True, data_set_bit6 := 0x40, data_set_clk_bit6 := 500000\<rparr>"
  have p: "data_falloff_bit6 p" "data_set_bit6 p = 0x40" "data_set_clk_bit6 p = 500000" by (simp_all add: p_def)
  show ?thesis
    using clk_overflow_recharges[of p "0xFFE00000" "0xFFF00000" "0x200000"] p by (intro exI[of _ p]) simp
qed

end
