(* ===== verification/C64_Tables.thy ===== *)
theory C64_Tables
  imports C64_Port
begin

text \<open>
  The handler tables of the C64 as \<open>mem_initialize_memory\<close> and \<open>c64meminit\<close> fill them, the memory
  expansions that overlay them, and the read limits of \<open>c64memlimit.c\<close>. A table is a function of
  the configuration and the page; of the assignments the C code makes to an entry the last one
  counts, so the functions test for the later assignments first. The properties compare the tables
  with the equations of the PLA, and the direct code fetch with a read through the tables.
\<close>

subsection \<open>The tables of \<open>c64meminit.c\<close>\<close>

definition c64meminit_io_config :: "nat list" where
  "c64meminit_io_config =
     [0, 0, 0, 0, 0, 1, 1, 1, 0, 0, 0, 0, 0, 1, 1, 1, 2, 2, 2, 2, 2, 2, 2, 2, 0, 0, 0, 0, 0, 1, 1, 1]"

definition c64meminit_roml_config :: "nat list" where
  "c64meminit_roml_config =
     [0, 0, 0, 0, 0, 0, 0, 0, 0, 0, 0, 1, 0, 0, 0, 1, 1, 1, 1, 1, 1, 1, 1, 1, 0, 0, 0, 1, 0, 0, 0, 1]"

definition c64meminit_romh_config :: "nat list" where
  "c64meminit_romh_config =
     [0, 0, 0, 0, 0, 0, 0, 0, 0, 0, 0, 0, 0, 0, 0, 0, 1, 1, 1, 1, 1, 1, 1, 1, 0, 0, 1, 1, 0, 0, 1, 1]"

definition c64meminit_romh_mapping :: "nat list" where
  "c64meminit_romh_mapping =
     [0, 0, 0, 0, 0, 0, 0, 0, 0, 0, 0, 0, 0, 0, 0, 0,
      0xE0, 0xE0, 0xE0, 0xE0, 0xE0, 0xE0, 0xE0, 0xE0, 0, 0, 0xA0, 0xA0, 0, 0, 0xA0, 0xA0]"

definition between :: "nat \<Rightarrow> nat \<Rightarrow> nat \<Rightarrow> bool" where
  "between lo p hi \<longleftrightarrow> lo \<le> p \<and> p \<le> hi"

definition chargen_configs :: "nat list" where
  "chargen_configs = [1, 2, 3, 9, 10, 11, 26, 27]"

definition basic_configs :: "nat list" where
  "basic_configs = [3, 7, 11, 15]"

definition kernal_configs :: "nat list" where
  "kernal_configs = [2, 3, 6, 7, 10, 11, 14, 15, 26, 27, 30, 31]"

definition ultimax_config :: "nat \<Rightarrow> bool" where
  "ultimax_config j \<longleftrightarrow> 16 \<le> j \<and> j < 24"

definition romh_pages :: "nat \<Rightarrow> nat \<Rightarrow> bool" where
  "romh_pages j p \<longleftrightarrow> c64meminit_romh_config ! j \<noteq> 0
     \<and> between (c64meminit_romh_mapping ! j) p (c64meminit_romh_mapping ! j + 0x1F)"

definition io_read :: "nat \<Rightarrow> nat \<Rightarrow> read_handler \<Rightarrow> read_handler" where
  "io_read board p h =
     (if between 0xD8 p 0xDB then Colorram_Read
      else if p = 0xDC then Cia1_Read
      else if p = 0xDD then (if board \<noteq> 1 then Cia2_Read else h)
      else IO_Read p)"

definition c64meminit_read :: "nat \<Rightarrow> nat \<Rightarrow> nat \<Rightarrow> read_handler \<Rightarrow> read_handler" where
  "c64meminit_read board j p h =
     (if ultimax_config j \<and> between 0xC0 p 0xCF then Ultimax_C000_Read
      else if ultimax_config j \<and> between 0xA0 p 0xBF then Ultimax_A000_Read
      else if ultimax_config j \<and> between 0x10 p 0x7F then Ultimax_1000_Read
      else if ultimax_config j \<and> romh_pages j p
        then (if j div 2 mod 2 = 1 then Ultimax_Romh_Hirom_Read else Romh_Read)
      else if between 24 j 31 \<and> romh_pages j p then Romh_Read
      else if c64meminit_roml_config ! j \<noteq> 0 \<and> between 0x80 p 0x9F then Roml_Read
      else if board \<noteq> 1 \<and> j \<in> set kernal_configs \<and> between 0xE0 p 0xFF then Kernal64_Read
      else if c64meminit_io_config ! j = 2 \<and> between 0xD0 p 0xDF then Ultimax_D000_Read
      else if c64meminit_io_config ! j = 1 \<and> between 0xD0 p 0xDF then io_read board p h
      else if board \<noteq> 1 \<and> j \<in> set basic_configs \<and> between 0xA0 p 0xBF then Basic64_Read
      else h)"

definition c64meminit_base :: "nat \<Rightarrow> nat \<Rightarrow> nat \<Rightarrow> nat option \<Rightarrow> nat option" where
  "c64meminit_base board j p b =
     (if ultimax_config j \<and> (between 0xA0 p 0xCF \<or> between 0x10 p 0x7F \<or> romh_pages j p) then None
      else if between 24 j 31 \<and> romh_pages j p then None
      else if c64meminit_roml_config ! j \<noteq> 0 \<and> between 0x80 p 0x9F then None
      else if board \<noteq> 1 \<and> j \<in> set kernal_configs \<and> between 0xE0 p 0xFF then Some KERNAL_TRAP_BASE
      else if c64meminit_io_config ! j \<noteq> 0 \<and> between 0xD0 p 0xDF then None
      else if board \<noteq> 1 \<and> j \<in> set basic_configs \<and> between 0xA0 p 0xBF then Some BASIC_BASE
      else b)"

definition io_store :: "nat \<Rightarrow> nat \<Rightarrow> store_handler \<Rightarrow> store_handler" where
  "io_store board p h =
     (if between 0xD8 p 0xDB then Colorram_Store
      else if p = 0xDC then Cia1_Store
      else if p = 0xDD then (if board \<noteq> 1 then Cia2_Store else h)
      else IO_Store p)"

definition c64meminit_store :: "nat \<Rightarrow> nat \<Rightarrow> nat \<Rightarrow> store_handler \<Rightarrow> store_handler" where
  "c64meminit_store board j p h =
     (if ultimax_config j \<and> between 0xE0 p 0xFF then Romh_Store
      else if ultimax_config j \<and> between 0xC0 p 0xCF then Ultimax_C000_Store
      else if ultimax_config j \<and> between 0xA0 p 0xBF then Ultimax_A000_Store
      else if ultimax_config j \<and> between 0x80 p 0x9F then Roml_Store
      else if ultimax_config j \<and> between 0x10 p 0x7F then Ultimax_1000_Store
      else if (j < 8 \<or> between 24 j 31) \<and> c64meminit_romh_config ! j = 0 \<and> between 0xA0 p 0xBF then Ramh_No_Ultimax_Store
      else if between 24 j 31 \<and> romh_pages j p then Romh_No_Ultimax_Store
      else if (j < 16 \<or> between 24 j 31) \<and> c64meminit_roml_config ! j = 0 \<and> between 0x80 p 0x9F
        then Raml_No_Ultimax_Store
      else if c64meminit_roml_config ! j \<noteq> 0 \<and> between 0x80 p 0x9F then Roml_No_Ultimax_Store
      else if c64meminit_io_config ! j = 2 \<and> between 0xD0 p 0xDF then Ultimax_D000_Store
      else if c64meminit_io_config ! j = 1 \<and> between 0xD0 p 0xDF then io_store board p h
      else h)"

subsection \<open>The defaults of \<open>mem_initialize_memory\<close>\<close>

definition default_read :: "nat \<Rightarrow> nat \<Rightarrow> read_handler" where
  "default_read board p =
     (if p = 0 then Zero_Read else if board = 1 \<and> p \<ge> 8 then Void_Read else Ram_Read)"

definition default_base :: "nat \<Rightarrow> nat \<Rightarrow> nat option" where
  "default_base board p = (if board = 1 \<and> p \<ge> 8 then None else Some RAM_BASE)"

text \<open>
  On the board without memory above $07FF the void handler goes into configuration 0 only; the
  entries of the others keep what they held, \<open>old\<close>.
\<close>

definition default_store :: "nat \<Rightarrow> nat \<Rightarrow> nat \<Rightarrow> nat \<Rightarrow> store_handler \<Rightarrow> store_handler" where
  "default_store board bank j p old =
     (if p = 0 then Zero_Store
      else if board = 1 \<and> p \<ge> 8 then (if j = 0 then Void_Store else old)
      else if p = 0xFF then Ram_Hi_Store
      else if p div 64 = bank then
        (if p mod 64 = 0x39 then Vbank_39xx_Store
         else if p mod 64 = 0x3F then Vbank_3fxx_Store else Vbank_Store)
      else Ram_Store)"

definition init_read :: "nat \<Rightarrow> nat \<Rightarrow> nat \<Rightarrow> read_handler" where
  "init_read board j p =
     (if p = 0x100 then Zero_Read
      else c64meminit_read board j p
        (if j \<in> set chargen_configs \<and> between 0xD0 p 0xDF then Chargen_Read else default_read board p))"

definition init_base :: "nat \<Rightarrow> nat \<Rightarrow> nat \<Rightarrow> nat option" where
  "init_base board j p =
     (if p = 0x100 then Some RAM_BASE
      else c64meminit_base board j p
        (if j \<in> set chargen_configs \<and> between 0xD0 p 0xDF then Some CHARGEN_BASE else default_base board p))"

definition init_store :: "nat \<Rightarrow> (nat \<Rightarrow> nat \<Rightarrow> nat \<Rightarrow> store_handler) \<Rightarrow> nat \<Rightarrow> nat \<Rightarrow> nat \<Rightarrow> store_handler" where
  "init_store board old bank j p =
     (if p = 0x100 then Zero_Store
      else c64meminit_store board j p (default_store board bank j p (old bank j p)))"

subsection \<open>The expansions\<close>

definition plus60k_read :: "nat \<Rightarrow> read_handler \<Rightarrow> read_handler" where
  "plus60k_read p h = (if between 0x10 p 0xFF \<and> h = Ram_Read then Plus60k_Read else h)"

definition plus60k_store :: "nat \<Rightarrow> store_handler \<Rightarrow> store_handler" where
  "plus60k_store p h =
     (if between 0x10 p 0xFF then
        (case h of Vbank_39xx_Store \<Rightarrow> Plus60k_Vbank_39xx_Store
         | Vbank_3fxx_Store \<Rightarrow> Plus60k_Vbank_3fxx_Store
         | Vbank_Store \<Rightarrow> Plus60k_Vbank_Store
         | Ram_Hi_Store \<Rightarrow> Plus60k_Hi_Store
         | Ram_Store \<Rightarrow> Plus60k_Store
         | Raml_No_Ultimax_Store \<Rightarrow> Plus60k_Store
         | _ \<Rightarrow> h)
      else h)"

definition check_256k_ram_write :: "store_handler \<Rightarrow> bool" where
  "check_256k_ram_write h \<longleftrightarrow> h \<in> {Vbank_39xx_Store, Vbank_3fxx_Store, Vbank_Store, Ram_Hi_Store, Ram_Store,
     Raml_No_Ultimax_Store}"

definition plus256k_read :: "nat \<Rightarrow> read_handler \<Rightarrow> read_handler" where
  "plus256k_read p h =
     (if between 1 p 0xFF \<and> h = Ram_Read then (if p < 0x10 then Plus256k_Low_Read else Plus256k_High_Read) else h)"

definition plus256k_store :: "nat \<Rightarrow> store_handler \<Rightarrow> store_handler" where
  "plus256k_store p h =
     (if between 1 p 0xFF \<and> check_256k_ram_write h
      then (if p < 0x10 then Plus256k_Low_Store else Plus256k_High_Store) else h)"

definition c64_256k_read :: "nat \<Rightarrow> read_handler \<Rightarrow> read_handler" where
  "c64_256k_read p h = (if between 1 p 0xFF \<and> h = Ram_Read then Segment_Read (p div 64) else h)"

definition c64_256k_store :: "nat \<Rightarrow> store_handler \<Rightarrow> store_handler" where
  "c64_256k_store p h = (if between 1 p 0xFF \<and> check_256k_ram_write h then Segment_Store (p div 64) else h)"

subsection \<open>Read limits\<close>

definition segment_of :: "nat \<Rightarrow> nat" where
  "segment_of page =
     (if page \<le> 0x0F then 0 else if page \<le> 0x7F then 1 else if page \<le> 0x9F then 2
      else if page \<le> 0xBF then 3 else if page \<le> 0xCF then 4 else if page \<le> 0xDF then 5 else 6)"

definition limit_tab :: "dword list list" where
  "limit_tab =
    [[0x0002fffd, 0x0002cffd, 0x0002cffd, 0x00029ffd, 0x0002fffd, 0x0002cffd, 0x0002cffd, 0x00029ffd,
      0x0002fffd, 0x0002cffd, 0x00029ffd, 0x00027ffd, 0x0002fffd, 0x0002cffd, 0x00029ffd, 0x00027ffd,
      0x00020ffd, 0x00020ffd, 0x00020ffd, 0x00020ffd, 0x00020ffd, 0x00020ffd, 0x00020ffd, 0x00020ffd,
      0x0002fffd, 0x0002cffd, 0x00029ffd, 0x00027ffd, 0x0002fffd, 0x0002cffd, 0x00029ffd, 0x00027ffd],
     [0x0002fffd, 0x0002cffd, 0x0002cffd, 0x00029ffd, 0x0002fffd, 0x0002cffd, 0x0002cffd, 0x00029ffd,
      0x0002fffd, 0x0002cffd, 0x00029ffd, 0x00027ffd, 0x0002fffd, 0x0002cffd, 0x00029ffd, 0x00027ffd,
      0, 0, 0, 0, 0, 0, 0, 0,
      0x0002fffd, 0x0002cffd, 0x00029ffd, 0x00027ffd, 0x0002fffd, 0x0002cffd, 0x00029ffd, 0x00027ffd],
     [0x0002fffd, 0x0002cffd, 0x0002cffd, 0x00029ffd, 0x0002fffd, 0x0002cffd, 0x0002cffd, 0x00029ffd,
      0x0002fffd, 0x0002cffd, 0x00029ffd, 0, 0x0002fffd, 0x0002cffd, 0x00029ffd, 0,
      0, 0, 0, 0, 0, 0, 0, 0,
      0x0002fffd, 0x0002cffd, 0x00029ffd, 0, 0x0002fffd, 0x0002cffd, 0x00029ffd, 0],
     [0x0002fffd, 0x0002cffd, 0x0002cffd, 0xa000bffd, 0x0002fffd, 0x0002cffd, 0x0002cffd, 0xa000bffd,
      0x0002fffd, 0x0002cffd, 0, 0, 0x0002fffd, 0x0002cffd, 0, 0,
      0, 0, 0, 0, 0, 0, 0, 0,
      0x0002fffd, 0x0002cffd, 0, 0, 0x0002fffd, 0x0002cffd, 0, 0],
     [0x0002fffd, 0x0002cffd, 0x0002cffd, 0xc000cffd, 0x0002fffd, 0x0002cffd, 0x0002cffd, 0xc000cffd,
      0x0002fffd, 0x0002cffd, 0xc000cffd, 0xc000cffd, 0x0002fffd, 0x0002cffd, 0xc000cffd, 0xc000cffd,
      0, 0, 0, 0, 0, 0, 0, 0,
      0x0002fffd, 0x0002cffd, 0xc000cffd, 0xc000cffd, 0x0002fffd, 0x0002cffd, 0xc000cffd, 0xc000cffd],
     [0x0002fffd, 0xd000dffd, 0xd000dffd, 0xd000dffd, 0x0002fffd, 0, 0, 0,
      0x0002fffd, 0xd000dffd, 0xd000dffd, 0xd000dffd, 0x0002fffd, 0, 0, 0,
      0, 0, 0, 0, 0, 0, 0, 0,
      0x0002fffd, 0xd000dffd, 0xd000dffd, 0xd000dffd, 0x0002fffd, 0, 0, 0],
     [0x0002fffd, 0xe000fffd, 0xe000fffd, 0xe000fffd, 0x0002fffd, 0xe000fffd, 0xe000fffd, 0xe000fffd,
      0x0002fffd, 0xe000fffd, 0xe000fffd, 0xe000fffd, 0x0002fffd, 0xe000fffd, 0xe000fffd, 0xe000fffd,
      0, 0, 0, 0, 0, 0, 0, 0,
      0x0002fffd, 0xe000fffd, 0xe000fffd, 0xe000fffd, 0x0002fffd, 0xe000fffd, 0xe000fffd, 0xe000fffd]]"

definition mem_limit_init :: "nat \<Rightarrow> nat \<Rightarrow> dword" where
  "mem_limit_init config page = (if page = 0x100 then 0 else limit_tab ! segment_of page ! config)"

definition mem_limit_plus60k_init :: "nat \<Rightarrow> nat \<Rightarrow> dword" where
  "mem_limit_plus60k_init config page = (if page < 0x10 then 0x00020FFD else 0)"

definition mem_limit_256k_init :: "nat \<Rightarrow> nat \<Rightarrow> dword" where
  "mem_limit_256k_init config page = 0"

definition mem_limit_max_init :: "nat \<Rightarrow> nat \<Rightarrow> dword" where
  "mem_limit_max_init config page = (if page < 8 then 0x000207FD else 0)"

subsection \<open>The initialisation\<close>

definition init_tables :: "nat \<Rightarrow> 'd c64 \<Rightarrow> 'd c64" where
  "init_tables board c =
     c\<lparr>mem_read_tab := init_read board,
       mem_write_tab := init_store board (mem_write_tab c),
       mem_read_base_tab := init_base board,
       mem_read_limit_tab := mem_limit_init\<rparr>"

definition plus60k_init_config :: "bool \<Rightarrow> 'd c64 \<Rightarrow> 'd c64" where
  "plus60k_init_config enabled c =
     (if enabled then c\<lparr>mem_read_limit_tab := mem_limit_plus60k_init,
        mem_read_tab := (\<lambda>j p. plus60k_read p (mem_read_tab c j p)),
        mem_write_tab := (\<lambda>k j p. plus60k_store p (mem_write_tab c k j p))\<rparr> else c)"

definition plus256k_init_config :: "'d c64 \<Rightarrow> 'd c64" where
  "plus256k_init_config c =
     (if plus256k_enabled c then c\<lparr>mem_read_limit_tab := mem_limit_256k_init,
        mem_read_tab := (\<lambda>j p. plus256k_read p (mem_read_tab c j p)),
        mem_write_tab := (\<lambda>k j p. plus256k_store p (mem_write_tab c k j p))\<rparr> else c)"

definition c64_256k_init_config :: "'d c64 \<Rightarrow> 'd c64" where
  "c64_256k_init_config c =
     (if c64_256k_enabled c then c\<lparr>mem_read_limit_tab := mem_limit_256k_init,
        mem_read_tab := (\<lambda>j p. c64_256k_read p (mem_read_tab c j p)),
        mem_write_tab := (\<lambda>k j p. c64_256k_store p (mem_write_tab c k j p))\<rparr> else c)"

text \<open>\<open>cartridge_init_config\<close> and the call to the VIC-II are left out; neither writes to these tables.\<close>

definition mem_initialize_memory :: "'d c64_devs \<Rightarrow> nat \<Rightarrow> bool \<Rightarrow> 'd c64_machine \<Rightarrow> 'd c64_machine" where
  "mem_initialize_memory D board plus60k_enabled m =
     (let m1 = upd_c64 (init_tables board) m;
          m2 = upd_c64 (\<lambda>c. c\<lparr>pport := c64pla_pport_reset (pport c), exrom := False, game := False\<rparr>) m1;
          m3 = mem_pla_config_changed D m2;
          m4 = upd_c64 (c64_256k_init_config \<circ> plus256k_init_config \<circ> plus60k_init_config plus60k_enabled) m3
      in if board = 1 then upd_c64 (\<lambda>c. c\<lparr>mem_read_limit_tab := mem_limit_max_init\<rparr>) m4 else m4)"

subsection \<open>The PLA\<close>

text \<open>
  What the PLA of the C64 selects for a read, as equations over its inputs: the three port lines
  and the two cartridge lines, of which bit 3 (EXROM) and bit 4 (GAME) are set when they are pulled.
\<close>

datatype selected = Sel_Ram | Sel_Basic | Sel_Kernal | Sel_Chargen | Sel_IO | Sel_Roml | Sel_Romh | Sel_Open

definition pla_select :: "nat \<Rightarrow> nat \<Rightarrow> selected" where
  "pla_select j p =
     (let loram = j mod 2 = 1; hiram = j div 2 mod 2 = 1; charen = j div 4 mod 2 = 1;
          exrom = j div 8 mod 2 = 1; game = j div 16 mod 2 = 1; ultimax = game \<and> \<not> exrom
      in if p < 0x10 then Sel_Ram
         else if p < 0x80 then (if ultimax then Sel_Open else Sel_Ram)
         else if p < 0xA0 then (if ultimax \<or> (loram \<and> hiram \<and> exrom) then Sel_Roml else Sel_Ram)
         else if p < 0xC0 then
           (if ultimax then Sel_Open
            else if game \<and> hiram then Sel_Romh
            else if loram \<and> hiram \<and> \<not> game then Sel_Basic else Sel_Ram)
         else if p < 0xD0 then (if ultimax then Sel_Open else Sel_Ram)
         else if p < 0xE0 then
           (if ultimax then Sel_IO
            else if \<not> (hiram \<or> loram) then Sel_Ram
            else if charen then Sel_IO
            else if game \<and> \<not> hiram then Sel_Ram else Sel_Chargen)
         else if ultimax then Sel_Romh else if hiram then Sel_Kernal else Sel_Ram)"

fun selects :: "read_handler \<Rightarrow> selected" where
  "selects Zero_Read = Sel_Ram"
| "selects Ram_Read = Sel_Ram"
| "selects Chargen_Read = Sel_Chargen"
| "selects Basic64_Read = Sel_Basic"
| "selects Kernal64_Read = Sel_Kernal"
| "selects Colorram_Read = Sel_IO"
| "selects (IO_Read _) = Sel_IO"
| "selects Cia1_Read = Sel_IO"
| "selects Cia2_Read = Sel_IO"
| "selects Ultimax_D000_Read = Sel_IO"
| "selects Roml_Read = Sel_Roml"
| "selects Romh_Read = Sel_Romh"
| "selects Ultimax_Romh_Hirom_Read = Sel_Romh"
| "selects _ = Sel_Open"

lemma upto_32: "[0..<32] = [0, 1, 2, 3, 4, 5, 6, 7, 8, 9, 10, 11, 12, 13, 14, 15, 16, 17, 18, 19, 20,
    21, 22, 23, 24, 25, 26, 27, 28, 29, 30, 31]"
  by code_simp

lemma configs_32:
  assumes "j < 32"
  shows "j \<in> {0, 1, 2, 3, 4, 5, 6, 7, 8, 9, 10, 11, 12, 13, 14, 15, 16, 17, 18, 19, 20,
    21, 22, 23, 24, 25, 26, 27, 28, 29, 30, 31::nat}"
proof -
  have "j \<in> set [0..<32]" using assms by simp
  then show ?thesis unfolding upto_32 by (simp only: list.set)
qed

lemmas table_defs = init_read_def c64meminit_read_def io_read_def romh_pages_def ultimax_config_def between_def
  c64meminit_io_config_def c64meminit_roml_config_def c64meminit_romh_config_def c64meminit_romh_mapping_def
  chargen_configs_def basic_configs_def kernal_configs_def default_read_def

lemma pla_read_tab:
  assumes "j < 32" "p < 256"
  shows "selects (init_read 0 j p) = pla_select j p"
  using configs_32[OF assms(1)] assms(2)
  by (elim insertE emptyE; simp add: table_defs pla_select_def)

definition limit_pages :: "dword \<Rightarrow> nat \<times> nat" where
  "limit_pages l = (unat (drop_bit 16 l) div 256, (unat (l AND 0xFFFF) + 1) div 256)"

lemma limit_pages_nat: "limit_pages l = (unat l div 65536 div 256, (unat l mod 65536 + 1) div 256)"
proof -
  have m: "push_bit 0 (mask 16) = (0xFFFF::nat)" by (simp add: mask_eq_exp_minus_1)
  have "unat (l AND 0xFFFF) = unat l mod 65536"
    using nat_and_field[of "unat l" 0 16] by (simp only: m unsigned_and_eq unsigned_numeral) (simp add: take_bit_eq_mod)
  then show ?thesis
    by (simp add: limit_pages_def drop_bit_eq_div unat_div)
qed

lemma limit_pages_consts:
  "limit_pages 0x0002fffd = (0, 0xFF)" "limit_pages 0x0002cffd = (0, 0xCF)" "limit_pages 0x00029ffd = (0, 0x9F)"
  "limit_pages 0x00027ffd = (0, 0x7F)" "limit_pages 0x00020ffd = (0, 0x0F)" "limit_pages 0xa000bffd = (0xA0, 0xBF)"
  "limit_pages 0xc000cffd = (0xC0, 0xCF)" "limit_pages 0xd000dffd = (0xD0, 0xDF)" "limit_pages 0xe000fffd = (0xE0, 0xFF)"
  by (simp_all add: limit_pages_nat)

fun base_of :: "selected \<Rightarrow> nat option" where
  "base_of Sel_Ram = Some RAM_BASE"
| "base_of Sel_Basic = Some BASIC_BASE"
| "base_of Sel_Kernal = Some KERNAL_TRAP_BASE"
| "base_of Sel_Chargen = Some CHARGEN_BASE"
| "base_of _ = None"

lemma pla_base_tab:
  assumes "j < 32" "p < 256"
  shows "init_base 0 j p = base_of (pla_select j p)"
  using configs_32[OF assms(1)] assms(2)
  by (elim insertE emptyE; simp add: init_base_def c64meminit_base_def default_base_def table_defs pla_select_def; arith)

text \<open>
  Both tables are constant on the seven segments of \<open>c64memlimit.c\<close>; what a limit spans, as
  segments, and what the PLA selects in them, as tables of small numbers.
\<close>

definition mstart :: "nat list" where
  "mstart = [0x00, 0x10, 0x80, 0xA0, 0xC0, 0xD0, 0xE0]"

lemma segment_mono: "p \<le> q \<Longrightarrow> segment_of p \<le> segment_of q"
  by (simp add: segment_of_def)

lemma pla_select_segment: "p < 256 \<Longrightarrow> pla_select j p = pla_select j (mstart ! segment_of p)"
  by (simp add: segment_of_def mstart_def pla_select_def)

definition segment_span :: "dword \<Rightarrow> (nat \<times> nat) option" where
  "segment_span l = (if l = 0 then None
     else Some (segment_of (fst (limit_pages l)), segment_of (snd (limit_pages l))))"

definition span_rows :: "(nat \<times> nat) option list list" where
  "span_rows =
    [[Some (0, 6), Some (0, 4), Some (0, 4), Some (0, 2), Some (0, 6), Some (0, 4), Some (0, 4), Some (0, 2), Some (0, 6), Some (0, 4), Some (0, 2), Some (0, 1), Some (0, 6), Some (0, 4), Some (0, 2), Some (0, 1), Some (0, 0), Some (0, 0), Some (0, 0), Some (0, 0), Some (0, 0), Some (0, 0), Some (0, 0), Some (0, 0), Some (0, 6), Some (0, 4), Some (0, 2), Some (0, 1), Some (0, 6), Some (0, 4), Some (0, 2), Some (0, 1)],
     [Some (0, 6), Some (0, 4), Some (0, 4), Some (0, 2), Some (0, 6), Some (0, 4), Some (0, 4), Some (0, 2), Some (0, 6), Some (0, 4), Some (0, 2), Some (0, 1), Some (0, 6), Some (0, 4), Some (0, 2), Some (0, 1), None, None, None, None, None, None, None, None, Some (0, 6), Some (0, 4), Some (0, 2), Some (0, 1), Some (0, 6), Some (0, 4), Some (0, 2), Some (0, 1)],
     [Some (0, 6), Some (0, 4), Some (0, 4), Some (0, 2), Some (0, 6), Some (0, 4), Some (0, 4), Some (0, 2), Some (0, 6), Some (0, 4), Some (0, 2), None, Some (0, 6), Some (0, 4), Some (0, 2), None, None, None, None, None, None, None, None, None, Some (0, 6), Some (0, 4), Some (0, 2), None, Some (0, 6), Some (0, 4), Some (0, 2), None],
     [Some (0, 6), Some (0, 4), Some (0, 4), Some (3, 3), Some (0, 6), Some (0, 4), Some (0, 4), Some (3, 3), Some (0, 6), Some (0, 4), None, None, Some (0, 6), Some (0, 4), None, None, None, None, None, None, None, None, None, None, Some (0, 6), Some (0, 4), None, None, Some (0, 6), Some (0, 4), None, None],
     [Some (0, 6), Some (0, 4), Some (0, 4), Some (4, 4), Some (0, 6), Some (0, 4), Some (0, 4), Some (4, 4), Some (0, 6), Some (0, 4), Some (4, 4), Some (4, 4), Some (0, 6), Some (0, 4), Some (4, 4), Some (4, 4), None, None, None, None, None, None, None, None, Some (0, 6), Some (0, 4), Some (4, 4), Some (4, 4), Some (0, 6), Some (0, 4), Some (4, 4), Some (4, 4)],
     [Some (0, 6), Some (5, 5), Some (5, 5), Some (5, 5), Some (0, 6), None, None, None, Some (0, 6), Some (5, 5), Some (5, 5), Some (5, 5), Some (0, 6), None, None, None, None, None, None, None, None, None, None, None, Some (0, 6), Some (5, 5), Some (5, 5), Some (5, 5), Some (0, 6), None, None, None],
     [Some (0, 6), Some (6, 6), Some (6, 6), Some (6, 6), Some (0, 6), Some (6, 6), Some (6, 6), Some (6, 6), Some (0, 6), Some (6, 6), Some (6, 6), Some (6, 6), Some (0, 6), Some (6, 6), Some (6, 6), Some (6, 6), None, None, None, None, None, None, None, None, Some (0, 6), Some (6, 6), Some (6, 6), Some (6, 6), Some (0, 6), Some (6, 6), Some (6, 6), Some (6, 6)]]"

lemma span_rows: "map (map segment_span) limit_tab = span_rows"
  unfolding limit_tab_def span_rows_def
  by (simp add: limit_pages_consts segment_span_def segment_of_def)

definition select_rows :: "selected list list" where
  "select_rows =
    [[Sel_Ram, Sel_Ram, Sel_Ram, Sel_Ram, Sel_Ram, Sel_Ram, Sel_Ram],
     [Sel_Ram, Sel_Ram, Sel_Ram, Sel_Ram, Sel_Ram, Sel_Chargen, Sel_Ram],
     [Sel_Ram, Sel_Ram, Sel_Ram, Sel_Ram, Sel_Ram, Sel_Chargen, Sel_Kernal],
     [Sel_Ram, Sel_Ram, Sel_Ram, Sel_Basic, Sel_Ram, Sel_Chargen, Sel_Kernal],
     [Sel_Ram, Sel_Ram, Sel_Ram, Sel_Ram, Sel_Ram, Sel_Ram, Sel_Ram],
     [Sel_Ram, Sel_Ram, Sel_Ram, Sel_Ram, Sel_Ram, Sel_IO, Sel_Ram],
     [Sel_Ram, Sel_Ram, Sel_Ram, Sel_Ram, Sel_Ram, Sel_IO, Sel_Kernal],
     [Sel_Ram, Sel_Ram, Sel_Ram, Sel_Basic, Sel_Ram, Sel_IO, Sel_Kernal],
     [Sel_Ram, Sel_Ram, Sel_Ram, Sel_Ram, Sel_Ram, Sel_Ram, Sel_Ram],
     [Sel_Ram, Sel_Ram, Sel_Ram, Sel_Ram, Sel_Ram, Sel_Chargen, Sel_Ram],
     [Sel_Ram, Sel_Ram, Sel_Ram, Sel_Ram, Sel_Ram, Sel_Chargen, Sel_Kernal],
     [Sel_Ram, Sel_Ram, Sel_Roml, Sel_Basic, Sel_Ram, Sel_Chargen, Sel_Kernal],
     [Sel_Ram, Sel_Ram, Sel_Ram, Sel_Ram, Sel_Ram, Sel_Ram, Sel_Ram],
     [Sel_Ram, Sel_Ram, Sel_Ram, Sel_Ram, Sel_Ram, Sel_IO, Sel_Ram],
     [Sel_Ram, Sel_Ram, Sel_Ram, Sel_Ram, Sel_Ram, Sel_IO, Sel_Kernal],
     [Sel_Ram, Sel_Ram, Sel_Roml, Sel_Basic, Sel_Ram, Sel_IO, Sel_Kernal],
     [Sel_Ram, Sel_Open, Sel_Roml, Sel_Open, Sel_Open, Sel_IO, Sel_Romh],
     [Sel_Ram, Sel_Open, Sel_Roml, Sel_Open, Sel_Open, Sel_IO, Sel_Romh],
     [Sel_Ram, Sel_Open, Sel_Roml, Sel_Open, Sel_Open, Sel_IO, Sel_Romh],
     [Sel_Ram, Sel_Open, Sel_Roml, Sel_Open, Sel_Open, Sel_IO, Sel_Romh],
     [Sel_Ram, Sel_Open, Sel_Roml, Sel_Open, Sel_Open, Sel_IO, Sel_Romh],
     [Sel_Ram, Sel_Open, Sel_Roml, Sel_Open, Sel_Open, Sel_IO, Sel_Romh],
     [Sel_Ram, Sel_Open, Sel_Roml, Sel_Open, Sel_Open, Sel_IO, Sel_Romh],
     [Sel_Ram, Sel_Open, Sel_Roml, Sel_Open, Sel_Open, Sel_IO, Sel_Romh],
     [Sel_Ram, Sel_Ram, Sel_Ram, Sel_Ram, Sel_Ram, Sel_Ram, Sel_Ram],
     [Sel_Ram, Sel_Ram, Sel_Ram, Sel_Ram, Sel_Ram, Sel_Ram, Sel_Ram],
     [Sel_Ram, Sel_Ram, Sel_Ram, Sel_Romh, Sel_Ram, Sel_Chargen, Sel_Kernal],
     [Sel_Ram, Sel_Ram, Sel_Roml, Sel_Romh, Sel_Ram, Sel_Chargen, Sel_Kernal],
     [Sel_Ram, Sel_Ram, Sel_Ram, Sel_Ram, Sel_Ram, Sel_Ram, Sel_Ram],
     [Sel_Ram, Sel_Ram, Sel_Ram, Sel_Ram, Sel_Ram, Sel_IO, Sel_Ram],
     [Sel_Ram, Sel_Ram, Sel_Ram, Sel_Romh, Sel_Ram, Sel_IO, Sel_Kernal],
     [Sel_Ram, Sel_Ram, Sel_Roml, Sel_Romh, Sel_Ram, Sel_IO, Sel_Kernal]]"

lemma select_rows: "map (\<lambda>j. map (pla_select j) mstart) [0..<32] = select_rows"
  unfolding upto_32 select_rows_def mstart_def by (simp add: pla_select_def)

lemma length_select_rows: "length select_rows = 32"
  by (simp flip: select_rows)

definition span_agrees :: "nat \<Rightarrow> (nat \<times> nat) option \<Rightarrow> selected list \<Rightarrow> bool" where
  "span_agrees s span sel = (case span of None \<Rightarrow> True
      | Some (lo, hi) \<Rightarrow> base_of (sel ! s) = None \<or> list_all (\<lambda>t. t < lo \<or> hi < t \<or> sel ! t = sel ! s) [0..<7])"

definition spans_agree :: "nat \<Rightarrow> bool" where
  "spans_agree s \<longleftrightarrow> list_all2 (span_agrees s) (span_rows ! s) select_rows"

lemma spans_agree: "list_all spans_agree [0..<7]"
  by code_simp

lemma limit_selects:
  assumes "j < 32" "p < 256" "q < 256" "mem_limit_init j p \<noteq> 0"
    and "fst (limit_pages (mem_limit_init j p)) \<le> q" "q \<le> snd (limit_pages (mem_limit_init j p))"
    and "base_of (pla_select j p) \<noteq> None"
  shows "pla_select j q = pla_select j p"
proof -
  define s t where "s = segment_of p" and "t = segment_of q"
  define lo hi where "lo = segment_of (fst (limit_pages (mem_limit_init j p)))"
    and "hi = segment_of (snd (limit_pages (mem_limit_init j p)))"
  have st: "s < 7" "t < 7" by (simp_all add: s_def t_def segment_of_def)
  have t: "lo \<le> t" "t \<le> hi" using assms(5,6) segment_mono by (simp_all add: t_def lo_def hi_def)
  have "spans_agree s"
    using spans_agree st(1) by (simp add: list_all_iff del: upt_rec_numeral)
  then have "span_agrees s (span_rows ! s ! j) (select_rows ! j)"
    unfolding spans_agree_def by (rule list_all2_nthD2) (simp add: assms(1) length_select_rows)
  moreover have "span_rows ! s ! j = Some (lo, hi)"
  proof -
    have len: "length limit_tab = 7" by (simp add: limit_tab_def)
    have "\<forall>r \<in> set limit_tab. length r = 32" by (simp add: limit_tab_def)
    then have "length (limit_tab ! s) = 32" using len st(1) by (metis nth_mem)
    then show ?thesis
      using assms(1,2,4) st(1) len
      by (simp add: mem_limit_init_def s_def[symmetric] lo_def hi_def segment_span_def flip: span_rows)
  qed
  moreover have "select_rows ! j ! u = pla_select j (mstart ! u)" if "u < 7" for u
  proof -
    have "length mstart = 7" by (simp add: mstart_def)
    then show ?thesis using that assms(1) by (simp flip: select_rows)
  qed
  ultimately show ?thesis
    using assms(7) t st pla_select_segment[OF assms(2), of j] pla_select_segment[OF assms(3), of j]
    by (auto simp: span_agrees_def list_all_iff s_def[symmetric] t_def[symmetric] simp del: upt_rec_numeral
        dest!: bspec[where x = t])
qed

lemma page_of_high: "addr \<ge> 0xE000 \<longleftrightarrow> unat (drop_bit 8 (addr::word16)) \<ge> 0xE0"
proof -
  have "unat (drop_bit 8 addr) = unat addr div 256" by (simp add: drop_bit_eq_div unat_div)
  moreover have "57344 \<le> n \<longleftrightarrow> 224 \<le> n div 256" for n :: nat by auto
  ultimately show ?thesis by (simp add: word_le_nat_alt)
qed

lemma page_less: "unat (drop_bit 8 (addr::word16)) < 256"
  using unat_word16_less[of addr] by (simp add: drop_bit_eq_div unat_div div_less_iff_less_mult del: unat_word16_less)

lemma kernal_select:
  assumes "j < 32" "p < 256"
  shows "pla_select j p = Sel_Kernal \<longleftrightarrow> p \<ge> 0xE0 \<and> j \<in> set [2, 3, 6, 7, 10, 11, 14, 15, 26, 27, 30, 31]"
  using configs_32[OF assms(1)] assms(2)
  by (elim insertE emptyE; simp add: pla_select_def)

text \<open>
  C7: The memory map. For each of the 32 configurations and every address the read handler that the
  initialisation installs belongs to the chip that the equations of the PLA select, and a ROM trap
  is allowed exactly where the KERNAL is selected.
\<close>

theorem pla_memory_map:
  assumes "j < 32"
  shows "selects (init_read 0 j (unat (drop_bit 8 addr))) = pla_select j (unat (drop_bit 8 addr))
    \<and> (mem_rom_trap_allowed addr j \<longleftrightarrow> selects (init_read 0 j (unat (drop_bit 8 addr))) = Sel_Kernal)"
  unfolding pla_read_tab[OF assms page_less] kernal_select[OF assms page_less] mem_rom_trap_allowed_def page_of_high
  by simp

theorem pla_memory_map_witness:
  "selects (init_read 0 7 (unat (drop_bit 8 (0xE123::word16)))) = Sel_Kernal \<and> mem_rom_trap_allowed 0xE123 7"
proof -
  have "unat (drop_bit 8 (0xE123::word16)) = 0xE1" by (simp add: drop_bit_eq_div)
  then show ?thesis using pla_memory_map[of 7 "0xE123"] by (simp add: pla_select_def)
qed

text \<open>
  On the board without memory above $07FF the initialisation installs the void read handler for
  pages 8 to 15 in every configuration, but the void store handler in configuration 0 only: in every
  other one the store entry keeps what it held before (nothing, if the table was never filled).
\<close>

theorem max_board_store_hooks:
  assumes "j < 32" "j \<noteq> 0" "8 \<le> p" "p < 0x10"
  shows "init_read 1 j p = Void_Read \<and> init_store 1 old k j p = old k j p \<and> init_store 1 old k 0 p = Void_Store"
  using configs_32[OF assms(1)] assms(2-)
  by (elim insertE emptyE; simp add: table_defs init_store_def c64meminit_store_def default_store_def)

theorem max_board_store_hooks_witness: "init_store 1 (\<lambda>_ _ _. Unset_Store) 0 16 8 = Unset_Store"
  using max_board_store_hooks[of 16 8] by simp

subsection \<open>Direct fetches\<close>

text \<open>A machine without expansions whose tables are those of the initialisation.\<close>

definition stock_tables :: "'d c64 \<Rightarrow> bool" where
  "stock_tables c \<longleftrightarrow> mem_read_tab c = init_read 0 \<and> mem_read_base_tab c = init_base 0
     \<and> mem_read_limit_tab c = mem_limit_init \<and> \<not> c64_256k_enabled c \<and> \<not> plus256k_enabled c \<and> \<not> watchpoints_active c"

lemma put_env_tabs [simp]:
  "mem_read_tab (dev (put_env e m)) = mem_read_tab (dev m)" "mem_read_base_tab (dev (put_env e m)) = mem_read_base_tab (dev m)"
  "mem_read_limit_tab (dev (put_env e m)) = mem_read_limit_tab (dev m)"
  by (simp_all add: put_env_def split: prod.split)

lemma put_env_stock [simp]: "stock_tables (dev (put_env e m)) = stock_tables (dev m)"
  by (simp add: stock_tables_def)

lemma stock_upd [simp]:
  "stock_tables (c\<lparr>pport := p\<rparr>) = stock_tables c" "stock_tables (c\<lparr>mem_config := j\<rparr>) = stock_tables c"
  "stock_tables (c\<lparr>old_port_data_out := b\<rparr>) = stock_tables c" "stock_tables (c\<lparr>old_port_write_bit := b\<rparr>) = stock_tables c"
  "stock_tables (c\<lparr>old_port_sense_out := b\<rparr>) = stock_tables c" "stock_tables (c\<lparr>exrom := f\<rparr>) = stock_tables c"
  "stock_tables (c\<lparr>game := f\<rparr>) = stock_tables c" "stock_tables (c\<lparr>mem_color_ram := r\<rparr>) = stock_tables c"
  "stock_tables (c\<lparr>mem_chargen_rom := r\<rparr>) = stock_tables c"
  by (simp_all add: stock_tables_def)

lemma emit_stock [simp]: "stock_tables (dev (emit D e m)) = stock_tables (dev m)"
  by (simp add: emit_def)

lemma config_changed_stock [simp]: "stock_tables (dev (mem_pla_config_changed D m)) = stock_tables (dev m)"
  by (simp add: mem_pla_config_changed_def maincpu_resync_limits_def c64pla_config_changed_def Let_def split: prod.split)

lemma call_stock [simp]:
  "stock_tables (dev (snd (call_read D h a m))) = stock_tables (dev m)"
  "stock_tables (dev (call_store D h' a v m)) = stock_tables (dev m)"
  by (simp_all add: call_read_def call_store_def Let_def split_beta)

lemma zero_stock [simp]:
  "stock_tables (dev (snd (zero_read D a m))) = stock_tables (dev m)"
  "stock_tables (dev (zero_store D a v m)) = stock_tables (dev m)"
  by (simp_all add: zero_read_def zero_store_def port_ram_store_def zero_ram_store_def vbank_store_def Let_def)

lemma access_stock:
  "stock_tables (dev (snd (c64_read D p a m))) = stock_tables (dev m)"
  "stock_tables (dev (c64_store D p a v m)) = stock_tables (dev m)"
proof -
  have "stock_tables (dev (snd (plain_read D h a m))) = stock_tables (dev m)" for h a m
    by (cases h; simp add: plain_read_def)
  moreover have "stock_tables (dev (plain_store D h a v m)) = stock_tables (dev m)" for h a v m
    by (cases h; simp add: plain_store_def ram_hi_store_def vbank_store_def Let_def split_beta)
  ultimately show "stock_tables (dev (snd (c64_read D p a m))) = stock_tables (dev m)"
    "stock_tables (dev (c64_store D p a v m)) = stock_tables (dev m)"
    by (simp_all add: c64_read_def c64_store_def Let_def)
qed

lemma stock_after_init:
  "\<not> c64_256k_enabled (dev m) \<Longrightarrow> \<not> plus256k_enabled (dev m) \<Longrightarrow> \<not> watchpoints_active (dev m) \<Longrightarrow>
   stock_tables (dev (mem_initialize_memory D 0 False m))"
proof -
  assume a: "\<not> c64_256k_enabled (dev m)" "\<not> plus256k_enabled (dev m)" "\<not> watchpoints_active (dev m)"
  define m3 where "m3 = mem_pla_config_changed D (upd_c64 (\<lambda>c. c\<lparr>pport := c64pla_pport_reset (pport c), exrom := False, game := False\<rparr>)
       (upd_c64 (init_tables 0) m))"
  have "stock_tables (dev m3)" using a by (simp add: m3_def) (simp add: stock_tables_def init_tables_def)
  then show ?thesis
    by (simp add: mem_initialize_memory_def m3_def[symmetric] Let_def)
      (simp add: stock_tables_def plus60k_init_config_def plus256k_init_config_def c64_256k_init_config_def)
qed

lemma word16_and_low:
  "unat ((w::word16) AND 0x1FFF) = unat w mod 8192" "unat (w AND 0xFFF) = unat w mod 4096" "unat (w AND 0xFF) = unat w mod 256"
proof -
  have m: "push_bit 0 (mask 13) = (0x1FFF::nat)" "push_bit 0 (mask 12) = (0xFFF::nat)" "push_bit 0 (mask 8) = (0xFF::nat)"
    by (simp_all add: mask_eq_exp_minus_1)
  show "unat ((w::word16) AND 0x1FFF) = unat w mod 8192" "unat (w AND 0xFFF) = unat w mod 4096"
    "unat (w AND 0xFF) = unat w mod 256"
    using nat_and_field[of "unat w" 0 13] nat_and_field[of "unat w" 0 12] nat_and_field[of "unat w" 0 8]
    by (simp_all only: m unsigned_and_eq unsigned_numeral) (simp_all add: take_bit_eq_mod)
qed

lemma unat_ucast_word16:
  "unat (a::dword) < 65536 \<Longrightarrow> unat (ucast a :: word16) = unat a" "unat (ucast (w::word16) :: dword) = unat w"
proof -
  show "unat (a::dword) < 65536 \<Longrightarrow> unat (ucast a :: word16) = unat a"
    by (simp add: unsigned_ucast_eq unsigned_take_bit_eq take_bit_eq_mod)
  show "unat (ucast (w::word16) :: dword) = unat w"
    using unat_word16_less[of w] by (simp add: unsigned_ucast_eq unsigned_take_bit_eq take_bit_nat_eq_self del: unat_word16_less)
qed

lemma rom_offset:
  assumes "unat (a::dword) < 65536"
  shows "unat a div 8192 = 5 \<Longrightarrow> ucast ((ucast a :: word16) AND 0x1FFF) = a - 0xA000"
    and "unat a div 8192 = 7 \<Longrightarrow> ucast ((ucast a :: word16) AND 0x1FFF) = a - 0xE000"
    and "unat a div 4096 = 13 \<Longrightarrow> ucast ((ucast a :: word16) AND 0xFFF) = a - 0xD000"
proof -
  have d: "unat a = 8192 * (unat a div 8192) + unat a mod 8192" "unat a = 4096 * (unat a div 4096) + unat a mod 4096"
    by simp_all
  note u = word_unat_eq_iff unat_ucast_word16 word16_and_low assms unat_sub_if'
  show "unat a div 8192 = 5 \<Longrightarrow> ucast ((ucast a :: word16) AND 0x1FFF) = a - 0xA000"
    "unat a div 8192 = 7 \<Longrightarrow> ucast ((ucast a :: word16) AND 0x1FFF) = a - 0xE000"
    using d(1) by (simp_all add: u)
  show "unat a div 4096 = 13 \<Longrightarrow> ucast ((ucast a :: word16) AND 0xFFF) = a - 0xD000"
    using d(2) by (simp add: u)
qed

lemma selects_iff:
  "selects h = Sel_Basic \<longleftrightarrow> h = Basic64_Read" "selects h = Sel_Kernal \<longleftrightarrow> h = Kernal64_Read"
  "selects h = Sel_Chargen \<longleftrightarrow> h = Chargen_Read" "selects h = Sel_Ram \<longleftrightarrow> h = Zero_Read \<or> h = Ram_Read"
  by (cases h; simp)+

lemma zero_handler_page:
  assumes "j < 32" "p < 256"
  shows "init_read 0 j p = Zero_Read \<longleftrightarrow> p = 0"
  using configs_32[OF assms(1)] assms(2) by (elim insertE emptyE; simp add: table_defs)

lemma select_pages:
  "pla_select j q = Sel_Basic \<Longrightarrow> q div 32 = 5" "q < 256 \<Longrightarrow> pla_select j q = Sel_Kernal \<Longrightarrow> q div 32 = 7"
  "pla_select j q = Sel_Chargen \<Longrightarrow> q div 16 = 13"
  by (auto simp: pla_select_def Let_def split: if_splits)

text \<open>What a read through the tables gives, for each chip the PLA selects.\<close>

lemma read_selected:
  assumes "stock_tables (dev m)" "mem_config (dev m) < 32" "unat a < 65536" "2 \<le> unat a"
  defines "q \<equiv> unat (drop_bit 8 a)"
  shows "pla_select (mem_config (dev m)) q = Sel_Ram \<Longrightarrow> fst (c64_read D q (ucast a) m) = mem_ram m a"
    and "pla_select (mem_config (dev m)) q = Sel_Basic \<Longrightarrow> fst (c64_read D q (ucast a) m) = basic64_rom (dev m) (a - 0xA000)"
    and "pla_select (mem_config (dev m)) q = Sel_Kernal \<Longrightarrow> fst (c64_read D q (ucast a) m) = kernal64_rom (dev m) (a - 0xE000)"
    and "pla_select (mem_config (dev m)) q = Sel_Chargen \<Longrightarrow> fst (c64_read D q (ucast a) m) = mem_chargen_rom (dev m) (a - 0xD000)"
proof -
  have q: "q = unat a div 256" by (simp add: q_def drop_bit_eq_div unat_div)
  have q8: "q < 256" using assms(3) by (simp add: q less_mult_imp_div_less)
  have t: "c64_read D q (ucast a) m = plain_read D (init_read 0 (mem_config (dev m)) q) (ucast a) m"
    using assms(1) by (simp add: c64_read_def stock_tables_def)
  have ra: "(ucast (ucast a :: word16) :: dword) = a"
    using assms(3) by (simp add: word_unat_eq_iff unat_ucast_word16)
  have dv: "unat a div 8192 = q div 32" "unat a div 4096 = q div 16" by (simp_all add: q flip: div_mult2_eq)
  note h = selects_iff[of "init_read 0 (mem_config (dev m)) q", unfolded pla_read_tab[OF assms(2) q8]]
  show "fst (c64_read D q (ucast a) m) = basic64_rom (dev m) (a - 0xA000)" if "pla_select (mem_config (dev m)) q = Sel_Basic"
    using that select_pages(1)[OF that] h(1) rom_offset(1)[OF assms(3)] by (simp add: t plain_read_def dv)
  show "fst (c64_read D q (ucast a) m) = kernal64_rom (dev m) (a - 0xE000)" if "pla_select (mem_config (dev m)) q = Sel_Kernal"
    using that select_pages(2)[OF q8 that] h(2) rom_offset(2)[OF assms(3)] by (simp add: t plain_read_def dv)
  show "fst (c64_read D q (ucast a) m) = mem_chargen_rom (dev m) (a - 0xD000)" if "pla_select (mem_config (dev m)) q = Sel_Chargen"
    using that select_pages(3)[OF that] h(3) rom_offset(3)[OF assms(3)] by (simp add: t plain_read_def dv)
  have z: "fst (zero_read D (ucast a) m) = mem_ram m a" if "q = 0"
  proof -
    have a: "unat a < 256" using that by (simp add: q)
    then have e: "unat ((ucast a :: word16) AND 0xFF) = unat a" using assms(3) by (simp add: word16_and_low unat_ucast_word16)
    then have "(ucast a :: word16) AND 0xFF \<noteq> 0" "(ucast a :: word16) AND 0xFF \<noteq> 1" "ucast ((ucast a :: word16) AND 0xFF) = a"
      using assms(4) by (auto simp: word_unat_eq_iff unat_ucast_word16)
    then show ?thesis using assms(1) by (simp add: zero_read_def Let_def stock_tables_def)
  qed
  show "fst (c64_read D q (ucast a) m) = mem_ram m a" if "pla_select (mem_config (dev m)) q = Sel_Ram"
    using that h(4) zero_handler_page[OF assms(2) q8] z by (auto simp: t plain_read_def ra)
qed

lemma limit_bounds:
  assumes "j < 32" "p < 256" "mem_limit_init j p \<noteq> 0"
  shows "2 \<le> unat (mem_limit_init j p) div 65536" "unat (mem_limit_init j p) mod 65536 \<le> 65533"
proof -
  have t: "\<forall>r \<in> set limit_tab. \<forall>l \<in> set r. l \<noteq> 0 \<longrightarrow> 2 \<le> unat l div 65536 \<and> unat l mod 65536 \<le> 65533"
    by (simp add: limit_tab_def)
  have s: "segment_of p < 7" by (simp add: segment_of_def)
  have len: "length limit_tab = 7" "\<forall>r \<in> set limit_tab. length r = 32" by (simp_all add: limit_tab_def)
  then have r: "limit_tab ! segment_of p \<in> set limit_tab" using s by simp
  then have "limit_tab ! segment_of p ! j \<in> set (limit_tab ! segment_of p)" using len(2) assms(1) by simp
  then show "2 \<le> unat (mem_limit_init j p) div 65536" "unat (mem_limit_init j p) mod 65536 \<le> 65533"
    using t r assms(2,3) by (auto simp: mem_limit_init_def)
qed

text \<open>
  C1: Fetching code directly and reading through the handler tables agree, but for the traps in the KERNAL. The machine
  is the one without expansions and without watchpoints, with the tables of the initialisation, in any of its 32 configurations. Let the
  CPU translate a code address above $0001 whose page has an entry in the table of banks (other pages are left to the cartridge)
  to a bank with a start and a limit. At every address from the start up to below the limit, and at the two that follow it, where the
  operands are, the byte in the bank is the byte of the patched KERNAL where the PLA selects the KERNAL, while the read
  handler there gives the KERNAL without the patches, and everywhere else it is the byte the read handler gives. So no direct
  fetch ever runs over into memory that the PLA maps to another chip.
\<close>

theorem direct_fetch:
  fixes m :: "'d c64_machine"
  defines "j \<equiv> mem_config (dev m)"
  assumes "stock_tables (dev m)" "j < 32" "1 < addr" "unat addr < 65536"
    and "init_base 0 j (unat (drop_bit 8 addr)) \<noteq> None" and "mem_mmu_translate D addr m = (b, st, lim)"
    and "st \<le> a" "a < lim" "k \<le> 2"
  shows "if pla_select j (unat (drop_bit 8 (a + k))) = Sel_Kernal
    then c64_bank_byte D b (a + k) m = kernal64_trap_rom (dev m) (a + k - 0xE000)
       \<and> fst (c64_read D (unat (drop_bit 8 (a + k))) (ucast (a + k)) m) = kernal64_rom (dev m) (a + k - 0xE000)
    else c64_bank_byte D b (a + k) m = fst (c64_read D (unat (drop_bit 8 (a + k))) (ucast (a + k)) m)"
proof -
  define p where "p = unat (drop_bit 8 addr)"
  define q where "q = unat (drop_bit 8 (a + k))"
  define l where "l = mem_limit_init j p"
  have p: "p < 256" using assms(5) by (simp add: p_def drop_bit_eq_div unat_div less_mult_imp_div_less)
  have tr: "init_base 0 j p = Some b" "st = drop_bit 16 l" "lim = l AND 0xFFFF"
    using assms(2,4,6,7) by (auto simp: mem_mmu_translate_def Let_def stock_tables_def p_def l_def j_def split: option.splits)
  have lim: "unat lim = unat l mod 65536" "unat st = unat l div 65536"
    using nat_and_field[of "unat l" 0 16] arg_cong[OF limit_pages_nat[of l], of fst]
    by (simp_all only: tr unsigned_and_eq unsigned_numeral) (simp_all add: take_bit_eq_mod drop_bit_eq_div unat_div mask_eq_exp_minus_1)
  have l0: "l \<noteq> 0" using assms(9) tr(3) by auto
  note lb = limit_bounds[OF assms(3) p, folded l_def, OF l0]
  have ak: "unat (a + k) = unat a + unat k"
    using assms(9,10) lim(1) lb(2) by (simp add: unat_word_ariths word_less_nat_alt word_le_nat_alt)
  have r: "unat st \<le> unat (a + k)" "unat (a + k) \<le> unat lim + 1"
    using assms(8-10) ak by (simp_all add: word_less_nat_alt word_le_nat_alt)
  have q: "q = unat (a + k) div 256" by (simp add: q_def drop_bit_eq_div unat_div)
  have lp: "fst (limit_pages l) \<le> q" "q \<le> snd (limit_pages l)"
    using r by (simp_all add: limit_pages_nat q div_le_mono flip: lim)
  have small: "unat (a + k) < 65536" "2 \<le> unat (a + k)" using r lb lim by simp_all
  have "q < 256" using small(1) by (simp add: q less_mult_imp_div_less)
  then have sel: "pla_select j q = pla_select j p"
    using limit_selects[OF assms(3) p, folded l_def, OF _ l0 lp] tr(1) pla_base_tab[OF assms(3) p] by simp
  have "base_of (pla_select j q) = Some b"
    using tr(1) pla_base_tab[OF assms(3) p] sel by simp
  then show ?thesis
    using read_selected[OF assms(2) _ small, of D, folded j_def q_def, OF assms(3)]
    unfolding q_def[symmetric] by (cases "pla_select j q") (simp_all add: c64_bank_byte_def)
qed

text \<open>In the KERNAL, with a trap patched in at $E123; the code there runs from $E000.\<close>

theorem direct_fetch_witness:
  "\<exists>m. mem_config (dev m) = 7 \<and> c64_bank_byte quiet_devs KERNAL_TRAP_BASE 0xE123 m = 0x02 \<and> fst (c64_read quiet_devs 0xE1 0xE123 m) = 0x20"
proof -
  define m where "m = upd_c64 (\<lambda>c. (init_tables 0 c)\<lparr>mem_config := 7, kernal64_rom := \<lambda>_. 0x20, kernal64_trap_rom := (\<lambda>_. 0x20)(0x123 := 0x02)\<rparr>)
    (c64_with_port 0 0)"
  have m: "stock_tables (dev m)" "mem_config (dev m) = 7" "kernal64_trap_rom (dev m) 0x123 = 0x02" "kernal64_rom (dev m) 0x123 = 0x20"
    by (simp_all add: m_def stock_tables_def init_tables_def c64_with_port_def)
  have "drop_bit 8 (0xE000::dword) = 0xE0" by (simp add: drop_bit_eq_div)
  then have pg: "unat (drop_bit 8 (0xE000::dword)) = 0xE0" by simp
  have b: "init_base 0 7 0xE0 = Some KERNAL_TRAP_BASE"
    by (simp add: init_base_def c64meminit_base_def table_defs)
  have tr: "mem_mmu_translate quiet_devs 0xE000 m = (KERNAL_TRAP_BASE, 0xE000, 0xFFFD)"
    using m(1,2) b by (simp add: mem_mmu_translate_def stock_tables_def pg mem_limit_init_def segment_of_def limit_tab_def
        drop_bit_eq_div)
  have "unat (drop_bit 8 (0xE123::dword)) = 0xE1" by (simp add: drop_bit_eq_div)
  then show ?thesis
    using direct_fetch[of m "0xE000" quiet_devs KERNAL_TRAP_BASE "0xE000" "0xFFFD" "0xE123" 0] m b tr pg
    by (intro exI[of _ m]) (simp add: pla_select_def)
qed

end
