(* ===== verification/Ciatimer.thy ===== *)
theory Ciatimer
  imports Alarm
begin

text \<open>
  The interval timer of the CIA, \<open>ciatimer.h\<close> and \<open>ciatimer.c\<close>. A timer is brought up to date
  lazily: \<open>ciat_update\<close> jumps over stretches of counting, and \<open>ciat_set_alarm\<close> predicts the next
  underflow. The reference is the timer that is clocked one cycle at a time; the properties say
  that the jumps and the prediction agree with it.
\<close>

subsection \<open>State\<close>

type_synonym ciat_tstate_t = word16

definition CIAT_CR_MASK :: ciat_tstate_t where "CIAT_CR_MASK = 0x039"
definition CIAT_CR_START :: ciat_tstate_t where "CIAT_CR_START = 0x001"
definition CIAT_CR_ONESHOT :: ciat_tstate_t where "CIAT_CR_ONESHOT = 0x008"
definition CIAT_CR_FLOAD :: ciat_tstate_t where "CIAT_CR_FLOAD = 0x010"
definition CIAT_PHI2IN :: ciat_tstate_t where "CIAT_PHI2IN = 0x020"
definition CIAT_STEP :: ciat_tstate_t where "CIAT_STEP = 0x004"
definition CIAT_COUNT2 :: ciat_tstate_t where "CIAT_COUNT2 = 0x002"
definition CIAT_COUNT3 :: ciat_tstate_t where "CIAT_COUNT3 = 0x040"
definition CIAT_COUNT :: ciat_tstate_t where "CIAT_COUNT = 0x800"
definition CIAT_LOAD1 :: ciat_tstate_t where "CIAT_LOAD1 = 0x080"
definition CIAT_ONESHOT0 :: ciat_tstate_t where "CIAT_ONESHOT0 = 0x100"
definition CIAT_ONESHOT :: ciat_tstate_t where "CIAT_ONESHOT = 0x1000"
definition CIAT_LOAD :: ciat_tstate_t where "CIAT_LOAD = 0x200"
definition CIAT_OUT :: ciat_tstate_t where "CIAT_OUT = 0x400"

lemmas CIAT_defs = CIAT_CR_MASK_def CIAT_CR_START_def CIAT_CR_ONESHOT_def CIAT_CR_FLOAD_def CIAT_PHI2IN_def CIAT_STEP_def
  CIAT_COUNT2_def CIAT_COUNT3_def CIAT_COUNT_def CIAT_LOAD1_def CIAT_ONESHOT0_def CIAT_ONESHOT_def CIAT_LOAD_def CIAT_OUT_def

record ciat_t =
  tstate :: ciat_tstate_t
  latch :: word16
  cnt :: word16
  alarmclk :: clock
  tclk :: clock
  talarm :: nat

text \<open>An entry of \<open>ciat_table\<close>: the state one cycle later.\<close>

definition ciat_table :: "ciat_tstate_t \<Rightarrow> ciat_tstate_t" where
  "ciat_table i =
     (let t0 = i AND (CIAT_CR_START OR CIAT_CR_ONESHOT OR CIAT_PHI2IN);
          t1 = (if i AND CIAT_CR_START \<noteq> 0 \<and> i AND CIAT_PHI2IN \<noteq> 0 then t0 OR CIAT_COUNT2 else t0);
          t2 = (if i AND CIAT_COUNT2 \<noteq> 0 \<or> (i AND CIAT_STEP \<noteq> 0 \<and> i AND CIAT_CR_START \<noteq> 0)
                then t1 OR CIAT_COUNT3 else t1);
          t3 = (if i AND CIAT_COUNT3 \<noteq> 0 then t2 OR CIAT_COUNT else t2);
          t4 = (if i AND CIAT_CR_FLOAD \<noteq> 0 then t3 OR CIAT_LOAD1 else t3);
          t5 = (if i AND CIAT_LOAD1 \<noteq> 0 then t4 OR CIAT_LOAD else t4);
          t6 = (if i AND CIAT_CR_ONESHOT \<noteq> 0 then t5 OR CIAT_ONESHOT0 else t5)
      in if i AND CIAT_ONESHOT0 \<noteq> 0 then t6 OR CIAT_ONESHOT else t6)"

subsection \<open>The operations\<close>

definition oneshot_settled :: "ciat_tstate_t \<Rightarrow> bool" where
  "oneshot_settled t \<longleftrightarrow>
     (t AND CIAT_CR_ONESHOT \<noteq> 0 \<and> t AND CIAT_ONESHOT0 \<noteq> 0 \<and> t AND CIAT_ONESHOT \<noteq> 0)
   \<or> (t AND CIAT_CR_ONESHOT = 0 \<and> t AND CIAT_ONESHOT0 = 0 \<and> t AND CIAT_ONESHOT = 0)"

definition warp_counting :: "ciat_tstate_t \<Rightarrow> bool" where
  "warp_counting t \<longleftrightarrow>
     t AND (CIAT_CR_START OR CIAT_CR_FLOAD OR CIAT_LOAD1 OR CIAT_PHI2IN OR CIAT_COUNT2 OR CIAT_COUNT3 OR CIAT_COUNT OR CIAT_LOAD)
       = (CIAT_CR_START OR CIAT_PHI2IN OR CIAT_COUNT2 OR CIAT_COUNT3 OR CIAT_COUNT)
     \<and> oneshot_settled t"

definition not_counting :: "ciat_tstate_t \<Rightarrow> bool" where
  "not_counting t \<longleftrightarrow>
     t AND (CIAT_COUNT2 OR CIAT_COUNT3 OR CIAT_COUNT) = 0
     \<and> (t AND CIAT_CR_START = 0 \<or> t AND (CIAT_PHI2IN OR CIAT_STEP) = 0) \<and> oneshot_settled t"

text \<open>
  What follows each turn of the loop in \<open>ciat_update\<close>: an underflow, a load, and the stop of a
  one-shot timer. The second component is the \<open>int\<close> that counts underflows; it is kept as an
  unbounded integer, exact as long as fewer than \<open>2 ^ 31\<close> cycles pass.
\<close>

definition ciat_tail :: "ciat_t \<times> int \<Rightarrow> ciat_t \<times> int" where
  "ciat_tail = (\<lambda>(s, n).
     (let (t1, n1) = (if cnt s = 0 \<and> tstate s AND CIAT_COUNT3 \<noteq> 0
                      then (tstate s OR (CIAT_LOAD OR CIAT_OUT), n + 1) else (tstate s, n));
          (c2, t2) = (if t1 AND CIAT_LOAD \<noteq> 0 then (latch s, t1 AND NOT CIAT_COUNT3) else (cnt s, t1));
          t3 = (if t2 AND CIAT_OUT \<noteq> 0 \<and> t2 AND (CIAT_ONESHOT OR CIAT_ONESHOT0) \<noteq> 0
                then t2 AND NOT (CIAT_CR_START OR CIAT_COUNT2) else t2)
      in (s\<lparr>tstate := t3, cnt := c2\<rparr>, n1)))"

definition ciat_inc :: "ciat_t \<Rightarrow> ciat_t" where
  "ciat_inc s = s\<lparr>cnt := (if cnt s \<noteq> 0 \<and> tstate s AND CIAT_COUNT3 \<noteq> 0 then cnt s - 1 else cnt s),
                  tstate := ciat_table (tstate s), tclk := tclk s + 1\<rparr>"

definition ciat_jump :: "clock \<Rightarrow> ciat_t \<times> int \<Rightarrow> ciat_t \<times> int" where
  "ciat_jump cclk = (\<lambda>(s, n).
     (let t = tstate s
      in if warp_counting t then
           (if tclk s + ucast (cnt s) > cclk
            then (s\<lparr>cnt := cnt s - ucast (cclk - tclk s), tclk := cclk\<rparr>, n)
            else
              (let s1 = s\<lparr>tclk := tclk s + ucast (cnt s), cnt := 0\<rparr>
               in if t AND (CIAT_CR_ONESHOT OR CIAT_ONESHOT0) \<noteq> 0 then (s1, n)
                  else if unat (ucast (cclk - tclk s1) :: word16) \<ge> unat (latch s1) + 1
                  then (let m = (cclk - tclk s1) div (ucast (latch s1) + 1)
                        in (s1\<lparr>tclk := tclk s1 + m * (ucast (latch s1) + 1)\<rparr>, n + sint m))
                  else (s1, n)))
         else if not_counting t \<and> t AND (CIAT_CR_FLOAD OR CIAT_LOAD1 OR CIAT_LOAD) = 0
         then (s\<lparr>tclk := cclk\<rparr>, n)
         else if t = (CIAT_COUNT OR CIAT_OUT OR CIAT_LOAD OR CIAT_PHI2IN OR CIAT_COUNT2 OR CIAT_CR_START)
              \<and> cnt s = 1 \<and> latch s = 1
         then (let m = (cclk - tclk s) AND NOT 1
               in if m \<noteq> 0 then (s\<lparr>tclk := tclk s + m\<rparr>, n + sint m div 2)
                  else (s\<lparr>tstate := ciat_table t, tclk := tclk s + 1\<rparr>, n))
         else (ciat_inc s, n)))"

partial_function (option) ciat_update_loop :: "clock \<Rightarrow> ciat_t \<times> int \<Rightarrow> (ciat_t \<times> int) option" where
  "ciat_update_loop cclk sn =
     (if tclk (fst sn) < cclk then ciat_update_loop cclk (ciat_tail (ciat_jump cclk sn)) else Some sn)"

definition ciat_update :: "ciat_t \<Rightarrow> clock \<Rightarrow> (ciat_t \<times> int) option" where
  "ciat_update s cclk = ciat_update_loop cclk (s, 0)"

text \<open>The prediction of the next underflow works on copies of the clock, the counter and the state.\<close>

partial_function (option) ciat_next_underflow :: "word16 \<Rightarrow> clock \<Rightarrow> word16 \<Rightarrow> ciat_tstate_t \<Rightarrow> clock option" where
  "ciat_next_underflow l aclk c t =
     (if warp_counting t then Some (aclk + ucast c)
      else if not_counting t then Some CLOCK_MAX
      else
        (let c1 = (if c \<noteq> 0 \<and> t AND CIAT_COUNT3 \<noteq> 0 then c - 1 else c);
             t1 = ciat_table t
         in if c1 = 0 \<and> t1 AND CIAT_COUNT3 \<noteq> 0 then Some (aclk + 1)
            else
              (let (c2, t2) = (if t1 AND CIAT_LOAD \<noteq> 0 then (l, t1 AND NOT CIAT_COUNT3) else (c1, t1));
                   t3 = (if t2 AND CIAT_OUT \<noteq> 0 \<and> t2 AND (CIAT_ONESHOT OR CIAT_ONESHOT0) \<noteq> 0
                         then t2 AND NOT (CIAT_CR_START OR CIAT_COUNT2) else t2)
               in ciat_next_underflow l (aclk + 1) c2 t3)))"

definition ciat_set_alarm :: "ciat_t \<times> alarm_context \<Rightarrow> (ciat_t \<times> alarm_context) option" where
  "ciat_set_alarm = (\<lambda>(s, c).
     (case ciat_next_underflow (latch s) (tclk s) (cnt s) (tstate s) of
        None \<Rightarrow> None
      | Some tmp \<Rightarrow> Some (s\<lparr>alarmclk := tmp\<rparr>,
                          if tmp \<noteq> CLOCK_MAX then alarm_set (talarm s) tmp c else alarm_unset (talarm s) c)))"

definition ciat_init :: "clock \<Rightarrow> nat \<Rightarrow> ciat_t \<Rightarrow> ciat_t" where
  "ciat_init cclk a s = s\<lparr>tclk := cclk, alarmclk := CLOCK_MAX, cnt := 0xFFFF, latch := 0xFFFF, talarm := a\<rparr>"

definition ciat_reset :: "clock \<Rightarrow> ciat_t \<times> alarm_context \<Rightarrow> ciat_t \<times> alarm_context" where
  "ciat_reset cclk = (\<lambda>(s, c).
     (s\<lparr>tclk := cclk, alarmclk := CLOCK_MAX, cnt := 0xFFFF, latch := 0xFFFF, tstate := 0\<rparr>, alarm_unset (talarm s) c))"

definition ciat_prevent_clock_overflow :: "clock \<Rightarrow> ciat_t \<Rightarrow> ciat_t" where
  "ciat_prevent_clock_overflow sub s =
     s\<lparr>tclk := tclk s - sub, alarmclk := (if alarmclk s < CLOCK_MAX then alarmclk s - sub else alarmclk s)\<rparr>"

definition ciat_read_latch :: "ciat_t \<Rightarrow> word16" where "ciat_read_latch s = latch s"
definition ciat_read_timer :: "ciat_t \<Rightarrow> word16" where "ciat_read_timer s = cnt s"
definition ciat_alarm_clk :: "ciat_t \<Rightarrow> clock" where "ciat_alarm_clk s = alarmclk s"
definition ciat_is_underflow_clk :: "ciat_t \<Rightarrow> bool" where "ciat_is_underflow_clk s \<longleftrightarrow> tstate s AND CIAT_OUT \<noteq> 0"
definition ciat_is_running :: "ciat_t \<Rightarrow> bool" where "ciat_is_running s \<longleftrightarrow> tstate s AND CIAT_CR_START \<noteq> 0"

definition ciat_single_step :: "ciat_t \<times> alarm_context \<Rightarrow> (ciat_t \<times> alarm_context) option" where
  "ciat_single_step = (\<lambda>(s, c).
     (if tstate s AND CIAT_CR_START \<noteq> 0 then ciat_set_alarm (s\<lparr>tstate := tstate s OR CIAT_STEP\<rparr>, c) else Some (s, c)))"

definition ciat_set_latchhi :: "byte \<Rightarrow> ciat_t \<times> alarm_context \<Rightarrow> (ciat_t \<times> alarm_context) option" where
  "ciat_set_latchhi b = (\<lambda>(s, c).
     (let s1 = s\<lparr>latch := (latch s AND 0xFF) OR push_bit 8 (ucast b)\<rparr>;
          s2 = (if tstate s1 AND CIAT_LOAD \<noteq> 0 \<or> tstate s1 AND CIAT_CR_START = 0 then s1\<lparr>cnt := latch s1\<rparr> else s1)
      in ciat_set_alarm (s2, c)))"

definition ciat_set_latchlo :: "byte \<Rightarrow> ciat_t \<times> alarm_context \<Rightarrow> (ciat_t \<times> alarm_context) option" where
  "ciat_set_latchlo b = (\<lambda>(s, c).
     (let s1 = s\<lparr>latch := (latch s AND 0xFF00) OR ucast b\<rparr>;
          s2 = (if tstate s1 AND CIAT_LOAD \<noteq> 0 then s1\<lparr>cnt := (cnt s1 AND 0xFF00) OR ucast b\<rparr> else s1)
      in ciat_set_alarm (s2, c)))"

definition ciat_set_ctrl :: "byte \<Rightarrow> ciat_t \<times> alarm_context \<Rightarrow> (ciat_t \<times> alarm_context) option" where
  "ciat_set_ctrl b = (\<lambda>(s, c).
     ciat_set_alarm (s\<lparr>tstate := (tstate s AND NOT CIAT_CR_MASK) OR ((ucast b AND CIAT_CR_MASK) XOR CIAT_PHI2IN)\<rparr>, c))"

definition ciat_ack_alarm :: "ciat_t \<times> alarm_context \<Rightarrow> ciat_t \<times> alarm_context" where
  "ciat_ack_alarm = (\<lambda>(s, c). (s\<lparr>alarmclk := CLOCK_MAX\<rparr>, alarm_unset (talarm s) c))"

subsection \<open>The timer clocked one cycle at a time\<close>

definition ciat_cycle :: "ciat_t \<times> int \<Rightarrow> ciat_t \<times> int" where
  "ciat_cycle = (\<lambda>(s, n). ciat_tail (ciat_inc s, n))"

text \<open>
  The flag \<open>CIAT_COUNT\<close> is written by the table and read by nothing but the tests for a jump;
  states are compared without it.
\<close>

definition uncount :: "ciat_t \<times> int \<Rightarrow> ciat_t \<times> int" where
  "uncount = (\<lambda>(s, n). (s\<lparr>tstate := tstate s AND NOT CIAT_COUNT\<rparr>, n))"

definition timer_ok :: "ciat_t \<Rightarrow> bool" where
  "timer_ok s \<longleftrightarrow> tstate s AND 0xE000 = 0
     \<and> (tstate s AND CIAT_OUT \<noteq> 0 \<longrightarrow> tstate s AND CIAT_LOAD \<noteq> 0)
     \<and> (tstate s AND CIAT_COUNT3 \<noteq> 0 \<and> tstate s AND CIAT_CR_START \<noteq> 0 \<longrightarrow> cnt s \<noteq> 0)
     \<and> (tstate s AND CIAT_STEP \<noteq> 0 \<longrightarrow> tstate s AND CIAT_CR_START \<noteq> 0 \<and> tstate s AND CIAT_PHI2IN = 0)"

subsection \<open>Bits of the state\<close>

lemma and_bit_nz: "(t::word16) AND push_bit k 1 \<noteq> 0 \<longleftrightarrow> bit t k"
  by (simp add: and_nonnegative_int_iff bit_iff_and_push_bit_not_eq_0)

lemma CIAT_bit: "CIAT_CR_START = push_bit 0 1" "CIAT_CR_ONESHOT = push_bit 3 1" "CIAT_CR_FLOAD = push_bit 4 1"
  "CIAT_PHI2IN = push_bit 5 1" "CIAT_STEP = push_bit 2 1" "CIAT_COUNT2 = push_bit 1 1" "CIAT_COUNT3 = push_bit 6 1"
  "CIAT_COUNT = push_bit 11 1" "CIAT_LOAD1 = push_bit 7 1" "CIAT_ONESHOT0 = push_bit 8 1" "CIAT_ONESHOT = push_bit 12 1"
  "CIAT_LOAD = push_bit 9 1" "CIAT_OUT = push_bit 10 1"
  by (simp_all add: CIAT_defs push_bit_eq_mult)

lemma CIAT_test: "t AND CIAT_CR_START \<noteq> 0 \<longleftrightarrow> bit t 0" "t AND CIAT_CR_ONESHOT \<noteq> 0 \<longleftrightarrow> bit t 3"
  "t AND CIAT_CR_FLOAD \<noteq> 0 \<longleftrightarrow> bit t 4" "t AND CIAT_PHI2IN \<noteq> 0 \<longleftrightarrow> bit t 5" "t AND CIAT_STEP \<noteq> 0 \<longleftrightarrow> bit t 2"
  "t AND CIAT_COUNT2 \<noteq> 0 \<longleftrightarrow> bit t 1" "t AND CIAT_COUNT3 \<noteq> 0 \<longleftrightarrow> bit t 6" "t AND CIAT_COUNT \<noteq> 0 \<longleftrightarrow> bit t 11"
  "t AND CIAT_LOAD1 \<noteq> 0 \<longleftrightarrow> bit t 7" "t AND CIAT_ONESHOT0 \<noteq> 0 \<longleftrightarrow> bit t 8" "t AND CIAT_ONESHOT \<noteq> 0 \<longleftrightarrow> bit t 12"
  "t AND CIAT_LOAD \<noteq> 0 \<longleftrightarrow> bit t 9" "t AND CIAT_OUT \<noteq> 0 \<longleftrightarrow> bit t 10"
  by (simp_all only: CIAT_bit and_bit_nz)

lemma CIAT_test0: "t AND CIAT_CR_START = 0 \<longleftrightarrow> \<not> bit t 0" "t AND CIAT_CR_ONESHOT = 0 \<longleftrightarrow> \<not> bit t 3"
  "t AND CIAT_CR_FLOAD = 0 \<longleftrightarrow> \<not> bit t 4" "t AND CIAT_PHI2IN = 0 \<longleftrightarrow> \<not> bit t 5" "t AND CIAT_STEP = 0 \<longleftrightarrow> \<not> bit t 2"
  "t AND CIAT_COUNT2 = 0 \<longleftrightarrow> \<not> bit t 1" "t AND CIAT_COUNT3 = 0 \<longleftrightarrow> \<not> bit t 6" "t AND CIAT_COUNT = 0 \<longleftrightarrow> \<not> bit t 11"
  "t AND CIAT_LOAD1 = 0 \<longleftrightarrow> \<not> bit t 7" "t AND CIAT_ONESHOT0 = 0 \<longleftrightarrow> \<not> bit t 8" "t AND CIAT_ONESHOT = 0 \<longleftrightarrow> \<not> bit t 12"
  "t AND CIAT_LOAD = 0 \<longleftrightarrow> \<not> bit t 9" "t AND CIAT_OUT = 0 \<longleftrightarrow> \<not> bit t 10"
  using CIAT_test[of t] by blast+

lemma bit_flag: "bit (push_bit k 1 :: word16) n \<longleftrightarrow> n = k \<and> k < 16"
  by (auto simp: bit_exp_iff)

lemma CIAT_flag: "bit CIAT_CR_START n \<longleftrightarrow> n = 0" "bit CIAT_CR_ONESHOT n \<longleftrightarrow> n = 3" "bit CIAT_CR_FLOAD n \<longleftrightarrow> n = 4"
  "bit CIAT_PHI2IN n \<longleftrightarrow> n = 5" "bit CIAT_STEP n \<longleftrightarrow> n = 2" "bit CIAT_COUNT2 n \<longleftrightarrow> n = 1" "bit CIAT_COUNT3 n \<longleftrightarrow> n = 6"
  "bit CIAT_COUNT n \<longleftrightarrow> n = 11" "bit CIAT_LOAD1 n \<longleftrightarrow> n = 7" "bit CIAT_ONESHOT0 n \<longleftrightarrow> n = 8" "bit CIAT_ONESHOT n \<longleftrightarrow> n = 12"
  "bit CIAT_LOAD n \<longleftrightarrow> n = 9" "bit CIAT_OUT n \<longleftrightarrow> n = 10"
  unfolding CIAT_bit bit_flag by simp_all

lemma state_eqI: "(\<And>n. n < 16 \<Longrightarrow> bit (t::word16) n = bit u n) \<Longrightarrow> t = u"
  by (rule bit_word_eqI) simp

text \<open>What each bit of the next state is made of.\<close>

lemma bit_ciat_table: "bit (ciat_table t) n \<longleftrightarrow>
    n = 0 \<and> bit t 0 \<or> n = 1 \<and> bit t 0 \<and> bit t 5 \<or> n = 3 \<and> bit t 3 \<or> n = 5 \<and> bit t 5
  \<or> n = 6 \<and> (bit t 1 \<or> bit t 2 \<and> bit t 0) \<or> n = 7 \<and> bit t 4 \<or> n = 8 \<and> bit t 3 \<or> n = 9 \<and> bit t 7
  \<or> n = 11 \<and> bit t 6 \<or> n = 12 \<and> bit t 8"
  by (auto simp: ciat_table_def Let_def CIAT_test bit_simps CIAT_flag)

lemma and_or_0: "(t::word16) AND (a OR b) = 0 \<longleftrightarrow> t AND a = 0 \<and> t AND b = 0"
  by (auto simp: bit_eq_iff bit_simps)

lemma unused_bits: "(t::word16) AND 0xE000 = 0 \<longleftrightarrow> \<not> bit t 13 \<and> \<not> bit t 14 \<and> \<not> bit t 15"
proof -
  have "(0xE000::word16) = push_bit 13 1 OR push_bit 14 1 OR push_bit 15 1" by (simp add: push_bit_eq_mult)
  then show ?thesis using and_bit_nz[of t] by (simp only: and_or_0) blast
qed

lemma timer_ok_bits: "timer_ok s \<longleftrightarrow> \<not> bit (tstate s) 13 \<and> \<not> bit (tstate s) 14 \<and> \<not> bit (tstate s) 15
     \<and> (bit (tstate s) 10 \<longrightarrow> bit (tstate s) 9) \<and> (bit (tstate s) 6 \<and> bit (tstate s) 0 \<longrightarrow> cnt s \<noteq> 0)
     \<and> (bit (tstate s) 2 \<longrightarrow> bit (tstate s) 0 \<and> \<not> bit (tstate s) 5)"
  by (simp only: timer_ok_def unused_bits CIAT_test CIAT_test0) blast

lemma oneshot_settled_bits: "oneshot_settled t \<longleftrightarrow> (bit t 3 = bit t 8 \<and> bit t 8 = bit t 12)"
  by (simp only: oneshot_settled_def CIAT_test CIAT_test0) blast

lemma not_counting_bits: "not_counting t \<longleftrightarrow> \<not> bit t 1 \<and> \<not> bit t 6 \<and> \<not> bit t 11
     \<and> (\<not> bit t 0 \<or> \<not> bit t 5 \<and> \<not> bit t 2) \<and> bit t 3 = bit t 8 \<and> bit t 8 = bit t 12"
  by (simp only: not_counting_def and_or_0 CIAT_test0 oneshot_settled_bits) blast

lemma less_16: "n < 16 \<Longrightarrow> n \<in> {0,1,2,3,4,5,6,7,8,9,10,11,12,13,14,15::nat}"
  by (simp add: numeral_eq_Suc less_Suc_eq)

lemma state_eq: "(t::word16) = u \<longleftrightarrow> bit t 0 = bit u 0 \<and> bit t 1 = bit u 1 \<and> bit t 2 = bit u 2 \<and> bit t 3 = bit u 3
    \<and> bit t 4 = bit u 4 \<and> bit t 5 = bit u 5 \<and> bit t 6 = bit u 6 \<and> bit t 7 = bit u 7 \<and> bit t 8 = bit u 8
    \<and> bit t 9 = bit u 9 \<and> bit t 10 = bit u 10 \<and> bit t 11 = bit u 11 \<and> bit t 12 = bit u 12 \<and> bit t 13 = bit u 13
    \<and> bit t 14 = bit u 14 \<and> bit t 15 = bit u 15"
    (is "_ \<longleftrightarrow> ?r")
proof
  assume r: ?r
  show "t = u"
  proof (rule state_eqI)
    fix n :: nat assume "n < 16"
    from less_16[OF this] r show "bit t n = bit u n" by (elim insertE emptyE conjE) (simp_all only:)
  qed
qed simp

lemma warp_counting_bits: "warp_counting t \<longleftrightarrow> bit t 0 \<and> bit t 5 \<and> bit t 1 \<and> bit t 6 \<and> bit t 11
     \<and> \<not> bit t 4 \<and> \<not> bit t 7 \<and> \<not> bit t 9 \<and> bit t 3 = bit t 8 \<and> bit t 8 = bit t 12"
proof -
  have "t AND (CIAT_CR_START OR CIAT_CR_FLOAD OR CIAT_LOAD1 OR CIAT_PHI2IN OR CIAT_COUNT2 OR CIAT_COUNT3 OR CIAT_COUNT OR CIAT_LOAD)
       = (CIAT_CR_START OR CIAT_PHI2IN OR CIAT_COUNT2 OR CIAT_COUNT3 OR CIAT_COUNT)
    \<longleftrightarrow> bit t 0 \<and> bit t 5 \<and> bit t 1 \<and> bit t 6 \<and> bit t 11 \<and> \<not> bit t 4 \<and> \<not> bit t 7 \<and> \<not> bit t 9"
    by (simp add: state_eq bit_and_iff bit_or_iff CIAT_flag) blast
  then show ?thesis by (simp only: warp_counting_def oneshot_settled_bits) blast
qed

text \<open>The values the state has where \<open>ciat_update\<close> jumps.\<close>

lemma warp_counting_states:
  assumes "warp_counting (tstate s)" "timer_ok s"
  shows "tstate s = 0x863 \<or> tstate s = 0x196B"
  using assms unfolding warp_counting_bits timer_ok_bits
  by (cases "bit (tstate s) 3") (auto simp: state_eq[of "tstate s"])

lemma not_counting_table:
  assumes "not_counting (tstate s)" "tstate s AND (CIAT_CR_FLOAD OR CIAT_LOAD1 OR CIAT_LOAD) = 0" "timer_ok s"
  shows "ciat_cycle (s, n) = (s\<lparr>tclk := tclk s + 1\<rparr>, n)"
proof -
  have "ciat_table (tstate s) = tstate s"
    using assms unfolding not_counting_bits timer_ok_bits and_or_0 CIAT_test0
    by (auto simp: state_eq bit_ciat_table)
  then show ?thesis
    using assms unfolding not_counting_bits timer_ok_bits and_or_0 CIAT_test0
    by (simp add: ciat_cycle_def ciat_inc_def ciat_tail_def CIAT_test)
qed

text \<open>The state after the tail, by bits.\<close>

lemma bit_tail:
  assumes "u \<longleftrightarrow> cnt s = 0 \<and> bit (tstate s) 6"
  shows "bit (tstate (fst (ciat_tail (s, n)))) m \<longleftrightarrow> m < 16 \<and>
     (if m = 9 \<or> m = 10 then bit (tstate s) m \<or> u
      else if m = 6 then bit (tstate s) 6 \<and> \<not> u \<and> \<not> bit (tstate s) 9
      else if m = 0 \<or> m = 1 then bit (tstate s) m \<and> \<not> ((bit (tstate s) 10 \<or> u) \<and> (bit (tstate s) 12 \<or> bit (tstate s) 8))
      else bit (tstate s) m)"
proof (cases "m < 16")
  case True
  then show ?thesis using assms
    by (cases u; cases "bit (tstate s) 9"; cases "bit (tstate s) 10"; cases "bit (tstate s) 8"; cases "bit (tstate s) 12")
      (auto simp: ciat_tail_def Let_def CIAT_test CIAT_test0 and_or_0 bit_simps CIAT_flag)
qed (use bit_imp_le_length in fastforce)

lemma cnt_tail: "cnt (fst (ciat_tail (s, n))) = (if bit (tstate s) 9 \<or> cnt s = 0 \<and> bit (tstate s) 6 then latch s else cnt s)"
  "snd (ciat_tail (s, n)) = (if cnt s = 0 \<and> bit (tstate s) 6 then n + 1 else n)"
  "latch (fst (ciat_tail (s, n))) = latch s" "tclk (fst (ciat_tail (s, n))) = tclk s"
  by (simp_all add: ciat_tail_def Let_def CIAT_test bit_simps CIAT_flag)

lemma timer_ok_tail:
  assumes "timer_ok s \<and> \<not> bit (tstate s) 2 \<or> (\<exists>t. tstate s = ciat_table t)"
  shows "timer_ok (fst (ciat_tail (s, n)))"
  using assms unfolding timer_ok_bits bit_tail[OF refl] cnt_tail
  by (elim disjE exE) (simp, (simp add: bit_ciat_table, blast)?)

lemma timer_ok_cycle: "timer_ok (fst (ciat_cycle (s, n)))"
  unfolding ciat_cycle_def by (auto simp: ciat_inc_def intro!: timer_ok_tail)

subsection \<open>Jumps\<close>

definition ucycle :: "ciat_t \<times> int \<Rightarrow> ciat_t \<times> int" where
  "ucycle sn = uncount (ciat_cycle sn)"

lemma cycle_uncount: "ciat_cycle (uncount sn) = ciat_cycle sn"
proof -
  have t: "ciat_table (t AND NOT CIAT_COUNT) = ciat_table t" for t by (simp add: state_eq bit_ciat_table bit_simps CIAT_flag)
  have b: "(t AND NOT CIAT_COUNT) AND CIAT_COUNT3 = t AND CIAT_COUNT3" for t
    by (simp add: state_eq bit_simps CIAT_flag)
  show ?thesis by (cases sn; cases "fst sn") (simp add: uncount_def ciat_cycle_def ciat_inc_def t b)
qed

lemma uncount_uncount [simp]: "uncount (uncount sn) = uncount sn"
  by (cases sn) (simp add: uncount_def)

lemma uncount_funpow: "uncount ((ciat_cycle ^^ k) sn) = (ucycle ^^ k) (uncount sn)"
proof (induction k)
  case (Suc k)
  have "uncount ((ciat_cycle ^^ Suc k) sn) = ucycle ((ciat_cycle ^^ k) sn)" by (simp add: ucycle_def)
  also have "\<dots> = ucycle (uncount ((ciat_cycle ^^ k) sn))" by (simp add: ucycle_def cycle_uncount)
  finally show ?case by (simp add: Suc.IH)
qed simp

text \<open>The states of a timer that counts, without and with one-shot mode, and of one just reloaded.\<close>

lemma table_values: "ciat_table 0x063 = 0x863" "ciat_table 0x863 = 0x863" "ciat_table 0x196B = 0x196B" "ciat_table 0x116B = 0x196B"
  "ciat_table 0x623 = 0x063"
  by (simp_all add: state_eq bit_ciat_table)

lemma CIAT_values: "t AND CIAT_COUNT3 = t AND 0x40" "t AND CIAT_LOAD = t AND 0x200" "t AND CIAT_OUT = t AND 0x400"
  "t AND (CIAT_ONESHOT OR CIAT_ONESHOT0) = t AND 0x1100"
  by (simp_all add: CIAT_defs)

definition at :: "ciat_t \<Rightarrow> nat \<Rightarrow> word16 \<Rightarrow> word16 \<Rightarrow> ciat_t" where
  "at s k c t = s\<lparr>tclk := tclk s + of_nat k, cnt := c, tstate := t\<rparr>"

lemma ucycle_count:
  assumes "t \<in> {0x063, 0x116B}" "1 < unat c"
  shows "ucycle (at s k c t, n) = (at s (Suc k) (c - 1) t, n)"
proof -
  have "c \<noteq> 0" "c - 1 \<noteq> 0" using assms(2) by (auto simp: unat_eq_0 word_eq_iff_unsigned)
  then show ?thesis using assms(1)
    by (auto simp: ucycle_def uncount_def ciat_cycle_def ciat_inc_def ciat_tail_def at_def table_values CIAT_defs)
qed

lemma unat_minus_of_nat: "k \<le> unat c \<Longrightarrow> unat (c - of_nat k :: 'a::len word) = unat c - k"
proof -
  assume k: "k \<le> unat c"
  then have "k < 2 ^ LENGTH('a)" using unsigned_less[of c] by (meson le_less_trans)
  then have "unat (of_nat k :: 'a word) = k" by (simp add: unsigned_of_nat take_bit_nat_eq_self)
  then show ?thesis using k by (simp add: unat_sub word_le_nat_alt)
qed

lemma ucycle_run:
  assumes "t \<in> {0x063, 0x116B}" "k < unat c"
  shows "(ucycle ^^ k) (at s j c t, n) = (at s (j + k) (c - of_nat k) t, n)"
  using assms(2)
proof (induction k)
  case (Suc k)
  have "1 < unat (c - of_nat k)" using Suc.prems unat_word16_less[of c]
    by (simp add: unat_minus_of_nat del: unat_word16_less)
  then show ?case using Suc ucycle_count[OF assms(1)] by (simp add: algebra_simps)
qed simp

lemma ucycle_underflow:
  "ucycle (at s j 1 0x063, n) = (at s (Suc j) (latch s) 0x623, n + 1)"
  "ucycle (at s j 1 0x116B, n) = (at s (Suc j) (latch s) 0x1728, n + 1)"
  "c \<noteq> 0 \<Longrightarrow> ucycle (at s j c 0x623, n) = (at s (Suc j) c 0x063, n)"
  "latch s = 0 \<Longrightarrow> ucycle (at s j 0 0x623, n) = (at s (Suc j) 0 0x623, n + 1)"
  by (auto simp: ucycle_def uncount_def ciat_cycle_def ciat_inc_def ciat_tail_def at_def table_values CIAT_defs)

lemma latch_at [simp]: "latch (at s k c t) = latch s"
  by (simp add: at_def)

text \<open>Counting down to the underflow, and one period after it.\<close>

lemma ucycle_to_underflow:
  assumes "c \<noteq> 0"
  shows "(ucycle ^^ unat c) (at s j c 0x063, n) = (at s (j + unat c) (latch s) 0x623, n + 1)"
    and "(ucycle ^^ unat c) (at s j c 0x116B, n) = (at s (j + unat c) (latch s) 0x1728, n + 1)"
proof -
  obtain k where k: "unat c = Suc k" using assms by (metis not0_implies_Suc unat_eq_0)
  then have c: "c - of_nat k = 1" using unat_minus_of_nat[of k c] by (simp add: word_unat_eq_iff)
  show "(ucycle ^^ unat c) (at s j c 0x063, n) = (at s (j + unat c) (latch s) 0x623, n + 1)"
    "(ucycle ^^ unat c) (at s j c 0x116B, n) = (at s (j + unat c) (latch s) 0x1728, n + 1)"
    using k ucycle_run[of _ k c s j n] c by (simp_all add: ucycle_underflow)
qed

lemma ucycle_period: "(ucycle ^^ (unat (latch s) + 1)) (at s j (latch s) 0x623, n) = (at s (j + unat (latch s) + 1) (latch s) 0x623, n + 1)"
proof (cases "latch s = 0")
  case False
  then show ?thesis using ucycle_to_underflow(1)[of "latch s" s "Suc j" n]
    by (simp add: ucycle_underflow funpow_swap1 del: funpow.simps) (simp add: funpow_swap1 ucycle_underflow)
qed (simp add: ucycle_underflow)

lemma ucycle_periods:
  "(ucycle ^^ (q * (unat (latch s) + 1))) (at s j (latch s) 0x623, n) = (at s (j + q * (unat (latch s) + 1)) (latch s) 0x623, n + int q)"
proof (induction q)
  case (Suc q)
  have "(ucycle ^^ (Suc q * (unat (latch s) + 1))) (at s j (latch s) 0x623, n)
      = (ucycle ^^ (unat (latch s) + 1)) ((ucycle ^^ (q * (unat (latch s) + 1))) (at s j (latch s) 0x623, n))"
    by (simp only: mult_Suc funpow_add comp_def)
  also have "\<dots> = (at s (j + Suc q * (unat (latch s) + 1)) (latch s) 0x623, n + int (Suc q))"
    unfolding Suc.IH ucycle_period by (simp add: algebra_simps)
  finally show ?case .
qed simp

text \<open>One turn of the loop is a positive number of cycles, and does not overshoot.\<close>

definition turn_ok :: "clock \<Rightarrow> ciat_t \<times> int \<Rightarrow> nat \<Rightarrow> ciat_t \<times> int \<Rightarrow> bool" where
  "turn_ok cclk sn k sn' \<longleftrightarrow> 0 < k \<and> unat (tclk (fst sn')) = unat (tclk (fst sn)) + k \<and> unat (tclk (fst sn')) \<le> unat cclk
     \<and> timer_ok (fst sn') \<and> uncount sn' = (ucycle ^^ k) (uncount sn)"

lemma uncount_at: "uncount (s, n) = (at s 0 (cnt s) (tstate s AND NOT CIAT_COUNT), n)"
  by (simp add: uncount_def at_def)

lemma uncount_tail_at:
  "cnt s \<noteq> 0 \<Longrightarrow> tstate s AND CIAT_LOAD = 0 \<Longrightarrow> tstate s AND CIAT_OUT = 0 \<Longrightarrow> ciat_tail (s, n) = (s, n)"
  by (simp add: ciat_tail_def)

lemma elapsed: "(t::clock) < c \<Longrightarrow> unat (c - t) = unat c - unat t"
  by (simp add: unat_sub word_less_nat_alt word_le_nat_alt)

lemma unat_ucast_cnt [simp]: "unat (ucast (w::word16) :: clock) = unat w"
  using unat_word16_less[of w] by (simp add: unsigned_ucast_eq take_bit_nat_eq_self del: unat_word16_less)

lemma clock_plus_cnt:
  assumes "tclk s < cclk" "unat cclk + 65536 < 2 ^ 32"
  shows "unat (tclk s + ucast (cnt s)) = unat (tclk s) + unat (cnt s)"
  using assms unat_word16_less[of "cnt s"] by (subst unat_add_small) (simp_all add: word_less_nat_alt del: unat_word16_less)

lemma timer_ok_cnt: "timer_ok s \<Longrightarrow> c \<noteq> 0 \<Longrightarrow> timer_ok (s\<lparr>cnt := c, tclk := k\<rparr>)"
  by (simp add: timer_ok_def)

lemma turn_counting:
  assumes w: "warp_counting (tstate s)" and ok: "timer_ok s" and lt: "tclk s < cclk" and nowrap: "unat cclk + 65536 < 2 ^ 32"
    and far: "unat cclk < unat (tclk s) + unat (cnt s)"
  shows "turn_ok cclk (s, n) (unat cclk - unat (tclk s)) (ciat_tail (ciat_jump cclk (s, n)))"
proof -
  let ?k = "unat cclk - unat (tclk s)"
  have k: "0 < ?k" "?k < unat (cnt s)" using lt far by (auto simp: word_less_nat_alt)
  have d: "ucast (cclk - tclk s) = (of_nat ?k :: word16)"
    unfolding elapsed[OF lt, symmetric] by simp
  have c: "unat (cnt s - of_nat ?k) = unat (cnt s) - ?k" using k by (intro unat_minus_of_nat) simp
  then have nz: "cnt s - of_nat ?k \<noteq> 0" using k by (metis unat_0 zero_less_diff less_numeral_extra(3))
  have j: "ciat_jump cclk (s, n) = (s\<lparr>cnt := cnt s - of_nat ?k, tclk := cclk\<rparr>, n)"
    using w far by (simp add: ciat_jump_def Let_def word_less_nat_alt clock_plus_cnt[OF lt nowrap] d)
  have t: "ciat_tail (ciat_jump cclk (s, n)) = (s\<lparr>cnt := cnt s - of_nat ?k, tclk := cclk\<rparr>, n)"
    using warp_counting_states[OF w ok] nz unfolding j by (intro uncount_tail_at) (auto simp: CIAT_defs)
  have cc: "tclk s + of_nat ?k = cclk" unfolding elapsed[OF lt, symmetric] by simp
  have u: "tstate s AND NOT CIAT_COUNT \<in> {0x063, 0x116B}" using warp_counting_states[OF w ok] by (auto simp: CIAT_defs)
  have "(ucycle ^^ ?k) (uncount (s, n)) = uncount (s\<lparr>cnt := cnt s - of_nat ?k, tclk := cclk\<rparr>, n)"
    unfolding uncount_at ucycle_run[OF u k(2)] by (simp add: at_def cc)
  then show ?thesis unfolding t turn_ok_def using k(1) lt timer_ok_cnt[OF ok nz] by (simp add: word_less_nat_alt)
qed

lemma turn_oneshot:
  assumes w: "warp_counting (tstate s)" and os: "bit (tstate s) 3" and ok: "timer_ok s" and lt: "tclk s < cclk"
    and nowrap: "unat cclk + 65536 < 2 ^ 32" and near: "unat (tclk s) + unat (cnt s) \<le> unat cclk"
  shows "turn_ok cclk (s, n) (unat (cnt s)) (ciat_tail (ciat_jump cclk (s, n)))"
proof -
  have t: "tstate s = 0x196B" using warp_counting_states[OF w ok] os by auto
  have nz: "cnt s \<noteq> 0" using ok t by (simp add: timer_ok_def CIAT_defs)
  have j: "ciat_jump cclk (s, n) = (s\<lparr>tclk := tclk s + ucast (cnt s), cnt := 0\<rparr>, n)"
    using w near by (simp add: ciat_jump_def Let_def word_less_nat_alt clock_plus_cnt[OF lt nowrap] t CIAT_defs)
  have tl: "ciat_tail (ciat_jump cclk (s, n)) = (s\<lparr>tclk := tclk s + ucast (cnt s), cnt := latch s, tstate := 0x1F28\<rparr>, n + 1)"
    unfolding j by (simp add: ciat_tail_def t CIAT_defs)
  have "(ucycle ^^ unat (cnt s)) (uncount (s, n)) = (at s (unat (cnt s)) (latch s) 0x1728, n + 1)"
    unfolding uncount_at using ucycle_to_underflow(2)[OF nz, of s 0 n] by (simp add: t CIAT_defs)
  moreover have "timer_ok (fst (ciat_tail (ciat_jump cclk (s, n))))" unfolding tl by (simp add: timer_ok_def CIAT_defs)
  ultimately show ?thesis unfolding turn_ok_def using near nz
    by (simp add: tl clock_plus_cnt[OF lt nowrap] at_def uncount_def CIAT_defs unat_gt_0)
qed

lemma turn_stopped:
  assumes st: "not_counting (tstate s)" "tstate s AND (CIAT_CR_FLOAD OR CIAT_LOAD1 OR CIAT_LOAD) = 0"
    and ok: "timer_ok s" and lt: "tclk s < cclk"
  shows "turn_ok cclk (s, n) (unat cclk - unat (tclk s)) (ciat_tail (ciat_jump cclk (s, n)))"
proof -
  have "\<not> warp_counting (tstate s)" using st(1) by (simp add: warp_counting_bits not_counting_bits)
  then have j: "ciat_jump cclk (s, n) = (s\<lparr>tclk := cclk\<rparr>, n)" using st by (simp add: ciat_jump_def)
  have tl: "ciat_tail (ciat_jump cclk (s, n)) = (s\<lparr>tclk := cclk\<rparr>, n)" unfolding j
    using st ok unfolding not_counting_bits timer_ok_bits and_or_0 CIAT_test0 by (simp add: ciat_tail_def CIAT_test)
  have run: "(ciat_cycle ^^ k) (s, n) = (s\<lparr>tclk := tclk s + of_nat k\<rparr>, n)" for k
  proof (induction k)
    case (Suc k)
    have "timer_ok (s\<lparr>tclk := tclk s + of_nat k\<rparr>)" using ok by (simp add: timer_ok_def)
    then show ?case using Suc not_counting_table[of "s\<lparr>tclk := tclk s + of_nat k\<rparr>" n] st by (simp add: algebra_simps)
  qed simp
  have "tclk s + of_nat (unat cclk - unat (tclk s)) = cclk" unfolding elapsed[OF lt, symmetric] by simp
  then have "uncount (s\<lparr>tclk := cclk\<rparr>, n) = (ucycle ^^ (unat cclk - unat (tclk s))) (uncount (s, n))"
    unfolding uncount_funpow[symmetric] run by simp
  then show ?thesis unfolding turn_ok_def tl using lt ok by (simp add: word_less_nat_alt timer_ok_def)
qed

lemma clk_plus: "unat (t::clock) + k \<le> unat (c::clock) \<Longrightarrow> unat (t + of_nat k) = unat t + k"
proof -
  assume a: "unat t + k \<le> unat c"
  have "unat (of_nat k :: clock) = k" using a unat_dword_less[of c]
    by (simp add: unsigned_of_nat take_bit_nat_eq_self del: unat_dword_less)
  then show ?thesis using a unat_dword_less[of c] by (subst unat_add_small) (simp_all del: unat_dword_less)
qed

lemma sint_small: "unat (w::clock) < 2 ^ 31 \<Longrightarrow> sint w = int (unat w)"
  using uint_bounded[of w] by (simp add: sint_uint signed_take_bit_eq_take_bit_minus bit_uint_iff bit_word_nat take_bit_int_eq_self)

text \<open>The jump over whole periods; \<open>r\<close> cycles remain after the first underflow.\<close>

definition periods :: "nat \<Rightarrow> nat \<Rightarrow> nat" where
  "periods r l = (if r mod 65536 \<ge> l + 1 then r div (l + 1) else 0)"

lemma periods_le: "periods r l * (l + 1) \<le> r"
  by (simp add: periods_def) (metis add_mult_distrib2 div_times_less_eq_dividend mult.commute mult.right_neutral mult_Suc_right plus_1_eq_Suc)

lemma turn_free:
  assumes w: "warp_counting (tstate s)" and os: "\<not> bit (tstate s) 3" and ok: "timer_ok s" and lt: "tclk s < cclk"
    and nowrap: "unat cclk + 65536 < 2 ^ 32" and near: "unat (tclk s) + unat (cnt s) \<le> unat cclk"
    and small: "unat cclk - unat (tclk s) < 2 ^ 31"
  defines "q \<equiv> periods (unat cclk - unat (tclk s) - unat (cnt s)) (unat (latch s))"
  shows "turn_ok cclk (s, n) (unat (cnt s) + q * (unat (latch s) + 1)) (ciat_tail (ciat_jump cclk (s, n)))"
proof -
  let ?L = "unat (latch s) + 1" and ?c = "unat (cnt s)"
  let ?r = "unat cclk - unat (tclk s) - ?c" and ?t1 = "tclk s + ucast (cnt s)"
  have t: "tstate s = 0x863" using warp_counting_states[OF w ok] os by auto
  have nz: "cnt s \<noteq> 0" using ok t by (simp add: timer_ok_def CIAT_defs)
  have L: "unat (ucast (latch s) + 1 :: clock) = ?L" using unat_word16_less[of "latch s"]
    by (subst unat_add_small) (simp_all del: unat_word16_less)
  have r: "unat (cclk - ?t1) = ?r" using near
    by (simp add: unat_sub word_le_nat_alt clock_plus_cnt[OF lt nowrap])
  have m: "unat ((cclk - ?t1) div (ucast (latch s) + 1)) = ?r div ?L" by (simp only: unat_div_distrib r L)
  have sm: "sint ((cclk - ?t1) div (ucast (latch s) + 1)) = int (?r div ?L)"
  proof -
    have "?r div ?L < 2 ^ 31" using small by (meson div_le_dividend le_less_trans diff_le_self)
    then show ?thesis by (simp only: sint_small m)
  qed
  have ql: "q * ?L \<le> ?r" unfolding q_def by (rule periods_le)
  then have le: "unat (tclk s) + (?c + q * ?L) \<le> unat cclk" using near by simp
  have mw: "?t1 + (cclk - ?t1) div (ucast (latch s) + 1) * (ucast (latch s) + 1) = tclk s + of_nat (?c + ?r div ?L * ?L)"
  proof -
    have "(cclk - ?t1) div (ucast (latch s) + 1) = of_nat (?r div ?L)" by (subst m[symmetric]) simp
    moreover have "(ucast (latch s) + 1 :: clock) = of_nat ?L" by simp
    moreover have "(ucast (cnt s) :: clock) = of_nat ?c" by simp
    ultimately show ?thesis by (simp only: of_nat_add of_nat_mult) (simp only: add.assoc)
  qed
  have cond: "unat (ucast (cclk - ?t1) :: word16) = ?r mod 65536"
    by (simp add: unsigned_ucast_eq r take_bit_eq_mod)
  have j: "ciat_jump cclk (s, n) = (s\<lparr>tclk := tclk s + of_nat (?c + q * ?L), cnt := 0\<rparr>, n + int q)"
  proof (cases "?r mod 65536 \<ge> ?L")
    case True
    then have "q = ?r div ?L" by (simp add: q_def periods_def)
    then show ?thesis using w near True
      by (simp add: ciat_jump_def Let_def word_less_nat_alt clock_plus_cnt[OF lt nowrap] t and_or_0 CIAT_test0 cond mw sm)
  next
    case False
    then have "q = 0" by (simp add: q_def periods_def)
    then show ?thesis using w near False
      by (simp add: ciat_jump_def Let_def word_less_nat_alt clock_plus_cnt[OF lt nowrap] t and_or_0 CIAT_test0 cond)
  qed
  have tl: "ciat_tail (ciat_jump cclk (s, n))
      = (s\<lparr>tclk := tclk s + of_nat (?c + q * ?L), cnt := latch s, tstate := 0xE23\<rparr>, n + int q + 1)"
    unfolding j by (simp add: ciat_tail_def t CIAT_defs)
  have "(ucycle ^^ (q * ?L + ?c)) (uncount (s, n)) = (at s (?c + q * ?L) (latch s) 0x623, n + 1 + int q)"
    unfolding funpow_add comp_def uncount_at using ucycle_to_underflow(1)[OF nz, of s 0 n] ucycle_periods[of q s ?c "n + 1"]
    by (simp add: t CIAT_defs)
  moreover have "timer_ok (fst (ciat_tail (ciat_jump cclk (s, n))))" unfolding tl by (simp add: timer_ok_def CIAT_defs)
  ultimately show ?thesis unfolding turn_ok_def tl using clk_plus[OF le] le nz
    by (simp add: at_def uncount_def CIAT_defs unat_gt_0 add.commute)
qed

lemma turn_two:
  assumes t: "tstate s = 0xE23" "cnt s = 1" "latch s = 1" and lt: "tclk s < cclk" and m: "(cclk - tclk s) AND NOT 1 \<noteq> 0"
    and small: "unat cclk - unat (tclk s) < 2 ^ 31"
  shows "\<exists>k. turn_ok cclk (s, n) k (ciat_tail (ciat_jump cclk (s, n)))"
proof -
  let ?d = "unat cclk - unat (tclk s)" and ?m = "(cclk - tclk s) AND NOT 1"
  let ?h = "?d div 2"
  have um: "unat ?m = 2 * ?h"
  proof -
    have "w AND NOT (mask k) = push_bit k (drop_bit k w)" for w :: clock and k
      by (rule bit_word_eqI) (auto simp: bit_simps)
    from this[of "cclk - tclk s" 1] have "?m = push_bit 1 (drop_bit 1 (cclk - tclk s))" by simp
    then have "unat ?m = unat (push_bit 1 (drop_bit 1 (cclk - tclk s)))" by simp
    also have "\<dots> = take_bit 32 (2 * (?d div 2))" by (simp add: push_bit_eq_mult drop_bit_eq_div unat_word_ariths unat_div_distrib elapsed[OF lt] take_bit_eq_mod mod_mult_right_eq mult.commute)
    also have "\<dots> = 2 * ?h" using small by (intro take_bit_nat_eq_self) simp
    finally show ?thesis .
  qed
  then have mw: "?m = of_nat (2 * ?h)" by (metis of_nat_unat unsigned_ucast_eq ucast_id)
  have sm: "sint ?m div 2 = int ?h" using um small by (subst sint_small) simp_all
  have nw: "\<not> warp_counting (tstate s)" "\<not> not_counting (tstate s)" by (simp_all add: t warp_counting_bits not_counting_bits)
  have j: "ciat_jump cclk (s, n) = (s\<lparr>tclk := tclk s + of_nat (2 * ?h)\<rparr>, n + int ?h)"
    using m mw sm nw by (simp add: ciat_jump_def t CIAT_defs)
  have tl: "ciat_tail (ciat_jump cclk (s, n)) = (s\<lparr>tclk := tclk s + of_nat (2 * ?h)\<rparr>, n + int ?h)"
    unfolding j by (simp add: ciat_tail_def t CIAT_defs)
  have le: "unat (tclk s) + 2 * ?h \<le> unat cclk" using lt by (simp add: word_less_nat_alt)
  have "(ucycle ^^ (2 * ?h)) (uncount (s, n)) = (at s (2 * ?h) 1 0x623, n + int ?h)"
    unfolding uncount_at using ucycle_periods[of ?h s 0 n] by (simp add: t CIAT_defs mult_2)
  moreover have "0 < ?h" using m um by (metis gr0I mult_0_right unat_eq_0)
  moreover have "timer_ok (fst (ciat_tail (ciat_jump cclk (s, n))))" unfolding tl by (simp add: timer_ok_def t CIAT_defs)
  ultimately have "turn_ok cclk (s, n) (2 * ?h) (ciat_tail (ciat_jump cclk (s, n)))" unfolding turn_ok_def tl using clk_plus[OF le] le
    by (simp add: at_def uncount_def CIAT_defs t)
  then show ?thesis by blast
qed

text \<open>Otherwise one cycle is made.\<close>

lemma turn_cycle:
  assumes lt: "tclk s < cclk" and j: "ciat_jump cclk (s, n) = (ciat_inc s, n)"
  shows "turn_ok cclk (s, n) 1 (ciat_tail (ciat_jump cclk (s, n)))"
proof -
  have "ciat_tail (ciat_jump cclk (s, n)) = ciat_cycle (s, n)" unfolding j by (simp add: ciat_cycle_def)
  moreover have "unat (tclk s + 1) = unat (tclk s) + 1" using clk_plus[of "tclk s" 1 cclk] lt by (simp add: word_less_nat_alt)
  moreover have "tclk (fst (ciat_cycle (s, n))) = tclk s + 1" by (simp add: ciat_cycle_def cnt_tail ciat_inc_def)
  ultimately show ?thesis unfolding turn_ok_def using lt timer_ok_cycle[of s n]
    by (simp add: word_less_nat_alt ucycle_def cycle_uncount)
qed

lemma turn:
  assumes ok: "timer_ok s" and lt: "tclk s < cclk" and nowrap: "unat cclk + 65536 < 2 ^ 32" and small: "unat cclk - unat (tclk s) < 2 ^ 31"
  shows "\<exists>k. turn_ok cclk (s, n) k (ciat_tail (ciat_jump cclk (s, n)))"
proof (cases "warp_counting (tstate s)")
  case True
  then show ?thesis
    using turn_counting[OF True ok lt nowrap] turn_oneshot[OF True _ ok lt nowrap] turn_free[OF True _ ok lt nowrap _ small]
    by (meson not_le_imp_less)
next
  case w: False
  show ?thesis
  proof (cases "not_counting (tstate s) \<and> tstate s AND (CIAT_CR_FLOAD OR CIAT_LOAD1 OR CIAT_LOAD) = 0")
    case True
    then show ?thesis using turn_stopped[OF _ _ ok lt] by blast
  next
    case st: False
    show ?thesis
    proof (cases "tstate s = 0xE23 \<and> cnt s = 1 \<and> latch s = 1 \<and> (cclk - tclk s) AND NOT 1 \<noteq> 0")
      case True
      then show ?thesis using turn_two[OF _ _ _ lt _ small] by blast
    next
      case False
      have "ciat_jump cclk (s, n) = (ciat_inc s, n)"
      proof (cases "tstate s = 0xE23 \<and> cnt s = 1 \<and> latch s = 1")
        case True
        then have "\<not> warp_counting 0xE23" "\<not> not_counting 0xE23" "(cclk - tclk s) AND NOT 1 = 0" using False w st
          by (simp_all add: warp_counting_bits not_counting_bits)
        then show ?thesis using True by (simp add: ciat_jump_def ciat_inc_def CIAT_defs)
      qed (use w st in \<open>auto simp: ciat_jump_def Let_def CIAT_defs\<close>)
      then show ?thesis using turn_cycle[OF lt] by blast
    qed
  qed
qed

lemma update_loop_exact:
  assumes "timer_ok s" "tclk s \<le> cclk" "unat cclk + 65536 < 2 ^ 32" "unat cclk - unat (tclk s) < 2 ^ 31"
  shows "\<exists>s' n'. ciat_update_loop cclk (s, n) = Some (s', n') \<and> tclk s' = cclk \<and> timer_ok s'
    \<and> uncount (s', n') = (ucycle ^^ (unat cclk - unat (tclk s))) (uncount (s, n))"
  using assms
proof (induction "unat cclk - unat (tclk s)" arbitrary: s n rule: less_induct)
  case less
  show ?case
  proof (cases "tclk s < cclk")
    case False
    then have "tclk s = cclk" using less.prems by simp
    then show ?thesis using less.prems by (subst ciat_update_loop.simps) simp
  next
    case True
    then obtain k where k: "turn_ok cclk (s, n) k (ciat_tail (ciat_jump cclk (s, n)))"
      using turn[OF less.prems(1) True less.prems(3,4)] by blast
    obtain s1 n1 where s1: "ciat_tail (ciat_jump cclk (s, n)) = (s1, n1)" by (cases "ciat_tail (ciat_jump cclk (s, n))")
    have t: "0 < k" "unat (tclk s1) = unat (tclk s) + k" "unat (tclk s1) \<le> unat cclk" "timer_ok s1"
      "uncount (s1, n1) = (ucycle ^^ k) (uncount (s, n))"
      using k by (simp_all add: turn_ok_def s1)
    have "\<exists>s' n'. ciat_update_loop cclk (s1, n1) = Some (s', n') \<and> tclk s' = cclk \<and> timer_ok s'
        \<and> uncount (s', n') = (ucycle ^^ (unat cclk - unat (tclk s1))) (uncount (s1, n1))"
      using t less.prems by (intro less.hyps) (simp_all add: word_le_nat_alt)
    moreover have "(ucycle ^^ (unat cclk - unat (tclk s1))) (uncount (s1, n1)) = (ucycle ^^ (unat cclk - unat (tclk s))) (uncount (s, n))"
      unfolding t(5) using t(2,3) by (simp add: funpow_add[THEN fun_cong, unfolded comp_def, symmetric])
    moreover have "ciat_update_loop cclk (s, n) = ciat_update_loop cclk (s1, n1)"
      using True by (subst ciat_update_loop.simps) (simp add: s1)
    ultimately show ?thesis by simp
  qed
qed

subsection \<open>The prediction of the next underflow\<close>

lemma cycle_count: "(ciat_cycle ^^ k) (s, n) = (fst ((ciat_cycle ^^ k) (s, 0)), n + snd ((ciat_cycle ^^ k) (s, 0)))"
proof (induction k)
  case (Suc k)
  have "ciat_cycle (s', n + m) = (fst (ciat_cycle (s', m)), n + snd (ciat_cycle (s', m)))" for s' m
    by (simp add: ciat_cycle_def ciat_tail_def Let_def)
  then show ?case using Suc by (metis funpow.simps(2) comp_apply prod.collapse)
qed simp

definition underflows :: "nat \<Rightarrow> ciat_t \<Rightarrow> int" where
  "underflows k s = snd ((ciat_cycle ^^ k) (s, 0))"

lemma underflows_0 [simp]: "underflows 0 s = 0" by (simp add: underflows_def)

lemma underflows_Suc: "underflows (Suc k) s = snd (ciat_cycle (s, 0)) + underflows k (fst (ciat_cycle (s, 0)))"
  unfolding underflows_def using cycle_count[of k "fst (ciat_cycle (s, 0))" "snd (ciat_cycle (s, 0))"]
  by (simp add: funpow_swap1)

lemma underflows_uncount: "underflows k s = snd ((ucycle ^^ k) (uncount (s, 0)))"
proof -
  have "snd (uncount x) = snd x" for x by (cases x) (simp add: uncount_def)
  then show ?thesis unfolding underflows_def uncount_funpow[symmetric] by simp
qed

definition first_underflow :: "ciat_t \<Rightarrow> nat \<Rightarrow> bool" where
  "first_underflow s k \<longleftrightarrow> underflows k s > 0 \<and> (\<forall>i<k. underflows i s = 0)"

lemma counting_first_underflow:
  assumes w: "warp_counting (tstate s)" and ok: "timer_ok s"
  shows "first_underflow s (unat (cnt s))"
proof -
  have t: "tstate s AND NOT CIAT_COUNT \<in> {0x063, 0x116B}" using warp_counting_states[OF w ok] by (auto simp: CIAT_defs)
  have nz: "cnt s \<noteq> 0" using w ok by (simp add: warp_counting_bits timer_ok_bits)
  have "underflows i s = 0" if "i < unat (cnt s)" for i
    unfolding underflows_uncount uncount_at ucycle_run[OF t that] by simp
  moreover have "underflows (unat (cnt s)) s = 1"
    unfolding underflows_uncount uncount_at using t ucycle_to_underflow[OF nz, of s 0 0] by auto
  ultimately show ?thesis by (simp add: first_underflow_def)
qed

lemma stopped_no_underflow: "not_counting (tstate s) \<Longrightarrow> underflows k s = 0"
proof (induction k arbitrary: s)
  case (Suc k)
  have "\<not> bit (tstate s) 1 \<and> \<not> bit (tstate s) 6 \<and> (\<not> bit (tstate s) 0 \<or> \<not> bit (tstate s) 5 \<and> \<not> bit (tstate s) 2)"
    "bit (tstate s) 3 = bit (tstate s) 8" "bit (tstate s) 8 = bit (tstate s) 12" "\<not> bit (tstate s) 11"
    using Suc.prems by (simp_all add: not_counting_bits)
  then have "not_counting (tstate (fst (ciat_cycle (s, 0))))" "snd (ciat_cycle (s, 0)) = 0"
    unfolding not_counting_bits ciat_cycle_def
    by (auto simp: ciat_inc_def bit_tail[OF refl] cnt_tail bit_ciat_table)
  then show ?case using Suc.IH by (simp add: underflows_Suc)
qed simp

lemma cycle_bits:
  assumes "snd (ciat_cycle (s, 0)) = 0"
  defines "t \<equiv> tstate s" and "t' \<equiv> tstate (fst (ciat_cycle (s, 0)))"
  shows "bit t' 0 = bit t 0" "bit t' 1 = (bit t 0 \<and> bit t 5)" "\<not> bit t' 2" "bit t' 3 = bit t 3" "\<not> bit t' 4" "bit t' 5 = bit t 5"
    "bit t' 6 = ((bit t 1 \<or> bit t 2 \<and> bit t 0) \<and> \<not> bit t 7)" "bit t' 7 = bit t 4" "bit t' 8 = bit t 3" "bit t' 9 = bit t 7"
    "bit t' 11 = bit t 6" "bit t' 12 = bit t 8"
  using assms(1) unfolding t_def t'_def ciat_cycle_def
  by (auto simp: ciat_inc_def bit_tail[OF refl] cnt_tail bit_ciat_table split: if_splits)

text \<open>Four cycles after the last change, or the last underflow, the timer has settled.\<close>

definition settled :: "ciat_t \<Rightarrow> bool" where
  "settled s \<longleftrightarrow> warp_counting (tstate s) \<or> not_counting (tstate s)"

lemma cycle_Suc0: "underflows (Suc k) s = 0 \<Longrightarrow> 0 \<le> snd (ciat_cycle (s, 0)) \<Longrightarrow> 0 \<le> underflows k (fst (ciat_cycle (s, 0)))
    \<Longrightarrow> snd (ciat_cycle (s, 0)) = 0 \<and> underflows k (fst (ciat_cycle (s, 0))) = 0"
  by (simp add: underflows_Suc)

lemma cycle_nonneg: "0 \<le> snd (ciat_cycle (s, 0))"
  by (simp add: ciat_cycle_def cnt_tail)

abbreviation (input) next_state :: "ciat_t \<Rightarrow> ciat_t" where
  "next_state s \<equiv> fst (ciat_cycle (s, 0))"

lemma settles:
  assumes "snd (ciat_cycle (s, 0)) = 0" "snd (ciat_cycle (next_state s, 0)) = 0"
    "snd (ciat_cycle (next_state (next_state s), 0)) = 0" "snd (ciat_cycle (next_state (next_state (next_state s)), 0)) = 0"
  shows "settled (next_state (next_state (next_state (next_state s))))"
proof -
  note b = cycle_bits[OF assms(1)] cycle_bits[OF assms(2)] cycle_bits[OF assms(3)] cycle_bits[OF assms(4)]
  show ?thesis unfolding settled_def warp_counting_bits not_counting_bits by (simp add: b del: One_nat_def)
qed

definition predicts :: "nat \<Rightarrow> ciat_t \<Rightarrow> clock \<Rightarrow> bool" where
  "predicts b s r \<longleftrightarrow> (\<exists>k\<le>b. first_underflow s k \<and> r = tclk s + of_nat k) \<or> r = CLOCK_MAX \<and> (\<forall>k. underflows k s = 0)"

abbreviation (input) next_underflow :: "ciat_t \<Rightarrow> clock option" where
  "next_underflow s \<equiv> ciat_next_underflow (latch s) (tclk s) (cnt s) (tstate s)"

lemma next_underflow_settled:
  assumes "settled s" "timer_ok s"
  shows "\<exists>r. next_underflow s = Some r \<and> predicts 65535 s r"
proof (cases "warp_counting (tstate s)")
  case True
  have "(ucast (cnt s) :: clock) = of_nat (unat (cnt s))" by simp
  moreover have "unat (cnt s) \<le> 65535" using unat_word16_less[of "cnt s"] by linarith
  ultimately show ?thesis using counting_first_underflow[OF True assms(2)] True
    by (subst ciat_next_underflow.simps) (auto simp: predicts_def)
next
  case False
  then show ?thesis using assms(1) stopped_no_underflow
    by (subst ciat_next_underflow.simps) (simp add: predicts_def settled_def)
qed

lemma next_underflow_step:
  assumes "\<not> settled s"
  shows "next_underflow s = (if snd (ciat_cycle (s, 0)) = 0 then next_underflow (next_state s) else Some (tclk s + 1))"
  using assms
  by (subst ciat_next_underflow.simps) (simp add: settled_def ciat_cycle_def ciat_inc_def ciat_tail_def Let_def)

lemma next_state_fields [simp]: "tclk (next_state s) = tclk s + 1" "latch (next_state s) = latch s"
  by (simp_all add: ciat_cycle_def cnt_tail ciat_inc_def)

lemma predicts_step:
  assumes z: "snd (ciat_cycle (s, 0)) = 0" and p: "predicts b (next_state s) r"
  shows "predicts (Suc b) s r"
proof -
  have u: "underflows (Suc k) s = underflows k (next_state s)" for k by (simp add: underflows_Suc z)
  have "first_underflow s (Suc k)" if "first_underflow (next_state s) k" for k
    using that unfolding first_underflow_def u by (metis less_Suc_eq_0_disj u underflows_0)
  then have "\<exists>k\<le>Suc b. first_underflow s k \<and> tclk s + 1 + of_nat j = tclk s + of_nat k" if "first_underflow (next_state s) j" "j \<le> b" for j
    using that by (intro exI[of _ "Suc j"]) simp
  moreover have "\<forall>k. underflows k s = 0" if "\<forall>k. underflows k (next_state s) = 0"
    using that by (metis not0_implies_Suc u underflows_0)
  ultimately show ?thesis using p unfolding predicts_def by auto
qed

lemma first_underflow_now: "snd (ciat_cycle (s, 0)) \<noteq> 0 \<Longrightarrow> predicts (Suc b) s (tclk s + 1)"
  using cycle_nonneg[of s] unfolding predicts_def first_underflow_def
  by (intro disjI1 exI[of _ 1]) (simp add: underflows_Suc)

lemma predicts_mono: "predicts b s r \<Longrightarrow> b \<le> b' \<Longrightarrow> predicts b' s r"
  unfolding predicts_def by (elim disjE exE conjE) (use order_trans in blast)+

lemma next_underflow_within:
  assumes "timer_ok s"
    and "settled s \<or> (snd (ciat_cycle (s, 0)) = 0 \<longrightarrow> (\<exists>r. next_underflow (next_state s) = Some r \<and> predicts (65534 + j) (next_state s) r))"
  shows "\<exists>r. next_underflow s = Some r \<and> predicts (65535 + j) s r"
proof (cases "settled s")
  case True
  then show ?thesis using next_underflow_settled[OF True assms(1)] predicts_mono[of 65535 s _ "65535 + j"] by auto
next
  case False
  have e: "65535 + j = Suc (65534 + j)" by simp
  show ?thesis using assms(2) False predicts_step[of s "65534 + j"] first_underflow_now[of s "65534 + j"] next_underflow_step[OF False]
    unfolding e by (cases "snd (ciat_cycle (s, 0)) = 0") auto
qed

lemma next_underflow_exact:
  assumes "timer_ok s"
  shows "\<exists>r. next_underflow s = Some r \<and> predicts 65539 s r"
proof -
  let ?s1 = "next_state s"
  let ?s2 = "next_state ?s1"
  let ?s3 = "next_state ?s2"
  let ?s4 = "next_state ?s3"
  have ok: "timer_ok ?s1" "timer_ok ?s2" "timer_ok ?s3" "timer_ok ?s4" by (rule timer_ok_cycle)+
  note set = settles[of s]
  have 3: "\<exists>r. next_underflow ?s3 = Some r \<and> predicts (65535 + 1) ?s3 r"
    if "snd (ciat_cycle (s, 0)) = 0" "snd (ciat_cycle (?s1, 0)) = 0" "snd (ciat_cycle (?s2, 0)) = 0"
    using next_underflow_within[OF ok(3), of 1] next_underflow_settled[OF set[OF that] ok(4)] by simp
  have 2: "\<exists>r. next_underflow ?s2 = Some r \<and> predicts (65535 + 2) ?s2 r"
    if "snd (ciat_cycle (s, 0)) = 0" "snd (ciat_cycle (?s1, 0)) = 0"
    using next_underflow_within[OF ok(2), of 2] 3[OF that] by simp
  have 1: "\<exists>r. next_underflow ?s1 = Some r \<and> predicts (65535 + 3) ?s1 r" if "snd (ciat_cycle (s, 0)) = 0"
    using next_underflow_within[OF ok(1), of 3] 2[OF that] by simp
  show ?thesis using next_underflow_within[OF assms, of 4] 1 by simp
qed

subsection \<open>Histories\<close>

text \<open>
  The writes to a timer, each at its own clock. \<open>Step\<close> is the pulse of the other timer; the chip
  sends it only to a timer that does not count \<open>\<phi>2\<close>.
\<close>

datatype timer_op = Ctrl byte | LatchLo byte | LatchHi byte | Step

fun timer_write :: "timer_op \<Rightarrow> ciat_t \<times> alarm_context \<Rightarrow> (ciat_t \<times> alarm_context) option" where
  "timer_write (Ctrl b) sc = ciat_set_ctrl b sc"
| "timer_write (LatchLo b) sc = ciat_set_latchlo b sc"
| "timer_write (LatchHi b) sc = ciat_set_latchhi b sc"
| "timer_write Step sc = (if tstate (fst sc) AND CIAT_PHI2IN = 0 then ciat_single_step sc else Some sc)"

fun lazy_run :: "(clock \<times> timer_op) list \<Rightarrow> ciat_t \<times> alarm_context \<Rightarrow> (ciat_t \<times> alarm_context) option" where
  "lazy_run [] sc = Some sc"
| "lazy_run ((k, w) # ws) (s, c) =
     Option.bind (ciat_update s k) (\<lambda>(s1, n). Option.bind (timer_write w (s1, c)) (lazy_run ws))"

fun cycle_run :: "(clock \<times> timer_op) list \<Rightarrow> ciat_t \<times> alarm_context \<Rightarrow> (ciat_t \<times> alarm_context) option" where
  "cycle_run [] sc = Some sc"
| "cycle_run ((k, w) # ws) (s, c) =
     Option.bind (timer_write w (fst ((ciat_cycle ^^ (unat k - unat (tclk s))) (s, 0)), c)) (cycle_run ws)"

fun schedule :: "clock \<Rightarrow> (clock \<times> timer_op) list \<Rightarrow> bool" where
  "schedule t [] \<longleftrightarrow> True"
| "schedule t ((k, w) # ws) \<longleftrightarrow> t < k \<and> unat k - unat t < 2 ^ 31 \<and> unat k + 65540 < 2 ^ 32 \<and> schedule k ws"

definition same_timer :: "ciat_t \<Rightarrow> ciat_t \<Rightarrow> bool" where
  "same_timer s r \<longleftrightarrow> uncount (s, 0) = uncount (r, 0)"

lemma same_timer_iff: "same_timer s r \<longleftrightarrow> tclk s = tclk r \<and> latch s = latch r \<and> cnt s = cnt r \<and> talarm s = talarm r
    \<and> alarmclk s = alarmclk r \<and> (\<forall>n. n \<noteq> 11 \<longrightarrow> bit (tstate s) n = bit (tstate r) n)"
proof -
  have "t AND NOT CIAT_COUNT = u AND NOT CIAT_COUNT \<longleftrightarrow> (\<forall>n. n \<noteq> 11 \<longrightarrow> bit t n = bit u n)" for t u
  proof
    assume a: "t AND NOT CIAT_COUNT = u AND NOT CIAT_COUNT"
    show "\<forall>n. n \<noteq> 11 \<longrightarrow> bit t n = bit u n"
    proof (intro allI impI)
      fix n :: nat assume "n \<noteq> 11"
      then have "bit (t AND NOT CIAT_COUNT) n = bit t n" "bit (u AND NOT CIAT_COUNT) n = bit u n"
        by (auto simp: bit_and_iff bit_not_iff CIAT_flag dest: bit_imp_possible_bit)
      then show "bit t n = bit u n" by (simp only: a)
    qed
  qed (auto intro!: bit_word_eqI simp: bit_simps CIAT_flag)
  then show ?thesis unfolding same_timer_def uncount_def by (cases s; cases r) auto
qed

lemma same_timer_ok: "same_timer s r \<Longrightarrow> timer_ok s = timer_ok r"
  unfolding same_timer_iff timer_ok_bits by simp

lemma same_timer_underflows: "same_timer s r \<Longrightarrow> underflows k s = underflows k r"
  unfolding underflows_uncount same_timer_def by simp

lemma predicts_unique: "predicts b s r1 \<Longrightarrow> predicts b s r2 \<Longrightarrow> r1 = r2"
  unfolding predicts_def first_underflow_def by (metis less_numeral_extra(3) linorder_neqE_nat)

lemma set_alarm_same:
  assumes "same_timer s r" "timer_ok s"
  shows "\<exists>s' r' c'. ciat_set_alarm (s, c) = Some (s', c') \<and> ciat_set_alarm (r, c) = Some (r', c') \<and> same_timer s' r'
    \<and> timer_ok s' \<and> tclk s' = tclk s"
proof -
  obtain p where p: "next_underflow s = Some p" "predicts 65539 s p" using next_underflow_exact[OF assms(2)] by blast
  obtain q where q: "next_underflow r = Some q" "predicts 65539 r q"
    using next_underflow_exact[of r] assms same_timer_ok by blast
  have "predicts 65539 s q" using q(2) same_timer_underflows[OF assms(1)] assms(1)
    unfolding predicts_def first_underflow_def by (simp add: same_timer_iff)
  then have "q = p" using p predicts_unique by blast
  then show ?thesis using assms p q
    by (simp add: ciat_set_alarm_def same_timer_iff timer_ok_bits)
qed

text \<open>What holds beyond \<open>timer_ok\<close> once a cycle has passed since the last write.\<close>

definition fresh :: "ciat_t \<Rightarrow> bool" where
  "fresh s \<longleftrightarrow> timer_ok s \<and> \<not> bit (tstate s) 2 \<and> (bit (tstate s) 6 \<longrightarrow> cnt s \<noteq> 0 \<and> \<not> bit (tstate s) 9)"

lemma fresh_cycle: "fresh (fst (ciat_cycle (s, n)))"
  unfolding fresh_def using timer_ok_cycle[of s n]
  by (auto simp: ciat_cycle_def bit_tail[OF refl] cnt_tail ciat_inc_def bit_ciat_table split: if_splits)

lemma fresh_same: "same_timer s r \<Longrightarrow> fresh s = fresh r"
  unfolding fresh_def using same_timer_ok by (auto simp: same_timer_iff)

lemma write_same:
  assumes same: "same_timer s r" and f: "fresh s"
  shows "\<exists>s' r' c'. timer_write w (s, c) = Some (s', c') \<and> timer_write w (r, c) = Some (r', c') \<and> same_timer s' r'
    \<and> timer_ok s' \<and> tclk s' = tclk s"
proof -
  have fs: "\<not> bit (tstate s) 2" "bit (tstate s) 6 \<Longrightarrow> cnt s \<noteq> 0 \<and> \<not> bit (tstate s) 9" "timer_ok s"
    using f by (simp_all add: fresh_def)
  have b: "bit (tstate s) n = bit (tstate r) n" if "n \<noteq> 11" for n using same that by (simp add: same_timer_iff)
  show ?thesis
  proof (cases w)
    case (Ctrl v)
    let ?f = "\<lambda>x. x\<lparr>tstate := (tstate x AND NOT CIAT_CR_MASK) OR ((ucast v AND CIAT_CR_MASK) XOR CIAT_PHI2IN)\<rparr>"
    have "bit CIAT_CR_MASK n \<longleftrightarrow> n \<in> {0,3,4,5}" for n
    proof -
      have m: "CIAT_CR_MASK = CIAT_CR_START OR CIAT_CR_ONESHOT OR CIAT_CR_FLOAD OR CIAT_PHI2IN" by (simp add: CIAT_defs)
      show ?thesis unfolding m by (auto simp: bit_or_iff CIAT_flag)
    qed
    then have "same_timer (?f s) (?f r)" "timer_ok (?f s)"
      using same fs unfolding timer_ok_bits same_timer_iff by (auto simp: bit_simps CIAT_flag)
    from set_alarm_same[OF this, of c] show ?thesis by (simp add: Ctrl ciat_set_ctrl_def)
  next
    case (LatchLo v)
    let ?g = "\<lambda>x. x\<lparr>latch := (latch x AND 0xFF00) OR ucast v\<rparr>"
    let ?f = "\<lambda>x. if bit (tstate x) 9 then (?g x)\<lparr>cnt := (cnt x AND 0xFF00) OR ucast v\<rparr> else ?g x"
    have "same_timer (?f s) (?f r)" "timer_ok (?f s)"
      using same fs unfolding timer_ok_bits same_timer_iff by auto
    from set_alarm_same[OF this, of c] show ?thesis
      by (cases "bit (tstate s) 9") (simp_all add: LatchLo ciat_set_latchlo_def Let_def CIAT_test b)
  next
    case (LatchHi v)
    let ?g = "\<lambda>x. x\<lparr>latch := (latch x AND 0xFF) OR push_bit 8 (ucast v)\<rparr>"
    let ?f = "\<lambda>x. if bit (tstate x) 9 \<or> \<not> bit (tstate x) 0 then (?g x)\<lparr>cnt := latch (?g x)\<rparr> else ?g x"
    have "same_timer (?f s) (?f r)" "timer_ok (?f s)"
      using same fs unfolding timer_ok_bits same_timer_iff by auto
    from set_alarm_same[OF this, of c] show ?thesis
      by (cases "bit (tstate s) 9 \<or> \<not> bit (tstate s) 0") (simp_all add: LatchHi ciat_set_latchhi_def Let_def CIAT_test CIAT_test0 b)
  next
    case Step
    let ?f = "\<lambda>x. x\<lparr>tstate := tstate x OR CIAT_STEP\<rparr>"
    have "same_timer (?f s) (?f r)" "\<not> bit (tstate s) 5 \<Longrightarrow> bit (tstate s) 0 \<Longrightarrow> timer_ok (?f s)"
      using same fs unfolding timer_ok_bits same_timer_iff by (auto simp: bit_simps CIAT_flag)
    with set_alarm_same[OF this(1), of c] show ?thesis using same fs
      by (cases "bit (tstate s) 5"; cases "bit (tstate s) 0") (simp_all add: Step ciat_single_step_def CIAT_test CIAT_test0 b)
  qed
qed

lemma history_same:
  assumes "schedule (tclk s) ws" "timer_ok s" "same_timer s r"
  shows "\<exists>s' r' c'. lazy_run ws (s, c) = Some (s', c') \<and> cycle_run ws (r, c) = Some (r', c') \<and> same_timer s' r'"
  using assms
proof (induction ws arbitrary: s r c)
  case (Cons kw ws)
  obtain k w where kw: "kw = (k, w)" by (cases kw)
  let ?d = "unat k - unat (tclk s)"
  have sch: "tclk s < k" "?d < 2 ^ 31" "unat k + 65540 < 2 ^ 32" "schedule k ws" using Cons.prems(1) by (simp_all add: kw)
  have wrap: "unat k + 65536 < 2 ^ 32" using sch(3) by linarith
  have tr: "tclk r = tclk s" using Cons.prems(3) by (simp add: same_timer_iff)
  have le: "tclk s \<le> k" using sch(1) by (rule order_less_imp_le)
  obtain s1 n1 where s1: "ciat_update s k = Some (s1, n1)" "tclk s1 = k" "timer_ok s1"
    "uncount (s1, n1) = (ucycle ^^ ?d) (uncount (s, 0))"
    using update_loop_exact[OF Cons.prems(2) le wrap sch(2), of 0] unfolding ciat_update_def by blast
  obtain j where j: "?d = Suc j" using sch(1) by (metis Suc_pred' zero_less_diff word_less_nat_alt)
  obtain r1 m1 where r1: "(ciat_cycle ^^ ?d) (r, 0) = (r1, m1)" by (cases "(ciat_cycle ^^ ?d) (r, 0)")
  have "uncount (s1, n1) = uncount (r1, m1)"
    using s1(4) Cons.prems(3) unfolding r1[symmetric] uncount_funpow same_timer_def by simp
  then have same: "same_timer s1 r1" by (simp add: same_timer_def uncount_def)
  have "r1 = fst (ciat_cycle ((ciat_cycle ^^ j) (r, 0)))" using r1 unfolding j by simp
  then have "fresh r1" using fresh_cycle by (metis prod.collapse)
  then have "fresh s1" using fresh_same[OF same] by simp
  from write_same[OF same this, of w c] obtain s2 r2 c2 where s2: "timer_write w (s1, c) = Some (s2, c2)"
    "timer_write w (r1, c) = Some (r2, c2)" "same_timer s2 r2" "timer_ok s2" "tclk s2 = k" using s1(2) by auto
  from Cons.IH[OF _ s2(4,3), of c2] sch(4) s2(5) obtain s' r' c' where
    "lazy_run ws (s2, c2) = Some (s', c')" "cycle_run ws (r2, c2) = Some (r', c')" "same_timer s' r'" by auto
  then show ?case using s1(1) s2(1,2) r1 tr by (simp add: kw)
qed simp

definition example_timer :: ciat_t where
  "example_timer = \<lparr>tstate = 0x863, latch = 3, cnt = 2, alarmclk = CLOCK_MAX, tclk = 100, talarm = 0\<rparr>"

lemma example_timer_ok: "timer_ok example_timer" "tclk example_timer = 100"
  by (simp_all add: timer_ok_def example_timer_def CIAT_defs)

lemma update_loop_step: "tclk s < k \<Longrightarrow> ciat_update_loop k (s, n) = ciat_update_loop k (ciat_tail (ciat_jump k (s, n)))"
  by (subst ciat_update_loop.simps) simp

lemma update_loop_end: "\<not> tclk s < k \<Longrightarrow> ciat_update_loop k (s, n) = Some (s, n)"
  by (subst ciat_update_loop.simps) simp

subsection \<open>A pending step that outlives its cycle\<close>

text \<open>
  The flag \<open>CIAT_STEP\<close> is dropped by every single cycle, but a jump keeps it. That makes a difference when the jump is over
  counted time or over the time the timer is stopped, with the flag set by a pulse in a cycle in which the mode of counting or the
  start bit was changed afterwards.
\<close>

definition unstep :: "ciat_t \<times> int \<Rightarrow> ciat_t \<times> int" where
  "unstep = (\<lambda>(s, n). (s\<lparr>tstate := tstate s AND NOT CIAT_STEP\<rparr>, n))"

definition add_step :: "ciat_t \<times> int \<Rightarrow> ciat_t \<times> int" where
  "add_step = (\<lambda>(s, n). (s\<lparr>tstate := tstate s OR CIAT_STEP\<rparr>, n))"

lemma unstep_add_step [simp]: "unstep (add_step sn) = unstep sn"
  by (cases sn) (simp add: unstep_def add_step_def state_eq bit_simps CIAT_flag)

lemma unstep_uncount: "unstep (uncount sn) = uncount (unstep sn)"
  by (cases sn) (simp add: unstep_def uncount_def state_eq bit_simps CIAT_flag)

lemma add_step_sel [simp]: "tclk (fst (add_step sn)) = tclk (fst sn)" "cnt (fst (add_step sn)) = cnt (fst sn)"
  "latch (fst (add_step sn)) = latch (fst sn)" "snd (add_step sn) = snd sn"
  "bit (tstate (fst (add_step sn))) k \<longleftrightarrow> k = 2 \<or> bit (tstate (fst sn)) k"
  by (simp_all add: add_step_def split_beta bit_simps CIAT_flag disj_commute)

lemma split_step:
  "bit (tstate s) 2 \<Longrightarrow> (s, n) = add_step (unstep (s, n))" "\<not> bit (tstate (fst (unstep sn))) 2"
proof -
  assume "bit (tstate s) 2"
  then have "tstate s AND NOT CIAT_STEP OR CIAT_STEP = tstate s" by (simp add: state_eq bit_simps CIAT_flag)
  then show "(s, n) = add_step (unstep (s, n))" by (simp add: add_step_def unstep_def)
next
  show "\<not> bit (tstate (fst (unstep sn))) 2" by (cases sn) (simp add: unstep_def bit_simps CIAT_flag)
qed

lemma add_step_tail: "ciat_tail (add_step sn) = add_step (ciat_tail sn)"
proof -
  have e: "timer = timer'" if "tstate timer = tstate timer'" "cnt timer = cnt timer'" "latch timer = latch timer'" "tclk timer = tclk timer'"
      "alarmclk timer = alarmclk timer'" "talarm timer = talarm timer'" for timer timer' :: ciat_t
    using that by simp
  obtain s n where sn: "sn = (s, n)" by (cases sn)
  let ?a = "fst (ciat_tail (add_step (s, n)))" and ?b = "fst (add_step (ciat_tail (s, n)))"
  have m: "add_step (s, n) = (s\<lparr>tstate := tstate s OR CIAT_STEP\<rparr>, n)" by (simp add: add_step_def)
  have "tstate ?a = tstate ?b"
  proof (rule state_eqI)
    fix k :: nat assume "k < 16"
    then show "bit (tstate ?a) k = bit (tstate ?b) k"
      unfolding m add_step_sel bit_tail[OF refl] by (auto simp: bit_simps CIAT_flag)
  qed
  moreover have "cnt ?a = cnt ?b" "latch ?a = latch ?b" "tclk ?a = tclk ?b"
    unfolding m add_step_sel cnt_tail by (auto simp: bit_simps CIAT_flag)
  moreover have "alarmclk ?a = alarmclk ?b" "talarm ?a = talarm ?b"
    by (simp_all add: ciat_tail_def add_step_def split_beta Let_def)
  ultimately have "?a = ?b" by (rule e)
  moreover have "snd (ciat_tail (add_step (s, n))) = snd (add_step (ciat_tail (s, n)))"
    unfolding m add_step_sel cnt_tail by (simp add: bit_simps CIAT_flag)
  ultimately show ?thesis unfolding sn by (simp add: prod_eq_iff)
qed

lemma cycle_add_step:
  assumes "bit (tstate (fst sn)) 0 \<longrightarrow> bit (tstate (fst sn)) 1"
  shows "ciat_cycle (add_step sn) = ciat_cycle sn"
proof -
  obtain s n where sn: "sn = (s, n)" by (cases sn)
  have "ciat_table (tstate s OR CIAT_STEP) = ciat_table (tstate s)"
    using assms unfolding sn by (auto simp: state_eq bit_ciat_table bit_simps CIAT_flag)
  moreover have "(tstate s OR CIAT_STEP) AND CIAT_COUNT3 \<noteq> 0 \<longleftrightarrow> tstate s AND CIAT_COUNT3 \<noteq> 0"
    by (simp add: CIAT_test bit_simps CIAT_flag)
  ultimately show ?thesis unfolding sn by (cases s) (simp add: ciat_cycle_def ciat_inc_def add_step_def)
qed

lemma jump_add_step:
  assumes "warp_counting (tstate s) \<or> \<not> bit (tstate s) 0 \<and> not_counting (tstate s) \<and> tstate s AND (CIAT_CR_FLOAD OR CIAT_LOAD1 OR CIAT_LOAD) = 0"
  shows "ciat_jump k (add_step (s, n)) = add_step (ciat_jump k (s, n))"
proof -
  have w: "warp_counting (tstate s OR CIAT_STEP) = warp_counting (tstate s)"
    by (simp add: warp_counting_bits bit_simps CIAT_flag)
  have nc: "\<not> bit (tstate s) 0 \<Longrightarrow> not_counting (tstate s OR CIAT_STEP) = not_counting (tstate s)"
    by (simp add: not_counting_bits bit_simps CIAT_flag)
  have ld: "(tstate s OR CIAT_STEP) AND (CIAT_CR_FLOAD OR CIAT_LOAD1 OR CIAT_LOAD) = 0 \<longleftrightarrow> tstate s AND (CIAT_CR_FLOAD OR CIAT_LOAD1 OR CIAT_LOAD) = 0"
    unfolding and_or_0 CIAT_test0 by (simp add: bit_simps CIAT_flag)
  have os: "(tstate s OR CIAT_STEP) AND (CIAT_CR_ONESHOT OR CIAT_ONESHOT0) = 0 \<longleftrightarrow> tstate s AND (CIAT_CR_ONESHOT OR CIAT_ONESHOT0) = 0"
    unfolding and_or_0 CIAT_test0 by (simp add: bit_simps CIAT_flag)
  from assms show ?thesis
  proof (elim disjE conjE)
    assume "warp_counting (tstate s)"
    then show ?thesis by (simp add: ciat_jump_def add_step_def w os Let_def)
  next
    assume a: "\<not> bit (tstate s) 0" "not_counting (tstate s)" "tstate s AND (CIAT_CR_FLOAD OR CIAT_LOAD1 OR CIAT_LOAD) = 0"
    then have "\<not> warp_counting (tstate s)" by (simp add: warp_counting_bits)
    then show ?thesis using a nc[OF a(1)] by (simp add: ciat_jump_def add_step_def w ld Let_def)
  qed
qed

text \<open>After counting to an underflow the load flag is set, so that the next turn is a single cycle.\<close>

lemma loaded_after_warp:
  assumes "warp_counting (tstate s)" "tclk (fst (ciat_tail (ciat_jump k (s, n)))) \<noteq> k"
  shows "bit (tstate (fst (ciat_tail (ciat_jump k (s, n))))) 9"
    and "bit (tstate (fst (ciat_tail (ciat_jump k (s, n))))) 0 \<longrightarrow> bit (tstate (fst (ciat_tail (ciat_jump k (s, n))))) 1"
proof -
  obtain s1 n1 where j: "ciat_jump k (s, n) = (s1, n1)" by (cases "ciat_jump k (s, n)")
  have t: "tstate s1 = tstate s" using assms(1) j by (auto simp: ciat_jump_def Let_def split: if_splits)
  have "tclk s1 \<noteq> k" using assms(2) by (simp add: j cnt_tail)
  then have c: "cnt s1 = 0" using assms(1) j by (auto simp: ciat_jump_def Let_def split: if_splits)
  have b: "bit (tstate s1) 6" "bit (tstate s1) 1" using assms(1) by (simp_all add: t warp_counting_bits)
  show "bit (tstate (fst (ciat_tail (ciat_jump k (s, n))))) 9"
    "bit (tstate (fst (ciat_tail (ciat_jump k (s, n))))) 0 \<longrightarrow> bit (tstate (fst (ciat_tail (ciat_jump k (s, n))))) 1"
    unfolding j bit_tail[OF refl] using b c by auto
qed

lemma jump_loaded_step:
  assumes "bit (tstate s) 9"
  shows "ciat_jump k (add_step (s, n)) = (ciat_inc (fst (add_step (s, n))), n)"
proof -
  let ?t = "tstate s OR CIAT_STEP"
  have "\<not> warp_counting ?t" using assms by (simp add: warp_counting_bits bit_simps CIAT_flag)
  moreover have "?t AND (CIAT_CR_FLOAD OR CIAT_LOAD1 OR CIAT_LOAD) \<noteq> 0"
    unfolding and_or_0 CIAT_test0 using assms by (simp add: bit_simps CIAT_flag)
  moreover have "?t \<noteq> (CIAT_COUNT OR CIAT_OUT OR CIAT_LOAD OR CIAT_PHI2IN OR CIAT_COUNT2 OR CIAT_CR_START)"
    by (simp add: state_eq bit_simps CIAT_flag)
  ultimately show ?thesis by (simp add: ciat_jump_def add_step_def)
qed

lemma ucycle_Suc: "(ucycle ^^ Suc m) (uncount sn) = (ucycle ^^ m) (ucycle sn)"
  by (simp add: funpow_Suc_right ucycle_def cycle_uncount del: funpow.simps)

lemma update_loop_cycle:
  assumes lt: "tclk s < cclk" and j: "ciat_jump cclk (s, n) = (ciat_inc s, n)"
    and b: "unat cclk + 65536 < 2 ^ 32" "unat cclk - unat (tclk s) < 2 ^ 31"
  shows "\<exists>s' n'. ciat_update_loop cclk (s, n) = Some (s', n') \<and> tclk s' = cclk \<and> timer_ok s'
    \<and> uncount (s', n') = (ucycle ^^ (unat cclk - unat (tclk s) - 1)) (ucycle (s, n))"
proof -
  note t = turn_cycle[OF lt j]
  obtain s1 n1 where s1: "ciat_tail (ciat_jump cclk (s, n)) = (s1, n1)" by (cases "ciat_tail (ciat_jump cclk (s, n))")
  have k: "unat (tclk s1) = unat (tclk s) + 1" "unat (tclk s1) \<le> unat cclk" "timer_ok s1" "uncount (s1, n1) = ucycle (uncount (s, n))"
    using t by (simp_all add: turn_ok_def s1)
  have u: "uncount (s1, n1) = ucycle (s, n)" using k(4) by (simp add: ucycle_def cycle_uncount)
  have "unat cclk - unat (tclk s1) = unat cclk - unat (tclk s) - 1" using k(1) by simp
  then show ?thesis using update_loop_exact[of s1 cclk n1] k(1-3) b lt
    by (simp add: update_loop_step[OF lt] s1 u word_le_nat_alt)
qed

text \<open>
  With the flag set, and the other conditions of \<open>timer_ok\<close>: the update does what the cycles do, but for the flag itself.
\<close>

lemma update_step_exact:
  assumes ok: "timer_ok (fst (unstep (s, 0)))" and st: "bit (tstate s) 2" "\<not> timer_ok s"
    and le: "tclk s \<le> cclk" and b: "unat cclk + 65536 < 2 ^ 32" "unat cclk - unat (tclk s) < 2 ^ 31"
  shows "\<exists>s' n'. ciat_update_loop cclk (s, 0) = Some (s', n') \<and> tclk s' = cclk \<and> timer_ok (fst (unstep (s', 0)))
    \<and> unstep (uncount (s', n')) = unstep ((ucycle ^^ (unat cclk - unat (tclk s))) (uncount (s, 0)))"
proof -
  obtain r where r: "unstep (s, 0) = (r, 0)" by (simp add: unstep_def)
  have s: "(s, 0) = add_step (r, 0)" using split_step(1)[OF st(1), of 0] by (simp add: r)
  have s_eq: "s = fst (add_step (r, 0))" by (simp flip: s)
  have rb: "\<not> bit (tstate r) 2" using split_step(2)[of "(s, 0)"] by (simp add: r)
  have ok: "timer_ok r" using ok by (simp add: r)
  have tb: "bit (tstate s) k \<longleftrightarrow> k = 2 \<or> bit (tstate r) k" for k unfolding s_eq add_step_sel by simp
  have tc: "tclk s = tclk r" "cnt s = cnt r" unfolding s_eq add_step_sel by simp_all
  have phi: "bit (tstate r) 0 \<longrightarrow> bit (tstate r) 5"
    using st(2) ok rb unfolding timer_ok_bits tb tc by auto
  let ?k = "unat cclk - unat (tclk s)"
  have un: "timer_ok (fst (unstep (s', 0)))" if "timer_ok s'" for s'
    using that unfolding timer_ok_bits by (auto simp: unstep_def bit_simps CIAT_flag)
  show ?thesis
  proof (cases "tclk s < cclk")
    case False
    then show ?thesis using le ok by (simp add: update_loop_end r)
  next
    case lt: True
    then have k: "?k = Suc (?k - 1)" by (simp add: word_less_nat_alt)
    have cyc: "(ucycle ^^ ?k) (uncount (s, 0)) = (ucycle ^^ (?k - 1)) (ucycle (s, 0))"
      by (subst k) (rule ucycle_Suc)
    show ?thesis
    proof (cases "ciat_jump cclk (s, 0) = (ciat_inc s, 0)")
      case True
      then show ?thesis using update_loop_cycle[OF lt _ b, of 0] un cyc by metis
    next
      case ninc: False
      have w: "warp_counting (tstate r) \<or> \<not> bit (tstate r) 0 \<and> not_counting (tstate r) \<and> tstate r AND (CIAT_CR_FLOAD OR CIAT_LOAD1 OR CIAT_LOAD) = 0"
      proof (rule ccontr)
        assume n: "\<not> ?thesis"
        have nw: "\<not> warp_counting (tstate s)" using n unfolding warp_counting_bits tb by auto
        moreover have "\<not> (not_counting (tstate s) \<and> tstate s AND (CIAT_CR_FLOAD OR CIAT_LOAD1 OR CIAT_LOAD) = 0)"
          using n phi unfolding not_counting_bits and_or_0 CIAT_test0 tb by auto
        moreover have "tstate s \<noteq> (CIAT_COUNT OR CIAT_OUT OR CIAT_LOAD OR CIAT_PHI2IN OR CIAT_COUNT2 OR CIAT_CR_START)"
          by (simp add: state_eq tb bit_simps CIAT_flag)
        ultimately show False using ninc by (auto simp: ciat_jump_def Let_def)
      qed
      have same: "ucycle (s, 0) = ucycle (r, 0)"
        unfolding s ucycle_def using w by (subst cycle_add_step) (auto simp: warp_counting_bits)
      have run: "(ucycle ^^ ?k) (uncount (s, 0)) = (ucycle ^^ ?k) (uncount (r, 0))"
        unfolding cyc same by (subst (2) k) (rule ucycle_Suc[symmetric])
      obtain j where j: "turn_ok cclk (r, 0) j (ciat_tail (ciat_jump cclk (r, 0)))"
        using turn[OF ok, of cclk 0] lt b tc by auto
      obtain r1 n1 where r1: "ciat_tail (ciat_jump cclk (r, 0)) = (r1, n1)" by (cases "ciat_tail (ciat_jump cclk (r, 0))")
      have first: "ciat_tail (ciat_jump cclk (s, 0)) = add_step (r1, n1)"
        unfolding s jump_add_step[OF w] add_step_tail r1 ..
      have t1: "0 < j" "unat (tclk r1) = unat (tclk r) + j" "unat (tclk r1) \<le> unat cclk" "timer_ok r1"
        "uncount (r1, n1) = (ucycle ^^ j) (uncount (r, 0))"
        using j by (simp_all add: turn_ok_def r1)
      define s1 where "s1 = fst (add_step (r1, n1))"
      have s1: "add_step (r1, n1) = (s1, n1)" by (simp add: s1_def prod_eq_iff)
      have s1r: "tclk s1 = tclk r1" by (simp add: s1_def)
      have loop: "ciat_update_loop cclk (s, 0) = ciat_update_loop cclk (s1, n1)"
        using update_loop_step[OF lt, of 0] first s1 by simp
      show ?thesis
      proof (cases "tclk r1 = cclk")
        case True
        then have "j = ?k" using t1(2) tc by simp
        then have "uncount (r1, n1) = (ucycle ^^ ?k) (uncount (s, 0))" by (simp only: run t1(5))
        moreover have "unstep (uncount (s1, n1)) = unstep (uncount (r1, n1))" by (simp add: unstep_uncount s1[symmetric])
        ultimately have "unstep (uncount (s1, n1)) = unstep ((ucycle ^^ ?k) (uncount (s, 0)))" by simp
        moreover have "timer_ok (fst (unstep (s1, 0)))"
        proof -
          have "unstep (s1, 0) = unstep (r1, 0)" by (simp add: s1_def add_step_def unstep_def state_eq bit_simps CIAT_flag)
          then show ?thesis using un[OF t1(4)] by simp
        qed
        ultimately show ?thesis using True loop by (simp add: update_loop_end s1r)
      next
        case more: False
        have "tclk r1 \<le> cclk" using t1(3) by (simp add: word_le_nat_alt)
        then have lt1: "tclk s1 < cclk" using more by (simp add: s1r order_less_le)
        have wr: "warp_counting (tstate r)"
        proof (rule ccontr)
          assume "\<not> ?thesis"
          then have "ciat_jump cclk (r, 0) = (r\<lparr>tclk := cclk\<rparr>, 0)" using w by (simp add: ciat_jump_def)
          then have "tclk r1 = cclk" using arg_cong[OF r1, of "\<lambda>x. tclk (fst x)"] by (simp add: cnt_tail)
          then show False using more by simp
        qed
        have ld: "bit (tstate r1) 9" "bit (tstate r1) 0 \<longrightarrow> bit (tstate r1) 1"
          using loaded_after_warp[OF wr, of cclk 0] more by (simp_all add: r1)
        have jj: "ciat_jump cclk (s1, n1) = (ciat_inc s1, n1)"
          using jump_loaded_step[OF ld(1), of cclk n1] by (simp add: s1)
        have c1: "ucycle (s1, n1) = ucycle (r1, n1)"
          unfolding ucycle_def s1[symmetric] using ld(2) by (subst cycle_add_step) simp_all
        have "unat cclk - unat (tclk s1) < 2 ^ 31" using b(2) t1(2) tc by (simp add: s1r)
        from update_loop_cycle[OF lt1 jj b(1) this] obtain s' n' where f: "ciat_update_loop cclk (s1, n1) = Some (s', n')"
          "tclk s' = cclk" "timer_ok s'" "uncount (s', n') = (ucycle ^^ (unat cclk - unat (tclk s1) - 1)) (ucycle (s1, n1))"
          by blast
        have "?k = (unat cclk - unat (tclk s1) - 1) + (1 + j)"
          using t1(2) lt1 tc by (simp add: s1r word_less_nat_alt)
        then have "(ucycle ^^ ?k) (uncount (r, 0)) = (ucycle ^^ (unat cclk - unat (tclk s1) - 1)) (ucycle (uncount (r1, n1)))"
          unfolding t1(5) by (simp only: funpow_add comp_def) simp
        then have "uncount (s', n') = (ucycle ^^ ?k) (uncount (s, 0))"
          unfolding run f(4) c1 by (simp add: ucycle_def cycle_uncount)
        then show ?thesis using loop f(1-3) un[OF f(3)] by simp
      qed
    qed
  qed
qed

subsection \<open>Properties\<close>

text \<open>
  C3: Updating a timer to a later clock ends, and does what clocking it cycle by cycle does: the same counter, latch and clock, the same
  number of underflows, and the same state but for the flag \<open>CIAT_COUNT\<close>, which nothing but the tests for a jump reads. All shortcuts
  are covered: counting down, jumping over whole periods, the period of two cycles, the stopped timer. A state in which \<open>CIAT_STEP\<close>
  is set though the timer is stopped or counts the system clock (a pulse came in the cycle in which it was stopped or switched over) is covered
  too, but there the jumps keep the flag that the cycles drop, so the states agree but for \<open>CIAT_STEP\<close> as well. The bounds keep
  the clock from wrapping and \<open>m\<close> in an \<open>int\<close>.
\<close>

theorem ciat_update_exact:
  assumes "timer_ok s \<or> tstate s AND CIAT_STEP \<noteq> 0 \<and> timer_ok (s\<lparr>tstate := tstate s AND NOT CIAT_STEP\<rparr>)"
    and "tclk s \<le> cclk" "unat cclk + 65536 < 2 ^ 32" "unat cclk - unat (tclk s) < 2 ^ 31"
  shows "\<exists>s' n. ciat_update s cclk = Some (s', n) \<and> tclk s' = cclk \<and>
    (let cycles = (ciat_cycle ^^ (unat cclk - unat (tclk s))) (s, 0)
     in if timer_ok s then timer_ok s' \<and> uncount (s', n) = uncount cycles
        else timer_ok (s'\<lparr>tstate := tstate s' AND NOT CIAT_STEP\<rparr>) \<and> unstep (uncount (s', n)) = unstep (uncount cycles))"
proof (cases "timer_ok s")
  case True
  then show ?thesis
    using update_loop_exact[OF True assms(2-4), of 0] unfolding ciat_update_def uncount_funpow Let_def by auto
next
  case False
  then have "timer_ok (fst (unstep (s, 0)))" "bit (tstate s) 2" using assms(1) by (simp_all add: unstep_def CIAT_test)
  from update_step_exact[OF this False assms(2-4)] show ?thesis
    unfolding ciat_update_def uncount_funpow Let_def using False by (auto simp: unstep_def)
qed

text \<open>A running timer over 900 cycles; a timer that was stopped in the cycle of a pulse.\<close>

theorem ciat_update_exact_witness:
  "(\<exists>s' n. ciat_update example_timer 1000 = Some (s', n) \<and> tclk s' = 1000 \<and> timer_ok s'
      \<and> uncount (s', n) = uncount ((ciat_cycle ^^ 900) (example_timer, 0)))
    \<and> (\<exists>s' n. ciat_update (example_timer\<lparr>tstate := CIAT_STEP\<rparr>) 1000 = Some (s', n)
      \<and> unstep (uncount (s', n)) = unstep (uncount ((ciat_cycle ^^ 900) (example_timer\<lparr>tstate := CIAT_STEP\<rparr>, 0))))"
proof -
  have c: "tclk example_timer = 100" by (simp add: example_timer_def)
  have n: "\<not> timer_ok (example_timer\<lparr>tstate := CIAT_STEP\<rparr>)" "timer_ok (example_timer\<lparr>tstate := 0\<rparr>)"
    by (simp_all add: timer_ok_def CIAT_defs)
  have "(CIAT_STEP AND NOT CIAT_STEP :: word16) = 0" "(CIAT_STEP AND CIAT_STEP :: word16) \<noteq> 0" by (simp_all add: CIAT_defs)
  then show ?thesis
    using ciat_update_exact[of example_timer 1000] ciat_update_exact[of "example_timer\<lparr>tstate := CIAT_STEP\<rparr>" 1000]
      example_timer_ok n c by (simp add: word_le_nat_alt Let_def) blast
qed

text \<open>
  C11: setting the alarm ends, and predicts exactly: the alarm is set for the first cycle in which the
  timer underflows, and unset, with \<open>CLOCK_MAX\<close> in \<open>alarmclk\<close>, when it would never underflow.
\<close>

theorem ciat_set_alarm_exact:
  assumes "timer_ok s"
  shows "\<exists>r. ciat_set_alarm (s, c) = Some (s\<lparr>alarmclk := r\<rparr>, if r \<noteq> CLOCK_MAX then alarm_set (talarm s) r c else alarm_unset (talarm s) c)
    \<and> ((\<exists>k\<le>65539. underflows k s > 0 \<and> (\<forall>i<k. underflows i s = 0) \<and> r = tclk s + of_nat k)
       \<or> r = CLOCK_MAX \<and> (\<forall>k. underflows k s = 0))"
proof -
  obtain r where r: "next_underflow s = Some r" "predicts 65539 s r" using next_underflow_exact[OF assms] by blast
  then show ?thesis by (intro exI[of _ r]) (auto simp: ciat_set_alarm_def predicts_def first_underflow_def)
qed

theorem ciat_set_alarm_exact_witness:
  "\<exists>r. ciat_set_alarm (example_timer, example_one) = Some (example_timer\<lparr>alarmclk := r\<rparr>,
        if r \<noteq> CLOCK_MAX then alarm_set (talarm example_timer) r example_one else alarm_unset (talarm example_timer) example_one)
    \<and> ((\<exists>k\<le>65539. underflows k example_timer > 0 \<and> (\<forall>i<k. underflows i example_timer = 0) \<and> r = tclk example_timer + of_nat k)
       \<or> r = CLOCK_MAX \<and> (\<forall>k. underflows k example_timer = 0))"
  using example_timer_ok(1) by (rule ciat_set_alarm_exact)

text \<open>
  C12: a whole history of writes to a timer, each at a later clock than the one before, leaves the lazy
  timer and the timer clocked cycle by cycle in the same state, with the same pending alarms.
\<close>

theorem timer_histories_agree:
  assumes "schedule (tclk s) ws" "timer_ok s"
  shows "\<exists>s' r' c'. lazy_run ws (s, c) = Some (s', c') \<and> cycle_run ws (s, c) = Some (r', c')
    \<and> uncount (s', 0) = uncount (r', 0)"
  using history_same[OF assms, of s c] by (simp add: same_timer_def)

theorem timer_histories_agree_witness:
  "\<exists>s' r' c'. lazy_run [(150, LatchLo 7), (170, Ctrl 0x11), (190, Step)] (example_timer, example_one) = Some (s', c')
    \<and> cycle_run [(150, LatchLo 7), (170, Ctrl 0x11), (190, Step)] (example_timer, example_one) = Some (r', c')
    \<and> uncount (s', 0) = uncount (r', 0)"
  by (rule timer_histories_agree) (simp_all add: example_timer_ok word_less_nat_alt)

lemma funpow_2: "(f ^^ 2) x = f (f x)"
  by (simp add: numeral_2_eq_2)

lemma stale_step_values: "not_counting 0x004" "\<not> warp_counting 0x004" "ciat_table 0x004 = 0" "ciat_table 0x005 = 0x041"
  "ciat_table 0x041 = 0x801"
  by (simp_all add: not_counting_bits warp_counting_bits state_eq bit_ciat_table)

text \<open>
  A pulse and a stop in the same cycle leave \<open>CIAT_STEP\<close> behind. The jump over the stopped time
  keeps it, where a single cycle drops it, so the timer counts the old pulse when it is started again.
\<close>

theorem stale_step_counts:
  assumes "tstate s = CIAT_CR_START" "1 < cnt s" "tclk s < k"
  shows "\<exists>s1 c1 s2 c2 s3 s4 c4. ciat_single_step (s, c) = Some (s1, c1) \<and> ciat_set_ctrl 0x20 (s1, c1) = Some (s2, c2)
    \<and> tstate (fst (ciat_cycle (s2, 0))) AND CIAT_STEP = 0
    \<and> ciat_update s2 k = Some (s3, 0) \<and> tstate s3 AND CIAT_STEP \<noteq> 0
    \<and> ciat_set_ctrl 0x21 (s3, c2) = Some (s4, c4) \<and> cnt (fst ((ciat_cycle ^^ 2) (s4, 0))) = cnt s - 1"
proof -
  have c: "cnt s \<noteq> 0" "cnt s - 1 \<noteq> 0" using assms(2) by auto
  have t: "tstate s = 1" using assms(1) by (simp add: CIAT_defs)
  have "timer_ok (s\<lparr>tstate := 0x005\<rparr>)" by (simp add: timer_ok_def CIAT_defs)
  from next_underflow_exact[OF this] obtain r where r: "ciat_next_underflow (latch s) (tclk s) (cnt s) 0x005 = Some r" by auto
  let ?s1 = "s\<lparr>tstate := 0x005, alarmclk := r\<rparr>"
  obtain c1 where c1: "ciat_single_step (s, c) = Some (?s1, c1)"
    using r by (simp add: ciat_single_step_def ciat_set_alarm_def t CIAT_defs)
  let ?s2 = "s\<lparr>tstate := 0x004, alarmclk := CLOCK_MAX\<rparr>"
  have n4: "ciat_next_underflow l a v 0x004 = Some CLOCK_MAX" for l a v
    by (subst ciat_next_underflow.simps) (simp add: stale_step_values)
  obtain c2 where c2: "ciat_set_ctrl 0x20 (?s1, c1) = Some (?s2, c2)"
    by (simp add: ciat_set_ctrl_def ciat_set_alarm_def n4 CIAT_defs)
  let ?s3 = "?s2\<lparr>tclk := k\<rparr>"
  have "ciat_tail (ciat_jump k (?s2, 0)) = (?s3, 0)"
    by (simp add: ciat_jump_def ciat_tail_def stale_step_values CIAT_defs)
  then have s3: "ciat_update ?s2 k = Some (?s3, 0)" unfolding ciat_update_def
    using assms(3) by (simp add: update_loop_step update_loop_end)
  have "timer_ok (?s3\<lparr>tstate := 0x005\<rparr>)" by (simp add: timer_ok_def CIAT_defs)
  from next_underflow_exact[OF this] obtain q where q: "ciat_next_underflow (latch s) k (cnt s) 0x005 = Some q" by auto
  let ?s4 = "?s3\<lparr>tstate := 0x005, alarmclk := q\<rparr>"
  obtain c4 where c4: "ciat_set_ctrl 0x21 (?s3, c2) = Some (?s4, c4)"
    using q by (simp add: ciat_set_ctrl_def ciat_set_alarm_def CIAT_defs)
  have run: "cnt (fst ((ciat_cycle ^^ 2) (?s4, 0))) = cnt s - 1"
    using c by (simp add: funpow_2 ciat_cycle_def ciat_inc_def ciat_tail_def stale_step_values CIAT_defs)
  show ?thesis using c1 c2 s3 c4 run
    by (intro exI[of _ ?s1] exI[of _ c1] exI[of _ ?s2] exI[of _ c2] exI[of _ ?s3] exI[of _ ?s4] exI[of _ c4])
      (simp add: ciat_cycle_def ciat_inc_def ciat_tail_def stale_step_values CIAT_defs)
qed

definition example_stepped :: ciat_t where
  "example_stepped = \<lparr>tstate = CIAT_CR_START, latch = 9, cnt = 5, alarmclk = CLOCK_MAX, tclk = 100, talarm = 0\<rparr>"

theorem stale_step_counts_witness:
  "\<exists>s1 c1 s2 c2 s3 s4 c4. ciat_single_step (example_stepped, example_one) = Some (s1, c1) \<and> ciat_set_ctrl 0x20 (s1, c1) = Some (s2, c2)
    \<and> tstate (fst (ciat_cycle (s2, 0))) AND CIAT_STEP = 0
    \<and> ciat_update s2 200 = Some (s3, 0) \<and> tstate s3 AND CIAT_STEP \<noteq> 0
    \<and> ciat_set_ctrl 0x21 (s3, c2) = Some (s4, c4) \<and> cnt (fst ((ciat_cycle ^^ 2) (s4, 0))) = cnt example_stepped - 1"
  by (rule stale_step_counts) (simp_all add: example_stepped_def word_less_nat_alt)

end
