(* ===== verification/Gcr.thy ===== *)
theory Gcr
  imports Prelude
begin

text \<open>
  The group code of the disk drives, \<open>gcr.c\<close>: four bytes become five, sectors are written between
  sync marks, and are found and read again at any bit position of a circular track. A track is the
  list of its bytes; access beyond it is \<open>None\<close>.
\<close>

subsection \<open>The code\<close>

definition GCR_conv_data :: "byte list" where
  "GCR_conv_data =
     [0x0a, 0x0b, 0x12, 0x13,
      0x0e, 0x0f, 0x16, 0x17,
      0x09, 0x19, 0x1a, 0x1b,
      0x0d, 0x1d, 0x1e, 0x15]"

definition From_GCR_conv_data :: "byte list" where
  "From_GCR_conv_data =
     [0, 0, 0, 0, 0, 0, 0, 0,
      0, 8, 0, 1, 0, 12, 4, 5,
      0, 0, 2, 3, 0, 15, 6, 7,
      0, 9, 10, 11, 0, 13, 14, 0]"

text \<open>The loops pair each byte with the shift \<open>i\<close> of the loop header.\<close>

fun to_GCR_loop :: "(nat \<times> byte) list \<Rightarrow> dword \<Rightarrow> byte list" where
  "to_GCR_loop [] tdest = [ucast tdest]"
| "to_GCR_loop ((i, b) # r) tdest =
     (let t1 = push_bit 5 tdest OR ucast (GCR_conv_data ! unat (drop_bit 4 b));
          t2 = push_bit 5 t1 OR ucast (GCR_conv_data ! unat (b AND 0x0F))
      in ucast (drop_bit i t2) # to_GCR_loop r t2)"

definition gcr_convert_4bytes_to_GCR :: "byte list \<Rightarrow> byte list" where
  "gcr_convert_4bytes_to_GCR source = to_GCR_loop (zip [2, 4, 6, 8] source) 0"

fun from_GCR_loop :: "(nat \<times> byte) list \<Rightarrow> dword \<Rightarrow> byte list" where
  "from_GCR_loop [] tdest = []"
| "from_GCR_loop ((i, b) # r) tdest =
     (let t1 = tdest OR push_bit i (ucast b);
          hi = push_bit 4 (From_GCR_conv_data ! unat (drop_bit 16 t1 AND 0x1F));
          t2 = push_bit 5 t1;
          lo = From_GCR_conv_data ! unat (drop_bit 16 t2 AND 0x1F)
      in (hi OR lo) # from_GCR_loop r (push_bit 5 t2))"

definition gcr_convert_GCR_to_4bytes :: "byte list \<Rightarrow> byte list" where
  "gcr_convert_GCR_to_4bytes source = from_GCR_loop (zip [5, 7, 9, 11] (tl source)) (push_bit 13 (ucast (hd source)))"

definition CBMDOS_FDC_ERR_OK :: int where "CBMDOS_FDC_ERR_OK = 1"
definition CBMDOS_FDC_ERR_HEADER :: int where "CBMDOS_FDC_ERR_HEADER = 2"
definition CBMDOS_FDC_ERR_SYNC :: int where "CBMDOS_FDC_ERR_SYNC = 3"
definition CBMDOS_FDC_ERR_NOBLOCK :: int where "CBMDOS_FDC_ERR_NOBLOCK = 4"
definition CBMDOS_FDC_ERR_DCHECK :: int where "CBMDOS_FDC_ERR_DCHECK = 5"
definition CBMDOS_FDC_ERR_HCHECK :: int where "CBMDOS_FDC_ERR_HCHECK = 9"
definition CBMDOS_FDC_ERR_ID :: int where "CBMDOS_FDC_ERR_ID = 11"

lemmas fdc_defs = CBMDOS_FDC_ERR_OK_def CBMDOS_FDC_ERR_HEADER_def CBMDOS_FDC_ERR_SYNC_def CBMDOS_FDC_ERR_NOBLOCK_def
  CBMDOS_FDC_ERR_DCHECK_def CBMDOS_FDC_ERR_HCHECK_def CBMDOS_FDC_ERR_ID_def

record gcr_header_t =
  h_sector :: byte
  h_track :: byte
  h_id2 :: byte
  h_id1 :: byte

text \<open>Four bytes at a time, as the loops over a sector do.\<close>

fun gcr_encode :: "byte list \<Rightarrow> byte list" where
  "gcr_encode (a # b # c # d # r) = gcr_convert_4bytes_to_GCR [a, b, c, d] @ gcr_encode r"
| "gcr_encode _ = []"

text \<open>Writing \<open>bs\<close> at an offset of the buffer; \<open>None\<close> beyond its end.\<close>

definition put_at :: "nat \<Rightarrow> byte list \<Rightarrow> byte list \<Rightarrow> byte list option" where
  "put_at off bs raw = (if off + length bs \<le> length raw then Some (take off raw @ bs @ drop (off + length bs) raw) else None)"

definition xor_bytes :: "byte list \<Rightarrow> byte \<Rightarrow> byte" where
  "xor_bytes bs c = fold (\<lambda>b c. c XOR b) bs c"

definition sync_byte :: "int \<Rightarrow> byte" where
  "sync_byte e = (if e = CBMDOS_FDC_ERR_SYNC then 0x55 else 0xFF)"

text \<open>The header block, and the data block: its first byte, the 256 bytes of the sector, their checksum, two zeros.\<close>

definition header_block :: "gcr_header_t \<Rightarrow> int \<Rightarrow> byte list" where
  "header_block h e =
     (let idm = (if e = CBMDOS_FDC_ERR_ID then 0xFF else 0x00);
          chksum = (if e = CBMDOS_FDC_ERR_HCHECK then 0xFF else 0x00)
            XOR (h_sector h XOR h_track h XOR h_id2 h XOR h_id1 h XOR idm)
      in [if e = CBMDOS_FDC_ERR_HEADER then 0xFF else 0x08, chksum, h_sector h, h_track h, h_id2 h, h_id1 h XOR idm, 0x0F, 0x0F])"

definition data_block :: "byte list \<Rightarrow> int \<Rightarrow> byte list" where
  "data_block buffer e =
     (let chksum = xor_bytes (take 255 buffer) (if e = CBMDOS_FDC_ERR_DCHECK then 0xFF else 0x00)
      in (if e = CBMDOS_FDC_ERR_NOBLOCK then 0x00 else 0x07) # take 255 buffer @ [buffer ! 255, chksum XOR buffer ! 255, 0, 0])"

definition gcr_convert_sector_to_GCR ::
    "byte list \<Rightarrow> byte list \<Rightarrow> nat \<Rightarrow> gcr_header_t \<Rightarrow> nat \<Rightarrow> nat \<Rightarrow> int \<Rightarrow> byte list option" where
  "gcr_convert_sector_to_GCR buffer raw data h gap sync e =
     Option.bind (put_at data (replicate 5 (sync_byte e) @ gcr_encode (header_block h e)) raw)
       (put_at (data + 15 + gap) (replicate sync (sync_byte e) @ gcr_encode (data_block buffer e)))"

subsection \<open>Finding and reading sectors\<close>

definition data_at :: "byte list \<Rightarrow> int \<Rightarrow> byte option" where
  "data_at raw i = (if 0 \<le> i \<and> nat i < length raw then Some (raw ! nat i) else None)"

fun find_sync_loop :: "byte list \<Rightarrow> dword \<Rightarrow> dword \<Rightarrow> int \<Rightarrow> nat \<Rightarrow> int option" where
  "find_sync_loop raw w b p 0 = Some (- CBMDOS_FDC_ERR_SYNC)"
| "find_sync_loop raw w b p (Suc s) =
     (if b AND 0x80 = 0 \<and> NOT w AND 0x3FF = 0 then Some p
      else
        (let w' = (if b AND 0x80 \<noteq> 0 then push_bit 1 w OR 1 else push_bit 1 w)
         in if NOT p AND 7 \<noteq> 0 then find_sync_loop raw w' (push_bit 1 b) (p + 1) s
            else
              (let p' = (if p + 1 \<ge> int (length raw) * 8 then 0 else p + 1)
               in case data_at raw (drop_bit 3 p') of None \<Rightarrow> None | Some d \<Rightarrow> find_sync_loop raw w' (ucast d) p' s)))"

definition gcr_find_sync :: "byte list \<Rightarrow> int \<Rightarrow> nat \<Rightarrow> int option" where
  "gcr_find_sync raw p s =
     (if raw = [] then Some (- CBMDOS_FDC_ERR_SYNC)
      else case data_at raw (drop_bit 3 p) of None \<Rightarrow> None
           | Some d \<Rightarrow> find_sync_loop raw 0 (push_bit (nat (p AND 7)) (ucast d)) p s)"

fun gather :: "byte list \<Rightarrow> nat \<Rightarrow> nat \<Rightarrow> int \<times> byte \<Rightarrow> (byte list \<times> int \<times> byte) option" where
  "gather raw shift 0 (off, b) = Some ([], off, b)"
| "gather raw shift (Suc j) (off, b) =
     (let off' = (if off + 1 \<ge> int (length raw) then 0 else off + 1)
      in case data_at raw off' of None \<Rightarrow> None
         | Some d \<Rightarrow>
             (let (g, b') = (if shift \<noteq> 0 then (b OR ucast (drop_bit 8 (push_bit shift (ucast d :: dword))), push_bit shift d) else (b, d))
              in map_option (\<lambda>(gs, r). (g # gs, r)) (gather raw shift j (off', b'))))"

fun decode_loop :: "byte list \<Rightarrow> nat \<Rightarrow> nat \<Rightarrow> int \<times> byte \<Rightarrow> byte list option" where
  "decode_loop raw shift 0 ob = Some []"
| "decode_loop raw shift (Suc num) ob =
     Option.bind (gather raw shift 5 ob)
       (\<lambda>(gcr, ob'). map_option (\<lambda>r. gcr_convert_GCR_to_4bytes gcr @ r) (decode_loop raw shift num ob'))"

definition gcr_decode_block :: "byte list \<Rightarrow> int \<Rightarrow> nat \<Rightarrow> byte list option" where
  "gcr_decode_block raw p num =
     (let shift = nat (p AND 7)
      in Option.bind (data_at raw (drop_bit 3 p)) (\<lambda>d. decode_loop raw shift num (drop_bit 3 p, push_bit shift d)))"

text \<open>
  The search for a header. The outer \<open>None\<close> is a search that does not end, \<open>Some None\<close> one that reads
  outside the track.
\<close>

partial_function (option) find_header_loop :: "byte list \<Rightarrow> byte \<Rightarrow> int \<Rightarrow> int \<Rightarrow> int option option" where
  "find_header_loop raw sector p p2 =
     (case gcr_find_sync raw p (length raw * 8) of None \<Rightarrow> Some None
      | Some p' \<Rightarrow>
          if p2 = p' then Some (Some (if p2 < 0 then p2 else - CBMDOS_FDC_ERR_HEADER))
          else
            (case gcr_decode_block raw p' 1 of None \<Rightarrow> Some None
             | Some header \<Rightarrow>
                 if header ! 0 = 0x08 \<and> header ! 2 = sector then Some (Some p')
                 else find_header_loop raw sector p' (if p2 < 0 then p' else p2)))"

definition gcr_find_sector_header :: "byte list \<Rightarrow> byte \<Rightarrow> int option option" where
  "gcr_find_sector_header raw sector = find_header_loop raw sector 0 (- CBMDOS_FDC_ERR_SYNC)"

text \<open>The position behind the sync mark of the data block, common to reading and writing; an error is negative.\<close>

definition find_data_block :: "byte list \<Rightarrow> byte \<Rightarrow> int option option" where
  "find_data_block raw sector =
     (case gcr_find_sector_header raw sector of
        Some (Some p) \<Rightarrow> if p < 0 then Some (Some p) else Some (gcr_find_sync raw p (500 * 8))
      | r \<Rightarrow> r)"

definition gcr_read_sector :: "byte list \<Rightarrow> byte list \<Rightarrow> byte \<Rightarrow> (int \<times> byte list) option option" where
  "gcr_read_sector raw data sector =
     (case find_data_block raw sector of None \<Rightarrow> None | Some None \<Rightarrow> Some None
      | Some (Some p) \<Rightarrow>
          if p < 0 then Some (Some (- p, data))
          else
            (case gcr_decode_block raw p 65 of None \<Rightarrow> Some None
             | Some buffer \<Rightarrow>
                 (let data' = take 256 (drop 1 buffer); b = xor_bytes data' (buffer ! 257)
                  in Some (Some (if buffer ! 0 \<noteq> 0x07 then CBMDOS_FDC_ERR_NOBLOCK
                                 else if b \<noteq> 0 then CBMDOS_FDC_ERR_DCHECK else CBMDOS_FDC_ERR_OK, data')))))"

definition put_gcr_byte :: "nat \<Rightarrow> byte \<Rightarrow> byte list \<times> nat \<times> byte \<Rightarrow> byte list \<times> nat \<times> byte" where
  "put_gcr_byte shift g = (\<lambda>(raw, off, b).
     (let (v, b') = (if shift \<noteq> 0 then (b OR drop_bit shift g, ucast (drop_bit shift (push_bit 8 (ucast g :: dword)))) else (g, b))
      in (raw[off := v], if off + 1 \<ge> length raw then 0 else off + 1, b')))"

definition write_block :: "byte list \<Rightarrow> int \<Rightarrow> byte list \<Rightarrow> byte list" where
  "write_block raw p buffer =
     (let shift = nat (p AND 7); off = nat (drop_bit 3 p);
          (raw', off', b) = fold (put_gcr_byte shift) (gcr_encode buffer)
            (raw, off, raw ! off AND ucast (drop_bit shift (0xFF00 :: dword)))
      in raw'[off' := b OR (raw' ! off' AND ucast (drop_bit shift (0xFF :: dword)))])"

definition gcr_write_sector :: "byte list \<Rightarrow> byte list \<Rightarrow> byte \<Rightarrow> (int \<times> byte list) option option" where
  "gcr_write_sector raw data sector =
     (case find_data_block raw sector of None \<Rightarrow> None | Some None \<Rightarrow> Some None
      | Some (Some p) \<Rightarrow>
          if p < 0 then Some (Some (- p, raw))
          else Some (Some (CBMDOS_FDC_ERR_OK,
                 write_block raw p (0x07 # data @ [xor_bytes (take 255 (drop 1 data)) (data ! 0), 0, 0]))))"

subsection \<open>Bits of the code\<close>

definition byte_bits :: "byte \<Rightarrow> bool list" where
  "byte_bits b = [bit b 7, bit b 6, bit b 5, bit b 4, bit b 3, bit b 2, bit b 1, bit b 0]"

definition bytes_bits :: "byte list \<Rightarrow> bool list" where
  "bytes_bits bs = concat (map byte_bits bs)"

definition code_bits :: "nat \<Rightarrow> bool list" where
  "code_bits n = (let c = GCR_conv_data ! n in [bit c 4, bit c 3, bit c 2, bit c 1, bit c 0])"

definition nibbles :: "byte list \<Rightarrow> nat list" where
  "nibbles bs = concat (map (\<lambda>b. [unat (drop_bit 4 b), unat (b AND 0x0F)]) bs)"

lemma unat_nibble: "unat (drop_bit 4 (b::byte)) < 16" "unat ((b::byte) AND 0x0F) < 16"
  using unat_byte_less[of b] nat_and_field[of "unat b" 0 4]
  by (simp_all add: unat_drop_bit_eq drop_bit_eq_div unsigned_and_eq mask_eq_exp_minus_1 unat_div_distrib del: unat_byte_less)

lemma length_GCR_conv_data [simp]: "length GCR_conv_data = 16"
  by (simp add: GCR_conv_data_def)

lemma conv_bit: "n < 16 \<Longrightarrow> 5 \<le> k \<Longrightarrow> \<not> bit (GCR_conv_data ! n) k"
proof -
  assume n: "n < 16" and k: "5 \<le> k"
  have "\<forall>c\<in>set GCR_conv_data. c AND 0x1F = c" by (simp add: GCR_conv_data_def)
  moreover have "GCR_conv_data ! n \<in> set GCR_conv_data" using n by simp
  ultimately have "GCR_conv_data ! n = GCR_conv_data ! n AND mask 5" by (simp add: mask_eq_exp_minus_1)
  then show ?thesis using k by (metis bit_and_iff bit_mask_iff not_less)
qed

lemma code_length [simp]: "length (code_bits n) = 5"
  by (simp add: code_bits_def Let_def)

lemma to_GCR_bits:
  "bytes_bits (gcr_convert_4bytes_to_GCR [a, b, c, d]) = concat (map code_bits (nibbles [a, b, c, d]))"
proof -
  define c0 c1 c2 c3 c4 c5 c6 c7 where c: "c0 = GCR_conv_data ! unat (drop_bit 4 a)" "c1 = GCR_conv_data ! unat (a AND 0x0F)"
    "c2 = GCR_conv_data ! unat (drop_bit 4 b)" "c3 = GCR_conv_data ! unat (b AND 0x0F)"
    "c4 = GCR_conv_data ! unat (drop_bit 4 c)" "c5 = GCR_conv_data ! unat (c AND 0x0F)"
    "c6 = GCR_conv_data ! unat (drop_bit 4 d)" "c7 = GCR_conv_data ! unat (d AND 0x0F)"
  have z: "\<not> bit c0 k" "\<not> bit c1 k" "\<not> bit c2 k" "\<not> bit c3 k" "\<not> bit c4 k" "\<not> bit c5 k" "\<not> bit c6 k" "\<not> bit c7 k" if "5 \<le> k" for k
    unfolding c using conv_bit[OF _ that] unat_nibble by blast+
  show ?thesis
    unfolding gcr_convert_4bytes_to_GCR_def nibbles_def bytes_bits_def byte_bits_def code_bits_def Let_def
    by (simp add: Let_def c[symmetric] bit_simps z)
qed

definition val :: "bool list \<Rightarrow> nat" where
  "val bs = foldl (\<lambda>v b. 2 * v + of_bool b) 0 bs"

text \<open>The decoder reads the bits in groups of five.\<close>

fun fives :: "bool list \<Rightarrow> bool list list" where
  "fives (a # b # c # d # e # r) = [a, b, c, d, e] # fives r"
| "fives _ = []"

fun pairs :: "nat list \<Rightarrow> byte list" where
  "pairs (h # l # r) = (push_bit 4 (From_GCR_conv_data ! h) OR From_GCR_conv_data ! l) # pairs r"
| "pairs _ = []"

lemma group_val: "unat (drop_bit 16 (t::dword) AND 0x1F) = val [bit t 20, bit t 19, bit t 18, bit t 17, bit t 16]"
proof -
  have "unat (drop_bit 16 t AND 0x1F) = unat t div 65536 mod 32"
    using nat_and_field[of "unat t div 65536" 0 5]
    by (simp add: unsigned_and_eq mask_eq_exp_minus_1 unat_drop_bit_eq drop_bit_eq_div unat_div_distrib)
  also have "\<dots> = val [bit t 20, bit t 19, bit t 18, bit t 17, bit t 16]"
  proof -
    have "n mod 32 = val [odd (n div 16), odd (n div 8), odd (n div 4), odd (n div 2), odd n]" for n :: nat
    proof -
      have "n mod 32 = n mod 2 + 2 * (n div 2 mod 2) + 4 * (n div 4 mod 2) + 8 * (n div 8 mod 2) + 16 * (n div 16 mod 2)"
        using mod_mult2_eq[of n 2 16] mod_mult2_eq[of "n div 2" 2 8] mod_mult2_eq[of "n div 4" 2 4] mod_mult2_eq[of "n div 8" 2 2]
        by (simp add: div_mult2_eq[symmetric])
      then show ?thesis by (simp add: val_def mod_2_eq_odd)
    qed
    from this[of "unat t div 65536"] show ?thesis by (simp add: bit_word_nat div_mult2_eq[symmetric])
  qed
  finally show ?thesis .
qed

lemma from_GCR_bits:
  "gcr_convert_GCR_to_4bytes [g0, g1, g2, g3, g4] = pairs (map val (fives (bytes_bits [g0, g1, g2, g3, g4])))"
proof -
  have z: "\<not> bit (g::byte) k" if "8 \<le> k" for g k using that by (auto dest: bit_imp_le_length)
  show ?thesis
    unfolding gcr_convert_GCR_to_4bytes_def bytes_bits_def byte_bits_def
    by (simp add: Let_def group_val bit_simps z)
qed

lemma val_code: "n < 16 \<Longrightarrow> From_GCR_conv_data ! val (code_bits n) = of_nat n"
proof -
  assume "n < 16"
  then have "n \<in> {0,1,2,3,4,5,6,7,8,9,10,11,12,13,14,15}" by (simp add: numeral_eq_Suc less_Suc_eq)
  then show ?thesis
    by (elim insertE emptyE) (simp_all add: val_def code_bits_def GCR_conv_data_def From_GCR_conv_data_def)
qed

lemma fives_codes: "fives (concat (map code_bits ns)) = map code_bits ns"
  by (induction ns) (simp_all add: code_bits_def Let_def)

lemma nibbles_bound: "n \<in> set (nibbles bs) \<Longrightarrow> n < 16"
  by (auto simp: nibbles_def unat_nibble)

lemma byte_of_nibbles: "push_bit 4 (of_nat (unat (drop_bit 4 b))) OR of_nat (unat ((b::byte) AND 0x0F)) = b"
proof -
  have m: "(0x0F::byte) = mask 4" by (simp add: mask_eq_exp_minus_1)
  have "push_bit 4 (drop_bit 4 b) OR b AND mask 4 = b" by (rule bit_word_eqI) (auto simp: bit_simps)
  then show ?thesis unfolding m by simp
qed

lemma pairs_nibbles: "pairs (map (\<lambda>n. val (code_bits n)) (nibbles bs)) = bs"
proof (induction bs)
  case (Cons b bs)
  then show ?case using byte_of_nibbles[of b] by (simp add: nibbles_def val_code unat_nibble)
qed (simp add: nibbles_def)

lemma gcr_length: "length (gcr_convert_4bytes_to_GCR [a, b, c, d]) = 5"
  by (simp add: gcr_convert_4bytes_to_GCR_def Let_def)

lemma convert_back:
  assumes "bytes_bits gs = concat (map code_bits (nibbles [a, b, c, d]))" "length gs = 5"
  shows "gcr_convert_GCR_to_4bytes gs = [a, b, c, d]"
proof -
  obtain g0 g1 g2 g3 g4 where g: "gs = [g0, g1, g2, g3, g4]" using assms(2) by (auto simp: length_Suc_conv numeral_eq_Suc)
  show ?thesis using assms(1) unfolding g from_GCR_bits by (simp only: fives_codes map_map comp_def pairs_nibbles)
qed

subsection \<open>A track as a circle of bits\<close>

definition tbit :: "byte list \<Rightarrow> nat \<Rightarrow> bool" where
  "tbit raw i = bit (raw ! (i div 8)) (7 - i mod 8)"

lemma bytes_bits_simps [simp]: "bytes_bits [] = []" "bytes_bits (b # bs) = byte_bits b @ bytes_bits bs"
  "bytes_bits (xs @ ys) = bytes_bits xs @ bytes_bits ys"
  by (simp_all add: bytes_bits_def)

lemma length_byte_bits [simp]: "length (byte_bits b) = 8"
  by (simp add: byte_bits_def)

lemma length_bytes_bits [simp]: "length (bytes_bits bs) = 8 * length bs"
  by (induction bs) simp_all

lemma nth_byte_bits: "k < 8 \<Longrightarrow> byte_bits b ! k = bit b (7 - k)"
  by (simp add: byte_bits_def numeral_eq_Suc less_Suc_eq) auto

lemma nth_bytes_bits: "i < 8 * length bs \<Longrightarrow> bytes_bits bs ! i = tbit bs i"
proof (induction bs arbitrary: i)
  case (Cons b bs)
  show ?case
  proof (cases "i < 8")
    case False
    then have "bytes_bits (b # bs) ! i = tbit bs (i - 8)" using Cons by (simp add: nth_append)
    also have "\<dots> = tbit (b # bs) i"
    proof -
      have "i div 8 = Suc ((i - 8) div 8)" "(i - 8) mod 8 = i mod 8" using False by (simp_all add: div_if[of i] mod_if[of i])
      then show ?thesis by (simp add: tbit_def)
    qed
    finally show ?thesis .
  qed (simp add: nth_append nth_byte_bits tbit_def)
qed simp

text \<open>The search for a sync mark counts the ones just read.\<close>

fun scan :: "bool list \<Rightarrow> nat \<Rightarrow> nat option" where
  "scan [] c = None"
| "scan (x # xs) c = (if \<not> x \<and> 10 \<le> c then Some 0 else map_option Suc (scan xs (if x then c + 1 else 0)))"

fun run_after :: "bool list \<Rightarrow> nat \<Rightarrow> nat" where
  "run_after [] c = c"
| "run_after (x # xs) c = run_after xs (if x then c + 1 else 0)"

lemma scan_append: "scan (xs @ ys) c = (case scan xs c of Some k \<Rightarrow> Some k
    | None \<Rightarrow> (case scan ys (run_after xs c) of None \<Rightarrow> None | Some k \<Rightarrow> Some (length xs + k)))"
  by (induction xs arbitrary: c) (auto split: option.splits)

lemma run_after_append: "run_after (xs @ ys) c = run_after ys (run_after xs c)"
  by (induction xs arbitrary: c) simp_all

lemma scan_mono: "scan xs d = None \<Longrightarrow> c \<le> d \<Longrightarrow> scan xs c = None"
  by (induction xs arbitrary: c d) (auto split: if_splits)

definition low_ones :: "dword \<Rightarrow> nat \<Rightarrow> bool" where
  "low_ones w c \<longleftrightarrow> (\<forall>j\<le>10. (\<forall>i<j. bit w i) \<longleftrightarrow> j \<le> c)"

lemma low_ones_0: "low_ones 0 0"
  by (auto simp: low_ones_def)

lemma low_ones_shift:
  assumes "low_ones w c"
  shows "low_ones (push_bit 1 w OR 1) (c + 1)" "low_ones (push_bit 1 w) 0"
proof -
  have "bit (push_bit n w OR 1) i \<longleftrightarrow> i = 0 \<or> n \<le> i \<and> bit w (i - n)" if "i < 10" for i n
    using that by (auto simp: bit_or_iff bit_push_bit_iff bit_1_iff)
  from this[of _ 1] have b1: "bit (push_bit 1 w OR 1) i \<longleftrightarrow> i = 0 \<or> bit w (i - 1)" if "i < 10" for i using that by auto
  have "(\<forall>i<j. bit (push_bit 1 w OR 1) i) \<longleftrightarrow> j \<le> c + 1" if j: "j \<le> 10" for j
  proof (cases j)
    case (Suc k)
    have "(\<forall>i<Suc k. bit (push_bit 1 w OR 1) i) \<longleftrightarrow> (\<forall>i<Suc k. i = 0 \<or> bit w (i - 1))" using b1 j Suc by auto
    also have "\<dots> \<longleftrightarrow> (\<forall>i<k. bit w i)" by (auto simp: less_Suc_eq_0_disj)
    also have "\<dots> \<longleftrightarrow> k \<le> c" using assms j Suc unfolding low_ones_def by simp
    finally show ?thesis using Suc by simp
  qed simp
  then show "low_ones (push_bit 1 w OR 1) (c + 1)" by (simp add: low_ones_def)
  have "\<not> bit (push_bit (Suc n) w) 0" for n by (simp only: bit_push_bit_iff) simp
  from this[of 0] have "\<not> bit (push_bit 1 w) 0" by simp
  then have "(\<forall>i<j. bit (push_bit 1 w) i) \<longleftrightarrow> j = 0" for j by (metis gr0I not_less0)
  then show "low_ones (push_bit 1 w) 0" by (simp add: low_ones_def)
qed

lemma low_ones_test: "low_ones w c \<Longrightarrow> NOT w AND 0x3FF = 0 \<longleftrightarrow> 10 \<le> c"
proof -
  assume w: "low_ones w c"
  have m: "(0x3FF::dword) = mask 10" by (simp add: mask_eq_exp_minus_1)
  have "NOT w AND mask 10 = 0 \<longleftrightarrow> (\<forall>i<32. i < 10 \<longrightarrow> bit w i)"
    by (auto simp: bit_eq_iff bit_simps)
  moreover have "(\<forall>i<32. i < 10 \<longrightarrow> bit w i) \<longleftrightarrow> (\<forall>i<10. bit w i)" by (intro iffI allI impI) simp_all
  ultimately have "NOT w AND 0x3FF = 0 \<longleftrightarrow> (\<forall>i<10. bit w i)" unfolding m by simp
  then show ?thesis using w unfolding low_ones_def by (metis order_refl)
qed

definition track_from :: "byte list \<Rightarrow> nat \<Rightarrow> nat \<Rightarrow> bool list" where
  "track_from raw p s = map (\<lambda>k. tbit raw ((p + k) mod (8 * length raw))) [0..<s]"

lemma track_from_0 [simp]: "track_from raw p 0 = []"
  by (simp add: track_from_def)

lemma wrap_step: "p < n \<Longrightarrow> ((if p + 1 \<ge> n then 0 else p + 1) + k) mod n = (p + Suc k) mod (n::nat)"
proof -
  assume "p < n"
  then consider "p + 1 = n" | "p + 1 < n" by linarith
  then show ?thesis
  proof cases
    case 1
    then have e: "p + Suc k = n + k" by simp
    show ?thesis unfolding e using 1 by simp
  qed simp
qed

lemma track_from_Suc: "p < 8 * length raw \<Longrightarrow> track_from raw p (Suc s)
    = tbit raw p # track_from raw (if p + 1 \<ge> 8 * length raw then 0 else p + 1) s"
  unfolding track_from_def map_upt_Suc by (simp only: wrap_step add_0_right mod_less)

lemma int_low_bits: "NOT (int p) AND 7 \<noteq> 0 \<longleftrightarrow> p mod 8 \<noteq> 7" "nat (int p AND 7) = p mod 8" "drop_bit 3 (int p) = int (p div 8)"
proof -
  have m: "(7::int) = mask 3" by (simp add: mask_eq_exp_minus_1)
  have "NOT (int p) AND 7 = (- int p - 1) mod 8" unfolding m by (simp add: take_bit_eq_mask[symmetric] not_int_def take_bit_eq_mod)
  then show "NOT (int p) AND 7 \<noteq> 0 \<longleftrightarrow> p mod 8 \<noteq> 7" by presburger
  show "nat (int p AND 7) = p mod 8" unfolding m
    by (simp add: take_bit_eq_mask[symmetric] take_bit_eq_mod nat_mod_distrib)
  show "drop_bit 3 (int p) = int (p div 8)" by (simp add: drop_bit_eq_div zdiv_int)
qed

lemma data_at_nat: "i < length raw \<Longrightarrow> data_at raw (int i) = Some (raw ! i)"
  by (simp add: data_at_def)

lemma bit7_test: "b AND 0x80 = 0 \<longleftrightarrow> \<not> bit (b::dword) 7"
proof -
  have "b AND push_bit 7 1 = 0 \<longleftrightarrow> \<not> bit b 7" by (simp add: bit_iff_and_push_bit_not_eq_0)
  then show ?thesis by simp
qed

lemma tbit_shifted: "bit (push_bit (p mod 8) (ucast (raw ! (p div 8))) :: dword) 7 = tbit raw p"
proof -
  have "p mod 8 < 8" by simp
  then have "p mod 8 \<le> 7" "7 - p mod 8 < 32" by linarith+
  then show ?thesis by (simp add: tbit_def bit_push_bit_iff bit_ucast_iff)
qed

lemma find_sync_loop_scan:
  assumes "p < 8 * length raw" "low_ones w c" "b = push_bit (p mod 8) (ucast (raw ! (p div 8)))"
  shows "find_sync_loop raw w b (int p) s = Some (case scan (track_from raw p s) c of None \<Rightarrow> - CBMDOS_FDC_ERR_SYNC
      | Some k \<Rightarrow> int ((p + k) mod (8 * length raw)))"
  using assms
proof (induction s arbitrary: w c b p)
  case (Suc s)
  let ?N = "8 * length raw"
  let ?p = "if p + 1 \<ge> ?N then 0 else p + 1"
  let ?c = "if tbit raw p then c + 1 else 0"
  let ?w = "if b AND 0x80 \<noteq> 0 then push_bit 1 w OR 1 else push_bit 1 w"
  have b: "b AND 0x80 = 0 \<longleftrightarrow> \<not> tbit raw p" unfolding bit7_test Suc.prems(3) tbit_shifted ..
  have w: "low_ones ?w ?c" using low_ones_shift[OF Suc.prems(2)] by (simp add: b)
  have pN: "?p < ?N" using Suc.prems(1) by auto
  have step: "(?p + k) mod ?N = (p + Suc k) mod ?N" for k
    by (rule wrap_step[OF Suc.prems(1)])
  have IH: "find_sync_loop raw ?w (push_bit (?p mod 8) (ucast (raw ! (?p div 8)))) (int ?p) s
      = Some (case scan (track_from raw ?p s) ?c of None \<Rightarrow> - CBMDOS_FDC_ERR_SYNC | Some k \<Rightarrow> int ((p + Suc k) mod ?N))"
    using Suc.IH[OF pN w refl] unfolding step .
  show ?case
  proof (cases "\<not> tbit raw p \<and> 10 \<le> c")
    case True
    then show ?thesis using Suc.prems(1) low_ones_test[OF Suc.prems(2)] by (simp add: b track_from_Suc)
  next
    case False
    have n: "\<not> (b AND 0x80 = 0 \<and> NOT w AND 0x3FF = 0)" using False low_ones_test[OF Suc.prems(2)] by (simp add: b)
    have "find_sync_loop raw w b (int p) (Suc s) = find_sync_loop raw ?w (push_bit (?p mod 8) (ucast (raw ! (?p div 8)))) (int ?p) s"
    proof (cases "p mod 8 = 7")
      case True
      have "?p mod 8 = 0" using True by (simp add: mod_Suc)
      moreover have "data_at raw (drop_bit 3 (int ?p)) = Some (raw ! (?p div 8))"
        unfolding int_low_bits by (rule data_at_nat) (use pN in simp)
      moreover have "(if int p + 1 \<ge> int (length raw) * 8 then 0 else int p + 1) = int ?p" by auto
      ultimately show ?thesis unfolding find_sync_loop.simps(2) if_not_P[OF n] Let_def using True
        by (simp only: int_low_bits if_False simp_thms option.case push_bit_0_id id_apply)
    next
      case False
      have p1: "p + 1 < ?N" "(p + 1) mod 8 = p mod 8 + 1" "(p + 1) div 8 = p div 8" using False Suc.prems(1)
        by presburger+
      have "push_bit 1 b = push_bit ((p + 1) mod 8) (ucast (raw ! ((p + 1) div 8)))"
        unfolding Suc.prems(3) p1 by (simp add: push_bit_push_bit add.commute)
      moreover have "int p + 1 = int ?p" "?p = p + 1" using p1(1) by auto
      ultimately show ?thesis unfolding find_sync_loop.simps(2) if_not_P[OF n] Let_def int_low_bits using False by (simp only: if_True) simp
    qed
    then have "find_sync_loop raw w b (int p) (Suc s)
        = Some (case scan (track_from raw ?p s) ?c of None \<Rightarrow> - CBMDOS_FDC_ERR_SYNC | Some k \<Rightarrow> int ((p + Suc k) mod ?N))"
      by (simp only: IH)
    then show ?thesis unfolding track_from_Suc[OF Suc.prems(1)] scan.simps(2) if_not_P[OF False]
      by (cases "scan (track_from raw ?p s) ?c") (simp_all only: option.map option.case)
  qed
qed simp

lemma gcr_find_sync_scan:
  assumes "p < 8 * length raw"
  shows "gcr_find_sync raw (int p) s = Some (case scan (track_from raw p s) 0 of None \<Rightarrow> - CBMDOS_FDC_ERR_SYNC
      | Some k \<Rightarrow> int ((p + k) mod (8 * length raw)))"
proof -
  have "data_at raw (drop_bit 3 (int p)) = Some (raw ! (p div 8))" unfolding int_low_bits using assms by (intro data_at_nat) simp
  then show ?thesis using assms find_sync_loop_scan[OF assms low_ones_0 refl] by (auto simp: gcr_find_sync_def int_low_bits)
qed

subsection \<open>Reading bytes at any bit position\<close>

definition cbyte :: "byte list \<Rightarrow> nat \<Rightarrow> byte" where
  "cbyte raw q = push_bit (q mod 8) (raw ! (q div 8 mod length raw))
     OR ucast (drop_bit 8 (push_bit (q mod 8) (ucast (raw ! (Suc (q div 8) mod length raw)) :: dword)))"

lemma bits_above_byte: "8 \<le> i \<Longrightarrow> \<not> bit (x::byte) i"
  by (auto dest: bit_imp_le_length)

lemma byte_window:
  assumes "r < 8" "k < 8"
  shows "bit (push_bit r (x::byte) OR ucast (drop_bit 8 (push_bit r (ucast (y::byte) :: dword)))) (7 - k)
    = (if r + k < 8 then bit x (7 - (r + k)) else bit y (15 - (r + k)))"
proof -
  have "bit (push_bit r x) (7 - k) \<longleftrightarrow> r \<le> 7 - k \<and> bit x (7 - k - r)" by (auto simp: bit_push_bit_iff)
  moreover have "bit (ucast (drop_bit 8 (push_bit r (ucast y :: dword))) :: byte) (7 - k) \<longleftrightarrow> bit y (15 - k - r)"
    using assms by (auto simp: bit_ucast_iff bit_drop_bit_eq bit_push_bit_iff)
  moreover have "r + k < 8 \<longleftrightarrow> r \<le> 7 - k" "r + k < 8 \<Longrightarrow> \<not> bit y (15 - k - r)" using assms by (auto intro!: bits_above_byte)
  ultimately show ?thesis unfolding bit_or_iff by (cases "r + k < 8") (simp_all only: if_True if_False simp_thms diff_diff_left add.commute[of k r])
qed

lemma circle_index: "(q + k) mod (8 * n) = 8 * ((q div 8 + (q mod 8 + k) div 8) mod n) + (q mod 8 + k) mod (8::nat)"
proof -
  have e: "(q mod 8 + k) + 8 * (q div 8) = q + k" by simp
  have "((q mod 8 + k) + 8 * (q div 8)) div 8 = q div 8 + (q mod 8 + k) div 8" by (rule div_mult_self2) simp
  then have "(q + k) div 8 = q div 8 + (q mod 8 + k) div 8" unfolding e .
  moreover have "(q + k) mod 8 = (q mod 8 + k) mod 8" by (rule mod_add_left_eq[symmetric])
  ultimately show ?thesis by (simp only: mod_mult2_eq)
qed

lemma small_div_8: "x < 16 \<Longrightarrow> x div 8 = (if x < 8 then 0 else 1)" "x < 16 \<Longrightarrow> x mod 8 = (if x < 8 then x else x - (8::nat))"
  by presburger+

lemma bit_cbyte:
  assumes "raw \<noteq> []" "k < 8"
  shows "bit (cbyte raw q) (7 - k) = tbit raw ((q + k) mod (8 * length raw))"
proof -
  have r: "q mod 8 < 8" by simp
  have "(q mod 8 + k) div 8 = (if q mod 8 + k < 8 then 0 else 1)" "(q mod 8 + k) mod 8 = (if q mod 8 + k < 8 then q mod 8 + k else q mod 8 + k - 8)"
    using small_div_8[of "q mod 8 + k"] add_less_mono[OF r assms(2)] by simp_all
  then show ?thesis unfolding cbyte_def byte_window[OF r assms(2)] tbit_def circle_index by auto
qed

lemma cbyte_aligned: "raw \<noteq> [] \<Longrightarrow> q mod 8 = 0 \<Longrightarrow> cbyte raw q = raw ! (q div 8 mod length raw)"
proof -
  have "drop_bit 8 (ucast (x::byte) :: dword) = 0" for x by (rule bit_word_eqI) (simp add: bit_simps bits_above_byte)
  then show "q mod 8 = 0 \<Longrightarrow> ?thesis" by (simp add: cbyte_def)
qed

definition read_at :: "byte list \<Rightarrow> nat \<Rightarrow> int \<times> byte" where
  "read_at raw q = (int (q div 8 mod length raw), push_bit (q mod 8) (raw ! (q div 8 mod length raw)))"

lemma next_off:
  assumes "raw \<noteq> []"
  shows "(if int (q mod length raw) + 1 \<ge> int (length raw) then 0 else int (q mod length raw) + 1) = int (Suc q mod length raw)"
proof -
  have "q mod length raw < length raw" using assms by simp
  then show ?thesis by (cases "Suc (q mod length raw) = length raw") (auto simp: mod_Suc)
qed

lemma gather_bytes:
  assumes "raw \<noteq> []"
  shows "gather raw (q mod 8) j (read_at raw q) = Some (map (\<lambda>i. cbyte raw (q + 8 * i)) [0..<j], read_at raw (q + 8 * j))"
proof (induction j arbitrary: q)
  case (Suc j)
  let ?o = "Suc (q div 8) mod length raw"
  have d: "data_at raw (int ?o) = Some (raw ! ?o)" using assms by (intro data_at_nat) simp
  have s: "(q + 8) mod 8 = q mod 8" "(q + 8) div 8 = Suc (q div 8)" by simp_all
  have n: "read_at raw (q + 8) = (int ?o, push_bit (q mod 8) (raw ! ?o))" unfolding read_at_def s by (rule refl)
  have g: "(if q mod 8 \<noteq> 0 then (push_bit (q mod 8) (raw ! (q div 8 mod length raw)) OR ucast (drop_bit 8 (push_bit (q mod 8) (ucast (raw ! ?o) :: dword))), push_bit (q mod 8) (raw ! ?o))
      else (push_bit (q mod 8) (raw ! (q div 8 mod length raw)), raw ! ?o)) = (cbyte raw q, push_bit (q mod 8) (raw ! ?o))"
    using assms by (auto simp: cbyte_aligned) (simp add: cbyte_def)
  have "gather raw (q mod 8) (Suc j) (read_at raw q) = map_option (\<lambda>(gs, r). (cbyte raw q # gs, r)) (gather raw ((q + 8) mod 8) j (read_at raw (q + 8)))"
    unfolding read_at_def[of raw q] gather.simps Let_def next_off[OF assms] d option.case g prod.case n s by (rule refl)
  also have "\<dots> = Some (cbyte raw q # map (\<lambda>i. cbyte raw (q + 8 + 8 * i)) [0..<j], read_at raw (q + 8 + 8 * j))"
    unfolding Suc.IH by simp
  also have "\<dots> = Some (map (\<lambda>i. cbyte raw (q + 8 * i)) [0..<Suc j], read_at raw (q + 8 * Suc j))"
    by (simp add: map_upt_Suc add.assoc del: upt_Suc)
  finally show ?case .
qed (simp add: read_at_def)

definition block_at :: "byte list \<Rightarrow> nat \<Rightarrow> byte list" where
  "block_at raw q = map (\<lambda>i. cbyte raw (q + 8 * i)) [0..<5]"

lemma decode_loop_blocks:
  assumes "raw \<noteq> []"
  shows "decode_loop raw (q mod 8) num (read_at raw q) = Some (concat (map (\<lambda>i. gcr_convert_GCR_to_4bytes (block_at raw (q + 40 * i))) [0..<num]))"
proof (induction num arbitrary: q)
  case (Suc num)
  have "(q + 40) mod 8 = q mod 8" by presburger
  then have IH: "decode_loop raw (q mod 8) num (read_at raw (q + 40)) = Some (concat (map (\<lambda>i. gcr_convert_GCR_to_4bytes (block_at raw (q + 40 + 40 * i))) [0..<num]))"
    using Suc.IH[of "q + 40"] by simp
  show ?case
    using gather_bytes[OF assms, of q 5] IH by (simp add: block_at_def map_upt_Suc add.assoc del: upt_Suc)
qed simp

text \<open>Decoding a block reads the circle of bits from the given position on.\<close>

lemma gcr_decode_block_bits:
  assumes "p < 8 * length raw"
  shows "gcr_decode_block raw (int p) num = Some (concat (map (\<lambda>i. gcr_convert_GCR_to_4bytes (block_at raw (p + 40 * i))) [0..<num]))"
proof -
  have ne: "raw \<noteq> []" using assms by auto
  have o: "p div 8 < length raw" using assms by simp
  have "(drop_bit 3 (int p), push_bit (p mod 8) (raw ! (p div 8))) = read_at raw p"
    using o by (simp add: read_at_def int_low_bits)
  then show ?thesis using data_at_nat[OF o] decode_loop_blocks[OF ne, of p num] by (simp add: gcr_decode_block_def int_low_bits Let_def)
qed

lemma bits_block_at:
  assumes "raw \<noteq> []"
  shows "bytes_bits (block_at raw q) = track_from raw q 40"
proof (rule nth_equalityI)
  fix i assume "i < length (bytes_bits (block_at raw q))"
  then have i: "i < 40" by (simp add: block_at_def)
  have d: "i div 8 < 5" "i mod 8 < 8" using i by simp_all
  have "bytes_bits (block_at raw q) ! i = bit (cbyte raw (q + 8 * (i div 8))) (7 - i mod 8)"
    using i d by (simp add: nth_bytes_bits block_at_def tbit_def del: upt_Suc)
  also have "\<dots> = tbit raw ((q + 8 * (i div 8) + i mod 8) mod (8 * length raw))"
    by (rule bit_cbyte[OF assms d(2)])
  also have "\<dots> = track_from raw q 40 ! i" using i by (simp add: track_from_def add.assoc)
  finally show "bytes_bits (block_at raw q) ! i = track_from raw q 40 ! i" .
qed (simp add: block_at_def track_from_def)

subsection \<open>Where sync marks are and are not\<close>

text \<open>A stretch is \<open>quiet\<close> when no sync mark ends in it and at most four ones are pending behind it.\<close>

definition quiet :: "bool list \<Rightarrow> bool" where
  "quiet xs \<longleftrightarrow> (\<forall>c\<le>4. scan xs c = None \<and> run_after xs c \<le> 4)"

lemma quiet_append: "quiet xs \<Longrightarrow> quiet ys \<Longrightarrow> quiet (xs @ ys)"
  by (simp add: quiet_def scan_append run_after_append)

lemma quiet_Nil [simp]: "quiet []"
  by (simp add: quiet_def)

lemma quiet_code: "n < 16 \<Longrightarrow> quiet (code_bits n)"
proof -
  assume "n < 16"
  then have "n \<in> {0,1,2,3,4,5,6,7,8,9,10,11,12,13,14,15}" by (simp add: numeral_eq_Suc less_Suc_eq)
  then show ?thesis
    by (elim insertE emptyE) (simp_all add: quiet_def code_bits_def GCR_conv_data_def)
qed

lemma quiet_concat: "(\<And>x. x \<in> set xs \<Longrightarrow> quiet x) \<Longrightarrow> quiet (concat xs)"
  by (induction xs) (simp_all add: quiet_append)

lemma quiet_codes: "quiet (concat (map code_bits (nibbles bs)))"
  by (rule quiet_concat) (auto intro: quiet_code nibbles_bound)

lemma quiet_55: "quiet (bytes_bits (replicate n 0x55))"
  by (induction n) (auto intro: quiet_append simp: quiet_def byte_bits_def)

lemma encode_bits: "length bs mod 4 = 0 \<Longrightarrow> bytes_bits (gcr_encode bs) = concat (map code_bits (nibbles bs))"
proof (induction bs rule: gcr_encode.induct)
  case (1 a b c d r)
  have "length r mod 4 = 0" using "1.prems" by simp
  then show ?case using "1.IH" to_GCR_bits[of a b c d] by (simp add: nibbles_def)
qed (simp_all add: nibbles_def)

lemma quiet_encode: "length bs mod 4 = 0 \<Longrightarrow> quiet (bytes_bits (gcr_encode bs))"
  by (simp add: encode_bits quiet_codes)

lemma length_encode: "length bs mod 4 = 0 \<Longrightarrow> length (gcr_encode bs) = 5 * (length bs div 4)"
proof (induction bs rule: gcr_encode.induct)
  case (1 a b c d r)
  have "length r mod 4 = 0" using "1.prems" by simp
  then have "length (gcr_encode (a # b # c # d # r)) = 5 * Suc (length r div 4)" using "1.IH" by (simp add: gcr_length)
  moreover have "length (a # b # c # d # r) div 4 = Suc (length r div 4)" by simp
  ultimately show ?case by presburger
qed simp_all

text \<open>A sync mark is found at the zero behind it.\<close>

lemma bytes_FF: "bytes_bits (replicate n 0xFF) = replicate (8 * n) True"
  by (induction n) (simp_all add: byte_bits_def replicate_add[of 8, simplified, symmetric] numeral_eq_Suc)

lemma scan_ones: "scan (replicate n True @ xs) c = map_option ((+) n) (scan xs (c + n))"
proof (induction n arbitrary: c)
  case 0
  show ?case by (cases "scan xs c") simp_all
next
  case (Suc n)
  then show ?case by (cases "scan xs (Suc (c + n))") simp_all
qed

lemma scan_sync:
  assumes "quiet xs" "10 \<le> n"
  shows "scan (xs @ replicate n True @ False # ys) 0 = Some (length xs + n)"
proof -
  have "scan xs 0 = None" using assms(1) by (simp add: quiet_def)
  then show ?thesis using assms(2) by (simp add: scan_append[of xs] scan_ones)
qed

lemma scan_take: "scan xs c = Some k \<Longrightarrow> k < s \<Longrightarrow> scan (take s xs) c = Some k"
proof (induction xs arbitrary: c k s)
  case (Cons x xs)
  then show ?case by (cases s) (auto split: if_splits)
qed simp

lemma track_from_drop:
  assumes "p + s \<le> 8 * length raw"
  shows "track_from raw p s = take s (drop p (bytes_bits raw))"
proof (rule nth_equalityI)
  fix i assume "i < length (track_from raw p s)"
  then have i: "i < s" by (simp add: track_from_def)
  then have "(p + i) mod (8 * length raw) = p + i" using assms by simp
  then show "track_from raw p s ! i = take s (drop p (bytes_bits raw)) ! i"
    using i assms by (simp add: track_from_def nth_bytes_bits)
qed (use assms in \<open>simp add: track_from_def\<close>)

lemma track_from_append: "track_from raw p (s + t) = track_from raw p s @ track_from raw (p + s) t"
proof (rule nth_equalityI)
  fix i assume "i < length (track_from raw p (s + t))"
  then have "i < s + t" "\<not> i < s \<Longrightarrow> i - s < t" by (simp_all add: track_from_def)
  then show "track_from raw p (s + t) ! i = (track_from raw p s @ track_from raw (p + s) t) ! i"
    by (cases "i < s") (simp_all add: track_from_def nth_append del: upt_Suc)
qed (simp add: track_from_def)

text \<open>Searching ahead when the rest of the track starts quiet and then has a sync mark.\<close>

lemma find_sync_ahead:
  assumes "drop p (bytes_bits raw) = xs @ replicate n True @ False # ys" "quiet xs" "10 \<le> n" "length xs + n < s"
  shows "gcr_find_sync raw (int p) s = Some (int (p + length xs + n))"
    and "p + length xs + n < 8 * length raw"
    and "drop (p + length xs + n) (bytes_bits raw) = False # ys"
proof -
  have len: "8 * length raw - p = length xs + n + Suc (length ys)"
    using arg_cong[OF assms(1), of length] by simp
  then have p: "p < 8 * length raw" by linarith
  show d: "drop (p + length xs + n) (bytes_bits raw) = False # ys"
    using arg_cong[OF assms(1), of "drop (length xs + n)"] by (simp add: add.commute add.left_commute)
  show lt: "p + length xs + n < 8 * length raw" using len by linarith
  let ?t = "min s (8 * length raw - p)"
  have "track_from raw p s = track_from raw p ?t @ track_from raw (p + ?t) (s - ?t)"
    using track_from_append[of raw p ?t "s - ?t"] by simp
  moreover have "track_from raw p ?t = take ?t (xs @ replicate n True @ False # ys)"
    unfolding assms(1)[symmetric] using p by (intro track_from_drop) simp
  moreover have "scan (take ?t (xs @ replicate n True @ False # ys)) 0 = Some (length xs + n)"
    using len assms(4) by (intro scan_take scan_sync assms) simp
  ultimately have "scan (track_from raw p s) 0 = Some (length xs + n)" by (simp only: scan_append option.case)
  then show "gcr_find_sync raw (int p) s = Some (int (p + length xs + n))"
    using gcr_find_sync_scan[OF p, of s] lt by (simp add: add.assoc)
qed

subsection \<open>Writing at any bit position\<close>

text \<open>The track with the pending bits \<open>b\<close> put in place.\<close>

definition settled_track :: "nat \<Rightarrow> byte list \<times> nat \<times> byte \<Rightarrow> byte list" where
  "settled_track r = (\<lambda>(raw, off, b). raw[off := b OR (raw ! off AND mask (8 - r))])"

lemma length_put_gcr [simp]: "length (fst (put_gcr_byte r g st)) = length (fst st)"
  by (cases st) (simp add: put_gcr_byte_def Let_def)

lemma byte_split:
  assumes "r < 8" "k < 8"
  shows "bit (drop_bit r (g::byte)) (7 - k) = (r \<le> k \<and> bit g (7 - (k - r)))"
    and "bit (ucast (drop_bit r (push_bit 8 (ucast g :: dword))) :: byte) (7 - k) = (k < r \<and> bit g (r - 1 - k))"
proof -
  have "bit (drop_bit r g) (7 - k) = bit g (7 - k + r)" by (simp add: bit_drop_bit_eq add.commute)
  moreover have "r \<le> k \<Longrightarrow> 7 - k + r = 7 - (k - r)" "\<not> r \<le> k \<Longrightarrow> 8 \<le> 7 - k + r" using assms by linarith+
  ultimately show "bit (drop_bit r g) (7 - k) = (r \<le> k \<and> bit g (7 - (k - r)))"
    using bits_above_byte by (cases "r \<le> k") auto
  have "bit (ucast (drop_bit r (push_bit 8 (ucast g :: dword))) :: byte) (7 - k) \<longleftrightarrow> 8 \<le> r + (7 - k) \<and> bit g (r + (7 - k) - 8)"
    using assms by (auto simp: bit_ucast_iff bit_drop_bit_eq bit_push_bit_iff)
  moreover have "8 \<le> r + (7 - k) \<longleftrightarrow> k < r" "k < r \<Longrightarrow> r + (7 - k) - 8 = r - 1 - k" using assms by linarith+
  ultimately show "bit (ucast (drop_bit r (push_bit 8 (ucast g :: dword))) :: byte) (7 - k) = (k < r \<and> bit g (r - 1 - k))" by auto
qed

text \<open>What holds between the bytes: the pending bits are those in front of the position.\<close>

definition pending_ok :: "nat \<Rightarrow> byte list \<times> nat \<times> byte \<Rightarrow> bool" where
  "pending_ok r = (\<lambda>(raw, off, b). off < length raw \<and> (\<forall>k<8. r \<le> k \<longrightarrow> \<not> bit b (7 - k)))"

lemma put_gcr_uniform:
  assumes "r < 8" "pending_ok r (raw, off, b)"
  shows "put_gcr_byte r g (raw, off, b) = (raw[off := b OR drop_bit r g], Suc off mod length raw, ucast (drop_bit r (push_bit 8 (ucast g :: dword))))"
proof -
  have o: "(if off + 1 \<ge> length raw then 0 else off + 1) = Suc off mod length raw"
    using assms(2) by (cases "Suc off = length raw") (auto simp: pending_ok_def)
  have "b = 0 \<and> ucast (push_bit 8 (ucast g :: dword)) = (0::byte)" if "r = 0"
  proof
    show "b = 0"
    proof (rule bit_word_eqI)
      fix n assume "n < LENGTH(8)"
      then have n: "7 - n < 8" "7 - (7 - n) = n" by simp_all
      have "\<not> bit b (7 - (7 - n))" using assms(2) n(1) that unfolding pending_ok_def prod.case by blast
      then show "bit b n = bit 0 n" unfolding n(2) by simp
    qed
    show "ucast (push_bit 8 (ucast g :: dword)) = (0::byte)" by (rule bit_word_eqI) (simp add: bit_simps)
  qed
  then show ?thesis using o by (cases "r = 0") (simp_all add: put_gcr_byte_def Let_def)
qed

lemma put_gcr_pending:
  assumes "r < 8" "pending_ok r (raw, off, b)"
  shows "pending_ok r (put_gcr_byte r g (raw, off, b))"
  unfolding put_gcr_uniform[OF assms] using assms byte_split(2)[OF assms(1)] by (auto simp: pending_ok_def intro!: mod_less_divisor)

lemma tbit_nth: "k < 8 \<Longrightarrow> tbit raw (8 * a + k) = bit (raw ! a) (7 - k)"
  by (simp add: tbit_def)

text \<open>One byte changes exactly the eight bits from the position on.\<close>

lemma put_gcr_bits:
  assumes r: "r < 8" and ok: "pending_ok r (raw, off, b)" and len: "2 \<le> length raw" and a: "a < length raw" and k: "k < 8"
  shows "tbit (settled_track r (put_gcr_byte r g (raw, off, b))) (8 * a + k)
    = (if a = off \<and> r \<le> k then bit g (7 - (k - r))
       else if a = Suc off mod length raw \<and> k < r then bit g (r - 1 - k)
       else tbit (settled_track r (raw, off, b)) (8 * a + k))"
proof -
  let ?o = "Suc off mod length raw"
  let ?m = "mask (8 - r) :: byte" and ?b = "ucast (drop_bit r (push_bit 8 (ucast g :: dword))) :: byte"
  have off: "off < length raw" "?o < length raw" "?o \<noteq> off" using ok len by (auto simp: pending_ok_def mod_Suc)
  have m: "bit ?m (7 - k) \<longleftrightarrow> r \<le> k" using r k by (auto simp: bit_mask_iff)
  have bz: "r \<le> k \<Longrightarrow> \<not> bit b (7 - k)" using ok k by (simp add: pending_ok_def)
  have "settled_track r (put_gcr_byte r g (raw, off, b)) = raw[off := b OR drop_bit r g, ?o := ?b OR (raw ! ?o AND ?m)]"
    unfolding put_gcr_uniform[OF r ok] settled_track_def using off by simp
  then show ?thesis
    using off a m bz byte_split[OF r k, of g] unfolding settled_track_def tbit_nth[OF k]
    by (auto simp: nth_list_update bit_or_iff bit_and_iff)
qed

lemma put_gcr_circle:
  fixes g :: byte
  assumes r: "r < 8" and ok: "pending_ok r (raw, off, b)" and len: "2 \<le> length raw"
  defines "n \<equiv> 8 * length raw" and "new \<equiv> settled_track r (put_gcr_byte r g (raw, off, b))"
  shows "j < 8 \<Longrightarrow> tbit new ((8 * off + r + j) mod n) = bit g (7 - j)"
    and "i < n \<Longrightarrow> (\<And>j. j < 8 \<Longrightarrow> i \<noteq> (8 * off + r + j) mod n) \<Longrightarrow> tbit new i = tbit (settled_track r (raw, off, b)) i"
proof -
  have off: "off < length raw" using ok by (simp add: pending_ok_def)
  have off1: "Suc off mod length raw < length raw" using len by (intro mod_less_divisor) auto
  have idx: "(8 * off + r + j) mod n = (if r + j < 8 then 8 * off + (r + j) else 8 * (Suc off mod length raw) + (r + j - 8))" if "j < 8" for j
  proof (cases "r + j < 8")
    case True
    then show ?thesis using off by (simp add: n_def)
  next
    case False
    then have "8 * off + r + j = 8 * Suc off + (r + j - 8)" by simp
    moreover have "(8 * Suc off + x) div 8 = Suc off" "(8 * Suc off + x) mod 8 = x" if "x < 8" for x using that by presburger+
    then have "(8 * Suc off + (r + j - 8)) mod n = 8 * (Suc off mod length raw) + (r + j - 8)"
      unfolding n_def mod_mult2_eq using r that by simp
    ultimately show ?thesis using False by (simp add: add.assoc)
  qed
  show "tbit new ((8 * off + r + j) mod n) = bit g (7 - j)" if "j < 8"
  proof (cases "r + j < 8")
    case True
    then show ?thesis unfolding idx[OF that] new_def using put_gcr_bits[OF r ok len off True, of g] by simp
  next
    case False
    have k: "r + j - 8 < 8" "r + j - 8 < r" "\<not> r \<le> r + j - 8" "r - 1 - (r + j - 8) = 7 - j" using False r that by linarith+
    show ?thesis unfolding idx[OF that] new_def using put_gcr_bits[OF r ok len off1 k(1), of g] k False by simp
  qed
  show "tbit new i = tbit (settled_track r (raw, off, b)) i" if i: "i < n" and "\<And>j. j < 8 \<Longrightarrow> i \<noteq> (8 * off + r + j) mod n"
  proof -
    let ?a = "i div 8" and ?k = "i mod 8"
    have a: "?a < length raw" "?k < 8" and e: "i = 8 * ?a + ?k" using i by (simp_all add: n_def)
    have "\<not> (?a = off \<and> r \<le> ?k)"
    proof
      assume h: "?a = off \<and> r \<le> ?k"
      then have "?k - r < 8" "r + (?k - r) = ?k" using a(2) by linarith+
      then show False using that(2)[of "?k - r"] idx[of "?k - r"] h a(2) e by (metis)
    qed
    moreover have "\<not> (?a = Suc off mod length raw \<and> ?k < r)"
    proof
      assume h: "?a = Suc off mod length raw \<and> ?k < r"
      then have j: "8 - r + ?k < 8" "\<not> r + (8 - r + ?k) < 8" "r + (8 - r + ?k) - 8 = ?k" using r by linarith+
      then show False using that(2)[OF j(1)] idx[OF j(1)] h e by (metis)
    qed
    ultimately show ?thesis using put_gcr_bits[OF r ok len a, of g] unfolding new_def e[symmetric] by presburger
  qed
qed

lemma window_le: "a \<le> b \<Longrightarrow> b < n \<Longrightarrow> (q + a) mod n = (q + b) mod n \<Longrightarrow> a = (b::nat)"
proof -
  assume a: "a \<le> b" "b < n" "(q + a) mod n = (q + b) mod n"
  then have "n dvd (q + b) - (q + a)" by (metis mod_eq_dvd_iff_nat add_le_cancel_left)
  then have "n dvd b - a" by simp
  moreover have "b - a < n" using a(2) by linarith
  ultimately have "b - a = 0" using nat_dvd_not_less by blast
  then show "a = b" using a(1) by simp
qed

lemma window_inj: "a < n \<Longrightarrow> b < n \<Longrightarrow> (q + a) mod n = (q + b) mod n \<Longrightarrow> a = (b::nat)"
  using window_le[of a b n q] window_le[of b a n q] by (metis nat_le_linear)

lemma fold_put_gcr:
  assumes r: "r < 8" and ok: "pending_ok r st" and len: "2 \<le> length (fst st)" and fit: "length gs \<le> length (fst st)"
  defines "n \<equiv> 8 * length (fst st)" and "q \<equiv> 8 * fst (snd st) + r"
  shows "pending_ok r (fold (put_gcr_byte r) gs st) \<and> length (fst (fold (put_gcr_byte r) gs st)) = length (fst st)
    \<and> fst (snd (fold (put_gcr_byte r) gs st)) = (fst (snd st) + length gs) mod length (fst st)
    \<and> (\<forall>k<8 * length gs. tbit (settled_track r (fold (put_gcr_byte r) gs st)) ((q + k) mod n) = bytes_bits gs ! k)
    \<and> (\<forall>i<n. (\<forall>k<8 * length gs. i \<noteq> (q + k) mod n) \<longrightarrow> tbit (settled_track r (fold (put_gcr_byte r) gs st)) i = tbit (settled_track r st) i)"
  using fit
proof (induction gs rule: rev_induct)
  case Nil
  have "fst (snd st) mod length (fst st) = fst (snd st)" using ok by (cases st) (simp add: pending_ok_def)
  then show ?case using ok by simp
next
  case (snoc g gs)
  let ?m = "length gs"
  obtain raw off b where st': "fold (put_gcr_byte r) gs st = (raw, off, b)" by (cases "fold (put_gcr_byte r) gs st")
  have IH: "pending_ok r (raw, off, b)" "length raw = length (fst st)" "off = (fst (snd st) + ?m) mod length (fst st)"
    "\<And>k. k < 8 * ?m \<Longrightarrow> tbit (settled_track r (raw, off, b)) ((q + k) mod n) = bytes_bits gs ! k"
    "\<And>i. i < n \<Longrightarrow> (\<And>k. k < 8 * ?m \<Longrightarrow> i \<noteq> (q + k) mod n) \<Longrightarrow> tbit (settled_track r (raw, off, b)) i = tbit (settled_track r st) i"
    using snoc.IH snoc.prems unfolding st' by auto
  have n: "n = 8 * length raw" by (simp add: n_def IH(2))
  have pos: "(8 * off + r + j) mod n = (q + (8 * ?m + j)) mod n" for j
  proof -
    have "8 * off = (8 * (fst (snd st) + ?m)) mod n" unfolding IH(3) n_def by (rule mult_mod_right)
    then have "(8 * off + r + j) mod n = (8 * (fst (snd st) + ?m) + r + j) mod n" by (metis mod_add_left_eq)
    then show ?thesis by (simp add: q_def algebra_simps)
  qed
  have big: "2 \<le> length raw" using len IH(2) by simp
  let ?new = "put_gcr_byte r g (raw, off, b)"
  have new: "fold (put_gcr_byte r) (gs @ [g]) st = ?new" by (simp add: st')
  note c = put_gcr_circle[OF r IH(1) big, of _ g, folded n, unfolded pos]
  have bits: "tbit (settled_track r ?new) ((q + k) mod n) = bytes_bits (gs @ [g]) ! k" if k: "k < 8 * Suc ?m" for k
  proof (cases "k < 8 * ?m")
    case True
    have "(q + k) mod n \<noteq> (q + (8 * ?m + j)) mod n" if "j < 8" for j
      using window_inj[of k n "8 * ?m + j" q] True that snoc.prems unfolding n_def by auto
    moreover have "(q + k) mod n < n" using big n by (intro mod_less_divisor) linarith
    ultimately have "tbit (settled_track r ?new) ((q + k) mod n) = tbit (settled_track r (raw, off, b)) ((q + k) mod n)"
      using c(2) by blast
    then show ?thesis using IH(4)[OF True] True by (simp add: nth_append)
  next
    case False
    then have "k - 8 * ?m < 8" "8 * ?m + (k - 8 * ?m) = k" using k by auto
    then show ?thesis using c(1)[of "k - 8 * ?m"] False by (simp add: nth_append nth_byte_bits)
  qed
  have rest: "tbit (settled_track r ?new) i = tbit (settled_track r st) i" if "i < n" "\<And>k. k < 8 * Suc ?m \<Longrightarrow> i \<noteq> (q + k) mod n" for i
    using c(2)[of i] IH(5)[of i] that by simp
  have off': "fst (snd ?new) = (fst (snd st) + Suc ?m) mod length (fst st)"
    unfolding put_gcr_uniform[OF r IH(1)] by (simp add: IH(2,3) mod_Suc_eq)
  show ?case unfolding new using put_gcr_pending[OF r IH(1), of g] bits rest off' IH(2) by (auto simp del: bytes_bits_simps)
qed

lemma length_fold_put [simp]: "length (fst (fold (put_gcr_byte r) gs st)) = length (fst st)"
  by (induction gs arbitrary: st) simp_all

lemma mask_bytes: "r < 8 \<Longrightarrow> k < 8 \<Longrightarrow> bit (ucast (drop_bit r (0xFF :: dword)) :: byte) (7 - k) = (r \<le> k)"
  "r < 8 \<Longrightarrow> k < 8 \<Longrightarrow> bit (ucast (drop_bit r (0xFF00 :: dword)) :: byte) (7 - k) = (k < r)"
proof -
  have m: "(0xFF :: dword) = mask 8" "(0xFF00 :: dword) = push_bit 8 (mask 8)" by (simp_all add: mask_eq_exp_minus_1 push_bit_eq_mult)
  assume "r < 8" "k < 8"
  then show "bit (ucast (drop_bit r (0xFF :: dword)) :: byte) (7 - k) = (r \<le> k)" unfolding m
    by (auto simp: bit_ucast_iff bit_drop_bit_eq bit_mask_iff)
  show "bit (ucast (drop_bit r (0xFF00 :: dword)) :: byte) (7 - k) = (k < r)" unfolding m using \<open>r < 8\<close> \<open>k < 8\<close>
    by (auto simp: bit_ucast_iff bit_drop_bit_eq bit_mask_iff bit_push_bit_iff)
qed

lemma byte_eqI: "(\<And>k. k < 8 \<Longrightarrow> bit (a::byte) (7 - k) = bit b (7 - k)) \<Longrightarrow> a = b"
proof (rule bit_word_eqI)
  fix n assume h: "\<And>k. k < 8 \<Longrightarrow> bit a (7 - k) = bit b (7 - k)" and "n < LENGTH(8)"
  then have "7 - n < 8" "7 - (7 - n) = n" by simp_all
  then show "bit a n = bit b n" using h[of "7 - n"] by simp
qed

text \<open>The bits from \<open>p\<close> on are the code of the buffer, and all others are as before.\<close>

lemma write_block_bits:
  assumes p: "p < 8 * length raw" and len: "2 \<le> length raw" and fit: "length (gcr_encode buf) \<le> length raw"
  defines "new \<equiv> write_block raw (int p) buf" and "n \<equiv> 8 * length raw"
  shows "length new = length raw"
    and "k < 8 * length (gcr_encode buf) \<Longrightarrow> tbit new ((p + k) mod n) = bytes_bits (gcr_encode buf) ! k"
    and "i < n \<Longrightarrow> (\<And>k. k < 8 * length (gcr_encode buf) \<Longrightarrow> i \<noteq> (p + k) mod n) \<Longrightarrow> tbit new i = tbit raw i"
proof -
  let ?r = "p mod 8" and ?o = "p div 8"
  let ?b = "raw ! ?o AND ucast (drop_bit ?r (0xFF00 :: dword))"
  have r: "?r < 8" and o: "?o < length raw" using p by simp_all
  have ok: "pending_ok ?r (raw, ?o, ?b)" using o mask_bytes(2)[OF r] by (auto simp: pending_ok_def bit_and_iff)
  have m: "ucast (drop_bit ?r (0xFF :: dword)) = (mask (8 - ?r) :: byte)"
    by (rule byte_eqI) (use r mask_bytes(1)[OF r] in \<open>auto simp: bit_mask_iff\<close>)
  have "raw ! ?o = ?b OR (raw ! ?o AND mask (8 - ?r))"
    by (rule byte_eqI) (use r mask_bytes[OF r] in \<open>auto simp: bit_mask_iff bit_or_iff bit_and_iff\<close>)
  then have start: "settled_track ?r (raw, ?o, ?b) = raw" by (simp add: settled_track_def list_update_same_conv[OF o])
  have new: "new = settled_track ?r (fold (put_gcr_byte ?r) (gcr_encode buf) (raw, ?o, ?b))"
    unfolding new_def write_block_def int_low_bits Let_def m settled_track_def by (simp add: case_prod_beta)
  have q: "8 * ?o + ?r = p" by simp
  note f = fold_put_gcr[OF r ok, of "gcr_encode buf", unfolded fst_conv snd_conv q start, OF len fit, folded n_def new]
  show "length new = length raw" unfolding new settled_track_def by (simp add: case_prod_beta)
  show "tbit new ((p + k) mod n) = bytes_bits (gcr_encode buf) ! k" if "k < 8 * length (gcr_encode buf)" using f that by blast
  show "tbit new i = tbit raw i" if "i < n" "\<And>k. k < 8 * length (gcr_encode buf) \<Longrightarrow> i \<noteq> (p + k) mod n" using f that by blast
qed

text \<open>Decoding blocks from a stretch of track that holds the code of a buffer.\<close>

lemma decode_encoded:
  assumes "p < 8 * length raw" "length buf = 4 * num" "\<And>k. k < 40 * num \<Longrightarrow> tbit raw ((p + k) mod (8 * length raw)) = bytes_bits (gcr_encode buf) ! k"
  shows "gcr_decode_block raw (int p) num = Some buf"
proof -
  have ne: "raw \<noteq> []" using assms(1) by auto
  have "concat (map (\<lambda>i. gcr_convert_GCR_to_4bytes (block_at raw (p + 40 * i))) [0..<num]) = buf"
    using assms(2,3)
  proof (induction num arbitrary: buf p)
    case (Suc num)
    obtain a b c d r where buf: "buf = a # b # c # d # r" using Suc.prems(1) by (auto simp: numeral_eq_Suc length_Suc_conv)
    have r: "length r = 4 * num" using Suc.prems(1) by (simp add: buf)
    have enc: "bytes_bits (gcr_encode buf) = bytes_bits (gcr_convert_4bytes_to_GCR [a, b, c, d]) @ bytes_bits (gcr_encode r)" by (simp add: buf)
    have len40: "length (bytes_bits (gcr_convert_4bytes_to_GCR [a, b, c, d])) = 40" by (simp add: gcr_length)
    have "track_from raw p 40 = concat (map code_bits (nibbles [a, b, c, d]))"
      unfolding to_GCR_bits[symmetric]
    proof (rule nth_equalityI)
      fix i assume "i < length (track_from raw p 40)"
      then have i: "i < 40" by (simp add: track_from_def)
      then show "track_from raw p 40 ! i = bytes_bits (gcr_convert_4bytes_to_GCR [a, b, c, d]) ! i"
        using Suc.prems(2)[of i] len40 by (simp add: enc nth_append track_from_def)
    qed (simp add: gcr_length track_from_def)
    then have first: "gcr_convert_GCR_to_4bytes (block_at raw p) = [a, b, c, d]"
      by (intro convert_back) (simp add: bits_block_at[OF ne], simp add: block_at_def)
    have "concat (map (\<lambda>i. gcr_convert_GCR_to_4bytes (block_at raw (p + 40 + 40 * i))) [0..<num]) = r"
    proof (rule Suc.IH[OF r])
      fix k assume "k < 40 * num"
      then show "tbit raw ((p + 40 + k) mod (8 * length raw)) = bytes_bits (gcr_encode r) ! k"
        using Suc.prems(2)[of "40 + k"] len40 by (simp add: enc nth_append add.assoc)
    qed
    then show ?case using first by (simp add: map_upt_Suc buf add.assoc del: upt_Suc)
  qed simp
  then show ?thesis using gcr_decode_block_bits[OF assms(1), of num] by simp
qed

lemma track_ahead: "drop p (bytes_bits raw) = xs @ ys \<Longrightarrow> k < length xs \<Longrightarrow> tbit raw ((p + k) mod (8 * length raw)) = xs ! k"
proof -
  assume d: "drop p (bytes_bits raw) = xs @ ys" and k: "k < length xs"
  have "length (drop p (bytes_bits raw)) = length xs + length ys" by (simp only: d length_append)
  then have lt: "p + k < 8 * length raw" using k by simp
  have "drop p (bytes_bits raw) ! k = xs ! k" using k by (simp only: d nth_append if_True)
  then show ?thesis using lt by (simp add: nth_bytes_bits)
qed

lemma decode_ahead:
  assumes "drop p (bytes_bits raw) = bytes_bits (gcr_encode buf) @ ys" "length buf = 4 * num" "0 < num"
  shows "gcr_decode_block raw (int p) num = Some buf"
proof -
  have l: "length (bytes_bits (gcr_encode buf)) = 40 * num" using assms(2) by (simp add: length_encode)
  have "length (drop p (bytes_bits raw)) = 40 * num + length ys" by (simp only: assms(1) length_append l)
  then have "p < 8 * length raw" using assms(3) by simp
  then show ?thesis using assms(2) track_ahead[OF assms(1)] l by (intro decode_encoded) simp_all
qed

lemma bytes_bits_inj: "bytes_bits a = bytes_bits b \<Longrightarrow> a = b"
proof (rule nth_equalityI)
  assume e: "bytes_bits a = bytes_bits b"
  from arg_cong[OF e, of length] show l: "length a = length b" by simp
  fix i assume i: "i < length a"
  show "a ! i = b ! i"
  proof (rule byte_eqI)
    fix k :: nat assume k: "k < 8"
    have "8 * i + k < 8 * length a" using i k by linarith
    then have "tbit a (8 * i + k) = tbit b (8 * i + k)" using e l nth_bytes_bits by metis
    then show "bit (a ! i) (7 - k) = bit (b ! i) (7 - k)" by (simp add: tbit_nth[OF k])
  qed
qed

text \<open>Over a stretch of whole bytes, writing replaces bytes.\<close>

lemma write_block_aligned:
  assumes "length old = length (gcr_encode buf)" "2 \<le> length old"
  shows "write_block (r1 @ old @ r2) (int (8 * length r1)) buf = r1 @ gcr_encode buf @ r2"
proof (rule bytes_bits_inj)
  let ?raw = "r1 @ old @ r2" and ?p = "8 * length r1"
  have p: "?p < 8 * length ?raw" "2 \<le> length ?raw" "length (gcr_encode buf) \<le> length ?raw" using assms by (cases old; simp)+
  note w = write_block_bits[OF p]
  show "bytes_bits (write_block ?raw (int ?p) buf) = bytes_bits (r1 @ gcr_encode buf @ r2)"
  proof (rule nth_equalityI)
    show "length (bytes_bits (write_block ?raw (int ?p) buf)) = length (bytes_bits (r1 @ gcr_encode buf @ r2))" using assms(1) w(1) by simp
    fix i assume "i < length (bytes_bits (write_block ?raw (int ?p) buf))"
    then have i: "i < 8 * length ?raw" using w(1) by simp
    have n: "bytes_bits (write_block ?raw (int ?p) buf) ! i = tbit (write_block ?raw (int ?p) buf) i"
      using i w(1) by (intro nth_bytes_bits) simp
    show "bytes_bits (write_block ?raw (int ?p) buf) ! i = bytes_bits (r1 @ gcr_encode buf @ r2) ! i"
    proof (cases "?p \<le> i \<and> i < ?p + 8 * length old")
      case True
      then have "(?p + (i - ?p)) mod (8 * length ?raw) = i" "i - ?p < 8 * length (gcr_encode buf)" using i assms(1) by (simp, linarith)
      then show ?thesis using w(2)[of "i - ?p"] True assms(1) n by (simp add: nth_append)
    next
      case False
      have "i \<noteq> (?p + k) mod (8 * length ?raw)" if "k < 8 * length (gcr_encode buf)" for k
        using False that assms(1) by simp linarith
      then have "tbit (write_block ?raw (int ?p) buf) i = bytes_bits ?raw ! i" using w(3)[OF i] nth_bytes_bits[OF i] by simp
      then show ?thesis using False n assms(1) by (auto simp: nth_append)
    qed
  qed
qed

subsection \<open>Formatted tracks\<close>

definition sector_image :: "nat \<Rightarrow> byte list \<times> gcr_header_t \<times> int \<Rightarrow> byte list" where
  "sector_image gap = (\<lambda>(buf, h, e).
     replicate 5 (sync_byte e) @ gcr_encode (header_block h e) @ replicate 9 0x55
     @ replicate 5 (sync_byte e) @ gcr_encode (data_block buf e) @ replicate gap 0x55)"

text \<open>The loop of \<open>fsimage_read_dxx_image\<close> over the sectors of a track that has been filled with \<open>0x55\<close>.\<close>

fun format_sectors :: "nat \<Rightarrow> (byte list \<times> gcr_header_t \<times> int) list \<Rightarrow> nat \<Rightarrow> byte list \<Rightarrow> byte list option" where
  "format_sectors gap [] ptr raw = Some raw"
| "format_sectors gap ((buf, h, e) # secs) ptr raw =
     Option.bind (gcr_convert_sector_to_GCR buf raw ptr h 9 5 e) (format_sectors gap secs (ptr + 340 + 9 + gap + 5))"

definition format_track :: "nat \<Rightarrow> nat \<Rightarrow> (byte list \<times> gcr_header_t \<times> int) list \<Rightarrow> byte list option" where
  "format_track track_size gap secs = format_sectors gap secs 0 (replicate track_size 0x55)"

lemma length_blocks [simp]: "length (header_block h e) = 8" "length buf = 256 \<Longrightarrow> length (data_block buf e) = 260"
  by (simp_all add: header_block_def data_block_def Let_def)

lemma length_encoded_blocks [simp]: "length (gcr_encode (header_block h e)) = 10" "length buf = 256 \<Longrightarrow> length (gcr_encode (data_block buf e)) = 325"
  by (simp_all add: length_encode)

lemma length_image: "length buf = 256 \<Longrightarrow> length (sector_image gap (buf, h, e)) = 354 + gap"
  by (simp add: sector_image_def)

lemma put_at_append: "length bs \<le> m \<Longrightarrow> put_at (length pre) bs (pre @ replicate m x) = Some (pre @ bs @ replicate (m - length bs) x)"
  by (simp add: put_at_def)

lemma convert_sector:
  assumes "length buf = 256" "354 + gap \<le> m"
  shows "gcr_convert_sector_to_GCR buf (pre @ replicate m 0x55) (length pre) h 9 5 e
    = Some (pre @ sector_image gap (buf, h, e) @ replicate (m - (354 + gap)) 0x55)"
proof -
  let ?s = "sync_byte e"
  let ?h = "replicate 5 ?s @ gcr_encode (header_block h e)" and ?d = "replicate 5 ?s @ gcr_encode (data_block buf e)"
  have "put_at (length pre) ?h (pre @ replicate m 0x55) = Some (pre @ ?h @ replicate (m - 15) 0x55)"
    using put_at_append[of ?h m pre "0x55"] assms by simp
  also have "replicate (m - 15) (0x55::byte) = replicate 9 0x55 @ replicate (m - 24) 0x55" using assms by (simp add: replicate_add[symmetric])
  also have "pre @ ?h @ replicate 9 0x55 @ replicate (m - 24) 0x55 = (pre @ ?h @ replicate 9 0x55) @ replicate (m - 24) (0x55::byte)" by simp
  finally have 1: "put_at (length pre) ?h (pre @ replicate m 0x55) = Some ((pre @ ?h @ replicate 9 0x55) @ replicate (m - 24) 0x55)" .
  have 2: "put_at (length pre + 15 + 9) ?d ((pre @ ?h @ replicate 9 0x55) @ replicate (m - 24) 0x55)
      = Some ((pre @ ?h @ replicate 9 0x55) @ ?d @ replicate (m - 354) 0x55)"
    using put_at_append[of ?d "m - 24" "pre @ ?h @ replicate 9 0x55" "0x55"] assms by (simp add: add.assoc)
  have "replicate (m - 354) (0x55::byte) = replicate gap 0x55 @ replicate (m - (354 + gap)) 0x55" using assms(2) by (simp add: replicate_add[symmetric])
  then show ?thesis unfolding gcr_convert_sector_to_GCR_def 1 by (simp only: bind.bind_lunit 2) (simp add: sector_image_def)
qed

definition sectors_ok :: "(byte list \<times> gcr_header_t \<times> int) list \<Rightarrow> bool" where
  "sectors_ok secs \<longleftrightarrow> (\<forall>(buf, h, e)\<in>set secs. length buf = 256)"

lemma sectors_ok_Cons [simp]: "sectors_ok ((buf, h, e) # secs) \<longleftrightarrow> length buf = 256 \<and> sectors_ok secs"
  by (simp add: sectors_ok_def)

lemma sectors_ok_take: "sectors_ok secs \<Longrightarrow> sectors_ok (take i secs)"
  unfolding sectors_ok_def using set_take_subset[of i secs] by blast

lemma sectors_ok_nth: "sectors_ok secs \<Longrightarrow> i < length secs \<Longrightarrow> secs ! i = (buf, h, e) \<Longrightarrow> length buf = 256"
  unfolding sectors_ok_def using nth_mem[of i secs] by auto

lemma sectors_ok_update: "sectors_ok secs \<Longrightarrow> length buf = 256 \<Longrightarrow> sectors_ok (secs[i := (buf, h, e)])"
  unfolding sectors_ok_def using set_update_subset_insert[of secs i "(buf, h, e)"] by blast

lemma format_sectors_images:
  assumes "sectors_ok secs" "(354 + gap) * length secs \<le> m"
  shows "format_sectors gap secs (length pre) (pre @ replicate m 0x55)
    = Some (pre @ concat (map (sector_image gap) secs) @ replicate (m - (354 + gap) * length secs) 0x55)"
  using assms
proof (induction secs arbitrary: pre m)
  case (Cons s secs)
  obtain buf h e where s: "s = (buf, h, e)" by (cases s)
  have b: "length buf = 256" "354 + gap \<le> m" "sectors_ok secs" "(354 + gap) * length secs \<le> m - (354 + gap)"
    using Cons.prems by (simp_all add: s)
  have l: "length pre + 340 + 9 + gap + 5 = length (pre @ sector_image gap s)" by (simp add: s length_image[OF b(1)])
  have c: "gcr_convert_sector_to_GCR buf (pre @ replicate m 0x55) (length pre) h 9 5 e
      = Some ((pre @ sector_image gap s) @ replicate (m - (354 + gap)) 0x55)"
    using convert_sector[OF b(1,2), of pre h e] by (simp add: s)
  have "format_sectors gap (s # secs) (length pre) (pre @ replicate m 0x55)
      = format_sectors gap secs (length (pre @ sector_image gap s)) ((pre @ sector_image gap s) @ replicate (m - (354 + gap)) 0x55)"
    unfolding s format_sectors.simps c[unfolded s] by (simp only: bind.bind_lunit l[unfolded s])
  also have "\<dots> = Some ((pre @ sector_image gap s) @ concat (map (sector_image gap) secs)
      @ replicate (m - (354 + gap) - (354 + gap) * length secs) 0x55)"
    by (rule Cons.IH[OF b(3,4)])
  finally show ?case by (simp add: diff_diff_left)
qed simp

lemma format_track_images:
  "sectors_ok secs \<Longrightarrow> (354 + gap) * length secs \<le> n \<Longrightarrow>
   format_track n gap secs = Some (concat (map (sector_image gap) secs) @ replicate (n - (354 + gap) * length secs) 0x55)"
  using format_sectors_images[of secs gap n "[]"] by (simp add: format_track_def)

text \<open>The code of a block that starts with the nibble 0 starts with a zero bit.\<close>

lemma encode_zero_nibble:
  assumes "drop_bit 4 a = 0"
  shows "\<exists>ys. bytes_bits (gcr_encode (a # b # c # d # r)) = False # ys"
proof -
  have "bytes_bits (gcr_convert_4bytes_to_GCR [a, b, c, d]) = code_bits 0 @ concat (map code_bits (tl (nibbles [a, b, c, d])))"
    unfolding to_GCR_bits using assms by (simp add: nibbles_def)
  moreover have "code_bits 0 = [False, True, False, True, False]" by (simp add: code_bits_def GCR_conv_data_def)
  ultimately show ?thesis by simp
qed

definition plain :: "int \<Rightarrow> bool" where
  "plain e \<longleftrightarrow> e \<noteq> CBMDOS_FDC_ERR_SYNC \<and> e \<noteq> CBMDOS_FDC_ERR_HEADER"

lemma header_first: "plain e \<Longrightarrow> \<exists>ys. bytes_bits (gcr_encode (header_block h e)) = False # ys"
  unfolding header_block_def Let_def by (simp only: plain_def) (rule encode_zero_nibble, simp)

lemma data_first:
  assumes "length buf = 256"
  shows "\<exists>ys. bytes_bits (gcr_encode (data_block buf e)) = False # ys"
proof -
  obtain a b c r where "buf = a # b # c # r" using assms by (auto simp: numeral_eq_Suc length_Suc_conv)
  then have "\<exists>t r. data_block buf e = t # a # b # c # r \<and> drop_bit 4 t = 0" by (simp add: data_block_def Let_def)
  then show ?thesis using encode_zero_nibble by metis
qed

lemma sync_bits: "plain e \<Longrightarrow> bytes_bits (replicate 5 (sync_byte e)) = replicate 40 True"
  using bytes_FF[of 5] by (simp add: plain_def sync_byte_def)

text \<open>
  The search passes the header and the data block of every other sector, and stops at the header
  asked for.
\<close>

abbreviation (input) header_bits :: "gcr_header_t \<Rightarrow> int \<Rightarrow> bool list" where
  "header_bits h e \<equiv> bytes_bits (gcr_encode (header_block h e))"

abbreviation (input) data_bits :: "byte list \<Rightarrow> int \<Rightarrow> bool list" where
  "data_bits buf e \<equiv> bytes_bits (gcr_encode (data_block buf e))"

lemma image_bits: "plain e \<Longrightarrow> bytes_bits (sector_image gap (buf, h, e)) = replicate 40 True @ header_bits h e
    @ bytes_bits (replicate 9 0x55) @ replicate 40 True @ data_bits buf e @ bytes_bits (replicate gap 0x55)"
  by (simp add: sector_image_def sync_bits)

lemma find_sync_at:
  assumes "drop p (bytes_bits raw) = xs @ replicate 40 True @ zs" "quiet xs" "\<exists>ys. zs = False # ys" "length xs + 40 < s"
  shows "gcr_find_sync raw (int p) s = Some (int (p + length xs + 40))" "p + length xs + 40 < 8 * length raw"
    "drop (p + length xs + 40) (bytes_bits raw) = zs"
  using assms find_sync_ahead[of p raw xs 40 _ s] by auto

lemma decode_first_four:
  assumes "drop p (bytes_bits raw) = bytes_bits (gcr_encode (a # b # c # d # r)) @ ys"
  shows "gcr_decode_block raw (int p) 1 = Some [a, b, c, d]"
proof -
  have "drop p (bytes_bits raw) = bytes_bits (gcr_encode [a, b, c, d]) @ bytes_bits (gcr_encode r) @ ys" using assms by simp
  then show ?thesis by (rule decode_ahead) simp_all
qed

lemma header_block_first: "\<exists>r. header_block h e = (if e = CBMDOS_FDC_ERR_HEADER then 0xFF else 0x08)
    # ((if e = CBMDOS_FDC_ERR_HCHECK then 0xFF else 0x00) XOR (h_sector h XOR h_track h XOR h_id2 h XOR h_id1 h XOR (if e = CBMDOS_FDC_ERR_ID then 0xFF else 0x00)))
    # h_sector h # h_track h # r"
  by (simp add: header_block_def Let_def)

lemma decode_header:
  assumes "drop p (bytes_bits raw) = header_bits h e @ ys" "plain e"
  shows "\<exists>hd. gcr_decode_block raw (int p) 1 = Some hd \<and> hd ! 0 = 0x08 \<and> hd ! 2 = h_sector h"
proof -
  obtain a r where "header_block h e = 0x08 # a # h_sector h # h_track h # r"
    using header_block_first[of h e] assms(2) by (auto simp: plain_def)
  then show ?thesis using decode_first_four[of p raw "0x08" a "h_sector h" "h_track h" r ys] assms(1) by auto
qed

lemma decode_data_first:
  assumes "drop p (bytes_bits raw) = data_bits buf e @ ys" "length buf = 256"
  shows "\<exists>hd. gcr_decode_block raw (int p) 1 = Some hd \<and> hd ! 0 \<noteq> 0x08"
proof -
  obtain a b c r where buf: "buf = a # b # c # r" using assms(2) by (auto simp: numeral_eq_Suc length_Suc_conv)
  obtain r' where d: "data_block buf e = (if e = CBMDOS_FDC_ERR_NOBLOCK then 0x00 else 0x07) # a # b # c # r'"
    by (simp add: data_block_def Let_def buf)
  show ?thesis using decode_first_four[of p raw _ a b c r' ys] assms(1) unfolding d by auto
qed

lemma header_step:
  assumes "gcr_find_sync raw p (length raw * 8) = Some p'" "p2 < p'" "0 \<le> p'" "gcr_decode_block raw p' 1 = Some hb"
  shows "find_header_loop raw sector p p2 = (if hb ! 0 = 0x08 \<and> hb ! 2 = sector then Some (Some p')
      else find_header_loop raw sector p' (if p2 < 0 then p' else p2))"
  using assms by (subst find_header_loop.simps) auto

lemma quiet_header: "quiet (header_bits h e @ bytes_bits (replicate 9 0x55))"
  by (intro quiet_append quiet_encode quiet_55) simp

lemma quiet_data: "length buf = 256 \<Longrightarrow> quiet (data_bits buf e @ bytes_bits (replicate gap 0x55))"
  by (intro quiet_append quiet_encode quiet_55) simp

lemma drop_len: "drop p xs = ys \<Longrightarrow> ys \<noteq> [] \<Longrightarrow> length xs = p + length ys"
  by auto

lemma find_header_images:
  assumes "drop p (bytes_bits raw) = xs @ bytes_bits (concat (map (sector_image gap) pre)) @ bytes_bits (sector_image gap (buf, h, e)) @ rest"
    "quiet xs" "p2 \<le> int p" "sectors_ok pre" "length buf = 256" "plain e" "h_sector h = sector"
    "\<forall>(b, h', e')\<in>set pre. plain e' \<and> h_sector h' \<noteq> sector"
  shows "\<exists>q. find_header_loop raw sector (int p) p2 = Some (Some (int q))
    \<and> drop q (bytes_bits raw) = header_bits h e @ bytes_bits (replicate 9 0x55) @ replicate 40 True @ data_bits buf e @ bytes_bits (replicate gap 0x55) @ rest"
  using assms
proof (induction pre arbitrary: p p2 xs)
  case Nil
  let ?zs = "header_bits h e @ bytes_bits (replicate 9 0x55) @ replicate 40 True @ data_bits buf e @ bytes_bits (replicate gap 0x55) @ rest"
  have d: "drop p (bytes_bits raw) = xs @ replicate 40 True @ ?zs" using Nil.prems(1,6) by (simp only: image_bits) simp
  have z: "\<exists>ys. ?zs = False # ys" using header_first[OF Nil.prems(6), of h] by auto
  have "length (bytes_bits raw) = p + length (xs @ replicate 40 True @ ?zs)" using d by (rule drop_len) simp
  then have s: "length xs + 40 < length raw * 8" by simp
  note f = find_sync_at[OF d Nil.prems(2) z s]
  obtain hd where hd: "gcr_decode_block raw (int (p + length xs + 40)) 1 = Some hd" "hd ! 0 = 0x08" "hd ! 2 = sector"
    using decode_header[OF f(3) Nil.prems(6)] Nil.prems(7) by auto
  have "find_header_loop raw sector (int p) p2 = Some (Some (int (p + length xs + 40)))"
    using header_step[OF f(1) _ _ hd(1)] hd(2,3) Nil.prems(3) by simp
  then show ?case using f(3) by blast
next
  case (Cons s pre)
  obtain b h' e' where s: "s = (b, h', e')" by (cases s)
  have pl: "plain e'" "h_sector h' \<noteq> sector" and b: "length b = 256" using Cons.prems(4,8) by (auto simp: s)
  let ?hg = "header_bits h' e' @ bytes_bits (replicate 9 0x55)" and ?dg = "data_bits b e' @ bytes_bits (replicate gap 0x55)"
  let ?rest = "bytes_bits (concat (map (sector_image gap) pre)) @ bytes_bits (sector_image gap (buf, h, e)) @ rest"
  have d: "drop p (bytes_bits raw) = xs @ replicate 40 True @ ?hg @ replicate 40 True @ ?dg @ ?rest"
    using Cons.prems(1) pl(1) by (simp only: s list.map concat.simps bytes_bits_simps image_bits append_assoc)
  have z1: "\<exists>ys. ?hg @ replicate 40 True @ ?dg @ ?rest = False # ys" using header_first[OF pl(1), of h'] by auto
  have z2: "\<exists>ys. ?dg @ ?rest = False # ys" using data_first[OF b, of e'] by auto
  have len: "length (bytes_bits raw) = p + length (xs @ replicate 40 True @ ?hg @ replicate 40 True @ ?dg @ ?rest)" using d by (rule drop_len) simp
  then have s1: "length xs + 40 < length raw * 8" and s2: "length ?hg + 40 < length raw * 8" by simp_all
  let ?p1 = "p + length xs + 40"
  note f1 = find_sync_at[OF d Cons.prems(2) z1 s1]
  obtain h1 where h1: "gcr_decode_block raw (int ?p1) 1 = Some h1" "h1 ! 2 \<noteq> sector"
    using decode_header[of ?p1 raw h' e'] f1(3) pl by auto
  let ?p2' = "if p2 < 0 then int ?p1 else p2"
  have e1: "find_header_loop raw sector (int p) p2 = find_header_loop raw sector (int ?p1) ?p2'"
    using header_step[OF f1(1) _ _ h1(1)] h1(2) Cons.prems(3) by simp
  have d2: "drop ?p1 (bytes_bits raw) = ?hg @ replicate 40 True @ ?dg @ ?rest" using f1(3) by simp
  note f2 = find_sync_at[OF d2 quiet_header z2 s2]
  let ?p3 = "?p1 + length ?hg + 40"
  obtain h2 where h2: "gcr_decode_block raw (int ?p3) 1 = Some h2" "h2 ! 0 \<noteq> 0x08"
    using decode_data_first[of ?p3 raw b e'] f2(3) b by auto
  have e2: "find_header_loop raw sector (int ?p1) ?p2' = find_header_loop raw sector (int ?p3) (if ?p2' < 0 then int ?p3 else ?p2')"
    using header_step[OF f2(1) _ _ h2(1)] h2(2) Cons.prems(3) by simp
  have "\<exists>q. find_header_loop raw sector (int ?p3) (if ?p2' < 0 then int ?p3 else ?p2') = Some (Some (int q))
    \<and> drop q (bytes_bits raw) = header_bits h e @ bytes_bits (replicate 9 0x55) @ replicate 40 True @ data_bits buf e @ bytes_bits (replicate gap 0x55) @ rest"
  proof (rule Cons.IH)
    show "drop ?p3 (bytes_bits raw) = ?dg @ ?rest" using f2(3) by simp
    show "(if ?p2' < 0 then int ?p3 else ?p2') \<le> int ?p3" using Cons.prems(3) by simp
  qed (use Cons.prems b in \<open>simp_all add: quiet_data s\<close>)
  then show ?case unfolding e1 e2 .
qed

lemma find_data_images:
  assumes raw: "raw = concat (map (sector_image gap) pre) @ sector_image gap (buf, h, e) @ rest"
    and ok: "sectors_ok pre" "length buf = 256" "plain e" "\<forall>(b, h', e')\<in>set pre. plain e' \<and> h_sector h' \<noteq> h_sector h"
  shows "\<exists>q. find_data_block raw (h_sector h) = Some (Some (int q))
    \<and> drop q (bytes_bits raw) = bytes_bits (gcr_encode (data_block buf e) @ replicate gap 0x55 @ rest)"
proof -
  let ?dg = "data_bits buf e @ bytes_bits (replicate gap 0x55) @ bytes_bits rest"
  have d: "drop 0 (bytes_bits raw) = [] @ bytes_bits (concat (map (sector_image gap) pre)) @ bytes_bits (sector_image gap (buf, h, e)) @ bytes_bits rest"
    by (simp add: raw)
  obtain q where q: "find_header_loop raw (h_sector h) 0 (- CBMDOS_FDC_ERR_SYNC) = Some (Some (int q))"
    "drop q (bytes_bits raw) = (header_bits h e @ bytes_bits (replicate 9 0x55)) @ replicate 40 True @ ?dg"
    using find_header_images[OF d quiet_Nil _ ok(1-3) refl ok(4), of "- CBMDOS_FDC_ERR_SYNC"] by (auto simp: fdc_defs)
  have z: "\<exists>ys. ?dg = False # ys" using data_first[OF ok(2), of e] by auto
  have "length (header_bits h e @ bytes_bits (replicate 9 0x55)) + 40 < 4000" by simp
  note f = find_sync_at[OF q(2) quiet_header z this]
  have "find_data_block raw (h_sector h) = Some (gcr_find_sync raw (int q) 4000)"
    using q(1) by (simp add: find_data_block_def gcr_find_sector_header_def)
  then show ?thesis using f(1,3) by (intro exI[of _ "q + length (header_bits h e @ bytes_bits (replicate 9 0x55)) + 40"]) simp
qed

text \<open>Checksums.\<close>

lemma xor_bytes_start: "xor_bytes bs c = c XOR xor_bytes bs 0"
proof (induction bs arbitrary: c)
  case (Cons b bs)
  have "xor_bytes (b # bs) c = xor_bytes bs (c XOR b)" for c by (simp add: xor_bytes_def)
  then show ?case using Cons[of "c XOR b"] Cons[of b] by (simp add: xor.assoc)
qed (simp add: xor_bytes_def)

lemma xor_bytes_snoc: "xor_bytes (bs @ [b]) c = xor_bytes bs c XOR b"
  by (simp add: xor_bytes_def)

lemma last_byte: "length buf = 256 \<Longrightarrow> take 255 buf @ [buf ! 255] = buf"
  using take_Suc_conv_app_nth[of 255 buf] by simp

lemma data_block_nth:
  fixes e :: int
  assumes "length buf = 256"
  defines "t \<equiv> if e = CBMDOS_FDC_ERR_NOBLOCK then 0x00 else 0x07" and "k \<equiv> if e = CBMDOS_FDC_ERR_DCHECK then 0xFF else 0x00"
  shows "data_block buf e = t # buf @ [xor_bytes buf k, 0, 0]"
proof -
  have "xor_bytes buf k = xor_bytes (take 255 buf) k XOR buf ! 255" using last_byte[OF assms(1)] xor_bytes_snoc by metis
  moreover have "take 255 buf @ buf ! 255 # ys = buf @ ys" for ys using last_byte[OF assms(1)] by (metis append_Cons append_Nil append_assoc)
  ultimately show ?thesis by (simp add: data_block_def Let_def t_def k_def)
qed

lemma xor_bytes_cancel: "xor_bytes bs (xor_bytes bs k) = k"
  using xor_bytes_start[of bs "xor_bytes bs k"] xor_bytes_start[of bs k] by (simp add: xor.assoc)

definition read_status :: "int \<Rightarrow> int" where
  "read_status e = (if e = CBMDOS_FDC_ERR_NOBLOCK \<or> e = CBMDOS_FDC_ERR_DCHECK then e else CBMDOS_FDC_ERR_OK)"

lemma read_image:
  assumes raw: "raw = concat (map (sector_image gap) pre) @ sector_image gap (buf, h, e) @ rest"
    and ok: "sectors_ok pre" "length buf = 256" "plain e" "\<forall>(b, h', e')\<in>set pre. plain e' \<and> h_sector h' \<noteq> h_sector h"
  shows "gcr_read_sector raw data (h_sector h) = Some (Some (read_status e, buf))"
proof -
  obtain q where q: "find_data_block raw (h_sector h) = Some (Some (int q))"
    "drop q (bytes_bits raw) = data_bits buf e @ bytes_bits (replicate gap 0x55 @ rest)"
    using find_data_images[OF assms] by auto
  have dec: "gcr_decode_block raw (int q) 65 = Some (data_block buf e)" using decode_ahead[OF q(2)] ok(2) by simp
  have nth: "(buf @ [x, 0, 0]) ! 256 = x" for x :: byte using ok(2) by (simp add: nth_append)
  have k: "(if e = CBMDOS_FDC_ERR_DCHECK then 0xFF else 0x00 :: byte) \<noteq> 0 \<longleftrightarrow> e = CBMDOS_FDC_ERR_DCHECK" by simp
  show ?thesis unfolding gcr_read_sector_def q(1) using dec unfolding data_block_nth[OF ok(2)]
    by (simp add: ok(2) nth xor_bytes_cancel Let_def read_status_def k fdc_defs)
qed

definition written :: "byte list \<Rightarrow> gcr_header_t \<Rightarrow> int \<Rightarrow> byte list \<times> gcr_header_t \<times> int" where
  "written new h e = (new, h, if e = CBMDOS_FDC_ERR_NOBLOCK \<or> e = CBMDOS_FDC_ERR_DCHECK then CBMDOS_FDC_ERR_OK else e)"

lemma write_image:
  assumes raw: "raw = concat (map (sector_image gap) pre) @ sector_image gap (buf, h, e) @ rest"
    and ok: "sectors_ok pre" "length buf = 256" "plain e" "\<forall>(b, h', e')\<in>set pre. plain e' \<and> h_sector h' \<noteq> h_sector h"
    and new: "length new = 256"
  shows "gcr_write_sector raw new (h_sector h) = Some (Some (CBMDOS_FDC_ERR_OK,
      concat (map (sector_image gap) pre) @ sector_image gap (written new h e) @ rest))"
proof -
  obtain q where q: "find_data_block raw (h_sector h) = Some (Some (int q))"
    "drop q (bytes_bits raw) = bytes_bits (gcr_encode (data_block buf e) @ replicate gap 0x55 @ rest)"
    using find_data_images[OF assms(1-5)] by auto
  let ?r1 = "concat (map (sector_image gap) pre) @ replicate 5 (sync_byte e) @ gcr_encode (header_block h e) @ replicate 9 0x55 @ replicate 5 (sync_byte e)"
  let ?r2 = "replicate gap 0x55 @ rest"
  have r: "raw = ?r1 @ gcr_encode (data_block buf e) @ ?r2" by (simp add: raw sector_image_def)
  have "length (bytes_bits raw) = q + length (bytes_bits (gcr_encode (data_block buf e) @ ?r2))"
    using q(2) by (rule drop_len) (use ok(2) in \<open>simp add: length_0_conv[symmetric] del: length_0_conv bytes_bits_simps\<close>)
  then have "8 * length raw = q + 8 * length (gcr_encode (data_block buf e) @ ?r2)" by (simp only: length_bytes_bits)
  moreover have "length raw = length ?r1 + length (gcr_encode (data_block buf e) @ ?r2)" unfolding r by simp
  ultimately have qr: "q = 8 * length ?r1" by linarith
  obtain n0 ns where ns: "new = n0 # ns" using new by (cases new) auto
  have blk: "0x07 # new @ [xor_bytes (take 255 (drop 1 new)) (new ! 0), 0, 0] = data_block new CBMDOS_FDC_ERR_OK"
  proof -
    have "xor_bytes (take 255 (drop 1 new)) (new ! 0) = xor_bytes new 0" using new by (simp add: ns xor_bytes_def)
    then show ?thesis unfolding data_block_nth[OF new] by (simp add: fdc_defs)
  qed
  have w: "write_block raw (int q) (data_block new CBMDOS_FDC_ERR_OK) = ?r1 @ gcr_encode (data_block new CBMDOS_FDC_ERR_OK) @ ?r2"
    unfolding r qr using ok(2) new by (intro write_block_aligned) simp_all
  have hd: "header_block h CBMDOS_FDC_ERR_OK = header_block h e" if "e = CBMDOS_FDC_ERR_NOBLOCK \<or> e = CBMDOS_FDC_ERR_DCHECK"
    using that by (auto simp: header_block_def Let_def fdc_defs)
  have dt: "data_block new CBMDOS_FDC_ERR_OK = data_block new e" if "\<not> (e = CBMDOS_FDC_ERR_NOBLOCK \<or> e = CBMDOS_FDC_ERR_DCHECK)"
    using that by (auto simp: data_block_def Let_def fdc_defs)
  have sy: "sync_byte CBMDOS_FDC_ERR_OK = sync_byte e" using ok(3) by (simp add: sync_byte_def plain_def fdc_defs)
  have "?r1 @ gcr_encode (data_block new CBMDOS_FDC_ERR_OK) @ ?r2 = concat (map (sector_image gap) pre) @ sector_image gap (written new h e) @ rest"
    using hd dt sy by (cases "e = CBMDOS_FDC_ERR_NOBLOCK \<or> e = CBMDOS_FDC_ERR_DCHECK") (simp_all add: written_def sector_image_def)
  then show ?thesis unfolding gcr_write_sector_def q(1) blk using w by simp
qed

text \<open>A stream of code words has no sync mark in it, at any position of the circle.\<close>

lemma scan_part: "scan (xs @ ys @ zs) c = None \<Longrightarrow> scan ys 0 = None"
proof -
  assume "scan (xs @ ys @ zs) c = None"
  then have "scan ys (run_after xs c) = None" by (auto simp: scan_append split: option.splits)
  then show ?thesis by (rule scan_mono) simp
qed

lemma nth_concat_replicate: "0 < length b \<Longrightarrow> i < m * length b \<Longrightarrow> concat (replicate m b) ! i = b ! (i mod length b)"
proof (induction m arbitrary: i)
  case (Suc m)
  then show ?case by (cases "i < length b") (simp_all add: nth_append le_mod_geq)
qed simp

lemma quiet_circle:
  assumes "quiet (bytes_bits raw)" "p < 8 * length raw"
  shows "scan (track_from raw p s) 0 = None"
proof -
  let ?N = "8 * length raw"
  let ?X = "concat (replicate (p + s) (bytes_bits raw))"
  have len: "length ?X = (p + s) * ?N" by (simp add: length_concat sum_list_replicate)
  have "1 \<le> ?N" using assms(2) by linarith
  then have ps: "p + s \<le> length ?X" unfolding len by (cases "?N") simp_all
  have "track_from raw p s = take s (drop p ?X)"
  proof (rule nth_equalityI)
    show "length (track_from raw p s) = length (take s (drop p ?X))" using ps by (simp add: track_from_def del: length_concat)
    fix i assume "i < length (track_from raw p s)"
    then have i: "i < s" by (simp add: track_from_def)
    have "take s (drop p ?X) ! i = ?X ! (p + i)" using i ps by simp
    also have "\<dots> = bytes_bits raw ! ((p + i) mod ?N)" using nth_concat_replicate[of "bytes_bits raw" "p + i" "p + s"] i ps assms(2) len by (cases raw) simp_all
    also have "\<dots> = tbit raw ((p + i) mod ?N)" using assms(2) by (intro nth_bytes_bits mod_less_divisor) linarith
    finally show "track_from raw p s ! i = take s (drop p ?X) ! i" using i by (simp add: track_from_def)
  qed
  moreover have "?X = take p ?X @ take s (drop p ?X) @ drop s (drop p ?X)" by (simp only: append_take_drop_id)
  moreover have "scan ?X 0 = None" using quiet_concat[of "replicate (p + s) (bytes_bits raw)"] assms(1) by (auto simp: quiet_def)
  ultimately show ?thesis using scan_part by metis
qed

lemma quiet_then_silent: "(\<And>c. scan ys c = None) \<Longrightarrow> quiet xs \<Longrightarrow> scan (xs @ ys) 0 = None"
  by (simp add: quiet_def scan_append)

lemma one_sync_circle:
  fixes k :: nat
  assumes "2 \<le> j" "5 \<le> m"
  defines "raw \<equiv> replicate k 0x55 @ replicate j 0xFF @ replicate m (0x55::byte)" and "a \<equiv> 8 * (k + j)"
  shows "gcr_find_sync raw 0 (length raw * 8) = Some (int a)"
    and "gcr_find_sync raw (int a) (length raw * 8) = Some (- CBMDOS_FDC_ERR_SYNC)"
    and "\<exists>hb. gcr_decode_block raw (int a) 1 = Some hb \<and> hb ! 0 \<noteq> 0x08"
proof -
  have z: "\<exists>ys. bytes_bits (replicate m 0x55) = False # ys" using assms(2) by (cases m) (simp_all add: byte_bits_def)
  then obtain ys where ys: "bytes_bits (replicate m 0x55) = False # ys" by blast
  have d: "drop 0 (bytes_bits raw) = bytes_bits (replicate k 0x55) @ replicate (8 * j) True @ False # ys"
    by (simp add: raw_def bytes_FF ys)
  have s: "length (bytes_bits (replicate k 0x55)) + 8 * j < length raw * 8" using assms(2) by (simp add: raw_def)
  have j: "10 \<le> 8 * j" using assms(1) by linarith
  note f = find_sync_ahead[OF d quiet_55 j s]
  show "gcr_find_sync raw 0 (length raw * 8) = Some (int a)" using f(1) by (simp add: a_def algebra_simps)
  have a: "a < 8 * length raw" "drop a (bytes_bits raw) = bytes_bits (replicate m 0x55)"
    using f(2,3) ys by (simp_all add: a_def algebra_simps)
  have "track_from raw a (length raw * 8) = track_from raw a (8 * m) @ track_from raw (a + 8 * m) a"
    using track_from_append[of raw a "8 * m" a] by (simp add: raw_def a_def algebra_simps)
  also have "track_from raw a (8 * m) = bytes_bits (replicate m 0x55)"
    using track_from_drop[of a "8 * m" raw] a(2) by (simp add: raw_def a_def)
  also have "track_from raw (a + 8 * m) a = track_from raw 0 a"
  proof -
    have "a + 8 * m = 8 * length raw" by (simp add: raw_def a_def)
    then have "(a + 8 * m + i) mod (8 * length raw) = i mod (8 * length raw)" for i by (simp only: mod_add_self1)
    then show ?thesis by (simp add: track_from_def del: upt_Suc)
  qed
  also have "\<dots> = bytes_bits (replicate k 0x55) @ replicate (8 * j) True"
    using track_from_drop[of 0 a raw] a(1) by (simp add: raw_def a_def bytes_FF)
  finally have t: "track_from raw a (length raw * 8) = (bytes_bits (replicate m 0x55) @ bytes_bits (replicate k 0x55)) @ replicate (8 * j) True" by simp
  have "scan (replicate (8 * j) True) c = None" for c using scan_ones[of "8 * j" "[]" c] by simp
  moreover have "quiet (bytes_bits (replicate m 0x55) @ bytes_bits (replicate k 0x55))" by (intro quiet_append quiet_55)
  ultimately have "scan (track_from raw a (length raw * 8)) 0 = None" unfolding t
    by (intro quiet_then_silent)
  then show "gcr_find_sync raw (int a) (length raw * 8) = Some (- CBMDOS_FDC_ERR_SYNC)" using gcr_find_sync_scan[OF a(1)] by simp
  obtain m' where m': "m = 5 + m'" using assms(2) le_Suc_ex by blast
  have "block_at raw a = [0x55, 0x55, 0x55, 0x55, 0x55]"
  proof (rule bytes_bits_inj)
    have "bytes_bits (block_at raw a) = track_from raw a 40" using a(1) by (intro bits_block_at) auto
    also have "\<dots> = take 40 (bytes_bits (replicate m 0x55))" using track_from_drop[of a 40 raw] a(2) assms(2) by (simp add: raw_def a_def)
    also have "\<dots> = bytes_bits [0x55, 0x55, 0x55, 0x55, 0x55]" by (simp add: m' replicate_add numeral_eq_Suc)
    finally show "bytes_bits (block_at raw a) = bytes_bits [0x55, 0x55, 0x55, 0x55, 0x55]" .
  qed
  then have dec: "gcr_decode_block raw (int a) 1 = Some (gcr_convert_GCR_to_4bytes [0x55, 0x55, 0x55, 0x55, 0x55])"
    using gcr_decode_block_bits[OF a(1), of 1] by simp
  have "gcr_convert_GCR_to_4bytes [0x55, 0x55, 0x55, 0x55, 0x55] ! 0 \<noteq> 0x08"
    unfolding from_GCR_bits by (simp add: byte_bits_def val_def From_GCR_conv_data_def)
  then show "\<exists>hb. gcr_decode_block raw (int a) 1 = Some hb \<and> hb ! 0 \<noteq> 0x08" using dec by blast
qed

subsection \<open>Properties\<close>

text \<open>
  Four bytes survive the group code: decoding their five code bytes gives them back.
\<close>

theorem gcr_roundtrip:
  "gcr_convert_GCR_to_4bytes (gcr_convert_4bytes_to_GCR [a, b, c, d]) = [a, b, c, d]"
  by (rule convert_back[OF to_GCR_bits gcr_length])

text \<open>
  C15: no data looks like a sync mark: on a circular track that holds nothing but encoded bytes, the
  search for a sync mark fails from every position, however far it goes.
\<close>

theorem gcr_no_false_sync:
  assumes "length bs mod 4 = 0" "p < 8 * length (gcr_encode bs)"
  shows "gcr_find_sync (gcr_encode bs) (int p) s = Some (- CBMDOS_FDC_ERR_SYNC)"
  using gcr_find_sync_scan[OF assms(2), of s] quiet_circle[OF quiet_encode[OF assms(1)] assms(2), of s] by simp

theorem gcr_no_false_sync_witness:
  "gcr_find_sync (gcr_encode [0xFF, 0xFF, 0xFF, 0xFF]) (int 7) 1000 = Some (- CBMDOS_FDC_ERR_SYNC)"
  by (rule gcr_no_false_sync) (simp_all add: gcr_length)

text \<open>
  C14: a block of 260 bytes written at any bit position of a track, across byte boundaries and across
  the end of the track, is read back from there; every bit outside the block is left alone.
\<close>

theorem gcr_block_write_read:
  assumes "length buf = 260" "325 \<le> length raw" "p < 8 * length raw"
  shows "gcr_decode_block (write_block raw (int p) buf) (int p) 65 = Some buf
    \<and> (\<forall>i<8 * length raw. (\<forall>k<2600. i \<noteq> (p + k) mod (8 * length raw)) \<longrightarrow> tbit (write_block raw (int p) buf) i = tbit raw i)"
proof -
  have l: "length (gcr_encode buf) = 325" using assms(1) by (simp add: length_encode)
  have fit: "2 \<le> length raw" "length (gcr_encode buf) \<le> length raw" using assms(2) l by simp_all
  note w = write_block_bits[OF assms(3) fit]
  have "gcr_decode_block (write_block raw (int p) buf) (int p) 65 = Some buf"
    using assms(1,3) w(1,2) l by (intro decode_encoded) simp_all
  moreover have "\<forall>i<8 * length raw. (\<forall>k<2600. i \<noteq> (p + k) mod (8 * length raw)) \<longrightarrow> tbit (write_block raw (int p) buf) i = tbit raw i"
    using w(3) l by simp
  ultimately show ?thesis ..
qed

lemma outside_window: "k < 2600 \<Longrightarrow> 2500 \<noteq> (3003 + k) mod (3200::nat)"
  by (cases "k < 197") (simp_all add: le_mod_geq)

theorem gcr_block_write_read_witness:
  "gcr_decode_block (write_block (replicate 400 0x55) (int 3003) (replicate 260 7)) (int 3003) 65 = Some (replicate 260 7)
   \<and> tbit (write_block (replicate 400 0x55) (int 3003) (replicate 260 7)) 2500 = tbit (replicate 400 0x55) 2500"
  using gcr_block_write_read[of "replicate 260 7" "replicate 400 0x55" 3003] outside_window by simp

text \<open>
  On a formatted track the sector asked for is found and read, with the status its error code
  asks for: a wrong checksum, a missing block mark, or none. The sectors in front of it have other
  numbers and readable headers.
\<close>

lemma read_formatted_sector:
  assumes "sectors_ok secs" "(354 + gap) * length secs \<le> n" "i < length secs" "secs ! i = (buf, h, e)" "plain e"
    "\<forall>(b, h', e')\<in>set (take i secs). plain e' \<and> h_sector h' \<noteq> h_sector h"
  shows "\<exists>raw. format_track n gap secs = Some raw \<and> gcr_read_sector raw data (h_sector h) = Some (Some (read_status e, buf))"
proof -
  let ?fill = "replicate (n - (354 + gap) * length secs) (0x55::byte)"
  have s: "secs = take i secs @ (buf, h, e) # drop (Suc i) secs" using id_take_nth_drop[OF assms(3)] assms(4) by simp
  note ok = sectors_ok_take[OF assms(1), of i] sectors_ok_nth[OF assms(1,3,4)]
  have "concat (map (sector_image gap) secs) @ ?fill
      = concat (map (sector_image gap) (take i secs)) @ sector_image gap (buf, h, e) @ concat (map (sector_image gap) (drop (Suc i) secs)) @ ?fill"
    by (subst s) simp
  then show ?thesis using format_track_images[OF assms(1,2)] read_image[OF _ ok assms(5,6)] by metis
qed

text \<open>
  Writing a sector of a formatted track gives the very track that formatting with the new data
  gives: nothing but that data block and its checksum changes.
\<close>

lemma write_formatted_sector:
  assumes "sectors_ok secs" "(354 + gap) * length secs \<le> n" "i < length secs" "secs ! i = (buf, h, e)" "plain e"
    "\<forall>(b, h', e')\<in>set (take i secs). plain e' \<and> h_sector h' \<noteq> h_sector h" "length new = 256"
  shows "\<exists>raw raw'. format_track n gap secs = Some raw
    \<and> gcr_write_sector raw new (h_sector h) = Some (Some (CBMDOS_FDC_ERR_OK, raw'))
    \<and> format_track n gap (secs[i := written new h e]) = Some raw'"
proof -
  let ?fill = "replicate (n - (354 + gap) * length secs) (0x55::byte)"
  let ?rest = "concat (map (sector_image gap) (drop (Suc i) secs)) @ ?fill"
  have s: "secs = take i secs @ (buf, h, e) # drop (Suc i) secs" using id_take_nth_drop[OF assms(3)] assms(4) by simp
  have s': "secs[i := written new h e] = take i secs @ written new h e # drop (Suc i) secs" using assms(3) by (simp add: upd_conv_take_nth_drop)
  note ok = sectors_ok_take[OF assms(1), of i] sectors_ok_nth[OF assms(1,3,4)]
  have ok': "sectors_ok (secs[i := written new h e])" using assms(1,7) unfolding written_def by (rule sectors_ok_update)
  have r: "concat (map (sector_image gap) secs) @ ?fill = concat (map (sector_image gap) (take i secs)) @ sector_image gap (buf, h, e) @ ?rest"
    by (subst s) simp
  have "format_track n gap (secs[i := written new h e]) = Some (concat (map (sector_image gap) (secs[i := written new h e])) @ ?fill)"
    using format_track_images[OF ok', of gap n] assms(2) by (simp only: length_list_update)
  then have r': "format_track n gap (secs[i := written new h e]) = Some (concat (map (sector_image gap) (take i secs)) @ sector_image gap (written new h e) @ ?rest)"
    unfolding s' by simp
  show ?thesis using format_track_images[OF assms(1,2)] write_image[OF r ok assms(5,6,7)] r' by blast
qed

text \<open>
  C38: a track with a single sync mark and no header behind it makes the search read in front of the
  track: the second search goes once round and fails, its error code \<open>-3\<close> is not the first position,
  and is used as one.
\<close>

theorem single_sync_reads_outside:
  assumes "2 \<le> j" "5 \<le> m"
  shows "gcr_read_sector (replicate k 0x55 @ replicate j 0xFF @ replicate m 0x55) data sector = Some None"
proof -
  let ?raw = "replicate k 0x55 @ replicate j 0xFF @ replicate m (0x55::byte)"
  note f = one_sync_circle[OF assms, of k]
  obtain hb where hb: "gcr_decode_block ?raw (int (8 * (k + j))) 1 = Some hb" "hb ! 0 \<noteq> 0x08" using f(3) by blast
  have "gcr_decode_block ?raw (- CBMDOS_FDC_ERR_SYNC) 1 = None"
    by (simp add: gcr_decode_block_def data_at_def fdc_defs drop_bit_eq_div)
  then have "find_header_loop ?raw sector (int (8 * (k + j))) (int (8 * (k + j))) = Some None"
    using f(2) assms by (subst find_header_loop.simps) (simp add: fdc_defs)
  moreover have "find_header_loop ?raw sector 0 (- CBMDOS_FDC_ERR_SYNC) = find_header_loop ?raw sector (int (8 * (k + j))) (int (8 * (k + j)))"
    using header_step[OF f(1) _ _ hb(1), of "- CBMDOS_FDC_ERR_SYNC" sector] hb(2) by (simp add: fdc_defs)
  ultimately show ?thesis by (simp add: gcr_read_sector_def find_data_block_def gcr_find_sector_header_def)
qed

theorem single_sync_reads_outside_witness:
  "gcr_read_sector (replicate 100 0x55 @ replicate 5 0xFF @ replicate 200 0x55) [] 0 = Some None"
  by (rule single_sync_reads_outside) simp_all

end
