(* ===== verification/Diskimage.thy ===== *)
theory Diskimage
  imports Gcr
begin

text \<open>
  The geometry of disk images, \<open>diskimage.c\<close> and \<open>fsimage-check.c\<close>: speed zones, sectors per track,
  the size of a raw track and the gap between sectors, and the number of a sector in the image.
\<close>

subsection \<open>The code\<close>

datatype image_type = X64 | G64 | G71 | P64 | D64 | D67 | D71 | D81 | D80 | D82 | D1M | D2M | D4M | OtherType

definition disk_image_speed_map :: "image_type \<Rightarrow> nat \<Rightarrow> nat" where
  "disk_image_speed_map format track =
     (case format of
        D67 \<Rightarrow> of_bool (track < 31) + of_bool (track < 25) + of_bool (track < 18)
      | D64 \<Rightarrow> of_bool (track < 31) + of_bool (track < 25) + of_bool (track < 18)
      | X64 \<Rightarrow> of_bool (track < 31) + of_bool (track < 25) + of_bool (track < 18)
      | G64 \<Rightarrow> of_bool (track < 31) + of_bool (track < 25) + of_bool (track < 18)
      | P64 \<Rightarrow> of_bool (track < 31) + of_bool (track < 25) + of_bool (track < 18)
      | D80 \<Rightarrow> of_bool (track < 65) + of_bool (track < 54) + of_bool (track < 40)
      | D82 \<Rightarrow> (let t = (if track > 77 then track - 77 else track) in of_bool (t < 65) + of_bool (t < 54) + of_bool (t < 40))
      | D71 \<Rightarrow> (let t = (if track > 35 then track - 35 else track) in of_bool (t < 31) + of_bool (t < 25) + of_bool (t < 18))
      | G71 \<Rightarrow> (let t = (if track > 42 then track - 42 else track) in of_bool (t < 31) + of_bool (t < 25) + of_bool (t < 18))
      | _ \<Rightarrow> 0)"

definition sector_map_d64 :: "nat list" where "sector_map_d64 = [17, 18, 19, 21]"
definition sector_map_d67 :: "nat list" where "sector_map_d67 = [17, 18, 20, 21]"
definition sector_map_d80 :: "nat list" where "sector_map_d80 = [23, 25, 27, 29]"

definition disk_image_sector_per_track :: "image_type \<Rightarrow> nat \<Rightarrow> nat" where
  "disk_image_sector_per_track format track =
     (case format of
        D64 \<Rightarrow> sector_map_d64 ! disk_image_speed_map format track
      | X64 \<Rightarrow> sector_map_d64 ! disk_image_speed_map format track
      | G64 \<Rightarrow> sector_map_d64 ! disk_image_speed_map format track
      | P64 \<Rightarrow> sector_map_d64 ! disk_image_speed_map format track
      | D71 \<Rightarrow> sector_map_d64 ! disk_image_speed_map format track
      | G71 \<Rightarrow> sector_map_d64 ! disk_image_speed_map format track
      | D67 \<Rightarrow> sector_map_d67 ! disk_image_speed_map format track
      | D80 \<Rightarrow> sector_map_d80 ! disk_image_speed_map format track
      | D82 \<Rightarrow> sector_map_d80 ! disk_image_speed_map format track
      | _ \<Rightarrow> 0)"

definition raw_track_size_d64 :: "nat list" where "raw_track_size_d64 = [6250, 6666, 7142, 7692]"
definition raw_track_size_d80 :: "nat list" where "raw_track_size_d80 = [9375, 10000, 10714, 11538]"

definition disk_image_raw_track_size :: "image_type \<Rightarrow> nat \<Rightarrow> nat" where
  "disk_image_raw_track_size format track =
     (if format \<in> {D64, X64, G64, P64, D71, G71, D67} then raw_track_size_d64 ! disk_image_speed_map format track
      else if format \<in> {D80, D82} then raw_track_size_d80 ! disk_image_speed_map format track
      else 1)"

definition gap_size_d64 :: "nat list" where "gap_size_d64 = [9, 12, 17, 8]"

definition disk_image_gap_size :: "image_type \<Rightarrow> nat \<Rightarrow> nat" where
  "disk_image_gap_size format track =
     (if format \<in> {D64, X64, G64, P64, D71, G71, D67} then gap_size_d64 ! disk_image_speed_map format track
      else if format \<in> {D80, D82} then 25
      else 1)"

text \<open>An image as far as its geometry goes: its type, its number of tracks, and the half tracks the drive can reach.\<close>

record disk_image_t =
  i_type :: image_type
  i_tracks :: nat
  i_max_half_tracks :: nat

definition FSIMAGE_BAD_TRKNUM :: int where "FSIMAGE_BAD_TRKNUM = -2"
definition FSIMAGE_BAD_SECNUM :: int where "FSIMAGE_BAD_SECNUM = -3"

text \<open>The loop that sums the sectors of the tracks below.\<close>

definition sectors_below :: "image_type \<Rightarrow> nat \<Rightarrow> nat" where
  "sectors_below format track = sum_list (map (disk_image_sector_per_track format) [1..<track])"

definition zoned_sector :: "image_type \<Rightarrow> nat \<Rightarrow> nat \<Rightarrow> nat \<Rightarrow> int" where
  "zoned_sector format start track sector =
     (if sector \<ge> disk_image_sector_per_track format track then FSIMAGE_BAD_SECNUM
      else int (start + sectors_below format track + sector))"

definition native_sector :: "nat \<Rightarrow> nat \<Rightarrow> nat \<Rightarrow> nat \<Rightarrow> int" where
  "native_sector tracks sys_sectors track sector =
     (if track > tracks then FSIMAGE_BAD_TRKNUM
      else if sector > 255 \<or> (track = tracks \<and> sector \<ge> sys_sectors) then FSIMAGE_BAD_SECNUM
      else int ((track - 1) * 256 + sector))"

definition fsimage_check_sector :: "'a disk_image_t_scheme \<Rightarrow> nat \<Rightarrow> nat \<Rightarrow> int" where
  "fsimage_check_sector im track sector =
     (if track < 1 then FSIMAGE_BAD_TRKNUM
      else
        (case i_type im of
           D64 \<Rightarrow> if track > 42 then FSIMAGE_BAD_TRKNUM else zoned_sector D64 0 track sector
         | X64 \<Rightarrow> if track > 42 then FSIMAGE_BAD_TRKNUM else zoned_sector D64 0 track sector
         | D67 \<Rightarrow> if track > 35 then FSIMAGE_BAD_TRKNUM else zoned_sector D67 0 track sector
         | D71 \<Rightarrow> if track > 70 then FSIMAGE_BAD_TRKNUM
                else if track > 35 then zoned_sector D64 683 (track - 35) sector else zoned_sector D64 0 track sector
         | D81 \<Rightarrow> if track > 83 then FSIMAGE_BAD_TRKNUM
                else if sector \<ge> 40 then FSIMAGE_BAD_SECNUM else int ((track - 1) * 40 + sector)
         | D80 \<Rightarrow> if track > 77 then FSIMAGE_BAD_TRKNUM else zoned_sector D80 0 track sector
         | D82 \<Rightarrow> if track > 154 then FSIMAGE_BAD_TRKNUM
                else if track > 77 then zoned_sector D80 2083 (track - 77) sector else zoned_sector D80 0 track sector
         | G64 \<Rightarrow> if track > i_tracks im \<or> track > 42 then FSIMAGE_BAD_TRKNUM else zoned_sector D64 0 track sector
         | G71 \<Rightarrow> if track > i_tracks im \<or> track > 42 then FSIMAGE_BAD_TRKNUM else zoned_sector D64 0 track sector
         | P64 \<Rightarrow> if track > i_tracks im \<or> track > 42 then FSIMAGE_BAD_TRKNUM else zoned_sector D64 0 track sector
         | D1M \<Rightarrow> native_sector 13 168 track sector
         | D2M \<Rightarrow> native_sector 26 80 track sector
         | D4M \<Rightarrow> native_sector 51 160 track sector
         | OtherType \<Rightarrow> -1))"


subsection \<open>Layouts\<close>

text \<open>
  The contract of a sector numbering: tracks \<open>1\<close> to \<open>tracks\<close>, each with the sectors \<open>0\<close> to \<open>per t - 1\<close>,
  one after the other from \<open>start t\<close> on, and an error for every other pair.
\<close>

locale track_layout =
  fixes check :: "nat \<Rightarrow> nat \<Rightarrow> int" and per start :: "nat \<Rightarrow> nat" and tracks :: nat
  assumes check_valid: "1 \<le> t \<Longrightarrow> t \<le> tracks \<Longrightarrow> s < per t \<Longrightarrow> check t s = int (start t + s)"
    and check_bad: "\<not> (1 \<le> t \<and> t \<le> tracks \<and> s < per t) \<Longrightarrow> check t s < 0"
    and start_1: "start 1 = 0"
    and start_Suc: "1 \<le> t \<Longrightarrow> t \<le> tracks \<Longrightarrow> start (Suc t) = start t + per t"
begin

lemma check_nonneg: "0 \<le> check t s \<longleftrightarrow> 1 \<le> t \<and> t \<le> tracks \<and> s < per t"
  using check_valid[of t s] check_bad[of t s] by fastforce

lemma start_mono: "1 \<le> t \<Longrightarrow> t \<le> t' \<Longrightarrow> t' \<le> Suc tracks \<Longrightarrow> start t \<le> start t'"
proof (induction t')
  case (Suc n)
  then show ?case using start_Suc[of n] by (cases "t = Suc n") simp_all
qed simp

lemma start_less: "1 \<le> t \<Longrightarrow> t < t' \<Longrightarrow> t' \<le> Suc tracks \<Longrightarrow> start t + per t \<le> start t'"
  using start_mono[of "Suc t" t'] start_Suc[of t] by simp

lemma covers: "b < start (Suc n) \<Longrightarrow> n \<le> tracks \<Longrightarrow> \<exists>t s. 1 \<le> t \<and> t \<le> n \<and> s < per t \<and> b = start t + s"
proof (induction n)
  case 0
  then show ?case using start_1 by simp
next
  case (Suc n)
  show ?case
  proof (cases "b < start (Suc n)")
    case True
    then show ?thesis using Suc by fastforce
  next
    case False
    then have "b - start (Suc n) < per (Suc n)" "b = start (Suc n) + (b - start (Suc n))"
      using Suc.prems start_Suc[of "Suc n"] by simp_all
    then show ?thesis by (metis le_add1 le_refl plus_1_eq_Suc)
  qed
qed

lemma check_bij: "bij_betw (\<lambda>(t, s). nat (check t s)) {(t, s). 0 \<le> check t s} {..<start (Suc tracks)}"
proof (rule bij_betwI')
  show "(case x of (t, s) \<Rightarrow> nat (check t s)) = (case y of (t, s) \<Rightarrow> nat (check t s)) \<longleftrightarrow> x = y"
    if x: "x \<in> {(t, s). 0 \<le> check t s}" and y: "y \<in> {(t, s). 0 \<le> check t s}" for x y
  proof -
    obtain t s t' s' where e: "x = (t, s)" "y = (t', s')" by fastforce
    have v: "1 \<le> t" "t \<le> tracks" "s < per t" "1 \<le> t'" "t' \<le> tracks" "s' < per t'"
      using x y by (simp_all add: e check_nonneg)
    consider "t < t'" | "t' < t" | "t = t'" by linarith
    then show ?thesis
    proof cases
      case 1
      then show ?thesis using start_less[of t t'] v by (simp add: e check_valid)
    next
      case 2
      then show ?thesis using start_less[of t' t] v by (simp add: e check_valid)
    next
      case 3
      then show ?thesis using v by (auto simp: e check_valid)
    qed
  qed
  show "(case x of (t, s) \<Rightarrow> nat (check t s)) \<in> {..<start (Suc tracks)}" if "x \<in> {(t, s). 0 \<le> check t s}" for x
    using that start_less[of "fst x" "Suc tracks"] by (auto simp: check_nonneg check_valid)
  show "\<exists>x\<in>{(t, s). 0 \<le> check t s}. b = (case x of (t, s) \<Rightarrow> nat (check t s))" if b: "b \<in> {..<start (Suc tracks)}" for b
  proof -
    obtain t s where "1 \<le> t" "t \<le> tracks" "s < per t" "b = start t + s" using b covers[of b tracks] by auto
    then show ?thesis by (intro bexI[of _ "(t, s)"]) (simp_all add: check_nonneg check_valid)
  qed
qed

end


text \<open>What the numbering of an image promises: its tracks, the sectors of each, and the blocks of the whole.\<close>

definition image_tracks :: "'a disk_image_t_scheme \<Rightarrow> nat" where
  "image_tracks im =
     (case i_type im of D64 \<Rightarrow> 42 | X64 \<Rightarrow> 42 | D67 \<Rightarrow> 35 | D71 \<Rightarrow> 70 | D81 \<Rightarrow> 83 | D80 \<Rightarrow> 77 | D82 \<Rightarrow> 154
      | D1M \<Rightarrow> 13 | D2M \<Rightarrow> 26 | D4M \<Rightarrow> 51 | OtherType \<Rightarrow> 0 | _ \<Rightarrow> min (i_tracks im) 42)"

definition image_per_track :: "'a disk_image_t_scheme \<Rightarrow> nat \<Rightarrow> nat" where
  "image_per_track im t =
     (case i_type im of D67 \<Rightarrow> disk_image_sector_per_track D67 t | D71 \<Rightarrow> disk_image_sector_per_track D71 t
      | D81 \<Rightarrow> 40 | D80 \<Rightarrow> disk_image_sector_per_track D80 t | D82 \<Rightarrow> disk_image_sector_per_track D82 t
      | D1M \<Rightarrow> if t = 13 then 168 else 256 | D2M \<Rightarrow> if t = 26 then 80 else 256 | D4M \<Rightarrow> if t = 51 then 160 else 256
      | _ \<Rightarrow> disk_image_sector_per_track D64 t)"

definition image_start :: "'a disk_image_t_scheme \<Rightarrow> nat \<Rightarrow> nat" where
  "image_start im t = sum_list (map (image_per_track im) [1..<t])"

definition image_blocks :: "'a disk_image_t_scheme \<Rightarrow> nat" where
  "image_blocks im =
     (case i_type im of D64 \<Rightarrow> 802 | X64 \<Rightarrow> 802 | D67 \<Rightarrow> 690 | D71 \<Rightarrow> 1366 | D81 \<Rightarrow> 3320 | D80 \<Rightarrow> 2083 | D82 \<Rightarrow> 4166
      | D1M \<Rightarrow> 3240 | D2M \<Rightarrow> 6480 | D4M \<Rightarrow> 12960 | OtherType \<Rightarrow> 0 | _ \<Rightarrow> sectors_below D64 (Suc (min (i_tracks im) 42)))"

lemma sectors_below_Suc [simp]: "1 \<le> t \<Longrightarrow> sectors_below f (Suc t) = sectors_below f t + disk_image_sector_per_track f t"
  by (simp add: sectors_below_def)

lemma sectors_below_1 [simp]: "sectors_below f (Suc 0) = 0"
  by (simp add: sectors_below_def)

lemma sides [simp]:
  "t \<le> 35 \<Longrightarrow> disk_image_sector_per_track D71 t = disk_image_sector_per_track D64 t"
  "35 < t \<Longrightarrow> disk_image_sector_per_track D71 t = disk_image_sector_per_track D64 (t - 35)"
  "t \<le> 77 \<Longrightarrow> disk_image_sector_per_track D82 t = disk_image_sector_per_track D80 t"
  "77 < t \<Longrightarrow> disk_image_sector_per_track D82 t = disk_image_sector_per_track D80 (t - 77)"
  by (simp_all add: disk_image_sector_per_track_def disk_image_speed_map_def Let_def)

lemma first_side:
  "t \<le> 36 \<Longrightarrow> sectors_below D71 t = sectors_below D64 t"
  "t \<le> 78 \<Longrightarrow> sectors_below D82 t = sectors_below D80 t"
  unfolding sectors_below_def by (intro arg_cong[where f = sum_list] map_cong; simp)+

lemma side_blocks: "sectors_below D64 36 = 683" "sectors_below D80 78 = 2083"
  by (simp_all add: sectors_below_def upt_rec disk_image_sector_per_track_def disk_image_speed_map_def sector_map_d64_def sector_map_d80_def)

lemma second_side:
  "sectors_below D71 (36 + k) = 683 + sectors_below D64 (Suc k)"
  "sectors_below D82 (78 + k) = 2083 + sectors_below D80 (Suc k)"
proof (induction k)
  case (Suc k)
  case 1 show ?case using sectors_below_Suc[of "36 + k" D71] Suc by simp
  case 2 show ?case using sectors_below_Suc[of "78 + k" D82] Suc by simp
qed (simp_all add: first_side side_blocks)

lemma image_per_zone:
  "i_type im \<in> {D64, X64, G64, G71, P64} \<Longrightarrow> image_per_track im = disk_image_sector_per_track D64"
  "i_type im \<in> {D67, D71, D80, D82} \<Longrightarrow> image_per_track im = disk_image_sector_per_track (i_type im)"
  by (auto simp: fun_eq_iff image_per_track_def)

lemma image_start_below:
  "i_type im \<in> {D64, X64, G64, G71, P64} \<Longrightarrow> image_start im = sectors_below D64"
  "i_type im \<in> {D67, D71, D80, D82} \<Longrightarrow> image_start im = sectors_below (i_type im)"
  by (rule ext, simp add: image_start_def image_per_zone sectors_below_def)+

lemma image_start_even:
  "t \<le> Suc n \<Longrightarrow> (\<And>i. i < t \<Longrightarrow> image_per_track im i = c) \<Longrightarrow> image_start im t = (t - 1) * c"
  unfolding image_start_def by (subst map_cong[OF refl, of _ _ "\<lambda>_. c"]) (simp_all add: sum_list_triv)


lemma image_start_first: "image_start im (Suc 0) = 0"
  by (simp add: image_start_def)

lemma image_start_next: "1 \<le> t \<Longrightarrow> image_start im (Suc t) = image_start im t + image_per_track im t"
  by (simp add: image_start_def)

lemma zoned_valid: "s < disk_image_sector_per_track f t \<Longrightarrow> zoned_sector f b t s = int (b + sectors_below f t + s)"
  by (simp add: zoned_sector_def)

lemma zoned_bad: "\<not> s < disk_image_sector_per_track f t \<Longrightarrow> zoned_sector f b t s < 0"
  by (simp add: zoned_sector_def FSIMAGE_BAD_SECNUM_def)

lemma far_side:
  "35 < t \<Longrightarrow> sectors_below D71 t = 683 + sectors_below D64 (t - 35)"
  "77 < t \<Longrightarrow> sectors_below D82 t = 2083 + sectors_below D80 (t - 77)"
proof -
  assume "35 < t" then obtain k where "t = 36 + k" using le_Suc_ex[of 36 t] by auto
  then show "sectors_below D71 t = 683 + sectors_below D64 (t - 35)" using second_side(1)[of k] by (simp del: sectors_below_Suc)
next
  assume "77 < t" then obtain k where "t = 78 + k" using le_Suc_ex[of 78 t] by auto
  then show "sectors_below D82 t = 2083 + sectors_below D80 (t - 77)" using second_side(2)[of k] by (simp del: sectors_below_Suc)
qed

lemma native_start:
  "i_type im = D1M \<Longrightarrow> t \<le> 13 \<Longrightarrow> image_start im t = (t - 1) * 256"
  "i_type im = D2M \<Longrightarrow> t \<le> 26 \<Longrightarrow> image_start im t = (t - 1) * 256"
  "i_type im = D4M \<Longrightarrow> t \<le> 51 \<Longrightarrow> image_start im t = (t - 1) * 256"
  "i_type im = D81 \<Longrightarrow> image_start im t = (t - 1) * 40"
  by (rule image_start_even[OF le_SucI[OF le_refl]], simp add: image_per_track_def)+

lemma image_check_valid:
  assumes "1 \<le> t" "t \<le> image_tracks im" "s < image_per_track im t"
  shows "fsimage_check_sector im t s = int (image_start im t + s)"
  using assms
  by (cases "i_type im")
    (auto simp: fsimage_check_sector_def image_tracks_def image_per_zone image_start_below zoned_valid first_side far_side native_sector_def
      native_start image_per_track_def split: if_splits)

lemma image_check_bad:
  assumes "\<not> (1 \<le> t \<and> t \<le> image_tracks im \<and> s < image_per_track im t)"
  shows "fsimage_check_sector im t s < 0"
proof -
  have e: "FSIMAGE_BAD_TRKNUM < 0" "FSIMAGE_BAD_SECNUM < 0" by (simp_all add: FSIMAGE_BAD_TRKNUM_def FSIMAGE_BAD_SECNUM_def)
  show ?thesis using assms e zoned_bad
    by (cases "i_type im") (auto simp: fsimage_check_sector_def image_tracks_def image_per_zone native_sector_def image_per_track_def not_less_eq_eq
        split: if_splits)
qed

interpretation img: track_layout "fsimage_check_sector im" "image_per_track im" "image_start im" "image_tracks im"
  for im :: "'a disk_image_t_scheme"
  by unfold_locales (simp_all add: image_check_valid image_check_bad image_start_first image_start_next)


lemma image_blocks_start: "image_start im (Suc (image_tracks im)) = image_blocks im"
proof -
  have d67: "sectors_below D67 36 = 690" and d64: "sectors_below D64 43 = 802" and d82: "sectors_below D80 78 = 2083"
    by (simp_all add: sectors_below_def upt_rec disk_image_sector_per_track_def disk_image_speed_map_def
        sector_map_d64_def sector_map_d67_def sector_map_d80_def)
  show ?thesis
    using far_side(1)[of 71] far_side(2)[of 155] side_blocks d67 d64 native_start[of im]
      image_start_next[of 13 im] image_start_next[of 26 im] image_start_next[of 51 im] image_start_def[of im 1]
    by (cases "i_type im") (simp_all add: image_start_below image_blocks_def image_tracks_def image_per_track_def del: sectors_below_Suc)
qed

subsection \<open>Tracks\<close>

text \<open>A sector with its header takes 354 bytes, and the gap.\<close>

definition fits :: "image_type \<Rightarrow> nat \<Rightarrow> bool" where
  "fits f t \<longleftrightarrow> (354 + disk_image_gap_size f t) * disk_image_sector_per_track f t \<le> disk_image_raw_track_size f t"

lemma speed_zones: "disk_image_speed_map f t \<in> {0, 1, 2, 3}"
  by (simp add: disk_image_speed_map_def Let_def split: image_type.split)

lemmas zone_tables = disk_image_gap_size_def disk_image_sector_per_track_def disk_image_raw_track_size_def gap_size_d64_def
  sector_map_d64_def sector_map_d67_def sector_map_d80_def raw_track_size_d64_def raw_track_size_d80_def

lemma tracks_fit: "f \<in> {D64, X64, G64, P64, D71, G71, D80, D82} \<Longrightarrow> fits f t"
  using speed_zones[of f t] by (auto simp: fits_def zone_tables)

lemma d67_zone: "18 \<le> t \<Longrightarrow> t \<le> 24 \<Longrightarrow> disk_image_speed_map D67 t = 2"
  by (simp add: disk_image_speed_map_def)

lemma convert_length: "gcr_convert_sector_to_GCR buf raw ptr h 9 5 e = Some raw' \<Longrightarrow> length buf = 256 \<Longrightarrow>
    length raw' = length raw \<and> ptr + 354 \<le> length raw"
  by (auto simp: gcr_convert_sector_to_GCR_def put_at_def bind_eq_Some_conv split: if_splits)

lemma format_overflow:
  "secs \<noteq> [] \<Longrightarrow> sectors_ok secs \<Longrightarrow> length raw < ptr + (354 + gap) * (length secs - 1) + 354 \<Longrightarrow> format_sectors gap secs ptr raw = None"
proof (induction secs arbitrary: ptr raw)
  case (Cons x secs)
  obtain buf h e where x: "x = (buf, h, e)" by (cases x)
  show ?case
  proof (cases "gcr_convert_sector_to_GCR buf raw ptr h 9 5 e")
    case None
    then show ?thesis by (simp add: x)
  next
    case (Some raw')
    note l = convert_length[OF Some]
    have ne: "secs \<noteq> []" using Cons.prems l by (auto simp: x)
    then have "length raw' < (ptr + 340 + 9 + gap + 5) + (354 + gap) * (length secs - 1) + 354"
      using Cons.prems l by (cases secs) (auto simp: x)
    then show ?thesis using Cons.IH[OF ne, of raw' "ptr + 340 + 9 + gap + 5"] Cons.prems(2) Some by (simp add: x)
  qed
qed simp

text \<open>
  C21: the number a sector has in an image is one-to-one: the pairs of track and sector the code accepts
  are numbered from \<open>0\<close> on without a gap, up to the number of blocks of the format. For D64 and D81 the code does not look at
  the tracks of the image, and these are the blocks of the largest image of the format (802 and 3320).
\<close>

theorem sector_numbers_cover_image:
  "bij_betw (\<lambda>(t, s). nat (fsimage_check_sector im t s)) {(t, s). 0 \<le> fsimage_check_sector im t s} {..<image_blocks im}"
  using img.check_bij[of im] by (simp only: image_blocks_start)

end
