(* ===== verification/Fsimage_dxx.thy ===== *)
theory Fsimage_dxx
  imports Diskimage
begin

text \<open>
  Disk images that hold sectors, \<open>fsimage-dxx.c\<close>: reading and writing sectors in the file and, when a drive
  emulates the disk surface, on its tracks; putting the file on the tracks and the tracks back into the
  file; and the recognition of images in \<open>fsimage-probe.c\<close>. \<open>None\<close> is an access outside a buffer.
\<close>

subsection \<open>The code\<close>

text \<open>
  The file is the list of its bytes. The length of the error map is the length of the list, and the map
  is \<open>None\<close> when the file has none. The tracks are \<open>None\<close> unless the image is in an emulated drive;
  a track without data is \<open>None\<close>.
\<close>

record fs_image = disk_image_t +
  fs_file :: "byte list"
  fs_writable :: bool
  error_map :: "byte list option"
  error_dirty :: bool
  gcr_tracks :: "byte list option list option"

definition CBMDOS_FDC_ERR_VERIFY :: int where "CBMDOS_FDC_ERR_VERIFY = 7"
definition CBMDOS_FDC_ERR_WPROT :: int where "CBMDOS_FDC_ERR_WPROT = 8"
definition CBMDOS_FDC_ERR_BLENGTH :: int where "CBMDOS_FDC_ERR_BLENGTH = 10"
definition CBMDOS_FDC_ERR_DRIVE :: int where "CBMDOS_FDC_ERR_DRIVE = 15"
definition CBMDOS_FDC_ERR_DECODE :: int where "CBMDOS_FDC_ERR_DECODE = 16"

lemmas fdc_more = fdc_defs CBMDOS_FDC_ERR_VERIFY_def CBMDOS_FDC_ERR_WPROT_def CBMDOS_FDC_ERR_BLENGTH_def
  CBMDOS_FDC_ERR_DRIVE_def CBMDOS_FDC_ERR_DECODE_def

text \<open>A short read leaves what it got in the buffer; a write beyond the end fills the gap with zeros.\<close>

definition util_fpread :: "byte list \<Rightarrow> byte list \<Rightarrow> nat \<Rightarrow> nat \<Rightarrow> bool \<times> byte list" where
  "util_fpread file buf num offset =
     (let got = take num (drop offset file) in (0 < num \<and> length got = num, got @ drop (length got) buf))"

definition util_fpwrite :: "bool \<Rightarrow> byte list \<Rightarrow> byte list \<Rightarrow> nat \<Rightarrow> byte list option" where
  "util_fpwrite writable file bs offset =
     (if writable \<and> bs \<noteq> []
      then Some (take offset (file @ replicate (offset - length file) 0) @ bs @ drop (offset + length bs) file) else None)"

definition sector_offset :: "fs_image \<Rightarrow> nat \<Rightarrow> nat" where
  "sector_offset im sectors = sectors * 256 + (if i_type im = X64 then 64 else 0)"

definition ipe_of_fdc :: "int \<Rightarrow> int" where
  "ipe_of_fdc rf =
     (if rf = CBMDOS_FDC_ERR_OK then 0
      else if rf = CBMDOS_FDC_ERR_HEADER then 20
      else if rf = CBMDOS_FDC_ERR_SYNC then 21
      else if rf = CBMDOS_FDC_ERR_NOBLOCK then 22
      else if rf = CBMDOS_FDC_ERR_DCHECK then 23
      else if rf = CBMDOS_FDC_ERR_VERIFY then 25
      else if rf = CBMDOS_FDC_ERR_WPROT then 26
      else if rf = CBMDOS_FDC_ERR_HCHECK then 27
      else if rf = CBMDOS_FDC_ERR_BLENGTH then 28
      else if rf = CBMDOS_FDC_ERR_ID then 29
      else if rf = CBMDOS_FDC_ERR_DRIVE then 74
      else if rf = CBMDOS_FDC_ERR_DECODE then 24
      else 0)"

text \<open>The entry of the error map, or \<open>rf\<close> when there is no map.\<close>

definition map_entry :: "fs_image \<Rightarrow> int \<Rightarrow> nat \<Rightarrow> int option" where
  "map_entry im rf c =
     (case error_map im of None \<Rightarrow> Some rf | Some m \<Rightarrow> if c < length m then Some (uint (m ! c)) else None)"

text \<open>Track \<open>t\<close> is at index \<open>2 * t - 2\<close>; one without data has size 0.\<close>

definition track_data :: "byte list option list \<Rightarrow> nat \<Rightarrow> byte list option" where
  "track_data tr t = (if 2 * t - 2 < length tr then Some (case tr ! (2 * t - 2) of None \<Rightarrow> [] | Some d \<Rightarrow> d) else None)"

definition fsimage_dxx_read_sector :: "fs_image \<Rightarrow> byte list \<Rightarrow> nat \<Rightarrow> nat \<Rightarrow> (int \<times> byte list) option" where
  "fsimage_dxx_read_sector im buf track sector =
     (let sectors = fsimage_check_sector im track sector
      in if sectors < 0 then Some (-1, buf)
         else case gcr_tracks im of
             None \<Rightarrow>
               (case util_fpread (fs_file im) buf 256 (sector_offset im (nat sectors)) of (ok, buf') \<Rightarrow>
                  if ok then map_option (\<lambda>rf. (ipe_of_fdc rf, buf')) (map_entry im CBMDOS_FDC_ERR_OK (nat sectors))
                  else Some (-1, buf'))
           | Some tr \<Rightarrow>
               Option.bind (track_data tr track) (\<lambda>raw.
                 case gcr_read_sector raw buf (of_nat sector) of
                   Some (Some (rf, buf')) \<Rightarrow> Some (ipe_of_fdc rf, buf')
                 | _ \<Rightarrow> None))"

text \<open>The parts of a write: the tracks, the error map.\<close>

definition write_tracks :: "byte list \<Rightarrow> nat \<Rightarrow> nat \<Rightarrow> fs_image \<Rightarrow> fs_image option" where
  "write_tracks buf track sector im =
     (case gcr_tracks im of None \<Rightarrow> Some im
      | Some tr \<Rightarrow>
          Option.bind (track_data tr track) (\<lambda>raw.
            case gcr_write_sector raw buf (of_nat sector) of
              Some (Some (_, raw')) \<Rightarrow> Some (if tr ! (2 * track - 2) = None then im else im\<lparr>gcr_tracks := Some (tr[2 * track - 2 := Some raw'])\<rparr>)
            | _ \<Rightarrow> None))"

definition clear_error :: "nat \<Rightarrow> fs_image \<Rightarrow> fs_image option" where
  "clear_error c im =
     (case error_map im of None \<Rightarrow> Some im
      | Some m \<Rightarrow>
          if c < length m
          then Some
            (if uint (m ! c) \<noteq> CBMDOS_FDC_ERR_OK
             then im\<lparr>error_map := Some (m[c := word_of_int CBMDOS_FDC_ERR_OK]),
               fs_file := (case util_fpwrite (fs_writable im) (fs_file im) [word_of_int CBMDOS_FDC_ERR_OK]
                   (length m * 256 + c + (if i_type im = X64 then 64 else 0)) of None \<Rightarrow> fs_file im | Some f \<Rightarrow> f)\<rparr>
             else im)
          else None)"

definition fsimage_dxx_write_sector :: "fs_image \<Rightarrow> byte list \<Rightarrow> nat \<Rightarrow> nat \<Rightarrow> (int \<times> fs_image) option" where
  "fsimage_dxx_write_sector im buf track sector =
     (let sectors = fsimage_check_sector im track sector
      in if sectors < 0 then Some (-1, im)
         else case util_fpwrite (fs_writable im) (fs_file im) buf (sector_offset im (nat sectors)) of
             None \<Rightarrow> Some (-1, im)
           | Some f \<Rightarrow>
               map_option (Pair 0) (Option.bind (write_tracks buf track sector (im\<lparr>fs_file := f\<rparr>)) (clear_error (nat sectors))))"


subsection \<open>Putting the tracks back into the file\<close>

text \<open>Growing the map for a track beyond those of the image; \<open>None\<close> if it would have to shrink.\<close>

definition extend_image :: "fs_image \<Rightarrow> nat \<Rightarrow> nat \<Rightarrow> fs_image option" where
  "extend_image im track newlen =
     (if track > i_tracks im
      then case error_map im of None \<Rightarrow> Some (im\<lparr>i_tracks := track\<rparr>)
        | Some m \<Rightarrow> if newlen < length m then None
            else Some (im\<lparr>i_tracks := track, error_map := Some (m @ replicate (newlen - length m) 0), error_dirty := True\<rparr>)
      else Some im)"

text \<open>A sector that cannot be read makes a map of an image that has none; the flag says so.\<close>

definition create_map :: "fs_image \<Rightarrow> fs_image \<times> bool" where
  "create_map im =
     (let newlen = fsimage_check_sector im (i_tracks im) 0
      in if newlen \<ge> 0
         then (im\<lparr>error_map := Some (replicate (nat newlen + disk_image_sector_per_track (i_type im) (i_tracks im)) (word_of_int CBMDOS_FDC_ERR_OK)),
             error_dirty := True\<rparr>, True)
         else (im, False))"

definition note_status :: "fs_image \<Rightarrow> nat \<Rightarrow> int \<Rightarrow> fs_image option" where
  "note_status im c rf =
     (case error_map im of None \<Rightarrow> Some im
      | Some m \<Rightarrow>
          if c < length m
          then Some (if m ! c \<noteq> word_of_int rf then im\<lparr>error_map := Some (m[c := word_of_int rf]), error_dirty := True\<rparr> else im)
          else None)"

fun collect_sectors :: "byte list \<Rightarrow> nat \<Rightarrow> nat list \<Rightarrow> bool \<times> fs_image \<Rightarrow> (byte list \<times> bool \<times> fs_image) option" where
  "collect_sectors raw sectors [] (created, im) = Some ([], created, im)"
| "collect_sectors raw sectors (s # ss) (created, im) =
     (case gcr_read_sector raw (replicate 256 0) (of_nat s) of
        Some (Some (rf, data)) \<Rightarrow>
          (case (if rf \<noteq> CBMDOS_FDC_ERR_OK \<and> error_map im = None then create_map im else (im, False)) of (im', new) \<Rightarrow>
             Option.bind (note_status im' (sectors + s) rf) (\<lambda>im''.
               map_option (\<lambda>(bs, r). (data @ bs, r)) (collect_sectors raw sectors ss (created \<or> new, im''))))
      | _ \<Rightarrow> None)"

definition write_map :: "bool \<Rightarrow> nat \<Rightarrow> nat \<Rightarrow> fs_image \<Rightarrow> int \<times> fs_image" where
  "write_map created sectors max_sector im =
     (case error_map im of None \<Rightarrow> (0, im)
      | Some m \<Rightarrow>
          if error_dirty im
          then case (if created then util_fpwrite (fs_writable im) (fs_file im) m (length m * 256)
                 else util_fpwrite (fs_writable im) (fs_file im) (take max_sector (drop sectors m))
                   (length m * 256 + sectors + (if i_type im = X64 then 64 else 0))) of
              None \<Rightarrow> (-1, im\<lparr>error_dirty := False\<rparr>)
            | Some f \<Rightarrow> (0, im\<lparr>error_dirty := False, fs_file := f\<rparr>)
          else (0, im))"

definition fsimage_dxx_write_half_track :: "fs_image \<Rightarrow> nat \<Rightarrow> byte list \<Rightarrow> (int \<times> fs_image) option" where
  "fsimage_dxx_write_half_track im half_track raw =
     (let track = half_track div 2;
          max_sector = disk_image_sector_per_track (i_type im) track;
          sectors = fsimage_check_sector im track 0
      in if sectors < 0 then Some (-1, im)
         else Option.bind (extend_image im track (nat sectors + max_sector)) (\<lambda>im1.
           map_option (\<lambda>(buffer, created, im2).
               case util_fpwrite (fs_writable im2) (fs_file im2) buffer (sector_offset im2 (nat sectors)) of
                 None \<Rightarrow> (-1, im2)
               | Some f \<Rightarrow> write_map created (nat sectors) max_sector (im2\<lparr>fs_file := f\<rparr>))
             (collect_sectors raw (nat sectors) [0..<max_sector] (False, im1))))"

subsection \<open>Putting the file on the tracks\<close>

fun read_dxx_sectors :: "fs_image \<Rightarrow> nat \<Rightarrow> nat \<Rightarrow> gcr_header_t \<Rightarrow> nat list \<Rightarrow> nat \<Rightarrow> byte list \<times> byte list \<Rightarrow> (byte list \<times> byte list) option" where
  "read_dxx_sectors im track gap h [] ptr (buffer, raw) = Some (buffer, raw)"
| "read_dxx_sectors im track gap h (s # ss) ptr (buffer, raw) =
     (let sectors = fsimage_check_sector im track s
      in if sectors \<ge> 0
         then case util_fpread (fs_file im) buffer 256 (sector_offset im (nat sectors)) of (ok, buffer') \<Rightarrow>
             Option.bind (if ok then map_entry im CBMDOS_FDC_ERR_DRIVE (nat sectors) else Some CBMDOS_FDC_ERR_DRIVE) (\<lambda>rf.
             Option.bind (gcr_convert_sector_to_GCR buffer' raw ptr (h\<lparr>h_sector := of_nat s\<rparr>) 9 5 rf) (\<lambda>raw'.
               read_dxx_sectors im track gap (h\<lparr>h_sector := of_nat s\<rparr>) ss (ptr + 340 + 9 + gap + 5) (buffer', raw')))
         else read_dxx_sectors im track gap h ss (ptr + 340 + 9 + gap + 5) (buffer, raw))"

text \<open>The id of a side is read from its BAM: the two bytes at offset \<open>162\<close> or \<open>24\<close>.\<close>

definition read_id :: "fs_image \<Rightarrow> nat \<Rightarrow> nat \<Rightarrow> byte list \<Rightarrow> byte list" where
  "read_id im track pos buffer =
     (let sectors = fsimage_check_sector im track 0; b = buffer[pos := 0xA0, pos + 1 := 0xA0]
      in if sectors \<ge> 0 then snd (util_fpread (fs_file im) b 256 (nat sectors * 256)) else b)"

text \<open>One round of the loop over the tracks: the buffer, the header and the tracks are carried along.\<close>

definition read_dxx_track :: "fs_image \<Rightarrow> bool \<Rightarrow> nat \<Rightarrow> gcr_header_t \<times> byte list \<times> byte list option list
    \<Rightarrow> (gcr_header_t \<times> byte list \<times> byte list option list) option" where
  "read_dxx_track im double_sided track = (\<lambda>(h, buffer, tr).
     let size = disk_image_raw_track_size (i_type im) track; clear = replicate size 0x55
     in if length tr < 2 * track then None
        else if track \<le> i_tracks im
        then case (if double_sided \<and> track = 36
                   then (let b = read_id im 53 162 buffer in (h\<lparr>h_id1 := b ! 162, h_id2 := b ! 163, h_track := 1\<rparr>, b)) else (h, buffer)) of (h', b) \<Rightarrow>
          map_option (\<lambda>(b', raw). (h'\<lparr>h_track := h_track h' + 1\<rparr>, b', tr[2 * track - 2 := Some raw, 2 * track - 1 := None]))
            (read_dxx_sectors im track (disk_image_gap_size (i_type im) track) h'
               [0..<disk_image_sector_per_track (i_type im) track] 0 (b, clear))
        else Some (h\<lparr>h_track := h_track h + 1\<rparr>, buffer, tr[2 * track - 2 := Some clear, 2 * track - 1 := None]))"

fun read_dxx_tracks :: "fs_image \<Rightarrow> bool \<Rightarrow> nat list \<Rightarrow> gcr_header_t \<times> byte list \<times> byte list option list \<Rightarrow> byte list option list option" where
  "read_dxx_tracks im double_sided [] (h, buffer, tr) = Some tr"
| "read_dxx_tracks im double_sided (t # ts) st = Option.bind (read_dxx_track im double_sided t st) (read_dxx_tracks im double_sided ts)"

text \<open>The buffer \<open>buf\<close> of the code is not initialised.\<close>

definition fsimage_read_dxx_image :: "fs_image \<Rightarrow> byte list \<Rightarrow> (int \<times> fs_image) option" where
  "fsimage_read_dxx_image im buf =
     (let wide = (i_type im = D80 \<or> i_type im = D82); pos = (if wide then 24 else 162);
          buffer = read_id im (if wide then 39 else 18) pos buf;
          double_sided = (i_type im = D71 \<and> buffer ! 3 AND 0x80 = 0);
          h = \<lparr>h_sector = 0, h_track = 1, h_id2 = buffer ! (pos + 1), h_id1 = buffer ! pos\<rparr>
      in case gcr_tracks im of None \<Rightarrow> None
         | Some tr \<Rightarrow> map_option (\<lambda>tr'. (0, im\<lparr>gcr_tracks := Some tr'\<rparr>))
             (read_dxx_tracks im double_sided [1..<Suc (i_max_half_tracks im div 2)] (h, buffer, tr)))"

subsection \<open>Recognising images\<close>

text \<open>The walk from 35 to 42 tracks: the number of tracks, of blocks, and whether there is error information.\<close>

function d64_walk :: "nat \<Rightarrow> nat \<Rightarrow> nat \<Rightarrow> (nat \<times> nat \<times> bool) option" where
  "d64_walk realsize tracks blocks =
     (if realsize = blocks * 256 then Some (tracks, blocks, False)
      else if realsize = blocks * 256 + blocks then Some (tracks, blocks, True)
      else if tracks + 1 > 42 then None
      else d64_walk realsize (tracks + 1) (blocks + 17))"
  by pat_completeness auto
termination by (relation "measure (\<lambda>(_, tracks, _). 42 - tracks)") auto

declare d64_walk.simps [simp del]

text \<open>The error map is read behind the blocks; a failure leaves the image unrecognised, but changed.\<close>

definition read_map :: "fs_image \<Rightarrow> nat \<Rightarrow> int \<times> fs_image" where
  "read_map im blocks =
     (case util_fpread (fs_file im) (replicate blocks 0) blocks (256 * blocks) of
        (ok, m) \<Rightarrow> (if ok then 1 else 0, im\<lparr>error_map := Some m\<rparr>))"

definition disk_image_check_for_d64 :: "fs_image \<Rightarrow> int \<times> fs_image" where
  "disk_image_check_for_d64 im =
     (case d64_walk (length (fs_file im)) 35 683 of
        None \<Rightarrow> (0, im)
      | Some (tracks, blocks, errorinfo) \<Rightarrow>
          (let im' = im\<lparr>i_type := D64, i_tracks := tracks, i_max_half_tracks := 84\<rparr>
           in if errorinfo then read_map im' blocks else (1, im')))"

text \<open>The loops that count the blocks stop at the end of the file, or at the blocks of the format.\<close>

definition disk_image_check_for_d67 :: "fs_image \<Rightarrow> int \<times> fs_image" where
  "disk_image_check_for_d67 im =
     (if length (fs_file im) \<noteq> 176640 then (0, im)
      else
        (let blk = min (length (fs_file im) div 256) 691; im' = im\<lparr>i_type := D67, i_tracks := 35, i_max_half_tracks := 70\<rparr>
         in if blk = 690 then (1, im') else (0, im')))"

definition disk_image_check_for_d71 :: "fs_image \<Rightarrow> int \<times> fs_image" where
  "disk_image_check_for_d71 im =
     (if length (fs_file im) \<noteq> 349696 \<and> length (fs_file im) \<noteq> 351062 then (0, im)
      else
        (let blk = min (length (fs_file im) div 256) 1366; im' = im\<lparr>i_type := D71, i_tracks := 70, i_max_half_tracks := 140\<rparr>
         in if blk < 1366 then (0, im')
            else if length (fs_file im) = 351062 then read_map im' blk else (1, im')))"


subsection \<open>Images in step with their tracks\<close>

definition file_sector :: "fs_image \<Rightarrow> nat \<Rightarrow> byte list" where
  "file_sector im c = take 256 (drop (sector_offset im c) (fs_file im))"

definition status_at :: "fs_image \<Rightarrow> nat \<Rightarrow> int" where
  "status_at im c = (case error_map im of None \<Rightarrow> CBMDOS_FDC_ERR_OK | Some m \<Rightarrow> uint (m ! c))"

text \<open>The blocks of the tracks the image has, and an image whose file and error map hold them all.\<close>

definition blocks_of :: "fs_image \<Rightarrow> nat" where
  "blocks_of im = image_start im (Suc (i_tracks im))"

definition image_ok :: "fs_image \<Rightarrow> bool" where
  "image_ok im \<longleftrightarrow> i_type im \<in> {D64, X64, D71} \<and> i_tracks im \<le> image_tracks im
     \<and> 2 * i_tracks im \<le> i_max_half_tracks im \<and> i_max_half_tracks im \<le> 168
     \<and> sector_offset im (blocks_of im) \<le> length (fs_file im)
     \<and> (case error_map im of None \<Rightarrow> True | Some m \<Rightarrow> length m = blocks_of im)"

text \<open>
  No sector has a spoilt header or no sync marks (codes 2 and 3 of the error map): these are not found on the track, and a
  spoilt header shifts the frame of what follows. Every other code leaves a sector that is found and decoded; what reading it
  reports is \<open>read_status\<close>, the missing data block and the bad checksum of the data, and nothing else.
\<close>

definition errors_shown :: "fs_image \<Rightarrow> bool" where
  "errors_shown im \<longleftrightarrow> (case error_map im of None \<Rightarrow> True | Some m \<Rightarrow> 2 \<notin> set m \<and> 3 \<notin> set m)"

definition track_sectors :: "fs_image \<Rightarrow> nat \<Rightarrow> (nat \<Rightarrow> gcr_header_t) \<Rightarrow> (nat \<Rightarrow> int) \<Rightarrow> (byte list \<times> gcr_header_t \<times> int) list" where
  "track_sectors im t hs es =
     map (\<lambda>s. (file_sector im (image_start im t + s), (hs s)\<lparr>h_sector := of_nat s\<rparr>, es s)) [0..<disk_image_sector_per_track (i_type im) t]"

definition format_image_track :: "fs_image \<Rightarrow> nat \<Rightarrow> (byte list \<times> gcr_header_t \<times> int) list \<Rightarrow> byte list option" where
  "format_image_track im t = format_track (disk_image_raw_track_size (i_type im) t) (disk_image_gap_size (i_type im) t)"

definition on_surface :: "fs_image \<Rightarrow> nat \<Rightarrow> byte list \<Rightarrow> bool" where
  "on_surface im t raw \<longleftrightarrow>
     (\<exists>hs es. format_image_track im t (track_sectors im t hs es) = Some raw
        \<and> (\<forall>s<disk_image_sector_per_track (i_type im) t. plain (es s) \<and> read_status (es s) = read_status (status_at im (image_start im t + s))))"

text \<open>Every track of the image holds what the file holds.\<close>

definition in_step :: "fs_image \<Rightarrow> bool" where
  "in_step im \<longleftrightarrow> image_ok im \<and> errors_shown im \<and>
     (case gcr_tracks im of None \<Rightarrow> False
      | Some tr \<Rightarrow> length tr = 168 \<and> (\<forall>t. 1 \<le> t \<and> t \<le> i_tracks im \<longrightarrow> (\<exists>raw. tr ! (2 * t - 2) = Some raw \<and> on_surface im t raw)))"

lemma geometry_cong:
  assumes "i_type im' = i_type im"
  shows "image_per_track im' = image_per_track im" "image_start im' = image_start im" "sector_offset im' = sector_offset im"
    "i_tracks im' = i_tracks im \<Longrightarrow> image_tracks im' = image_tracks im"
    "i_tracks im' = i_tracks im \<Longrightarrow> blocks_of im' = blocks_of im"
    "i_tracks im' = i_tracks im \<Longrightarrow> fsimage_check_sector im' = fsimage_check_sector im"
proof -
  show p: "image_per_track im' = image_per_track im" using assms by (simp add: fun_eq_iff image_per_track_def)
  then show st: "image_start im' = image_start im" by (intro ext) (simp add: image_start_def)
  show so: "sector_offset im' = sector_offset im" using assms by (simp add: fun_eq_iff sector_offset_def)
  assume t: "i_tracks im' = i_tracks im"
  then show "image_tracks im' = image_tracks im" using assms by (simp add: image_tracks_def split: image_type.split)
  show "blocks_of im' = blocks_of im" using t st by (simp only: blocks_of_def)
  show "fsimage_check_sector im' = fsimage_check_sector im" using assms t by (simp add: fun_eq_iff fsimage_check_sector_def)
qed

lemma geometry_frame [simp]:
  "image_per_track (im\<lparr>fs_file := f\<rparr>) = image_per_track im" "image_per_track (im\<lparr>error_map := m\<rparr>) = image_per_track im"
  "image_per_track (im\<lparr>gcr_tracks := tr\<rparr>) = image_per_track im"
  "image_start (im\<lparr>fs_file := f\<rparr>) = image_start im" "image_start (im\<lparr>error_map := m\<rparr>) = image_start im"
  "image_start (im\<lparr>gcr_tracks := tr\<rparr>) = image_start im"
  "image_tracks (im\<lparr>fs_file := f\<rparr>) = image_tracks im" "image_tracks (im\<lparr>error_map := m\<rparr>) = image_tracks im"
  "image_tracks (im\<lparr>gcr_tracks := tr\<rparr>) = image_tracks im"
  "blocks_of (im\<lparr>fs_file := f\<rparr>) = blocks_of im" "blocks_of (im\<lparr>error_map := m\<rparr>) = blocks_of im"
  "blocks_of (im\<lparr>gcr_tracks := tr\<rparr>) = blocks_of im"
  "sector_offset (im\<lparr>fs_file := f\<rparr>) = sector_offset im" "sector_offset (im\<lparr>error_map := m\<rparr>) = sector_offset im"
  "sector_offset (im\<lparr>gcr_tracks := tr\<rparr>) = sector_offset im"
  "fsimage_check_sector (im\<lparr>fs_file := f\<rparr>) = fsimage_check_sector im" "fsimage_check_sector (im\<lparr>error_map := m\<rparr>) = fsimage_check_sector im"
  "fsimage_check_sector (im\<lparr>gcr_tracks := tr\<rparr>) = fsimage_check_sector im"
  by (rule geometry_cong; simp)+

lemma image_okD:
  assumes "image_ok im"
  shows "i_type im \<in> {D64, X64, D71}" "i_tracks im \<le> image_tracks im" "i_tracks im \<le> 84"
    "2 * i_tracks im \<le> i_max_half_tracks im" "i_max_half_tracks im \<le> 168"
    "sector_offset im (blocks_of im) \<le> length (fs_file im)"
    "error_map im = Some m \<Longrightarrow> length m = blocks_of im"
  using assms by (auto simp: image_ok_def)

lemma per_track:
  "i_type im \<in> {D64, X64, D71} \<Longrightarrow> image_per_track im t = disk_image_sector_per_track (i_type im) t"
  "i_type im \<in> {D64, X64, D71} \<Longrightarrow> disk_image_sector_per_track (i_type im) t \<le> 21"
  using speed_zones[of "i_type im" t]
  by (auto simp: image_per_track_def disk_image_sector_per_track_def disk_image_speed_map_def sector_map_d64_def)

lemma sector_number:
  assumes ok: "image_ok im" and t: "1 \<le> t" "t \<le> i_tracks im" and s: "s < disk_image_sector_per_track (i_type im) t"
  shows "fsimage_check_sector im t s = int (image_start im t + s)" "image_start im t + s < blocks_of im"
proof -
  note d = image_okD[OF ok]
  show "fsimage_check_sector im t s = int (image_start im t + s)"
    using s t d(2) by (intro img.check_valid) (simp_all add: per_track(1)[OF d(1)])
  show "image_start im t + s < blocks_of im"
    using img.start_less[of t "Suc (i_tracks im)" im] s t d(2) by (simp add: blocks_of_def per_track(1)[OF d(1)])
qed

lemma track_end:
  assumes "image_ok im" "1 \<le> t" "t \<le> i_tracks im"
  shows "image_start im t + disk_image_sector_per_track (i_type im) t \<le> blocks_of im"
  using img.start_less[of t "Suc (i_tracks im)" im] assms image_okD(2)[OF assms(1)] by (simp add: blocks_of_def per_track(1)[OF image_okD(1)[OF assms(1)]])

lemma sector_offset_mono: "c \<le> d \<Longrightarrow> sector_offset im c \<le> sector_offset im d"
  by (simp add: sector_offset_def)

lemma sector_in_file:
  assumes "image_ok im" "c < blocks_of im"
  shows "sector_offset im c + 256 \<le> length (fs_file im)"
  using image_okD(6)[OF assms(1)] assms(2) by (simp add: sector_offset_def)

lemma sectors_pos_track: "i_type im \<in> {D64, X64, D71} \<Longrightarrow> 0 < disk_image_sector_per_track (i_type im) t"
  using speed_zones[of "i_type im" t] by (auto simp: disk_image_sector_per_track_def sector_map_d64_def)

lemma length_file_sector: "image_ok im \<Longrightarrow> c < blocks_of im \<Longrightarrow> length (file_sector im c) = 256"
  using sector_in_file[of im c] by (simp add: file_sector_def)

lemma fpread_sector:
  "image_ok im \<Longrightarrow> c < blocks_of im \<Longrightarrow> length buf = 256 \<Longrightarrow>
    util_fpread (fs_file im) buf 256 (sector_offset im c) = (True, file_sector im c)"
  using length_file_sector[of im c] by (simp add: util_fpread_def Let_def file_sector_def)

lemma map_entry_status:
  "image_ok im \<Longrightarrow> c < blocks_of im \<Longrightarrow> map_entry im rf c = Some (if error_map im = None then rf else status_at im c)"
  by (auto simp: map_entry_def status_at_def image_ok_def split: option.splits)

lemma byte_code: "uint (w::byte) = numeral k \<Longrightarrow> w = numeral k"
  by (metis word_of_int_uint word_of_int_numeral)

lemma status_shown:
  assumes "image_ok im" "errors_shown im" "c < blocks_of im"
  shows "plain (status_at im c)"
proof (cases "error_map im")
  case (Some m)
  then have "m ! c \<in> set m" "2 \<notin> set m" "3 \<notin> set m" using assms image_okD(7)[of im m] by (simp_all add: errors_shown_def)
  then have "uint (m ! c) \<noteq> 2" "uint (m ! c) \<noteq> 3" using byte_code[of "m ! c"] by metis+
  then show ?thesis using Some by (simp add: status_at_def plain_def fdc_defs)
qed (simp add: status_at_def plain_def fdc_defs)

lemma read_status_simps [simp]:
  "read_status (read_status e) = read_status e" "read_status CBMDOS_FDC_ERR_OK = CBMDOS_FDC_ERR_OK"
  "plain CBMDOS_FDC_ERR_DRIVE" "read_status CBMDOS_FDC_ERR_DRIVE = CBMDOS_FDC_ERR_OK"
  by (simp_all add: plain_def read_status_def fdc_more)

lemma sectors_ok_track: "image_ok im \<Longrightarrow> 1 \<le> t \<Longrightarrow> t \<le> i_tracks im \<Longrightarrow> sectors_ok (track_sectors im t hs es)"
  using sector_number(2)[of im t] by (auto simp: sectors_ok_def track_sectors_def length_file_sector)

lemma track_fits: "image_ok im \<Longrightarrow>
    (354 + disk_image_gap_size (i_type im) t) * length (track_sectors im t hs es) \<le> disk_image_raw_track_size (i_type im) t"
  using tracks_fit[of "i_type im" t] image_okD(1)[of im] by (auto simp: fits_def track_sectors_def)

lemma format_track_ok:
  "image_ok im \<Longrightarrow> 1 \<le> t \<Longrightarrow> t \<le> i_tracks im \<Longrightarrow> \<exists>raw. format_image_track im t (track_sectors im t hs es) = Some raw"
  unfolding format_image_track_def using format_track_images[OF sectors_ok_track track_fits] by blast


lemma small_sector: "a < b \<Longrightarrow> b < 256 \<Longrightarrow> (of_nat a :: byte) \<noteq> of_nat b"
  by (simp add: word_of_nat_eq_iff take_bit_nat_eq_self)

lemma track_sectors_nth:
  "s < disk_image_sector_per_track (i_type im) t \<Longrightarrow>
    track_sectors im t hs es ! s = (file_sector im (image_start im t + s), (hs s)\<lparr>h_sector := of_nat s\<rparr>, es s)"
  by (simp add: track_sectors_def)

lemma track_sectors_front:
  assumes "i_type im \<in> {D64, X64, D71}" "\<forall>s<disk_image_sector_per_track (i_type im) t. plain (es s)" "s < disk_image_sector_per_track (i_type im) t"
  shows "\<forall>(b, h', e')\<in>set (take s (track_sectors im t hs es)). plain e' \<and> h_sector h' \<noteq> of_nat s"
proof -
  have "(of_nat s' :: byte) \<noteq> of_nat s" if "s' < s" for s'
    using that assms(3) per_track(2)[OF assms(1), of t] small_sector[of s' s] by simp
  then show ?thesis using assms by (auto simp: track_sectors_def take_map)
qed

lemma surface_read:
  assumes ok: "image_ok im" "1 \<le> t" "t \<le> i_tracks im" and raw: "on_surface im t raw" and s: "s < disk_image_sector_per_track (i_type im) t"
  shows "gcr_read_sector raw buf (of_nat s) = Some (Some (read_status (status_at im (image_start im t + s)), file_sector im (image_start im t + s)))"
proof -
  obtain hs es where f: "format_image_track im t (track_sectors im t hs es) = Some raw"
    and e: "\<forall>s<disk_image_sector_per_track (i_type im) t. plain (es s) \<and> read_status (es s) = read_status (status_at im (image_start im t + s))"
    using raw by (auto simp: on_surface_def)
  show ?thesis
    using read_formatted_sector[OF sectors_ok_track[OF ok] track_fits[OF ok(1)] _ track_sectors_nth[OF s], of hs es buf]
      track_sectors_front[OF image_okD(1)[OF ok(1)] _ s, of es hs] e s f
    by (simp add: track_sectors_def format_image_track_def)
qed

subsection \<open>Attaching\<close>

lemma read_sectors_format:
  assumes "\<forall>s\<in>set ss. fsimage_check_sector im t s = int (c s) \<and> c s < blocks_of im \<and> map_entry im CBMDOS_FDC_ERR_DRIVE (c s) = Some (rf s)"
    and "image_ok im" "length buf = 256"
  shows "\<exists>b. length b = 256 \<and> read_dxx_sectors im t gap h ss ptr (buf, raw)
    = map_option (Pair b) (format_sectors gap (map (\<lambda>s. (file_sector im (c s), h\<lparr>h_sector := of_nat s\<rparr>, rf s)) ss) ptr raw)"
  using assms(1,3)
proof (induction ss arbitrary: buf h ptr raw)
  case (Cons s ss)
  let ?d = "file_sector im (c s)" and ?h = "h\<lparr>h_sector := of_nat s\<rparr>"
  have s: "fsimage_check_sector im t s = int (c s)" "c s < blocks_of im" "map_entry im CBMDOS_FDC_ERR_DRIVE (c s) = Some (rf s)"
    using Cons.prems by simp_all
  note r = fpread_sector[OF assms(2) s(2) Cons.prems(2)]
  show ?case
  proof (cases "gcr_convert_sector_to_GCR ?d raw ptr ?h 9 5 (rf s)")
    case (Some raw')
    obtain b where "length b = 256" "read_dxx_sectors im t gap ?h ss (ptr + 340 + 9 + gap + 5) (?d, raw')
        = map_option (Pair b) (format_sectors gap (map (\<lambda>s. (file_sector im (c s), ?h\<lparr>h_sector := of_nat s\<rparr>, rf s)) ss) (ptr + 340 + 9 + gap + 5) raw')"
      using Cons.IH[of ?d ?h "ptr + 340 + 9 + gap + 5" raw'] Cons.prems(1) length_file_sector[OF assms(2) s(2)] by auto
    then show ?thesis using Some s r by (auto simp: Let_def)
  next
    case None
    then show ?thesis using s r Cons.prems(2) by (intro exI[of _ buf]) (simp add: Let_def)
  qed
qed auto

lemma read_track_surface:
  assumes ok: "image_ok im" "errors_shown im" and t: "1 \<le> t" "t \<le> i_tracks im" and b: "length b = 256"
  shows "\<exists>b' raw. length b' = 256 \<and> on_surface im t raw
    \<and> read_dxx_sectors im t (disk_image_gap_size (i_type im) t) h [0..<disk_image_sector_per_track (i_type im) t] 0
        (b, replicate (disk_image_raw_track_size (i_type im) t) 0x55) = Some (b', raw)"
proof -
  let ?n = "disk_image_sector_per_track (i_type im) t" and ?c = "\<lambda>s. image_start im t + s"
  let ?rf = "\<lambda>s. if error_map im = None then CBMDOS_FDC_ERR_DRIVE else status_at im (?c s)"
  note num = sector_number[OF ok(1) t]
  obtain raw where raw: "format_image_track im t (track_sectors im t (\<lambda>_. h) ?rf) = Some raw"
    using format_track_ok[OF ok(1) t] by blast
  have "plain (?rf s) \<and> read_status (?rf s) = read_status (status_at im (?c s))" if "s < ?n" for s
    using status_shown[OF ok num(2)[OF that]] by (auto simp: status_at_def)
  then have surf: "on_surface im t raw" unfolding on_surface_def using raw by blast
  obtain b' where "length b' = 256" "read_dxx_sectors im t (disk_image_gap_size (i_type im) t) h [0..<?n] 0
      (b, replicate (disk_image_raw_track_size (i_type im) t) 0x55)
      = map_option (Pair b') (format_sectors (disk_image_gap_size (i_type im) t) (track_sectors im t (\<lambda>_. h) ?rf) 0
          (replicate (disk_image_raw_track_size (i_type im) t) 0x55))"
    using read_sectors_format[of "[0..<?n]" im t ?c ?rf b "disk_image_gap_size (i_type im) t" h 0
        "replicate (disk_image_raw_track_size (i_type im) t) 0x55", OF _ ok(1) b] num map_entry_status[OF ok(1)]
    by (auto simp: track_sectors_def)
  then show ?thesis using surf raw by (auto simp: format_image_track_def format_track_def)
qed


lemma length_read_id [simp]: "length buf = 256 \<Longrightarrow> length (read_id im t pos buf) = 256"
  by (auto simp: read_id_def util_fpread_def Let_def)

lemma read_track_step:
  assumes ok: "image_ok im" "errors_shown im" and t: "1 \<le> t" "2 * t \<le> length tr" and b: "length b = 256"
  shows "\<exists>h' b' raw. read_dxx_track im ds t (h, b, tr) = Some (h', b', tr[2 * t - 2 := Some raw, 2 * t - 1 := None])
    \<and> length b' = 256 \<and> (t \<le> i_tracks im \<longrightarrow> on_surface im t raw)"
proof (cases "t \<le> i_tracks im")
  case True
  obtain h1 b1 where hb: "(if ds \<and> t = 36 then (let b = read_id im 53 162 b in (h\<lparr>h_id1 := b ! 162, h_id2 := b ! 163, h_track := 1\<rparr>, b)) else (h, b)) = (h1, b1)"
    by fastforce
  then have "length b1 = 256" using b by (auto simp: Let_def split: if_splits)
  with read_track_surface[OF ok t(1) True, of b1 h1] show ?thesis using t hb True by (auto simp: read_dxx_track_def Let_def)
next
  case False
  then show ?thesis using t b by (auto simp: read_dxx_track_def Let_def)
qed

lemma read_tracks:
  assumes ok: "image_ok im" "errors_shown im"
  shows "\<forall>t\<in>set ts. 1 \<le> t \<and> 2 * t \<le> length tr \<Longrightarrow> distinct ts \<Longrightarrow> length b = 256 \<Longrightarrow>
    \<exists>tr'. read_dxx_tracks im ds ts (h, b, tr) = Some tr' \<and> length tr' = length tr
      \<and> (\<forall>t\<in>set ts. t \<le> i_tracks im \<longrightarrow> (\<exists>raw. tr' ! (2 * t - 2) = Some raw \<and> on_surface im t raw))
      \<and> (\<forall>i. (\<forall>t\<in>set ts. i \<noteq> 2 * t - 2 \<and> i \<noteq> 2 * t - 1) \<longrightarrow> tr' ! i = tr ! i)"
proof (induction ts arbitrary: h b tr)
  case (Cons t ts)
  then have t: "1 \<le> t" "2 * t \<le> length tr" "t \<notin> set ts" by simp_all
  obtain h' b' raw where st: "read_dxx_track im ds t (h, b, tr) = Some (h', b', tr[2 * t - 2 := Some raw, 2 * t - 1 := None])"
    "length b' = 256" "t \<le> i_tracks im \<longrightarrow> on_surface im t raw"
    using read_track_step[OF ok t(1,2) Cons.prems(3)] by blast
  let ?tr = "tr[2 * t - 2 := Some raw, 2 * t - 1 := None]"
  obtain tr' where r: "read_dxx_tracks im ds ts (h', b', ?tr) = Some tr'" "length tr' = length tr"
    "\<forall>t\<in>set ts. t \<le> i_tracks im \<longrightarrow> (\<exists>raw. tr' ! (2 * t - 2) = Some raw \<and> on_surface im t raw)"
    "\<forall>i. (\<forall>t\<in>set ts. i \<noteq> 2 * t - 2 \<and> i \<noteq> 2 * t - 1) \<longrightarrow> tr' ! i = ?tr ! i"
    using Cons.IH[of ?tr b' h'] Cons.prems st(2) by auto
  have away: "2 * t - 2 \<noteq> 2 * u - 2 \<and> 2 * t - 2 \<noteq> 2 * u - 1" if "u \<in> set ts" for u
  proof -
    have "u \<noteq> t" "1 \<le> u" using that t(3) Cons.prems(1) by auto
    then show ?thesis using t(1) by presburger
  qed
  then have "tr' ! (2 * t - 2) = ?tr ! (2 * t - 2)" using r(4) by blast
  then have "tr' ! (2 * t - 2) = Some raw" using t(1,2) by (simp add: nth_list_update)
  then show ?case using r st by auto
qed simp

lemma attach_in_step:
  assumes ok: "image_ok im" "errors_shown im" "gcr_tracks im = Some tr" "length tr = 168" "length buf = 256"
  shows "\<exists>im'. fsimage_read_dxx_image im buf = Some (0, im') \<and> in_step im' \<and> (\<exists>tr'. im' = im\<lparr>gcr_tracks := Some tr'\<rparr>)"
proof -
  note d = image_okD[OF ok(1)]
  let ?ts = "[1..<Suc (i_max_half_tracks im div 2)]" and ?b = "read_id im 18 162 buf"
  let ?ds = "i_type im = D71 \<and> ?b ! 3 AND 0x80 = 0" and ?h = "\<lparr>h_sector = 0, h_track = 1, h_id2 = ?b ! 163, h_id1 = ?b ! 162\<rparr>"
  have wide: "\<not> (i_type im = D80 \<or> i_type im = D82)" using d(1) by auto
  have "\<forall>t\<in>set ?ts. 1 \<le> t \<and> 2 * t \<le> length tr" "distinct ?ts" "length ?b = 256" using d(5) ok(4,5) by auto
  from read_tracks[OF ok(1,2) this, where ds = ?ds and h = ?h]
  obtain tr' where r: "read_dxx_tracks im ?ds ?ts (?h, ?b, tr) = Some tr'" "length tr' = 168"
    "\<forall>t\<in>set ?ts. t \<le> i_tracks im \<longrightarrow> (\<exists>raw. tr' ! (2 * t - 2) = Some raw \<and> on_surface im t raw)"
    unfolding ok(4) by blast
  let ?im = "im\<lparr>gcr_tracks := Some tr'\<rparr>"
  have "image_ok ?im" "errors_shown ?im" using ok(1,2)
    by (simp_all add: image_ok_def errors_shown_def split: option.splits)
  moreover have "on_surface ?im t raw" if "on_surface im t raw" for t raw
    using that by (simp add: on_surface_def format_image_track_def track_sectors_def file_sector_def status_at_def)
  moreover have "t \<in> set ?ts" if "1 \<le> t" "t \<le> i_tracks im" for t using that d(4) by auto
  ultimately have "in_step ?im" using r(2,3) unfolding in_step_def by (auto simp del: set_upt) blast
  moreover have "fsimage_read_dxx_image im buf = Some (0, ?im)"
    using r(1) ok(3) wide by (simp add: fsimage_read_dxx_image_def Let_def del: upt_Suc)
  ultimately show ?thesis by blast
qed


subsection \<open>Reading through the tracks\<close>

lemma in_stepD:
  assumes "in_step im"
  shows "image_ok im" "errors_shown im" "\<exists>tr. gcr_tracks im = Some tr" "gcr_tracks im = Some tr \<Longrightarrow> length tr = 168"
    "gcr_tracks im = Some tr \<Longrightarrow> 1 \<le> t \<Longrightarrow> t \<le> i_tracks im \<Longrightarrow> \<exists>raw. tr ! (2 * t - 2) = Some raw \<and> on_surface im t raw"
  using assms by (auto simp: in_step_def split: option.splits)

lemma in_step_track:
  assumes "in_step im" "gcr_tracks im = Some tr" "1 \<le> t" "t \<le> i_tracks im"
  obtains raw where "track_data tr t = Some raw" "tr ! (2 * t - 2) = Some raw" "on_surface im t raw"
proof -
  obtain raw where "tr ! (2 * t - 2) = Some raw" "on_surface im t raw" using in_stepD(5)[OF assms] by blast
  moreover have "2 * t - 2 < length tr" using in_stepD(4)[OF assms(1,2)] image_okD(3)[OF in_stepD(1)[OF assms(1)]] assms(3,4) by simp
  ultimately show thesis using that[of raw] by (simp add: track_data_def)
qed

lemma check_on_disk:
  assumes "image_ok im" "t \<le> i_tracks im" "0 \<le> fsimage_check_sector im t s"
  shows "1 \<le> t" "s < disk_image_sector_per_track (i_type im) t" "nat (fsimage_check_sector im t s) = image_start im t + s"
    "image_start im t + s < blocks_of im"
proof -
  show t: "1 \<le> t" using assms(3) by (simp add: img.check_nonneg)
  show s: "s < disk_image_sector_per_track (i_type im) t" using assms(3) by (simp add: img.check_nonneg per_track(1)[OF image_okD(1)[OF assms(1)]])
  show "nat (fsimage_check_sector im t s) = image_start im t + s" "image_start im t + s < blocks_of im"
    using sector_number[OF assms(1) t assms(2) s] by simp_all
qed

lemma step_read:
  assumes "in_step im" "t \<le> i_tracks im" "length buf = 256"
  shows "fsimage_dxx_read_sector im buf t s =
    (if fsimage_check_sector im t s < 0 then Some (-1, buf)
     else Some (ipe_of_fdc (read_status (status_at im (nat (fsimage_check_sector im t s)))), file_sector im (nat (fsimage_check_sector im t s))))"
proof (cases "fsimage_check_sector im t s < 0")
  case False
  obtain tr where st: "image_ok im" "gcr_tracks im = Some tr" using in_stepD[OF assms(1)] by metis
  note c = check_on_disk[OF st(1) assms(2), of s]
  obtain raw where "track_data tr t = Some raw" "on_surface im t raw" using in_step_track[OF assms(1) st(2) _ assms(2)] c(1) False by force
  then show ?thesis using surface_read[OF st(1) _ assms(2), of raw s buf] c st(2) False by (simp add: fsimage_dxx_read_sector_def)
qed (simp add: fsimage_dxx_read_sector_def)

lemma file_read:
  assumes "image_ok im" "gcr_tracks im = None" "t \<le> i_tracks im" "length buf = 256"
  shows "fsimage_dxx_read_sector im buf t s =
    (if fsimage_check_sector im t s < 0 then Some (-1, buf)
     else Some (ipe_of_fdc (status_at im (nat (fsimage_check_sector im t s))), file_sector im (nat (fsimage_check_sector im t s))))"
proof (cases "fsimage_check_sector im t s < 0")
  case False
  note c = check_on_disk[OF assms(1,3), of s]
  show ?thesis using False c fpread_sector[OF assms(1) c(4) assms(4)] map_entry_status[OF assms(1) c(4)] assms(2)
    by (simp add: fsimage_dxx_read_sector_def status_at_def)
qed (simp add: fsimage_dxx_read_sector_def)

lemma step_frame [simp]:
  "file_sector (im\<lparr>gcr_tracks := tr\<rparr>) = file_sector im" "status_at (im\<lparr>gcr_tracks := tr\<rparr>) = status_at im"
  "image_ok (im\<lparr>gcr_tracks := tr\<rparr>) = image_ok im" "errors_shown (im\<lparr>gcr_tracks := tr\<rparr>) = errors_shown im"
  by (auto simp: fun_eq_iff file_sector_def status_at_def image_ok_def errors_shown_def split: option.splits)

lemma attached_reads:
  assumes "image_ok im" "errors_shown im" "gcr_tracks im = Some tr" "length tr = 168" "length buf0 = 256"
  shows "\<exists>im'. fsimage_read_dxx_image im buf0 = Some (0, im')
    \<and> (\<forall>t\<le>i_tracks im. \<forall>s buf. length buf = 256 \<longrightarrow>
        (if fsimage_check_sector im t s < 0
         then fsimage_dxx_read_sector im' buf t s = Some (-1, buf) \<and> fsimage_dxx_read_sector (im\<lparr>gcr_tracks := None\<rparr>) buf t s = Some (-1, buf)
         else (\<exists>d. fsimage_dxx_read_sector im' buf t s = Some (ipe_of_fdc (read_status (status_at im (nat (fsimage_check_sector im t s)))), d)
           \<and> fsimage_dxx_read_sector (im\<lparr>gcr_tracks := None\<rparr>) buf t s = Some (ipe_of_fdc (status_at im (nat (fsimage_check_sector im t s))), d))))"
proof -
  obtain im' tr' where im': "fsimage_read_dxx_image im buf0 = Some (0, im')" "in_step im'" "im' = im\<lparr>gcr_tracks := Some tr'\<rparr>"
    using attach_in_step[OF assms] by blast
  then show ?thesis
    using step_read[OF im'(2)] file_read[of "im\<lparr>gcr_tracks := None\<rparr>"] assms(1) by (intro exI[of _ im']) simp
qed


subsection \<open>Writing to the file\<close>

lemma fpwrite_length: "util_fpwrite w f bs off = Some g \<Longrightarrow> length f \<le> length g \<and> off + length bs \<le> length g"
  by (auto simp: util_fpwrite_def split: if_splits)

lemma fpwrite_same: "util_fpwrite w f bs off = Some g \<Longrightarrow> take (length bs) (drop off g) = bs"
  by (auto simp: util_fpwrite_def split: if_splits)

lemma fpwrite_other:
  assumes "util_fpwrite w f bs off = Some g" "a + n \<le> length f" "a + n \<le> off \<or> off + length bs \<le> a"
  shows "take n (drop a g) = take n (drop a f)"
proof (rule nth_equalityI)
  have "n \<le> length g - a" "n \<le> length f - a" using fpwrite_length[OF assms(1)] assms(2) by linarith+
  then show "length (take n (drop a g)) = length (take n (drop a f))" by simp
  fix i assume "i < length (take n (drop a g))"
  then have i: "i < n" "a + i < length f" using assms(2) by simp_all
  have g: "g = take off (f @ replicate (off - length f) 0) @ bs @ drop (off + length bs) f"
    using assms(1) by (simp add: util_fpwrite_def split: if_splits)
  have "g ! (a + i) = f ! (a + i)"
  proof (cases "a + n \<le> off")
    case True
    then show ?thesis using i by (simp add: g nth_append)
  next
    case False
    then have "off + length bs \<le> a" using assms(3) by simp
    then have "\<not> a + i < off" "\<not> a + i - off < length bs" "off + length bs + (a + i - off - length bs) = a + i" by linarith+
    moreover have "off \<le> length f" using calculation(1) i(2) by linarith
    ultimately show ?thesis using i by (simp add: g nth_append)
  qed
  then show "take n (drop a g) ! i = take n (drop a f) ! i" using i assms(2) fpwrite_length[OF assms(1)] by simp
qed

lemma fpwrite_back:
  "off + n \<le> length f \<Longrightarrow> 0 < n \<Longrightarrow> util_fpwrite True f (take n (drop off f)) off = Some f"
  by (cases "length f = 0") (auto simp: util_fpwrite_def append_assoc[symmetric] take_add[symmetric] add.commute min_def)

lemma concat_sectors: "concat (map (\<lambda>s. take 256 (drop (off + s * 256) f)) [0..<n]) = take (n * 256) (drop off f)"
proof (induction n)
  case (Suc n)
  have "take (Suc n * 256) (drop off f) = take (n * 256) (drop off f) @ take 256 (drop (off + n * 256) f)"
    using take_add[of "n * 256" 256 "drop off f"] by (simp add: add.commute)
  then show ?case using Suc by simp
qed simp

lemma note_same: "image_ok im \<Longrightarrow> c < blocks_of im \<Longrightarrow> note_status im c (status_at im c) = Some im"
  by (auto simp: note_status_def status_at_def image_ok_def split: option.splits)

lemma collect_same:
  assumes "image_ok im" "\<forall>s\<in>set ss. c + s < blocks_of im
      \<and> gcr_read_sector raw (replicate 256 0) (of_nat s) = Some (Some (status_at im (c + s), file_sector im (c + s)))"
  shows "collect_sectors raw c ss (created, im) = Some (concat (map (\<lambda>s. file_sector im (c + s)) ss), created, im)"
  using assms(2)
proof (induction ss)
  case (Cons s ss)
  then have s: "c + s < blocks_of im" "gcr_read_sector raw (replicate 256 0) (of_nat s) = Some (Some (status_at im (c + s), file_sector im (c + s)))"
    by simp_all
  have "\<not> (status_at im (c + s) \<noteq> CBMDOS_FDC_ERR_OK \<and> error_map im = None)" by (auto simp: status_at_def)
  then show ?case using s note_same[OF assms(1) s(1)] Cons by auto
qed simp

lemma write_back_same:
  assumes ok: "image_ok im" and t: "1 \<le> t" "t \<le> i_tracks im" and wr: "fs_writable im" "\<not> error_dirty im"
    and raw: "\<forall>s<disk_image_sector_per_track (i_type im) t. gcr_read_sector raw (replicate 256 0) (of_nat s)
        = Some (Some (status_at im (image_start im t + s), file_sector im (image_start im t + s)))"
  shows "fsimage_dxx_write_half_track im (2 * t) raw = Some (0, im)"
proof -
  let ?n = "disk_image_sector_per_track (i_type im) t" and ?c = "image_start im t"
  note n = sectors_pos_track[OF image_okD(1)[OF ok], of t]
  note num = sector_number[OF ok t]
  have col: "collect_sectors raw ?c [0..<?n] (False, im) = Some (concat (map (\<lambda>s. file_sector im (?c + s)) [0..<?n]), False, im)"
    using num raw by (intro collect_same[OF ok]) simp
  have cat: "concat (map (\<lambda>s. file_sector im (?c + s)) [0..<?n]) = take (?n * 256) (drop (sector_offset im ?c) (fs_file im))"
    unfolding concat_sectors[symmetric] by (simp add: file_sector_def sector_offset_def algebra_simps)
  have "sector_offset im ?c + ?n * 256 \<le> length (fs_file im)"
    using track_end[OF ok t] image_okD(6)[OF ok] by (simp add: sector_offset_def)
  then have "util_fpwrite True (fs_file im) (take (?n * 256) (drop (sector_offset im ?c) (fs_file im))) (sector_offset im ?c) = Some (fs_file im)"
    using n by (intro fpwrite_back) simp_all
  moreover have "extend_image im t (?c + ?n) = Some im" using t(2) by (simp add: extend_image_def)
  moreover have "fsimage_check_sector im t 0 = int ?c" using num(1)[of 0] n by simp
  ultimately show ?thesis using col cat wr by (simp add: fsimage_dxx_write_half_track_def Let_def write_map_def split: option.split)
qed

text \<open>What the drive finds on a track, whatever it is; an image with an error map, or a track without errors.\<close>

definition noted :: "nat \<Rightarrow> (nat \<Rightarrow> int) \<Rightarrow> nat list \<Rightarrow> byte list \<Rightarrow> byte list" where
  "noted c rf ss m = fold (\<lambda>s m. m[c + s := word_of_int (rf s)]) ss m"

lemma length_noted [simp]: "length (noted c rf ss m) = length m"
  unfolding noted_def by (induction ss arbitrary: m) simp_all

lemma nth_noted:
  "distinct ss \<Longrightarrow> \<forall>s\<in>set ss. c + s < length m \<Longrightarrow> i < length m \<Longrightarrow>
    noted c rf ss m ! i = (if c \<le> i \<and> i - c \<in> set ss then word_of_int (rf (i - c)) else m ! i)"
proof (induction ss arbitrary: m)
  case (Cons s ss)
  have "noted c rf (s # ss) m ! i = noted c rf ss (m[c + s := word_of_int (rf s)]) ! i" by (simp add: noted_def)
  also have "\<dots> = (if c \<le> i \<and> i - c \<in> set ss then word_of_int (rf (i - c)) else m[c + s := word_of_int (rf s)] ! i)"
    using Cons.prems by (intro Cons.IH) simp_all
  finally show ?case using Cons.prems by (auto simp: nth_list_update)
qed (simp add: noted_def)

lemma same_map: "error_map im = Some m \<Longrightarrow> im\<lparr>error_map := Some m, error_dirty := error_dirty im\<rparr> = im"
  by (cases im) simp

lemma collect_map:
  assumes "\<forall>s\<in>set ss. gcr_read_sector raw (replicate 256 0) (of_nat s) = Some (Some (rf s, d s))"
    "error_map im = Some m" "\<forall>s\<in>set ss. c + s < length m"
  shows "\<exists>dirty. collect_sectors raw c ss (created, im)
      = Some (concat (map d ss), created, im\<lparr>error_map := Some (noted c rf ss m), error_dirty := dirty\<rparr>) \<and> (error_dirty im \<longrightarrow> dirty)"
  using assms
proof (induction ss arbitrary: im m)
  case Nil
  then show ?case by (intro exI[of _ "error_dirty im"]) (simp add: noted_def same_map)
next
  case (Cons s ss)
  let ?m = "m[c + s := word_of_int (rf s)]"
  obtain d1 where n: "note_status im (c + s) (rf s) = Some (im\<lparr>error_map := Some ?m, error_dirty := d1\<rparr>)" "error_dirty im \<longrightarrow> d1"
  proof (cases "m ! (c + s) = word_of_int (rf s)")
    case True
    then have "?m = m" by (metis list_update_id)
    then have "note_status im (c + s) (rf s) = Some (im\<lparr>error_map := Some ?m, error_dirty := error_dirty im\<rparr>)"
      using Cons.prems True by (simp add: note_status_def same_map)
    then show thesis using that by blast
  next
    case False
    then have "note_status im (c + s) (rf s) = Some (im\<lparr>error_map := Some ?m, error_dirty := True\<rparr>)"
      using Cons.prems by (simp add: note_status_def)
    then show thesis using that by simp
  qed
  obtain d2 where "collect_sectors raw c ss (created, im\<lparr>error_map := Some ?m, error_dirty := d1\<rparr>)
      = Some (concat (map d ss), created, im\<lparr>error_map := Some (noted c rf ss ?m), error_dirty := d2\<rparr>)" "d1 \<longrightarrow> d2"
    using Cons.IH[of "im\<lparr>error_map := Some ?m, error_dirty := d1\<rparr>" ?m] Cons.prems by auto
  then show ?case using n Cons.prems(1,2) by (auto simp: noted_def)
qed

lemma collect_no_map:
  assumes "\<forall>s\<in>set ss. gcr_read_sector raw (replicate 256 0) (of_nat s) = Some (Some (CBMDOS_FDC_ERR_OK, d s))" "error_map im = None"
  shows "collect_sectors raw c ss (created, im) = Some (concat (map d ss), created, im)"
  using assms by (induction ss) (simp_all add: note_status_def)

lemma concat_length: "\<forall>s<n. length (d s) = 256 \<Longrightarrow> length (concat (map d [0..<n])) = n * 256"
  by (induction n) simp_all

lemma concat_part:
  "\<forall>s<n. length (d s) = 256 \<Longrightarrow> k < n \<Longrightarrow> take 256 (drop (k * 256) (concat (map d [0..<n]))) = d k"
proof (induction n)
  case (Suc n)
  have l: "length (concat (map d [0..<n])) = n * 256" using Suc.prems(1) by (intro concat_length) simp
  show ?case
  proof (cases "k = n")
    case True
    then show ?thesis using l Suc.prems(1) by simp
  next
    case False
    then have "k * 256 + 256 \<le> n * 256" using Suc.prems(2) by simp
    then have "take 256 (drop (k * 256) (concat (map d [0..<n]) @ d n)) = take 256 (drop (k * 256) (concat (map d [0..<n])))" using l by simp
    then show ?thesis using Suc False by simp
  qed
qed simp

text \<open>The file and the map after a track was put back.\<close>

definition track_stored :: "fs_image \<Rightarrow> nat \<Rightarrow> (nat \<Rightarrow> int) \<Rightarrow> (nat \<Rightarrow> byte list) \<Rightarrow> fs_image \<Rightarrow> bool" where
  "track_stored im t rf d im' \<longleftrightarrow>
     (\<forall>c<blocks_of im. let k = c - image_start im t
        in if image_start im t \<le> c \<and> k < disk_image_sector_per_track (i_type im) t
           then file_sector im' c = d k \<and> status_at im' c = uint (word_of_int (rf k) :: byte)
           else file_sector im' c = file_sector im c \<and> status_at im' c = status_at im c)"

lemma stored_file:
  assumes ok: "image_ok im" and t: "1 \<le> t" "t \<le> i_tracks im" and wr: "fs_writable im"
    and d: "\<forall>s<disk_image_sector_per_track (i_type im) t. length (d s) = 256"
  obtains f where "util_fpwrite (fs_writable im) (fs_file im) (concat (map d [0..<disk_image_sector_per_track (i_type im) t])) (sector_offset im (image_start im t)) = Some f"
    "length (fs_file im) \<le> length f"
    "\<forall>c<blocks_of im. take 256 (drop (sector_offset im c) f)
       = (if image_start im t \<le> c \<and> c - image_start im t < disk_image_sector_per_track (i_type im) t then d (c - image_start im t) else file_sector im c)"
proof -
  let ?n = "disk_image_sector_per_track (i_type im) t" and ?c = "image_start im t"
  let ?bs = "concat (map d [0..<?n])"
  note n = sectors_pos_track[OF image_okD(1)[OF ok], of t]
  have l: "length ?bs = ?n * 256" using d by (rule concat_length)
  then have "?bs \<noteq> []" using n by (metis length_0_conv mult_eq_0_iff neq0_conv zero_neq_numeral)
  then obtain f where f: "util_fpwrite (fs_writable im) (fs_file im) ?bs (sector_offset im ?c) = Some f" using wr by (auto simp: util_fpwrite_def)
  have "take 256 (drop (sector_offset im c) f) = (if ?c \<le> c \<and> c - ?c < ?n then d (c - ?c) else file_sector im c)" if c: "c < blocks_of im" for c
  proof (cases "?c \<le> c \<and> c - ?c < ?n")
    case True
    have "c * 256 = ?c * 256 + (c - ?c) * 256" using True by (simp add: diff_mult_distrib)
    then have o: "sector_offset im c = sector_offset im ?c + (c - ?c) * 256" "(c - ?c) * 256 + 256 \<le> ?n * 256" using True by (simp_all add: sector_offset_def)
    have "take 256 (drop (sector_offset im c) f) = take 256 (drop ((c - ?c) * 256) (take (?n * 256) (drop (sector_offset im ?c) f)))"
      using o by (simp add: drop_take add.commute)
    also have "\<dots> = d (c - ?c)" using fpwrite_same[OF f] concat_part[OF d, of "c - ?c"] True unfolding l by simp
    finally show ?thesis using True by simp
  next
    case False
    then have "sector_offset im c + 256 \<le> sector_offset im ?c \<or> sector_offset im ?c + length ?bs \<le> sector_offset im c"
      unfolding l by (auto simp: sector_offset_def)
    then show ?thesis using fpwrite_other[OF f, of "sector_offset im c" 256] sector_in_file[OF ok c] False by (auto simp: file_sector_def)
  qed
  then show thesis using that[OF f] fpwrite_length[OF f] by blast
qed

lemma write_back_stores:
  assumes ok: "image_ok im" and t: "1 \<le> t" "t \<le> i_tracks im" and wr: "fs_writable im"
    and raw: "\<forall>s<disk_image_sector_per_track (i_type im) t. gcr_read_sector raw (replicate 256 0) (of_nat s) = Some (Some (rf s, d s)) \<and> length (d s) = 256"
    and em: "error_map im = None \<longrightarrow> (\<forall>s<disk_image_sector_per_track (i_type im) t. rf s = CBMDOS_FDC_ERR_OK)"
  shows "\<exists>im'. fsimage_dxx_write_half_track im (2 * t) raw = Some (0, im') \<and> image_ok im' \<and> track_stored im t rf d im'"
proof -
  let ?n = "disk_image_sector_per_track (i_type im) t" and ?c = "image_start im t"
  let ?bs = "concat (map d [0..<?n])" and ?x = "if i_type im = X64 then 64 else 0 :: nat"
  note n = sectors_pos_track[OF image_okD(1)[OF ok], of t] and num = sector_number[OF ok t]
  obtain f where f: "util_fpwrite (fs_writable im) (fs_file im) ?bs (sector_offset im ?c) = Some f" "length (fs_file im) \<le> length f"
    and fs: "\<forall>c<blocks_of im. take 256 (drop (sector_offset im c) f) = (if ?c \<le> c \<and> c - ?c < ?n then d (c - ?c) else file_sector im c)"
    using stored_file[OF ok t wr, of d] raw by blast
  have pre: "fsimage_check_sector im t 0 = int ?c" "extend_image im t (?c + ?n) = Some im" using num(1)[of 0] n t(2) by (simp_all add: extend_image_def)
  show ?thesis
  proof (cases "error_map im")
    case None
    then have "collect_sectors raw ?c [0..<?n] (False, im) = Some (?bs, False, im)" using raw em by (intro collect_no_map) auto
    then have "fsimage_dxx_write_half_track im (2 * t) raw = Some (0, im\<lparr>fs_file := f\<rparr>)"
      using pre f(1) None by (simp add: fsimage_dxx_write_half_track_def Let_def write_map_def)
    moreover have "image_ok (im\<lparr>fs_file := f\<rparr>)" using ok f(2) None by (simp add: image_ok_def)
    moreover have "track_stored im t rf d (im\<lparr>fs_file := f\<rparr>)"
      using fs None em unfolding track_stored_def Let_def file_sector_def[of "im\<lparr>fs_file := f\<rparr>"]
      by (simp add: status_at_def fdc_defs)
    ultimately show ?thesis by blast
  next
    case (Some m)
    note lm = image_okD(7)[OF ok Some]
    have in_map: "\<forall>s\<in>set [0..<?n]. ?c + s < length m" using num(2) lm by simp
    obtain dirty where col: "collect_sectors raw ?c [0..<?n] (False, im)
        = Some (?bs, False, im\<lparr>error_map := Some (noted ?c rf [0..<?n] m), error_dirty := dirty\<rparr>)"
      using collect_map[of "[0..<?n]" raw rf d im m ?c False] raw Some in_map by auto
    let ?m = "noted ?c rf [0..<?n] m"
    have so: "sector_offset (im\<lparr>error_map := a, error_dirty := b\<rparr>) = sector_offset im" for a b by (rule geometry_cong) simp
    have m: "?m ! c = (if ?c \<le> c \<and> c - ?c < ?n then word_of_int (rf (c - ?c)) else m ! c)" if "c < blocks_of im" for c
      using nth_noted[OF distinct_upt in_map, of c rf] that lm by simp
    obtain g where g: "length f \<le> length g" "\<forall>c<blocks_of im. take 256 (drop (sector_offset im c) g) = take 256 (drop (sector_offset im c) f)"
      and r: "fsimage_dxx_write_half_track im (2 * t) raw = Some (0, im\<lparr>error_map := Some ?m, error_dirty := False, fs_file := g\<rparr>)"
    proof (cases dirty)
      case False
      then show thesis using that[of f] pre f(1) col Some
        by (simp add: fsimage_dxx_write_half_track_def Let_def write_map_def so)
    next
      case True
      let ?off = "length m * 256 + ?c + ?x" and ?e = "take ?n (drop ?c ?m)"
      have "?e \<noteq> []" using n num(2)[of 0] lm by simp
      then obtain g where g: "util_fpwrite True f ?e ?off = Some g" by (simp add: util_fpwrite_def)
      have "take 256 (drop (sector_offset im c) g) = take 256 (drop (sector_offset im c) f)" if "c < blocks_of im" for c
        using fpwrite_other[OF g, of "sector_offset im c" 256] sector_in_file[OF ok that] f(2) that lm by (simp add: sector_offset_def)
      moreover have "fsimage_dxx_write_half_track im (2 * t) raw = Some (0, im\<lparr>error_map := Some ?m, error_dirty := False, fs_file := g\<rparr>)"
        using True pre f(1) col Some g wr
        by (simp add: fsimage_dxx_write_half_track_def Let_def write_map_def sector_offset_def)
      ultimately show thesis using that[of g] fpwrite_length[OF g] by blast
    qed
    let ?im = "im\<lparr>error_map := Some ?m, error_dirty := False, fs_file := g\<rparr>"
    have geo: "sector_offset ?im = sector_offset im" "blocks_of ?im = blocks_of im" "image_tracks ?im = image_tracks im"
      by (rule geometry_cong; simp)+
    have "image_ok ?im" using ok f(2) g(1) lm unfolding image_ok_def geo by simp
    moreover have "track_stored im t rf d ?im"
      using fs g(2) m Some unfolding track_stored_def Let_def file_sector_def[of ?im] geo
      by (simp add: status_at_def)
    ultimately show ?thesis using r by blast
  qed
qed


lemma length_put_sector:
  "image_ok im \<Longrightarrow> c < blocks_of im \<Longrightarrow> c' < blocks_of im \<Longrightarrow> c' \<noteq> c \<Longrightarrow>
    sector_offset im c' + 256 \<le> sector_offset im c \<or> sector_offset im c + 256 \<le> sector_offset im c'"
  by (simp add: sector_offset_def) linarith

text \<open>What a write leaves: the sector has the new contents and no error; everything else is as it was.\<close>

definition sector_written :: "fs_image \<Rightarrow> nat \<Rightarrow> byte list \<Rightarrow> fs_image \<Rightarrow> bool" where
  "sector_written im c buf im' \<longleftrightarrow> i_type im' = i_type im \<and> i_tracks im' = i_tracks im \<and> fs_writable im' = fs_writable im
     \<and> image_ok im' \<and> (errors_shown im \<longrightarrow> errors_shown im')
     \<and> (\<forall>c'<blocks_of im. file_sector im' c' = (if c' = c then buf else file_sector im c')
          \<and> status_at im' c' = (if c' = c then CBMDOS_FDC_ERR_OK else status_at im c'))"

lemma put_sector:
  assumes ok: "image_ok im" "c < blocks_of im" "length buf = 256" "fs_writable im"
  obtains f im' where "util_fpwrite (fs_writable im) (fs_file im) buf (sector_offset im c) = Some f"
    "\<And>tr. clear_error c (im\<lparr>fs_file := f, gcr_tracks := tr\<rparr>) = Some (im'\<lparr>gcr_tracks := tr\<rparr>)" "sector_written im c buf im'"
proof -
  let ?off = "sector_offset im c"
  have "util_fpwrite (fs_writable im) (fs_file im) buf ?off \<noteq> None" using ok(3,4) by (auto simp: util_fpwrite_def)
  then obtain f where f: "util_fpwrite (fs_writable im) (fs_file im) buf ?off = Some f" by blast
  have same: "take 256 (drop ?off f) = buf" using fpwrite_same[OF f] ok(3) by simp
  have other: "take 256 (drop (sector_offset im c') f) = file_sector im c'" if "c' < blocks_of im" "c' \<noteq> c" for c'
    using fpwrite_other[OF f, of "sector_offset im c'" 256] length_put_sector[OF ok(1,2) that] sector_in_file[OF ok(1) that(1)] ok(3)
    by (auto simp: file_sector_def)
  have len: "length (fs_file im) \<le> length f" using fpwrite_length[OF f] by simp
  show thesis
  proof (cases "error_map im")
    case None
    have "sector_written im c buf (im\<lparr>fs_file := f\<rparr>)"
      using ok same other len None by (auto simp: sector_written_def image_ok_def errors_shown_def file_sector_def status_at_def)
    moreover have "clear_error c (im\<lparr>fs_file := f, gcr_tracks := tr\<rparr>) = Some (im\<lparr>fs_file := f, gcr_tracks := tr\<rparr>)" for tr
      using None by (simp add: clear_error_def)
    ultimately show thesis using that[OF f, of "im\<lparr>fs_file := f\<rparr>"] by simp
  next
    case (Some m)
    note lm = image_okD(7)[OF ok(1) Some]
    show thesis
    proof (cases "uint (m ! c) = CBMDOS_FDC_ERR_OK")
      case True
      have "sector_written im c buf (im\<lparr>fs_file := f\<rparr>)"
        using ok same other len Some True by (auto simp: sector_written_def image_ok_def errors_shown_def file_sector_def status_at_def)
      moreover have "clear_error c (im\<lparr>fs_file := f, gcr_tracks := tr\<rparr>) = Some (im\<lparr>fs_file := f, gcr_tracks := tr\<rparr>)" for tr
        using Some True lm ok(2) by (simp add: clear_error_def)
      ultimately show thesis using that[OF f, of "im\<lparr>fs_file := f\<rparr>"] by simp
    next
      case False
      let ?off' = "length m * 256 + c + (if i_type im = X64 then 64 else 0)" and ?m = "m[c := word_of_int CBMDOS_FDC_ERR_OK]"
      obtain g where g: "util_fpwrite True f [word_of_int CBMDOS_FDC_ERR_OK] ?off' = Some g" by (simp add: util_fpwrite_def)
      have keep: "take 256 (drop (sector_offset im c') g) = take 256 (drop (sector_offset im c') f)" if "c' < blocks_of im" for c'
        using fpwrite_other[OF g, of "sector_offset im c'" 256] sector_in_file[OF ok(1) that] len that lm by (auto simp: sector_offset_def)
      have "2 \<notin> set ?m \<and> 3 \<notin> set ?m" if "errors_shown im" using that Some set_update_subset_insert[of m c "word_of_int CBMDOS_FDC_ERR_OK"]
        by (auto simp: errors_shown_def fdc_defs)
      then have "sector_written im c buf (im\<lparr>fs_file := g, error_map := Some ?m\<rparr>)"
        using ok same other keep len fpwrite_length[OF g] Some lm
        by (auto simp: sector_written_def image_ok_def errors_shown_def file_sector_def status_at_def fdc_defs)
      moreover have "clear_error c (im\<lparr>fs_file := f, gcr_tracks := tr\<rparr>) = Some (im\<lparr>fs_file := g, error_map := Some ?m, gcr_tracks := tr\<rparr>)" for tr
        using Some False lm ok(2,4) g by (simp add: clear_error_def)
      ultimately show thesis using that[OF f, of "im\<lparr>fs_file := g, error_map := Some ?m\<rparr>"] by simp
    qed
  qed
qed


lemma written_other_track:
  assumes w: "sector_written im c buf im'" and ok: "image_ok im" and t: "1 \<le> t" "t \<le> i_tracks im" and surf: "on_surface im t raw"
    and ne: "\<forall>s<disk_image_sector_per_track (i_type im) t. image_start im t + s \<noteq> c"
  shows "on_surface im' t raw"
proof -
  have ty: "i_type im' = i_type im" using w by (simp add: sector_written_def)
  have g: "image_start im' = image_start im" using geometry_cong(2)[of im' im] ty by simp
  have c: "file_sector im' (image_start im t + s) = file_sector im (image_start im t + s)
      \<and> status_at im' (image_start im t + s) = status_at im (image_start im t + s)"
    if "s < disk_image_sector_per_track (i_type im) t" for s
    using w ne that sector_number(2)[OF ok t that] by (simp add: sector_written_def)
  then have "track_sectors im' t hs es = track_sectors im t hs es" for hs es
    by (simp add: track_sectors_def ty g)
  then show ?thesis using surf c by (simp add: on_surface_def format_image_track_def ty g)
qed

lemma written_this_track:
  assumes w: "sector_written im (image_start im t + s) buf im'" and ok: "image_ok im" and t: "1 \<le> t" "t \<le> i_tracks im"
    and surf: "on_surface im t raw" and s: "s < disk_image_sector_per_track (i_type im) t" and buf: "length buf = 256"
  obtains raw' where "gcr_write_sector raw buf (of_nat s) = Some (Some (CBMDOS_FDC_ERR_OK, raw'))" "on_surface im' t raw'"
proof -
  let ?n = "disk_image_sector_per_track (i_type im) t" and ?c = "\<lambda>s. image_start im t + s"
  obtain hs es where f: "format_image_track im t (track_sectors im t hs es) = Some raw"
    and e: "\<forall>s<?n. plain (es s) \<and> read_status (es s) = read_status (status_at im (?c s))"
    using surf by (auto simp: on_surface_def)
  let ?secs = "track_sectors im t hs es" and ?h = "(hs s)\<lparr>h_sector := of_nat s\<rparr>"
  define es' where "es' = es(s := snd (snd (written buf ?h (es s))))"
  obtain raw' where w': "gcr_write_sector raw buf (of_nat s) = Some (Some (CBMDOS_FDC_ERR_OK, raw'))"
    "format_image_track im t (?secs[s := written buf ?h (es s)]) = Some raw'"
    using write_formatted_sector[OF sectors_ok_track[OF ok t] track_fits[OF ok] _ track_sectors_nth[OF s], of hs es buf]
      track_sectors_front[OF image_okD(1)[OF ok] _ s, of es hs] e s f buf
    by (auto simp: track_sectors_def format_image_track_def)
  have ty: "i_type im' = i_type im" using w by (simp add: sector_written_def)
  have g: "image_start im' = image_start im" using geometry_cong(2)[of im' im] ty by simp
  have c: "file_sector im' (?c k) = (if k = s then buf else file_sector im (?c k))
      \<and> status_at im' (?c k) = (if k = s then CBMDOS_FDC_ERR_OK else status_at im (?c k))" if "k < ?n" for k
    using w sector_number(2)[OF ok t that] by (simp add: sector_written_def)
  have wr: "written buf ?h (es s) = (buf, ?h, es' s)" by (simp add: es'_def written_def)
  have "?secs[s := written buf ?h (es s)] = track_sectors im' t hs es'"
  proof (rule nth_equalityI)
    show "length (?secs[s := written buf ?h (es s)]) = length (track_sectors im' t hs es')" by (simp add: track_sectors_def ty)
    fix k assume "k < length (?secs[s := written buf ?h (es s)])"
    then have k: "k < ?n" by (simp add: track_sectors_def)
    have r: "track_sectors im' t hs es' ! k = (file_sector im' (?c k), (hs k)\<lparr>h_sector := of_nat k\<rparr>, es' k)"
      using track_sectors_nth[of k im' t hs es'] k by (simp only: ty g)
    show "?secs[s := written buf ?h (es s)] ! k = track_sectors im' t hs es' ! k"
    proof (cases "k = s")
      case True
      then show ?thesis using r c[OF k] wr k by (simp add: track_sectors_def)
    next
      case False
      then show ?thesis using r c[OF k] track_sectors_nth[OF k, of hs es] by (simp add: es'_def)
    qed
  qed
  then have "format_image_track im' t (track_sectors im' t hs es') = Some raw'" using w'(2) by (simp add: format_image_track_def ty)
  moreover have "\<forall>k<?n. plain (es' k) \<and> read_status (es' k) = read_status (status_at im' (?c k))"
    using e c s by (auto simp: es'_def written_def read_status_def plain_def fdc_defs)
  ultimately have "on_surface im' t raw'" unfolding on_surface_def ty g by blast
  then show thesis using that w'(1) by blast
qed

lemma other_track_sector:
  assumes "image_ok im" "1 \<le> t" "t \<le> i_tracks im" "1 \<le> u" "u \<le> i_tracks im" "t \<noteq> u"
    "s < disk_image_sector_per_track (i_type im) t" "r < disk_image_sector_per_track (i_type im) u"
  shows "image_start im u + r \<noteq> image_start im t + s"
proof -
  note d = image_okD(1,2)[OF assms(1)]
  consider "t < u" | "u < t" using assms(6) by linarith
  then show ?thesis
  proof cases
    case 1
    then have "image_start im t + image_per_track im t \<le> image_start im u" using assms(2,5) d(2) by (intro img.start_less) simp_all
    then show ?thesis using assms(7) per_track(1)[OF d(1), of t] by linarith
  next
    case 2
    then have "image_start im u + image_per_track im u \<le> image_start im t" using assms(3,4) d(2) by (intro img.start_less) simp_all
    then show ?thesis using assms(8) per_track(1)[OF d(1), of u] by linarith
  qed
qed

lemma write_in_step:
  assumes st: "in_step im" and t: "t \<le> i_tracks im" "0 \<le> fsimage_check_sector im t s" and buf: "length buf = 256" "fs_writable im"
  obtains im' where "fsimage_dxx_write_sector im buf t s = Some (0, im')" "in_step im'" "sector_written im (nat (fsimage_check_sector im t s)) buf im'"
proof -
  note ok = in_stepD(1,2)[OF st]
  note c = check_on_disk[OF ok(1) t]
  let ?c = "image_start im t + s"
  obtain f im1 where f: "util_fpwrite (fs_writable im) (fs_file im) buf (sector_offset im ?c) = Some f"
    and cl: "\<And>tr. clear_error ?c (im\<lparr>fs_file := f, gcr_tracks := tr\<rparr>) = Some (im1\<lparr>gcr_tracks := tr\<rparr>)" and w: "sector_written im ?c buf im1"
    using put_sector[OF ok(1) c(4) buf] by metis
  obtain tr where tr: "gcr_tracks im = Some tr" "length tr = 168" using in_stepD(3,4)[OF st] by blast
  obtain raw where raw: "track_data tr t = Some raw" "tr ! (2 * t - 2) = Some raw" "on_surface im t raw"
    using in_step_track[OF st tr(1) c(1) t(1)] by metis
  obtain raw' where raw': "gcr_write_sector raw buf (of_nat s) = Some (Some (CBMDOS_FDC_ERR_OK, raw'))" "on_surface im1 t raw'"
    using written_this_track[OF w ok(1) c(1) t(1) raw(3) c(2) buf(1)] by metis
  let ?tr = "tr[2 * t - 2 := Some raw']"
  have "write_tracks buf t s (im\<lparr>fs_file := f\<rparr>) = Some (im\<lparr>fs_file := f, gcr_tracks := Some ?tr\<rparr>)"
    using tr(1) raw(1,2) raw'(1) by (simp add: write_tracks_def)
  then have wr: "fsimage_dxx_write_sector im buf t s = Some (0, im1\<lparr>gcr_tracks := Some ?tr\<rparr>)"
    using f t(2) c(3) cl by (simp add: fsimage_dxx_write_sector_def)
  have i1: "i_tracks im1 = i_tracks im" "image_ok im1" "errors_shown im1" "i_type im1 = i_type im" using w ok(2) by (simp_all add: sector_written_def)
  have surf: "on_surface (im1\<lparr>gcr_tracks := Some ?tr\<rparr>) u r = on_surface im1 u r" for u r
    by (simp add: on_surface_def format_image_track_def track_sectors_def)
  have "\<exists>r. ?tr ! (2 * u - 2) = Some r \<and> on_surface im1 u r" if u: "1 \<le> u" "u \<le> i_tracks im" for u
  proof (cases "u = t")
    case True
    then show ?thesis using raw'(2) image_okD(3)[OF ok(1)] t(1) c(1) tr(2) by simp
  next
    case False
    obtain r where r: "tr ! (2 * u - 2) = Some r" "on_surface im u r" using in_stepD(5)[OF st tr(1) u] by blast
    have "\<forall>k<disk_image_sector_per_track (i_type im) u. image_start im u + k \<noteq> ?c"
      using other_track_sector[OF ok(1) c(1) t(1) u _ c(2)] False by blast
    moreover have "2 * u - 2 \<noteq> 2 * t - 2" using False u c(1) by linarith
    ultimately show ?thesis using written_other_track[OF w ok(1) u r(2)] r(1) by simp
  qed
  then have "in_step (im1\<lparr>gcr_tracks := Some ?tr\<rparr>)" using i1 tr(2) surf by (simp add: in_step_def)
  moreover have "sector_written im ?c buf (im1\<lparr>gcr_tracks := Some ?tr\<rparr>)" using w by (simp add: sector_written_def)
  ultimately show thesis using that[OF wr] c(3) by simp
qed


lemma ipe_ok: "ipe_of_fdc CBMDOS_FDC_ERR_OK = 0"
  by (simp add: ipe_of_fdc_def)

lemma sector_index_inj:
  assumes "image_ok im" "t \<le> i_tracks im" "0 \<le> fsimage_check_sector im t s" "u \<le> i_tracks im" "0 \<le> fsimage_check_sector im u r"
  shows "nat (fsimage_check_sector im u r) = nat (fsimage_check_sector im t s) \<longleftrightarrow> u = t \<and> r = s"
proof -
  note c = check_on_disk[OF assms(1-3)] and d = check_on_disk[OF assms(1,4,5)]
  show ?thesis
    using other_track_sector[OF assms(1) c(1) assms(2) d(1) assms(4) _ c(2) d(2)] c(3) d(3) by (cases "u = t") auto
qed

definition sector_index :: "fs_image \<Rightarrow> nat \<times> nat \<Rightarrow> nat" where
  "sector_index im x = nat (fsimage_check_sector im (fst x) (snd x))"

subsection \<open>Images as stores of sectors\<close>

text \<open>What reading a sector gives, and gives without an error; the buffer does not matter.\<close>

definition holds :: "fs_image \<Rightarrow> nat \<times> nat \<Rightarrow> byte list \<Rightarrow> bool" where
  "holds im x blk \<longleftrightarrow> (\<forall>b. length b = 256 \<longrightarrow> fsimage_dxx_read_sector im b (fst x) (snd x) = Some (0, blk))"

text \<open>
  A kind of image in which what is written can be read: a write to a place that can be reached succeeds, the place then holds what was
  written, every other place what it held, and the image stays of its kind.
\<close>

locale sector_store =
  fixes good :: "fs_image \<Rightarrow> bool" and reach :: "fs_image \<Rightarrow> nat \<times> nat \<Rightarrow> bool"
  assumes put: "good im \<Longrightarrow> reach im x \<Longrightarrow> length buf = 256 \<Longrightarrow> \<exists>im'. fsimage_dxx_write_sector im buf (fst x) (snd x) = Some (0, im')
      \<and> good im' \<and> i_type im' = i_type im \<and> reach im' = reach im \<and> holds im' x buf
      \<and> (\<forall>y blk. reach im y \<longrightarrow> y \<noteq> x \<longrightarrow> holds im y blk \<longrightarrow> holds im' y blk)"

definition on_tracks :: "fs_image \<Rightarrow> nat \<times> nat \<Rightarrow> bool" where
  "on_tracks im x \<longleftrightarrow> fst x \<le> i_tracks im \<and> 0 \<le> fsimage_check_sector im (fst x) (snd x)"

text \<open>Whether the tracks or the file are read, the result depends on the entry of the map and the bytes in the file alone.\<close>

lemma written_holds:
  assumes ok: "image_ok im" and x: "on_tracks im x" and w: "sector_written im (sector_index im x) buf im'"
    and rd: "\<And>b y. on_tracks im y \<Longrightarrow> length b = 256 \<Longrightarrow> fsimage_dxx_read_sector im b (fst y) (snd y)
        = Some (g (status_at im (sector_index im y)), file_sector im (sector_index im y))"
    and rd': "\<And>b y. on_tracks im y \<Longrightarrow> length b = 256 \<Longrightarrow> fsimage_dxx_read_sector im' b (fst y) (snd y)
        = Some (g (status_at im' (sector_index im y)), file_sector im' (sector_index im y))"
    and g: "g CBMDOS_FDC_ERR_OK = 0"
  shows "holds im' x buf" "on_tracks im y \<Longrightarrow> y \<noteq> x \<Longrightarrow> holds im y blk \<Longrightarrow> holds im' y blk"
    "fsimage_check_sector im' = fsimage_check_sector im" "on_tracks im' = on_tracks im"
proof -
  note wr = w[unfolded sector_written_def]
  show c: "fsimage_check_sector im' = fsimage_check_sector im" using wr by (intro geometry_cong(6)) simp_all
  show "on_tracks im' = on_tracks im" using wr c by (simp add: on_tracks_def fun_eq_iff)
  have idx: "sector_index im y < blocks_of im" "sector_index im y = sector_index im x \<longleftrightarrow> y = x" if "on_tracks im y" for y
  proof -
    have y: "fst y \<le> i_tracks im" "0 \<le> fsimage_check_sector im (fst y) (snd y)" using that by (simp_all add: on_tracks_def)
    show "sector_index im y < blocks_of im" using check_on_disk(3,4)[OF ok y] by (simp add: sector_index_def)
    show "sector_index im y = sector_index im x \<longleftrightarrow> y = x"
      using sector_index_inj[OF ok, of "fst x" "snd x" "fst y" "snd y"] x y by (auto simp: on_tracks_def sector_index_def prod_eq_iff)
  qed
  show "holds im' x buf" using wr idx[OF x] rd'[OF x] g by (simp add: holds_def)
  show "holds im' y blk" if y: "on_tracks im y" "y \<noteq> x" "holds im y blk"
  proof -
    have "file_sector im' (sector_index im y) = file_sector im (sector_index im y)" "status_at im' (sector_index im y) = status_at im (sector_index im y)"
      using wr idx[OF y(1)] y(2) by simp_all
    then show ?thesis using y(3) rd[OF y(1)] rd'[OF y(1)] by (simp add: holds_def)
  qed
qed

lemma step_read_on:
  "in_step im \<Longrightarrow> on_tracks im x \<Longrightarrow> length b = 256 \<Longrightarrow> fsimage_dxx_read_sector im b (fst x) (snd x)
     = Some (ipe_of_fdc (read_status (status_at im (sector_index im x))), file_sector im (sector_index im x))"
  using step_read[of im "fst x" b "snd x"] by (simp add: on_tracks_def sector_index_def)

text \<open>An image on the tracks of a drive, in step with its file.\<close>

interpretation tracks_store: sector_store "\<lambda>im. in_step im \<and> fs_writable im" on_tracks
proof unfold_locales
  fix im :: fs_image and x and buf :: "byte list"
  assume g: "in_step im \<and> fs_writable im" and x: "on_tracks im x" and b: "length buf = 256"
  have t: "fst x \<le> i_tracks im" "0 \<le> fsimage_check_sector im (fst x) (snd x)" using x by (simp_all add: on_tracks_def)
  obtain im' where w: "fsimage_dxx_write_sector im buf (fst x) (snd x) = Some (0, im')" "in_step im'" "sector_written im (sector_index im x) buf im'"
    using write_in_step[OF _ t b] g unfolding sector_index_def by blast
  have c: "on_tracks im' = on_tracks im" "sector_index im' = sector_index im"
    using w(3) geometry_cong(6)[of im' im] by (simp_all add: sector_written_def fun_eq_iff on_tracks_def sector_index_def)
  have st: "in_step im" using g by simp
  have rd: "fsimage_dxx_read_sector im' b (fst y) (snd y) = Some (ipe_of_fdc (read_status (status_at im' (sector_index im y))), file_sector im' (sector_index im y))"
    if "on_tracks im y" "length b = 256" for b y using step_read_on[OF w(2), of y b] that unfolding c by simp
  have g0: "ipe_of_fdc (read_status CBMDOS_FDC_ERR_OK) = 0" by (simp add: read_status_simps ipe_ok)
  note h = written_holds[where g = "\<lambda>e. ipe_of_fdc (read_status e)", OF in_stepD(1)[OF st] x w(3) step_read_on[OF st] rd g0]
  have w': "fs_writable im'" "i_type im' = i_type im" using w(3) g by (simp_all add: sector_written_def)
  show "\<exists>im'. fsimage_dxx_write_sector im buf (fst x) (snd x) = Some (0, im') \<and> (in_step im' \<and> fs_writable im') \<and> i_type im' = i_type im \<and> on_tracks im' = on_tracks im
      \<and> holds im' x buf \<and> (\<forall>y blk. on_tracks im y \<longrightarrow> y \<noteq> x \<longrightarrow> holds im y blk \<longrightarrow> holds im' y blk)"
    by (intro exI[of _ im'] conjI allI impI w(1,2) w' c(1) h(1)) (assumption | rule h(2))+
qed

text \<open>An image of any type that is on no tracks: the sectors its check accepts and its error map, if it has one, has entries for.\<close>

definition in_map :: "fs_image \<Rightarrow> nat \<times> nat \<Rightarrow> bool" where
  "in_map im x \<longleftrightarrow> 0 \<le> fsimage_check_sector im (fst x) (snd x)
     \<and> (case error_map im of None \<Rightarrow> True | Some m \<Rightarrow> sector_index im x < length m)"

lemma file_holds:
  assumes "gcr_tracks im = None" "in_map im x"
  shows "holds im x blk \<longleftrightarrow> sector_offset im (sector_index im x) + 256 \<le> length (fs_file im)
    \<and> file_sector im (sector_index im x) = blk \<and> ipe_of_fdc (status_at im (sector_index im x)) = 0"
proof -
  let ?off = "sector_offset im (sector_index im x)"
  have r: "fsimage_dxx_read_sector im b (fst x) (snd x) =
      (if ?off + 256 \<le> length (fs_file im) then Some (ipe_of_fdc (status_at im (sector_index im x)), file_sector im (sector_index im x))
       else Some (-1, take 256 (drop ?off (fs_file im)) @ drop (length (take 256 (drop ?off (fs_file im)))) b))" if "length b = 256" for b
    using assms that by (auto simp: fsimage_dxx_read_sector_def Let_def in_map_def util_fpread_def file_sector_def sector_index_def map_entry_def
        status_at_def split: option.splits)
  show ?thesis (is "_ \<longleftrightarrow> ?R")
  proof
    assume "holds im x blk"
    then have "fsimage_dxx_read_sector im (replicate 256 0) (fst x) (snd x) = Some (0, blk)" by (simp add: holds_def)
    then show ?R using r[of "replicate 256 0"] by (simp split: if_splits)
  next
    assume ?R
    then show "holds im x blk" using r by (simp add: holds_def)
  qed
qed

lemma file_put:
  assumes "gcr_tracks im = None" "fs_writable im" "in_map im x" "length buf = 256"
  obtains f where "fsimage_dxx_write_sector im buf (fst x) (snd x)
      = Some (0, im\<lparr>fs_file := f, error_map := map_option (\<lambda>m. m[sector_index im x := 1]) (error_map im)\<rparr>)"
    "sector_offset im (sector_index im x) + 256 \<le> length f" "length (fs_file im) \<le> length f"
    "take 256 (drop (sector_offset im (sector_index im x)) f) = buf"
    "\<And>c. c \<noteq> sector_index im x \<Longrightarrow> \<forall>m. error_map im = Some m \<longrightarrow> c < length m \<Longrightarrow> sector_offset im c + 256 \<le> length (fs_file im) \<Longrightarrow>
      take 256 (drop (sector_offset im c) f) = file_sector im c"
proof -
  let ?c = "sector_index im x"
  have "util_fpwrite (fs_writable im) (fs_file im) buf (sector_offset im ?c) \<noteq> None" using assms(2,4) by (auto simp: util_fpwrite_def)
  then obtain f where f: "util_fpwrite (fs_writable im) (fs_file im) buf (sector_offset im ?c) = Some f" by blast
  have len: "length (fs_file im) \<le> length f" "sector_offset im ?c + 256 \<le> length f" using fpwrite_length[OF f] assms(4) by simp_all
  have same: "take 256 (drop (sector_offset im ?c) f) = buf" using fpwrite_same[OF f] assms(4) by simp
  have other: "take 256 (drop (sector_offset im c) f) = file_sector im c" if "c \<noteq> ?c" "sector_offset im c + 256 \<le> length (fs_file im)" for c
  proof -
    have "sector_offset im c + 256 \<le> sector_offset im ?c \<or> sector_offset im ?c + 256 \<le> sector_offset im c"
      using that(1) by (simp add: sector_offset_def) linarith
    then show ?thesis using fpwrite_other[OF f that(2)] assms(4) by (simp add: file_sector_def)
  qed
  have w: "fsimage_dxx_write_sector im buf (fst x) (snd x) = map_option (Pair 0) (clear_error ?c (im\<lparr>fs_file := f\<rparr>))"
    using assms(1,3) f by (simp add: fsimage_dxx_write_sector_def in_map_def Let_def write_tracks_def sector_index_def)
  show thesis
  proof (cases "error_map im")
    case None
    then have "im\<lparr>fs_file := f, error_map := None\<rparr> = im\<lparr>fs_file := f\<rparr>" by (cases im) simp
    then show thesis using that[of f] w len same other None by (simp add: clear_error_def)
  next
    case (Some m)
    then have c: "?c < length m" using assms(3) by (simp add: in_map_def)
    show thesis
    proof (cases "uint (m ! ?c) = CBMDOS_FDC_ERR_OK")
      case True
      then have "m ! ?c = 1" by (simp add: fdc_defs uint_1_eq word_uint_eq_iff)
      then have "m[?c := 1] = m" using c by (metis list_update_id)
      then have "im\<lparr>fs_file := f, error_map := map_option (\<lambda>m. m[?c := 1]) (error_map im)\<rparr> = im\<lparr>fs_file := f\<rparr>" using Some by (cases im) simp
      then show thesis using that[of f] w len same other Some c True by (simp add: clear_error_def)
    next
      case False
      let ?off = "length m * 256 + ?c + (if i_type im = X64 then 64 else 0)"
      obtain g where g: "util_fpwrite True f [1] ?off = Some g" by (simp add: util_fpwrite_def)
      have keep: "take 256 (drop (sector_offset im c') g) = take 256 (drop (sector_offset im c') f)"
        if "c' < length m" "sector_offset im c' + 256 \<le> length f" for c'
        using fpwrite_other[OF g that(2)] that(1) by (auto simp: sector_offset_def)
      have "fsimage_dxx_write_sector im buf (fst x) (snd x)
          = Some (0, im\<lparr>fs_file := g, error_map := map_option (\<lambda>m. m[?c := 1]) (error_map im)\<rparr>)"
        using w Some c False g assms(2) by (simp add: clear_error_def fdc_defs)
      then show thesis using that[of g] len fpwrite_length[OF g] same other keep c Some by auto
    qed
  qed
qed

interpretation file_store: sector_store "\<lambda>im. gcr_tracks im = None \<and> fs_writable im" in_map
proof unfold_locales
  fix im :: fs_image and x and buf :: "byte list"
  assume g: "gcr_tracks im = None \<and> fs_writable im" and x: "in_map im x" and b: "length buf = 256"
  let ?c = "sector_index im x" and ?em = "map_option (\<lambda>m. m[sector_index im x := 1]) (error_map im)"
  obtain f where w: "fsimage_dxx_write_sector im buf (fst x) (snd x) = Some (0, im\<lparr>fs_file := f, error_map := ?em\<rparr>)"
    and f: "sector_offset im ?c + 256 \<le> length f" "length (fs_file im) \<le> length f" "take 256 (drop (sector_offset im ?c) f) = buf"
      "\<And>c. c \<noteq> ?c \<Longrightarrow> \<forall>m. error_map im = Some m \<longrightarrow> c < length m \<Longrightarrow> sector_offset im c + 256 \<le> length (fs_file im) \<Longrightarrow>
        take 256 (drop (sector_offset im c) f) = file_sector im c"
    using file_put[OF _ _ x b] g by blast
  define im' where "im' = im\<lparr>fs_file := f, error_map := ?em\<rparr>"
  have i: "i_type im' = i_type im" "gcr_tracks im' = None" "fs_writable im'" "error_map im' = ?em" "fs_file im' = f"
    using g by (simp_all add: im'_def)
  have n: "fsimage_check_sector im' = fsimage_check_sector im" "sector_offset im' = sector_offset im"
    by (intro geometry_cong(6), simp_all add: im'_def sector_offset_def fun_eq_iff)
  then have idx: "sector_index im' = sector_index im" by (simp add: sector_index_def fun_eq_iff)
  have r: "in_map im' = in_map im" by (simp add: fun_eq_iff in_map_def n idx i split: option.splits)
  have new: "holds im' x buf"
  proof -
    have "status_at im' ?c = CBMDOS_FDC_ERR_OK" using x by (simp add: status_at_def i in_map_def fdc_defs split: option.splits)
    moreover have "file_sector im' ?c = buf" using f(3) by (simp add: file_sector_def n i)
    ultimately show ?thesis using file_holds[OF i(2), of x buf] x f(1) unfolding r idx n i by (simp add: ipe_ok)
  qed
  have old: "holds im' y blk" if y: "in_map im y" "y \<noteq> x" "holds im y blk" for y blk
  proof -
    have "sector_index im y \<noteq> ?c"
      using bij_betw_imp_inj_on[OF img.check_bij[of im]] x y(1,2)
      by (cases x; cases y) (auto simp: sector_index_def inj_on_def in_map_def)
    moreover have "\<forall>m. error_map im = Some m \<longrightarrow> sector_index im y < length m" using y(1) by (auto simp: in_map_def)
    moreover have h: "sector_offset im (sector_index im y) + 256 \<le> length (fs_file im)" "file_sector im (sector_index im y) = blk"
      "ipe_of_fdc (status_at im (sector_index im y)) = 0"
      using file_holds[of im y blk] y(1,3) g by simp_all
    ultimately have "file_sector im' (sector_index im y) = blk" "status_at im' (sector_index im y) = status_at im (sector_index im y)"
      using f(4)[of "sector_index im y"] by (simp_all add: file_sector_def n i status_at_def split: option.splits)
    then show ?thesis using file_holds[OF i(2), of y blk] y(1) h f(2) unfolding r idx n i by simp
  qed
  show "\<exists>im'. fsimage_dxx_write_sector im buf (fst x) (snd x) = Some (0, im') \<and> (gcr_tracks im' = None \<and> fs_writable im') \<and> i_type im' = i_type im
      \<and> in_map im' = in_map im \<and> holds im' x buf \<and> (\<forall>y blk. in_map im y \<longrightarrow> y \<noteq> x \<longrightarrow> holds im y blk \<longrightarrow> holds im' y blk)"
    using w[folded im'_def] i r new old by blast
qed

text \<open>Both kinds together: an image that can be written, in step with the tracks of a drive or on none.\<close>

definition usable :: "fs_image \<Rightarrow> bool" where
  "usable im \<longleftrightarrow> fs_writable im \<and> (gcr_tracks im \<noteq> None \<longrightarrow> in_step im)"

definition reachable :: "fs_image \<Rightarrow> nat \<times> nat \<Rightarrow> bool" where
  "reachable im = (if gcr_tracks im = None then in_map im else on_tracks im)"

interpretation image_store: sector_store usable reachable
proof unfold_locales
  fix im :: fs_image and x and buf :: "byte list"
  assume u: "usable im" and x: "reachable im x" and b: "length buf = 256"
  show "\<exists>im'. fsimage_dxx_write_sector im buf (fst x) (snd x) = Some (0, im') \<and> usable im' \<and> i_type im' = i_type im \<and> reachable im' = reachable im
      \<and> holds im' x buf \<and> (\<forall>y blk. reachable im y \<longrightarrow> y \<noteq> x \<longrightarrow> holds im y blk \<longrightarrow> holds im' y blk)"
  proof (cases "gcr_tracks im = None")
    case True
    then have g: "gcr_tracks im = None \<and> fs_writable im" "in_map im x" "reachable im = in_map im"
      using u x by (simp_all add: usable_def reachable_def)
    show ?thesis using file_store.put[OF g(1,2) b] unfolding g(3) by (auto simp: usable_def reachable_def)
  next
    case False
    then have "reachable im = on_tracks im" unfolding reachable_def by (rule if_not_P)
    then have g: "in_step im \<and> fs_writable im" "on_tracks im x" "reachable im = on_tracks im"
      using u x False by (simp_all add: usable_def)
    have k: "usable im' \<and> reachable im' = on_tracks im'" if "in_step im' \<and> fs_writable im'" for im'
      using in_stepD(3)[of im'] that by (auto simp: usable_def reachable_def)
    show ?thesis using tracks_store.put[OF g(1,2) b] k unfolding g(3) by metis
  qed
qed

subsection \<open>Recognised images\<close>

lemma d64_blocks: "35 \<le> t \<Longrightarrow> sectors_below D64 (Suc (Suc t)) = sectors_below D64 (Suc t) + 17"
  by (simp add: disk_image_sector_per_track_def disk_image_speed_map_def sector_map_d64_def)

lemma d64_walk_found:
  "35 \<le> t \<Longrightarrow> t \<le> 42 \<Longrightarrow> b = sectors_below D64 (Suc t) \<Longrightarrow> d64_walk n t b = Some (t', b', e) \<Longrightarrow>
    t \<le> t' \<and> t' \<le> 42 \<and> b' = sectors_below D64 (Suc t') \<and> n = (if e then 257 * b' else 256 * b')"
proof (induction n t b rule: d64_walk.induct)
  case (1 n t b)
  show ?case
  proof (cases "n = b * 256 \<or> n = b * 256 + b \<or> t + 1 > 42")
    case True
    then show ?thesis using 1(2-5) by (subst (asm) d64_walk.simps) (auto split: if_splits)
  next
    case False
    then show ?thesis using 1(1) 1(2-5) d64_blocks[of t] by (subst (asm) (2) d64_walk.simps) (auto simp del: sectors_below_Suc)
  qed
qed

lemma d64_walk_complete:
  "35 \<le> t \<Longrightarrow> t \<le> 42 \<Longrightarrow> b = sectors_below D64 (Suc t) \<Longrightarrow> d64_walk n t b = None \<Longrightarrow>
    t \<le> t' \<Longrightarrow> t' \<le> 42 \<Longrightarrow> n \<noteq> 256 * sectors_below D64 (Suc t') \<and> n \<noteq> 257 * sectors_below D64 (Suc t')"
proof (induction n t b rule: d64_walk.induct)
  case (1 n t b)
  have n: "n \<noteq> b * 256" "n \<noteq> b * 256 + b" using 1(5) by (subst (asm) d64_walk.simps, simp split: if_splits)+
  show ?case
  proof (cases "t = t'")
    case True
    then show ?thesis using n 1(4) by (simp del: sectors_below_Suc)
  next
    case False
    then have "d64_walk n (t + 1) (b + 17) = None" using 1(5-7) n by (subst (asm) d64_walk.simps) simp
    then show ?thesis using 1(1) 1(2-7) n False d64_blocks[of t] by (simp del: sectors_below_Suc)
  qed
qed

lemma d64_35: "sectors_below D64 (Suc 35) = 683"
  using side_blocks(1) by (simp del: sectors_below_Suc)

lemma read_map_whole:
  "256 * n + n \<le> length (fs_file im) \<Longrightarrow> 0 < n \<Longrightarrow>
    read_map im n = (1, im\<lparr>error_map := Some (take n (drop (256 * n) (fs_file im)))\<rparr>)"
  by (simp add: read_map_def util_fpread_def Let_def)

definition recognised :: "fs_image \<Rightarrow> fs_image \<Rightarrow> bool" where
  "recognised im im' \<longleftrightarrow> error_map im = None
     \<and> (disk_image_check_for_d64 im = (1, im') \<or> disk_image_check_for_d71 im = (1, im'))"

lemma d64_recognised:
  assumes "disk_image_check_for_d64 im = (1, im')" "error_map im = None"
  shows "image_ok im'"
proof -
  obtain t b e where w: "d64_walk (length (fs_file im)) 35 683 = Some (t, b, e)"
    using assms(1) by (fastforce simp: disk_image_check_for_d64_def split: option.splits)
  have f: "35 \<le> t" "t \<le> 42" "b = sectors_below D64 (Suc t)" "length (fs_file im) = (if e then 257 * b else 256 * b)"
    using d64_walk_found[OF _ _ _ w] d64_35 by (simp_all del: sectors_below_Suc)
  let ?im = "im\<lparr>i_type := D64, i_tracks := t, i_max_half_tracks := 84\<rparr>"
  have bl: "blocks_of ?im = b" using f(3) by (simp add: blocks_of_def image_start_below del: sectors_below_Suc)
  have b: "0 < b" using f(1,3) by (simp add: disk_image_sector_per_track_def disk_image_speed_map_def sector_map_d64_def)
  show ?thesis
  proof (cases e)
    case True
    then have "im' = ?im\<lparr>error_map := Some (take b (drop (256 * b) (fs_file im)))\<rparr>"
      using assms(1) w f(4) b read_map_whole[of b ?im] by (simp add: disk_image_check_for_d64_def)
    then show ?thesis using True f bl by (simp add: image_ok_def sector_offset_def image_tracks_def)
  next
    case False
    then have "im' = ?im" using assms(1) w by (simp add: disk_image_check_for_d64_def)
    then show ?thesis using False f bl assms(2) by (simp add: image_ok_def sector_offset_def image_tracks_def)
  qed
qed

lemma d71_recognised:
  assumes "disk_image_check_for_d71 im = (1, im')" "error_map im = None"
  shows "image_ok im'"
proof -
  let ?im = "im\<lparr>i_type := D71, i_tracks := 70, i_max_half_tracks := 140\<rparr>"
  have bl: "blocks_of ?im = 1366" using far_side(1)[of 71] side_blocks(1) by (simp add: blocks_of_def image_start_below del: sectors_below_Suc)
  consider "length (fs_file im) = 351062" "im' = ?im\<lparr>error_map := Some (take 1366 (drop (256 * 1366) (fs_file im)))\<rparr>"
    | "length (fs_file im) = 349696" "im' = ?im"
    using assms(1) read_map_whole[of 1366 ?im] by (auto simp: disk_image_check_for_d71_def Let_def split: if_splits)
  then show ?thesis
    using bl assms(2) by cases (simp_all add: image_ok_def sector_offset_def image_tracks_def)
qed


subsection \<open>The D67 track that does not fit\<close>

lemma read_sectors_overflow:
  "ss \<noteq> [] \<Longrightarrow> \<forall>s\<in>set ss. 0 \<le> fsimage_check_sector im t s \<Longrightarrow> length b = 256 \<Longrightarrow>
    length raw < ptr + (354 + gap) * (length ss - 1) + 354 \<Longrightarrow> read_dxx_sectors im t gap h ss ptr (b, raw) = None"
proof (induction ss arbitrary: b h ptr raw)
  case (Cons s ss)
  obtain okf b' where rd: "util_fpread (fs_file im) b 256 (sector_offset im (nat (fsimage_check_sector im t s))) = (okf, b')" by fastforce
  have b': "length b' = 256" using rd Cons.prems(3) by (auto simp: util_fpread_def Let_def)
  have "read_dxx_sectors im t gap (h\<lparr>h_sector := of_nat s\<rparr>) ss (ptr + 340 + 9 + gap + 5) (b', raw') = None"
    if c: "gcr_convert_sector_to_GCR b' raw ptr (h\<lparr>h_sector := of_nat s\<rparr>) 9 5 rf = Some raw'" for raw' rf
  proof -
    note l = convert_length[OF c b']
    have ne: "ss \<noteq> []" using Cons.prems l by auto
    then have "length raw' < (ptr + 340 + 9 + gap + 5) + (354 + gap) * (length ss - 1) + 354"
      using Cons.prems l by (cases ss) auto
    then show ?thesis using Cons.IH[OF ne _ b'] Cons.prems(2) by simp
  qed
  then show ?case using rd Cons.prems(2) by (auto simp: Let_def split: Option.bind_splits)
qed simp

lemma length_fpread: "snd (util_fpread f b n off) = b' \<Longrightarrow> n \<le> length b \<Longrightarrow> length b' = length b"
  by (auto simp: util_fpread_def Let_def)

lemma read_sectors_buffer:
  "read_dxx_sectors im t gap h ss ptr (b, raw) = Some (b', raw') \<Longrightarrow> length b = 256 \<Longrightarrow> length b' = 256"
proof (induction ss arbitrary: b h ptr raw)
  case (Cons s ss)
  obtain okf b1 where rd: "util_fpread (fs_file im) b 256 (sector_offset im (nat (fsimage_check_sector im t s))) = (okf, b1)" by fastforce
  then have "length b1 = 256" using Cons.prems(2) length_fpread[of "fs_file im" b 256 _ b1] by (metis order_refl snd_conv)
  then show ?case using Cons.prems rd Cons.IH
    by (cases "0 \<le> fsimage_check_sector im t s") (auto simp: Let_def bind_eq_Some_conv simp del: split_paired_All)
qed simp

lemma read_track_buffer:
  assumes "read_dxx_track im ds t (h, b, tr) = Some (h', b', tr')" "length b = 256"
  shows "length b' = 256"
proof (cases "t \<le> i_tracks im")
  case True
  obtain h1 b1 where hb: "(if ds \<and> t = 36 then (let b = read_id im 53 162 b in (h\<lparr>h_id1 := b ! 162, h_id2 := b ! 163, h_track := 1\<rparr>, b)) else (h, b)) = (h1, b1)"
    by fastforce
  then have "length b1 = 256" using assms(2) by (auto simp: Let_def split: if_splits)
  then show ?thesis using assms(1) hb True by (auto simp: read_dxx_track_def Let_def dest: read_sectors_buffer split: if_splits)
next
  case False
  then show ?thesis using assms by (auto simp: read_dxx_track_def Let_def split: if_splits)
qed

lemma read_tracks_fail:
  assumes "\<And>h b tr. length b = 256 \<Longrightarrow> read_dxx_track im ds t (h, b, tr) = None"
  shows "t \<in> set ts \<Longrightarrow> length b = 256 \<Longrightarrow> read_dxx_tracks im ds ts (h, b, tr) = None"
proof (induction ts arbitrary: h b tr)
  case (Cons u ts)
  show ?case
  proof (cases "read_dxx_track im ds u (h, b, tr)")
    case (Some st)
    obtain h' b' tr' where st: "st = (h', b', tr')" by (cases st)
    then have "u \<noteq> t" "length b' = 256" using assms[OF Cons.prems(2), of h tr] Some read_track_buffer[of im ds u h b tr h' b' tr'] Cons.prems(2) by auto
    then show ?thesis using Cons Some st by auto
  qed simp
qed simp

lemma d67_track_18:
  assumes "i_type im = D67" "i_tracks im = 35" "length b = 256"
  shows "read_dxx_track im False 18 (h, b, tr) = None"
proof -
  have z: "disk_image_speed_map D67 18 = 2" by (rule d67_zone) simp_all
  have "0 \<le> fsimage_check_sector im 18 s" if "s < 20" for s
    using that z assms(1) by (simp add: img.check_nonneg image_tracks_def image_per_track_def disk_image_sector_per_track_def sector_map_d67_def)
  then have "read_dxx_sectors im 18 17 h [0..<20] 0 (b, replicate 7142 0x55) = None" for h
    using assms(3) by (intro read_sectors_overflow) (simp_all add: upt_rec)
  then show ?thesis
    using assms z by (simp add: read_dxx_track_def Let_def zone_tables)
qed

subsection \<open>Growing an image\<close>

lemma fpwrite_past: "length f \<le> off \<Longrightarrow> bs \<noteq> [] \<Longrightarrow> util_fpwrite True f bs off = Some (f @ replicate (off - length f) 0 @ bs)"
  by (simp add: util_fpwrite_def)

lemma fpwrite_through:
  "off \<le> length f \<Longrightarrow> length f \<le> off + length bs \<Longrightarrow> bs \<noteq> [] \<Longrightarrow> util_fpwrite True f bs off = Some (take off f @ bs)"
  by (simp add: util_fpwrite_def)

definition example_image :: fs_image where
  "example_image = \<lparr>i_type = D64, i_tracks = 35, i_max_half_tracks = 84, fs_file = replicate 174848 0, fs_writable = True,
     error_map = None, error_dirty = False, gcr_tracks = Some (replicate 168 None)\<rparr>"

lemma example_image_recognised: "recognised example_image example_image"
  by (subst recognised_def) (simp add: example_image_def disk_image_check_for_d64_def d64_walk.simps)

lemma example_image_facts:
  "gcr_tracks example_image = Some (replicate 168 None)" "errors_shown example_image" "i_tracks example_image = 35"
  "fs_writable example_image" "\<not> error_dirty example_image" "i_type example_image = D64" "error_map example_image = None"
  by (simp_all add: example_image_def errors_shown_def)

lemma recognised_ok: "recognised im im' \<Longrightarrow> image_ok im'"
  using d64_recognised d71_recognised by (auto simp: recognised_def)

lemma example_filled: "recognised (example_image\<lparr>fs_file := replicate 174848 b\<rparr>) (example_image\<lparr>fs_file := replicate 174848 b\<rparr>)"
  by (subst recognised_def) (simp add: example_image_def disk_image_check_for_d64_def d64_walk.simps)

lemma example_check: "fsimage_check_sector example_image 18 1 = 358"
  by (simp add: fsimage_check_sector_def example_image_def zoned_sector_def sectors_below_def upt_rec disk_image_sector_per_track_def
      disk_image_speed_map_def sector_map_d64_def)

lemma example_geometry: "image_start example_image 18 = 357" "blocks_of example_image = 683"
proof -
  have "fsimage_check_sector example_image 18 0 = 357"
    by (simp add: fsimage_check_sector_def example_image_def zoned_sector_def sectors_below_def upt_rec disk_image_sector_per_track_def
        disk_image_speed_map_def sector_map_d64_def)
  then show "image_start example_image 18 = 357"
    using check_on_disk(3)[OF recognised_ok[OF example_image_recognised], of 18 0] by (simp add: example_image_facts)
  show "blocks_of example_image = 683"
    using d64_35 by (simp add: blocks_of_def example_image_facts image_start_below del: sectors_below_Suc)
qed

definition example_marked :: fs_image where
  "example_marked = example_image\<lparr>error_map := Some ((replicate 683 1)[358 := 9])\<rparr>"

lemma example_marked_facts: "image_ok example_marked" "errors_shown example_marked"
proof -
  show "image_ok example_marked"
    using recognised_ok[OF example_image_recognised] example_geometry(2) by (simp add: example_marked_def image_ok_def)
  have "set ((replicate 683 1)[358 := 9]) \<subseteq> {9, 1 :: byte}" by (rule order_trans[OF set_update_subset_insert]) simp
  then show "errors_shown example_marked" by (auto simp: example_marked_def errors_shown_def)
qed

subsection \<open>The properties\<close>

text \<open>
  C25: An image without an error map that the tests for D64 and for D71 accept is well formed afterwards: the type is one of the two, the file holds every
  sector of its tracks, the error map that was read with it has one entry for each of them, and the tracks fit into those of the
  drive. (X64 is recognised by its header alone, with no test of the length; nothing is claimed of it.)
\<close>

theorem recognised_image_ok:
  assumes "error_map im = None" "disk_image_check_for_d64 im = (1, im') \<or> disk_image_check_for_d71 im = (1, im')"
  shows "image_ok im'"
  using assms d64_recognised d71_recognised by blast

theorem recognised_image_ok_witness: "image_ok example_image"
  using recognised_image_ok[of example_image example_image] example_image_recognised by (simp add: recognised_def)

text \<open>
  C10: An image of 1541 or 1571 sectors (D64, X64, D71) whose file and error map are complete, put into an emulated drive, reads
  as the file does: every sector of every track of the image, found again by its header under the sync marks and decoded, has the
  bytes that reading the file directly gives. The status is the same for a good sector, a missing data block and a
  bad checksum of the data. Any other code of the error map, the bad checksum of a header (27) and the wrong id (29) for
  instance, is reported from the file but reads as good from the track, since the search looks at no header checksum and at
  no id. Maps with the codes 2 and 3, a spoilt header and a missing sync mark, are left out.
\<close>

theorem image_on_tracks_reads_as_file:
  assumes "image_ok im" "errors_shown im" "gcr_tracks im = Some tr" "length tr = 168" "length buf0 = 256"
  shows "\<exists>im'. fsimage_read_dxx_image im buf0 = Some (0, im')
    \<and> (\<forall>t\<le>i_tracks im. \<forall>s buf. length buf = 256 \<longrightarrow>
        (if fsimage_check_sector im t s < 0
         then fsimage_dxx_read_sector im' buf t s = Some (-1, buf) \<and> fsimage_dxx_read_sector (im\<lparr>gcr_tracks := None\<rparr>) buf t s = Some (-1, buf)
         else (\<exists>d. fsimage_dxx_read_sector im' buf t s = Some (ipe_of_fdc (read_status (status_at im (nat (fsimage_check_sector im t s)))), d)
           \<and> fsimage_dxx_read_sector (im\<lparr>gcr_tracks := None\<rparr>) buf t s = Some (ipe_of_fdc (status_at im (nat (fsimage_check_sector im t s))), d))))"
  using attached_reads[OF assms] .

text \<open>The same for an image with the header checksum error (code 9) of sector 18/1 in its map.\<close>

theorem image_on_tracks_reads_as_file_witness:
  "\<exists>im' d. fsimage_read_dxx_image example_marked (replicate 256 0) = Some (0, im')
    \<and> fsimage_dxx_read_sector im' (replicate 256 1) 18 1 = Some (0, d)
    \<and> fsimage_dxx_read_sector (example_marked\<lparr>gcr_tracks := None\<rparr>) (replicate 256 1) 18 1 = Some (27, d)"
proof -
  have st: "status_at example_marked 358 = 9" by (simp add: example_marked_def status_at_def)
  have r: "ipe_of_fdc (read_status 9) = 0" "ipe_of_fdc 9 = 27" by (simp_all add: ipe_of_fdc_def read_status_def fdc_more)
  have c: "fsimage_check_sector example_marked 18 1 = 358"
    using example_check by (simp add: example_marked_def fsimage_check_sector_def)
  have t: "gcr_tracks example_marked = Some (replicate 168 None)" "i_tracks example_marked = 35" by (simp_all add: example_marked_def example_image_def)
  obtain im' where im': "fsimage_read_dxx_image example_marked (replicate 256 0) = Some (0, im')"
    and all: "\<And>t s buf. t \<le> 35 \<Longrightarrow> length buf = 256 \<Longrightarrow> \<not> fsimage_check_sector example_marked t s < 0 \<Longrightarrow>
       (\<exists>d. fsimage_dxx_read_sector im' buf t s = Some (ipe_of_fdc (read_status (status_at example_marked (nat (fsimage_check_sector example_marked t s)))), d)
           \<and> fsimage_dxx_read_sector (example_marked\<lparr>gcr_tracks := None\<rparr>) buf t s = Some (ipe_of_fdc (status_at example_marked (nat (fsimage_check_sector example_marked t s))), d))"
    using image_on_tracks_reads_as_file[OF example_marked_facts t(1), of "replicate 256 0"] unfolding t(2) by (metis length_replicate)
  from all[of 18 "replicate 256 1" 1] show ?thesis using im' unfolding c by (auto simp: st r)
qed

text \<open>
  C4: Writing a sector of one of the tracks of an image that is on the tracks of an emulated drive, and whose file can be written,
  keeps the file and the tracks in step, and changes that sector alone: it reads back with the new bytes and no error, every other
  sector as before. (\<open>fsimage_check_sector\<close> also accepts the tracks behind the end of the image, up to 42 of a D64;
  what a write does there is \<open>write_behind_end\<close>.)
\<close>

theorem write_keeps_in_step:
  assumes "in_step im" "t \<le> i_tracks im" "0 \<le> fsimage_check_sector im t s" "length buf = 256" "fs_writable im"
  shows "\<exists>im'. fsimage_dxx_write_sector im buf t s = Some (0, im') \<and> in_step im'
    \<and> (\<forall>u\<le>i_tracks im. \<forall>r b. length b = 256 \<longrightarrow>
        fsimage_dxx_read_sector im' b u r = (if u = t \<and> r = s then Some (0, buf) else fsimage_dxx_read_sector im b u r))"
proof -
  obtain im' where w: "fsimage_dxx_write_sector im buf t s = Some (0, im')" "in_step im'"
    "sector_written im (nat (fsimage_check_sector im t s)) buf im'"
    using write_in_step[OF assms] by blast
  note ok = in_stepD(1)[OF assms(1)]
  have i: "i_tracks im' = i_tracks im" "fsimage_check_sector im' = fsimage_check_sector im"
    using w(3) geometry_cong(6)[of im' im] by (simp_all add: sector_written_def)
  have "fsimage_dxx_read_sector im' b u r = (if u = t \<and> r = s then Some (0, buf) else fsimage_dxx_read_sector im b u r)"
    if u: "u \<le> i_tracks im" "length b = 256" for u r b
  proof (cases "fsimage_check_sector im u r < 0")
    case True
    then show ?thesis using step_read[OF w(2), of u b r] step_read[OF assms(1) u, of r] u i assms(3) by auto
  next
    case False
    then have c: "nat (fsimage_check_sector im u r) < blocks_of im" using check_on_disk[OF ok u(1), of r] by simp
    let ?x = "nat (fsimage_check_sector im u r)"
    have e: "?x = nat (fsimage_check_sector im t s) \<longleftrightarrow> u = t \<and> r = s"
      using sector_index_inj[OF ok assms(2,3) u(1)] False by simp
    have f: "file_sector im' ?x = (if u = t \<and> r = s then buf else file_sector im ?x)"
      "status_at im' ?x = (if u = t \<and> r = s then CBMDOS_FDC_ERR_OK else status_at im ?x)"
      using w(3) c unfolding sector_written_def e[symmetric] by blast+
    have "fsimage_dxx_read_sector im' b u r = Some (ipe_of_fdc (read_status (status_at im' ?x)), file_sector im' ?x)"
      using step_read[OF w(2), of u b r] u i False by simp
    moreover have "fsimage_dxx_read_sector im b u r = Some (ipe_of_fdc (read_status (status_at im ?x)), file_sector im ?x)"
      using step_read[OF assms(1) u, of r] False by simp
    moreover have "Some (ipe_of_fdc (read_status (status_at im' ?x)), file_sector im' ?x)
        = (if u = t \<and> r = s then Some (0, buf) else Some (ipe_of_fdc (read_status (status_at im ?x)), file_sector im ?x))"
      unfolding f by (simp add: ipe_ok)
    ultimately show ?thesis by (simp only:)
  qed
  then show ?thesis using w(1,2) by blast
qed

theorem write_keeps_in_step_witness:
  "\<exists>im im'. fsimage_dxx_write_sector im (replicate 256 7) 18 1 = Some (0, im') \<and> fsimage_dxx_read_sector im' (replicate 256 1) 18 1 = Some (0, replicate 256 7)"
proof -
  obtain im tr' where im: "in_step im" "im = example_image\<lparr>gcr_tracks := Some tr'\<rparr>"
    using attach_in_step[OF recognised_ok[OF example_image_recognised] example_image_facts(2,1), of "replicate 256 0"] by auto
  then show ?thesis using write_keeps_in_step[OF im(1), of 18 1 "replicate 256 7"] example_check example_image_facts by force
qed

text \<open>
  Sector 0 of the track behind the end of a 35-track image, unformatted as attaching leaves it: the file grows by the block and the
  write succeeds, but the track stays blank; and if the image has an error map, the entry that is cleared lies behind it.
\<close>

lemma blank_write: "0 < n \<Longrightarrow> gcr_write_sector (replicate n 0x55) buf s = Some (Some (3, replicate n 0x55))"
proof -
  assume n: "0 < n"
  have "gcr_find_sync (replicate n 0x55) (int 0) (n * 8) = Some (- CBMDOS_FDC_ERR_SYNC)"
    using gcr_find_sync_scan[of 0 "replicate n 0x55" "n * 8"] quiet_circle[OF quiet_55, of 0 n "n * 8"] n by simp
  then have "gcr_find_sector_header (replicate n 0x55) s = Some (Some (- CBMDOS_FDC_ERR_SYNC))"
    by (subst gcr_find_sector_header_def, subst find_header_loop.simps) (simp add: fdc_defs)
  then show ?thesis by (simp add: gcr_write_sector_def find_data_block_def fdc_defs)
qed

lemma check_36: "i_type im = D64 \<Longrightarrow> fsimage_check_sector im 36 0 = 683"
  using side_blocks(1) by (simp add: fsimage_check_sector_def zoned_sector_def disk_image_sector_per_track_def disk_image_speed_map_def sector_map_d64_def)

lemma write_behind_end:
  assumes "i_type im = D64" "fs_writable im" "length buf = 256" "length (fs_file im) = 683 * 256"
    "gcr_tracks im = Some tr" "length tr = 168" "tr ! 70 = Some (replicate n 0x55)" "0 < n"
  shows "error_map im = None \<Longrightarrow> fsimage_dxx_write_sector im buf 36 0 = Some (0, im\<lparr>fs_file := fs_file im @ buf\<rparr>)"
    and "error_map im = Some m \<Longrightarrow> length m = 683 \<Longrightarrow> fsimage_dxx_write_sector im buf 36 0 = None"
proof -
  have o: "sector_offset im 683 = length (fs_file im)" using assms(1,4) by (simp add: sector_offset_def)
  have f: "util_fpwrite (fs_writable im) (fs_file im) buf (sector_offset im 683) = Some (fs_file im @ buf)"
    unfolding o using assms(2,3) by (auto simp: util_fpwrite_def)
  have "tr[70 := Some (replicate n 0x55)] = tr" using assms(7) by (metis list_update_id)
  then have w: "write_tracks buf 36 0 (im\<lparr>fs_file := fs_file im @ buf\<rparr>) = Some (im\<lparr>fs_file := fs_file im @ buf\<rparr>)"
    using assms(5-8) blank_write[of n buf 0] by (simp add: write_tracks_def track_data_def)
  show "error_map im = None \<Longrightarrow> fsimage_dxx_write_sector im buf 36 0 = Some (0, im\<lparr>fs_file := fs_file im @ buf\<rparr>)"
    using check_36[OF assms(1)] f w by (simp add: fsimage_dxx_write_sector_def Let_def clear_error_def)
  show "error_map im = Some m \<Longrightarrow> length m = 683 \<Longrightarrow> fsimage_dxx_write_sector im buf 36 0 = None"
    using check_36[OF assms(1)] f w by (simp add: fsimage_dxx_write_sector_def Let_def clear_error_def)
qed

text \<open>
  C24: Writing a track of an emulated drive back stores in the file what the drive reads on it: for a track of a complete D64, X64 or D71 whose file can be
  written, with every sector readable (if perhaps with an error), each of its sectors has in the file the data and in the error map the status that
  \<open>gcr_read_sector\<close> gives, every other sector and entry is as before, and the image stays complete. When that is what the
  file held already, and the map needed no writing, nothing changes at all. An image without an error map is covered as long
  as every sector of the track reads without error; otherwise a map is made.
\<close>

theorem write_back_stores_track:
  assumes "image_ok im" "1 \<le> t" "t \<le> i_tracks im" "fs_writable im"
    "\<forall>s<disk_image_sector_per_track (i_type im) t. gcr_read_sector raw (replicate 256 0) (of_nat s) = Some (Some (rf s, d s)) \<and> length (d s) = 256"
    "error_map im = None \<longrightarrow> (\<forall>s<disk_image_sector_per_track (i_type im) t. rf s = CBMDOS_FDC_ERR_OK)"
  shows "\<exists>im'. fsimage_dxx_write_half_track im (2 * t) raw = Some (0, im') \<and> image_ok im'
    \<and> (\<forall>c<blocks_of im. let k = c - image_start im t
         in if image_start im t \<le> c \<and> k < disk_image_sector_per_track (i_type im) t
            then file_sector im' c = d k \<and> status_at im' c = uint (word_of_int (rf k) :: byte)
            else file_sector im' c = file_sector im c \<and> status_at im' c = status_at im c)
    \<and> (\<not> error_dirty im \<and> (\<forall>s<disk_image_sector_per_track (i_type im) t. d s = file_sector im (image_start im t + s) \<and> rf s = status_at im (image_start im t + s))
        \<longrightarrow> im' = im)"
proof -
  obtain im' where im': "fsimage_dxx_write_half_track im (2 * t) raw = Some (0, im')" "image_ok im'" "track_stored im t rf d im'"
    using write_back_stores[OF assms] by blast
  have "im' = im" if "\<not> error_dirty im"
    "\<forall>s<disk_image_sector_per_track (i_type im) t. d s = file_sector im (image_start im t + s) \<and> rf s = status_at im (image_start im t + s)"
    using write_back_same[OF assms(1-4) that(1), of raw] that(2) assms(5) im'(1) by simp
  then show ?thesis using im' unfolding track_stored_def by blast
qed

text \<open>Track 18 of a disk full of 7s, put back into an image of zeros.\<close>

theorem write_back_stores_track_witness:
  "\<exists>raw im'. fsimage_dxx_write_half_track example_image 36 raw = Some (0, im')
    \<and> file_sector im' 358 = replicate 256 7 \<and> file_sector im' 356 = replicate 256 0"
proof -
  note ok = recognised_ok[OF example_filled]
  let ?im = "example_image\<lparr>fs_file := replicate 174848 7\<rparr>"
  obtain im tr where im: "in_step im" "im = ?im\<lparr>gcr_tracks := Some tr\<rparr>"
    using attach_in_step[OF ok[of 7], of "replicate 168 None" "replicate 256 0"] example_image_facts by (auto simp: errors_shown_def)
  have t: "1 \<le> (18::nat)" "18 \<le> i_tracks im" "18 \<le> i_tracks example_image" by (simp_all add: im(2) example_image_facts)
  obtain raw where raw: "on_surface im 18 raw" using in_step_track[OF im(1) _ t(1,2), of tr] im(2) by auto
  have n: "disk_image_sector_per_track D64 18 = 19" by (simp add: disk_image_sector_per_track_def disk_image_speed_map_def sector_map_d64_def)
  have g: "image_start im 18 = 357" "blocks_of im = 683" "error_map im = None" "i_type im = D64"
    using example_geometry by (simp_all add: im(2) example_image_facts)
  have f: "file_sector im c = replicate 256 7" if "c < 683" for c
    using that by (simp add: im(2) file_sector_def sector_offset_def example_image_facts min_def)
  have f0: "file_sector example_image 356 = replicate 256 0" by (simp add: file_sector_def sector_offset_def example_image_def min_def)
  have rd: "gcr_read_sector raw (replicate 256 0) (of_nat s) = Some (Some (CBMDOS_FDC_ERR_OK, replicate 256 7))" if "s < 19" for s
    using surface_read[OF in_stepD(1)[OF im(1)] t(1,2) raw, of s "replicate 256 0"] that n g f[of "357 + s"] by (simp add: status_at_def)
  have ty: "i_type example_image = D64" "error_map example_image = None" by (simp_all add: example_image_facts)
  have h: "\<forall>s<disk_image_sector_per_track (i_type example_image) 18. gcr_read_sector raw (replicate 256 0) (of_nat s)
      = Some (Some ((\<lambda>_. CBMDOS_FDC_ERR_OK) s, (\<lambda>_. replicate 256 7) s)) \<and> length ((\<lambda>_. replicate 256 (7::byte)) s) = 256"
    using rd n ty by simp
  have "error_map example_image = None \<longrightarrow> (\<forall>s<disk_image_sector_per_track (i_type example_image) 18. (\<lambda>_. CBMDOS_FDC_ERR_OK) s = CBMDOS_FDC_ERR_OK)"
    by simp
  from write_back_stores_track[OF recognised_ok[OF example_image_recognised] t(1,3) example_image_facts(4) h this]
  obtain im' where w: "fsimage_dxx_write_half_track example_image (2 * 18) raw = Some (0, im')"
    and st: "\<forall>c<blocks_of example_image. let k = c - image_start example_image 18
         in if image_start example_image 18 \<le> c \<and> k < disk_image_sector_per_track (i_type example_image) 18
            then file_sector im' c = replicate 256 7 \<and> status_at im' c = uint (word_of_int CBMDOS_FDC_ERR_OK :: byte)
            else file_sector im' c = file_sector example_image c \<and> status_at im' c = status_at example_image c"
    by blast
  have "file_sector im' 358 = replicate 256 7" "file_sector im' 356 = file_sector example_image 356"
    using st[rule_format, of 358] st[rule_format, of 356] example_geometry n ty by (simp_all add: Let_def)
  then show ?thesis using w f0 by (intro exI[of _ raw] exI[of _ im']) simp
qed

text \<open>
  A recognised D67 image cannot be put on tracks: tracks 18 to 24 have 20 sectors and the size of a
  track of 19, and the last sector is written behind the end of the buffer.
\<close>

theorem d67_overruns_track:
  assumes "disk_image_check_for_d67 im = (1, im')" "length buf = 256"
  shows "fsimage_read_dxx_image im' buf = None"
proof -
  have t: "i_type im' = D67" "i_tracks im' = 35" "i_max_half_tracks im' = 70"
    using assms(1) by (auto simp: disk_image_check_for_d67_def Let_def split: if_splits)
  have "read_dxx_tracks im' False [1..<36] (h, b, tr) = None" if "length b = 256" for h b tr
    using that d67_track_18[OF t(1,2)] by (intro read_tracks_fail[of im' False 18]) simp_all
  then show ?thesis using assms(2) t by (simp add: fsimage_read_dxx_image_def Let_def split: option.split del: upt_Suc)
qed

theorem d67_overruns_track_witness:
  "fsimage_read_dxx_image (example_image\<lparr>i_type := D67, i_tracks := 35, i_max_half_tracks := 70, fs_file := replicate 176640 0\<rparr>) (replicate 256 0) = None"
  by (rule d67_overruns_track[of "example_image\<lparr>fs_file := replicate 176640 0\<rparr>"]) (simp_all add: disk_image_check_for_d67_def)

text \<open>
  C37: Growing a D64 of 35 tracks with error information by its 36th track loses that information in the file. The 17 blocks of the track go
  to where the file had its error map, right behind the 683 old blocks, and the map moves to behind the 700
  blocks; but only the 17 entries of the new track are written there, and those of the 683 old sectors are zeros. The
  map in memory still has the old entries, so the file and the memory differ from then on.
\<close>

theorem growing_loses_error_map:
  assumes "i_type im = D64" "i_tracks im = 35" "error_map im = Some m" "length m = 683" "length (fs_file im) = 257 * 683" "fs_writable im"
    "\<forall>s<17. gcr_read_sector raw (replicate 256 0) (of_nat s) = Some (Some (rf s, d s)) \<and> length (d s) = 256"
  shows "\<exists>im' m'. fsimage_dxx_write_half_track im 72 raw = Some (0, im') \<and> i_tracks im' = 36
    \<and> fs_file im' = take (256 * 683) (fs_file im) @ concat (map d [0..<17]) @ replicate 683 0 @ drop 683 m'
    \<and> error_map im' = Some m' \<and> take 683 m' = m \<and> drop 683 m' = map (\<lambda>s. word_of_int (rf s)) [0..<17]"
proof -
  have n: "disk_image_sector_per_track D64 36 = 17" by (simp add: disk_image_sector_per_track_def disk_image_speed_map_def sector_map_d64_def)
  note c = check_36[OF assms(1)]
  let ?im1 = "im\<lparr>i_tracks := 36, error_map := Some (m @ replicate 17 0), error_dirty := True\<rparr>"
    and ?bs = "concat (map d [0..<17])" and ?m = "noted 683 rf [0..<17] (m @ replicate 17 0)"
  have e: "extend_image im 36 700 = Some ?im1" using assms(2-4) by (simp add: extend_image_def)
  have inm: "\<forall>s\<in>set [0..<17]. 683 + s < length (m @ replicate 17 0)" using assms(4) by simp
  have col: "collect_sectors raw 683 [0..<17] (False, ?im1) = Some (?bs, False, ?im1\<lparr>error_map := Some ?m, error_dirty := True\<rparr>)"
    using collect_map[of "[0..<17]" raw rf d ?im1 "m @ replicate 17 0" 683 False] assms(4,7) inm by auto
  have lb: "length ?bs = 4352" using concat_length[of 17 d] assms(7) by simp
  then have ne: "?bs \<noteq> []" by (metis list.size(3) zero_neq_numeral)
  have lm: "length ?m = 700" using assms(4) by simp
  have m: "?m ! i = (if 683 \<le> i then word_of_int (rf (i - 683)) else m ! i)" if "i < 700" for i
    using nth_noted[OF distinct_upt inm, of i rf] that assms(4) by (auto simp: nth_append)
  have "take 683 ?m = m" using lm m assms(4) by (intro nth_equalityI) simp_all
  moreover have new: "drop 683 ?m = map (\<lambda>s. word_of_int (rf s)) [0..<17]" using lm m by (intro nth_equalityI) simp_all
  moreover let ?f = "(take (683 * 256) (fs_file im) @ ?bs) @ replicate 683 0 @ take 17 (drop 683 ?m)"
  have f1: "util_fpwrite True (fs_file im) ?bs (683 * 256) = Some (take (683 * 256) (fs_file im) @ ?bs)"
    using assms(5) lb ne by (intro fpwrite_through) simp_all
  have l1: "length (take (683 * 256) (fs_file im) @ ?bs) = 179200" using assms(5) lb by simp
  have f2: "util_fpwrite True (take (683 * 256) (fs_file im) @ ?bs) (take 17 (drop 683 ?m)) (700 * 256 + 683) = Some ?f"
    using fpwrite_past[of "take (683 * 256) (fs_file im) @ ?bs" "700 * 256 + 683" "take 17 (drop 683 ?m)"] l1 lm by (simp add: new)
  have "fsimage_dxx_write_half_track im 72 raw = Some (0, im\<lparr>i_tracks := 36, error_map := Some ?m, error_dirty := False, fs_file := ?f\<rparr>)"
    using assms(1,6) n c e col f1 f2 lm by (simp add: fsimage_dxx_write_half_track_def Let_def sector_offset_def write_map_def)
  moreover have "take 17 (drop 683 ?m) = drop 683 ?m" using lm by simp
  ultimately show ?thesis
    by (intro exI[of _ "im\<lparr>i_tracks := 36, error_map := Some ?m, error_dirty := False, fs_file := ?f\<rparr>"] exI[of _ ?m]) simp
qed

lemma concat_filled: "concat (replicate m (replicate n x)) = replicate (m * n) x"
  by (induction m) (simp_all add: replicate_add)

lemma read_no_track: "gcr_read_sector [] d s = Some (Some (3, d))"
  by (subst gcr_read_sector_def, simp add: find_data_block_def gcr_find_sector_header_def,
      subst find_header_loop.simps, simp add: gcr_find_sync_def fdc_defs)

text \<open>An image with good blocks of 1s, and a track 36 that the drive erased.\<close>

theorem growing_loses_error_map_witness:
  "\<exists>im'. fsimage_dxx_write_half_track (example_image\<lparr>fs_file := replicate 175531 1, error_map := Some (replicate 683 1)\<rparr>) 72 [] = Some (0, im')
    \<and> take 683 (drop (256 * 683) (fs_file im')) = replicate 683 0 \<and> take 683 (drop (256 * 700) (fs_file im')) = replicate 683 0"
proof -
  let ?im = "example_image\<lparr>fs_file := replicate 175531 1, error_map := Some (replicate 683 1)\<rparr>"
  obtain im' m' where r: "fsimage_dxx_write_half_track ?im 72 [] = Some (0, im')"
    "fs_file im' = take (256 * 683) (fs_file ?im) @ concat (map (\<lambda>_. replicate 256 0) [0..<17]) @ replicate 683 0 @ drop 683 m'"
    using growing_loses_error_map[of ?im "replicate 683 1" "[]" "\<lambda>_. 3" "\<lambda>_. replicate 256 0"] by (auto simp: example_image_facts read_no_track)
  have "concat (map (\<lambda>_. replicate 256 0) [0..<17]) = (replicate 4352 0 :: byte list)"
      by (simp add: map_replicate_const concat_filled)
  then show ?thesis using r by (intro exI[of _ im']) (simp add: take_append drop_append min_def)
qed

end
