(* ===== verification/Vdrive_Bam.thy ===== *)
theory Vdrive_Bam
  imports Fsimage_dxx
begin

text \<open>
  The block availability map of the virtual drive, \<open>vdrive-bam.c\<close>: where the entry of a track is, taking and
  freeing sectors, the search for a free sector, the marking of the chain of a file, and the map's way from
  the image and back. \<open>None\<close> is a null pointer or an access outside the map.
\<close>

subsection \<open>The code\<close>

datatype image_format = F1541 | F1571 | F1581 | F8050 | F8250 | F2040 | F4000

text \<open>The numbers of \<open>vdrive.h\<close>.\<close>

definition format_number :: "image_format \<Rightarrow> nat" where
  "format_number f = (case f of F1541 \<Rightarrow> 0 | F1571 \<Rightarrow> 1 | F1581 \<Rightarrow> 2 | F8050 \<Rightarrow> 3 | F8250 \<Rightarrow> 4 | F2040 \<Rightarrow> 5 | F4000 \<Rightarrow> 6)"

record vdrive_t =
  image_format :: image_format
  num_tracks :: nat
  Bam_Track :: nat
  Bam_Sector :: nat
  Dir_Track :: nat
  Dir_Sector :: nat
  bam_name :: nat
  bam_id :: nat
  bam_size :: nat
  bam :: "byte list"
  vd_image :: fs_image

definition vdrive_get_max_sectors :: "vdrive_t \<Rightarrow> nat \<Rightarrow> nat" where
  "vdrive_get_max_sectors vd track =
     (case image_format vd of
        F1541 \<Rightarrow> disk_image_sector_per_track D64 track
      | F2040 \<Rightarrow> disk_image_sector_per_track D67 track
      | F1571 \<Rightarrow> disk_image_sector_per_track D71 track
      | F8050 \<Rightarrow> disk_image_sector_per_track D80 track
      | F1581 \<Rightarrow> 40
      | F8250 \<Rightarrow> if track \<le> 77 then disk_image_sector_per_track D80 track else disk_image_sector_per_track D80 (track - 77)
      | F4000 \<Rightarrow> 256)"

definition vdrive_set_disk_geometry :: "vdrive_t \<Rightarrow> vdrive_t" where
  "vdrive_set_disk_geometry vd =
     (case image_format vd of
        F1581 \<Rightarrow> vd\<lparr>Bam_Track := 40, Bam_Sector := 0, bam_name := 4, bam_id := 22, Dir_Track := 40, Dir_Sector := 3\<rparr>
      | F8050 \<Rightarrow> vd\<lparr>Bam_Track := 39, Bam_Sector := 0, bam_name := 6, bam_id := 24, Dir_Track := 39, Dir_Sector := 1\<rparr>
      | F8250 \<Rightarrow> vd\<lparr>Bam_Track := 39, Bam_Sector := 0, bam_name := 6, bam_id := 24, Dir_Track := 39, Dir_Sector := 1\<rparr>
      | F4000 \<Rightarrow> vd\<lparr>Bam_Track := 1, Bam_Sector := 1, bam_name := 4, bam_id := 22, Dir_Track := 1, Dir_Sector := 34\<rparr>
      | _ \<Rightarrow> vd\<lparr>Bam_Track := 18, Bam_Sector := 0, bam_name := 144, bam_id := 162, Dir_Track := 18, Dir_Sector := 1\<rparr>)"

definition vdrive_calculate_disk_half :: "vdrive_t \<Rightarrow> nat" where
  "vdrive_calculate_disk_half vd =
     (case image_format vd of F1541 \<Rightarrow> 17 + 5 | F2040 \<Rightarrow> 17 + 5 | F1571 \<Rightarrow> 17 + 35 | F1581 \<Rightarrow> 40 | F8050 \<Rightarrow> 39 | F8250 \<Rightarrow> 39
      | F4000 \<Rightarrow> num_tracks vd - 1)"

definition vdrive_bam_get_interleave :: "image_format \<Rightarrow> nat" where
  "vdrive_bam_get_interleave f =
     (case f of F1541 \<Rightarrow> 10 | F2040 \<Rightarrow> 10 | F1571 \<Rightarrow> 6 | F1581 \<Rightarrow> 1 | F8050 \<Rightarrow> 6 | F8250 \<Rightarrow> 7 | F4000 \<Rightarrow> 1)"

text \<open>The loop over the bitmap blocks of the 8050 and 8250, each with the tracks it holds in bytes 4 and 5.\<close>

definition find_bam_block :: "byte list \<Rightarrow> nat \<Rightarrow> nat list \<Rightarrow> nat option" where
  "find_bam_block b track is =
     map_option (\<lambda>i. i * 0x100 + 6 + 5 * (track - unat (b ! (i * 0x100 + 4))))
       (find (\<lambda>i. unat (b ! (i * 0x100 + 4)) \<le> track \<and> track < unat (b ! (i * 0x100 + 5))) is)"

text \<open>The entry as its offset in the map.\<close>

definition vdrive_bam_get_track_entry :: "vdrive_t \<Rightarrow> nat \<Rightarrow> nat option" where
  "vdrive_bam_get_track_entry vd track =
     (if track = 0 then None
      else
        (case image_format vd of
           F1541 \<Rightarrow> Some (if track \<le> 35 then 4 + 4 * (track - 1) else 192 + 4 * (track - 35 - 1))
         | F2040 \<Rightarrow> Some (if track \<le> 35 then 4 + 4 * (track - 1) else 192 + 4 * (track - 35 - 1))
         | F1571 \<Rightarrow> Some (if track \<le> 35 then 4 + 4 * (track - 1) else 0x100 + 3 * (track - 35 - 1) - 1)
         | F1581 \<Rightarrow> Some (if track \<le> 40 then 0x100 + 16 + 6 * (track - 1) else 0x200 + 16 + 6 * (track - 40 - 1))
         | F8050 \<Rightarrow> find_bam_block (bam vd) track [1, 2]
         | F8250 \<Rightarrow> find_bam_block (bam vd) track [1, 2, 3, 4]
         | F4000 \<Rightarrow> Some (0x100 + 32 + 32 * (track - 1) - 1)))"

definition poke_bam :: "nat \<Rightarrow> (byte \<Rightarrow> byte) \<Rightarrow> vdrive_t \<Rightarrow> vdrive_t option" where
  "poke_bam i f vd = (if i < length (bam vd) then Some (vd\<lparr>bam := (bam vd)[i := f (bam vd ! i)]\<rparr>) else None)"

definition vdrive_bam_set :: "nat \<Rightarrow> nat \<Rightarrow> vdrive_t \<Rightarrow> vdrive_t option" where
  "vdrive_bam_set bamp sector = poke_bam (bamp + 1 + sector div 8) (\<lambda>b. b OR push_bit (sector mod 8) 1)"

definition vdrive_bam_clr :: "nat \<Rightarrow> nat \<Rightarrow> vdrive_t \<Rightarrow> vdrive_t option" where
  "vdrive_bam_clr bamp sector = poke_bam (bamp + 1 + sector div 8) (\<lambda>b. b AND NOT (push_bit (sector mod 8) 1))"

definition vdrive_bam_isset :: "byte list \<Rightarrow> nat \<Rightarrow> nat \<Rightarrow> bool option" where
  "vdrive_bam_isset b bamp sector =
     (let i = bamp + 1 + sector div 8 in if i < length b then Some (b ! i AND push_bit (sector mod 8) 1 \<noteq> 0) else None)"

definition vdrive_bam_sector_free :: "nat \<Rightarrow> nat \<Rightarrow> byte \<Rightarrow> vdrive_t \<Rightarrow> vdrive_t option" where
  "vdrive_bam_sector_free bamp track add vd =
     (case image_format vd of
        F1571 \<Rightarrow> if track \<le> 35 then poke_bam bamp (\<lambda>b. b + add) vd else poke_bam (221 + track - 35 - 1) (\<lambda>b. b + add) vd
      | F4000 \<Rightarrow> Some vd
      | _ \<Rightarrow> poke_bam bamp (\<lambda>b. b + add) vd)"

definition bam_sector :: "vdrive_t \<Rightarrow> nat \<Rightarrow> nat" where
  "bam_sector vd sector = (if image_format vd = F4000 then sector XOR 7 else sector)"

definition vdrive_bam_allocate_sector :: "vdrive_t \<Rightarrow> nat \<Rightarrow> nat \<Rightarrow> (bool \<times> vdrive_t) option" where
  "vdrive_bam_allocate_sector vd track sector =
     (let s = bam_sector vd sector in
      Option.bind (vdrive_bam_get_track_entry vd track) (\<lambda>bamp.
      Option.bind (vdrive_bam_isset (bam vd) bamp s) (\<lambda>isset.
        if isset then map_option (Pair True) (Option.bind (vdrive_bam_sector_free bamp track (-1) vd) (vdrive_bam_clr bamp s))
        else Some (False, vd))))"

definition vdrive_bam_free_sector :: "vdrive_t \<Rightarrow> nat \<Rightarrow> nat \<Rightarrow> (bool \<times> vdrive_t) option" where
  "vdrive_bam_free_sector vd track sector =
     (let s = bam_sector vd sector in
      Option.bind (vdrive_bam_get_track_entry vd track) (\<lambda>bamp.
      Option.bind (vdrive_bam_isset (bam vd) bamp s) (\<lambda>isset.
        if \<not> isset then map_option (Pair True) (Option.bind (vdrive_bam_set bamp s vd) (vdrive_bam_sector_free bamp track 1))
        else Some (False, vd))))"

subsection \<open>The search for a free sector\<close>

text \<open>The inner loops try the sectors of a track in turn, the outer ones the tracks.\<close>

fun try_sectors :: "vdrive_t \<Rightarrow> nat \<Rightarrow> nat list \<Rightarrow> ((nat \<times> nat) option \<times> vdrive_t) option" where
  "try_sectors vd t [] = Some (None, vd)"
| "try_sectors vd t (s # ss) =
     Option.bind (vdrive_bam_allocate_sector vd t s) (\<lambda>(ok, vd'). if ok then Some (Some (t, s), vd') else try_sectors vd' t ss)"

fun try_tracks :: "vdrive_t \<Rightarrow> (nat \<times> nat list) list \<Rightarrow> ((nat \<times> nat) option \<times> vdrive_t) option" where
  "try_tracks vd [] = Some (None, vd)"
| "try_tracks vd ((t, ss) # r) =
     Option.bind (try_sectors vd t ss) (\<lambda>(found, vd'). if found \<noteq> None then Some (found, vd') else try_tracks vd' r)"

definition all_sectors :: "vdrive_t \<Rightarrow> nat \<Rightarrow> nat \<times> nat list" where
  "all_sectors vd t = (t, [0..<vdrive_get_max_sectors vd t])"

definition first_free_order :: "vdrive_t \<Rightarrow> (nat \<times> nat list) list" where
  "first_free_order vd =
     concat (map (\<lambda>d.
       (if d > 0 \<and> Bam_Track vd > d then [all_sectors vd (Bam_Track vd - d)] else [])
       @ (let t = Bam_Track vd + d; max_sector = vdrive_get_max_sectors vd t
          in if t \<le> num_tracks vd
             then [(t, if d > 0 then [0..<max_sector] else if image_format vd = F4000 then [64..<max_sector] else [])] else []))
       [0..<Suc (vdrive_calculate_disk_half vd)])"

definition vdrive_bam_alloc_first_free_sector :: "vdrive_t \<Rightarrow> ((nat \<times> nat) option \<times> vdrive_t) option" where
  "vdrive_bam_alloc_first_free_sector vd = try_tracks vd (first_free_order vd)"

definition vdrive_bam_alloc_down :: "nat \<Rightarrow> vdrive_t \<Rightarrow> ((nat \<times> nat) option \<times> vdrive_t) option" where
  "vdrive_bam_alloc_down track vd = try_tracks vd (map (all_sectors vd) (rev [1..<Suc track]))"

definition vdrive_bam_alloc_up :: "nat \<Rightarrow> vdrive_t \<Rightarrow> ((nat \<times> nat) option \<times> vdrive_t) option" where
  "vdrive_bam_alloc_up track vd = try_tracks vd (map (all_sectors vd) [track..<Suc (num_tracks vd)])"

text \<open>The order on the same track; on the first track of a 4000 the sectors below 64 are left out.\<close>

primrec same_track_order :: "bool \<Rightarrow> nat \<Rightarrow> nat \<Rightarrow> nat \<Rightarrow> nat list" where
  "same_track_order low max_sector s 0 = []"
| "same_track_order low max_sector s (Suc i) =
     (let s' = (if low \<and> s < 64 then 64 else s)
      in s' # same_track_order low max_sector (if s' + 1 \<ge> max_sector then 0 else s' + 1) i)"

text \<open>An attempt that finds nothing goes on with the next.\<close>

definition or_else :: "((nat \<times> nat) option \<times> vdrive_t) option \<Rightarrow> (vdrive_t \<Rightarrow> ((nat \<times> nat) option \<times> vdrive_t) option)
    \<Rightarrow> ((nat \<times> nat) option \<times> vdrive_t) option" where
  "or_else a f = Option.bind a (\<lambda>(found, vd). if found \<noteq> None then Some (found, vd) else f vd)"

definition vdrive_bam_alloc_next_free_sector :: "vdrive_t \<Rightarrow> nat \<Rightarrow> nat \<Rightarrow> ((nat \<times> nat) option \<times> vdrive_t) option" where
  "vdrive_bam_alloc_next_free_sector vd track sector =
     (if track = Bam_Track vd \<and> (image_format vd \<noteq> F4000 \<or> sector < 64) then Some (None, vd)
      else
        (let first = (image_format vd = F4000 \<and> track = Bam_Track vd);
             max_sector = vdrive_get_max_sectors vd track;
             s0 = sector + vdrive_bam_get_interleave (image_format vd);
             s = (if s0 \<ge> max_sector then (if s0 - max_sector \<noteq> 0 then s0 - max_sector - 1 else s0 - max_sector) else s0);
             t = (if first then track + 1 else track)
         in or_else (try_sectors vd track (same_track_order first max_sector s max_sector)) (\<lambda>vd.
              if t < Dir_Track vd
              then or_else (vdrive_bam_alloc_down t vd) (\<lambda>vd.
                   or_else (vdrive_bam_alloc_down (Dir_Track vd - 1) vd)
                     (vdrive_bam_alloc_up (Dir_Track vd + 1)))
              else or_else (vdrive_bam_alloc_up t vd) (\<lambda>vd.
                   or_else (vdrive_bam_alloc_up (Dir_Track vd + 1) vd)
                     (vdrive_bam_alloc_down (Dir_Track vd - 1))))))"


subsection \<open>Sectors of the image\<close>

text \<open>
  \<open>fsimage_read_sector\<close> and \<open>fsimage_write_sector\<close> for the formats that hold sectors; the formats that hold
  raw tracks are not modelled and read as \<open>None\<close>.
\<close>

definition holds_sectors :: "image_type \<Rightarrow> bool" where
  "holds_sectors f \<longleftrightarrow> f \<in> {D64, D67, D71, D81, D80, D82, X64, D1M, D2M, D4M}"

definition vdrive_read_sector :: "vdrive_t \<Rightarrow> byte list \<Rightarrow> nat \<Rightarrow> nat \<Rightarrow> (int \<times> byte list) option" where
  "vdrive_read_sector vd buf track sector =
     (if holds_sectors (i_type (vd_image vd)) then fsimage_dxx_read_sector (vd_image vd) buf track sector else None)"

definition vdrive_write_sector :: "vdrive_t \<Rightarrow> byte list \<Rightarrow> nat \<Rightarrow> nat \<Rightarrow> (int \<times> vdrive_t) option" where
  "vdrive_write_sector vd buf track sector =
     (if holds_sectors (i_type (vd_image vd))
      then map_option (\<lambda>(rc, im). (if rc < 0 then -1 else 0, vd\<lparr>vd_image := im\<rparr>)) (fsimage_dxx_write_sector (vd_image vd) buf track sector)
      else None)"

text \<open>
  Marking the sectors of a chain. The outer \<open>None\<close> is a loop that does not end; the inner one an access
  outside the map.
\<close>

partial_function (option) vdrive_bam_allocate_chain :: "vdrive_t \<Rightarrow> nat \<Rightarrow> nat \<Rightarrow> (int \<times> vdrive_t) option option" where
  "vdrive_bam_allocate_chain vd t s =
     (if t = 0 then Some (Some (0, vd))
      else if fsimage_check_sector (vd_image vd) t s < 0 then Some (Some (66, vd))
      else
        (case vdrive_bam_allocate_sector vd t s of
           None \<Rightarrow> Some None
         | Some (ok, vd') \<Rightarrow>
             if \<not> ok then Some (Some (65, vd'))
             else
               (case vdrive_read_sector vd' (replicate 256 0) t s of
                  None \<Rightarrow> Some None
                | Some (rc, tmp) \<Rightarrow>
                    if rc > 0 then Some (Some (rc, vd'))
                    else if rc < 0 then Some (Some (74, vd'))
                    else vdrive_bam_allocate_chain vd' (unat (tmp ! 0)) (unat (tmp ! 1)))))"

subsection \<open>The map and the image\<close>

text \<open>Reading and writing the blocks of the map: the offset in the map, the track and the sector.\<close>

definition bam_blocks :: "vdrive_t \<Rightarrow> (nat \<times> nat \<times> nat) list" where
  "bam_blocks vd =
     (case image_format vd of
        F1541 \<Rightarrow> [(0, 18, 0)]
      | F2040 \<Rightarrow> [(0, 18, 0)]
      | F1571 \<Rightarrow> [(0, 18, 0), (256, 18 + 35, 0)]
      | F1581 \<Rightarrow> [(0, 40, 0), (256, 40, 1), (512, 40, 2)]
      | F8050 \<Rightarrow> [(0, 39, 0), (256, 38, 0), (512, 38, 3)]
      | F8250 \<Rightarrow> [(0, 39, 0), (256, 38, 0), (512, 38, 3), (768, 38, 6), (1024, 38, 9)]
      | F4000 \<Rightarrow> map (\<lambda>i. (i * 256, 1, 1 + i)) [0..<33])"

fun read_blocks :: "vdrive_t \<Rightarrow> (nat \<times> nat \<times> nat) list \<Rightarrow> (int \<times> vdrive_t) option" where
  "read_blocks vd [] = Some (0, vd)"
| "read_blocks vd ((off, t, s) # r) =
     (if length (bam vd) < off + 256 then None
      else Option.bind (vdrive_read_sector vd (take 256 (drop off (bam vd))) t s) (\<lambda>(err, blk).
        let vd' = vd\<lparr>bam := take off (bam vd) @ blk @ drop (off + 256) (bam vd)\<rparr>
        in if err \<noteq> 0 then Some (err, vd') else read_blocks vd' r))"

definition vdrive_bam_read_bam :: "vdrive_t \<Rightarrow> (int \<times> vdrive_t) option" where
  "vdrive_bam_read_bam vd = map_option (\<lambda>(err, vd'). (if err < 0 then 74 else err, vd')) (read_blocks vd (bam_blocks vd))"

text \<open>
  Writing goes on after an error. The test for the 8050 compares the number of the format with 8050; the
  second block of a 1571 is written to a track that depends on the tracks of the image.
\<close>

definition bam_write_blocks :: "vdrive_t \<Rightarrow> (nat \<times> nat \<times> nat) list" where
  "bam_write_blocks vd =
     (case image_format vd of
        F1571 \<Rightarrow> [(0, 18, 0), (256, 18 + num_tracks vd div 2, 0)]
      | F8050 \<Rightarrow> [(0, 39, 0), (256, 38, 0), (512, 38, 3)]
          @ (if format_number (image_format vd) = 8050 then [] else [(768, 38, 6), (1024, 38, 9)])
      | F8250 \<Rightarrow> [(0, 39, 0), (256, 38, 0), (512, 38, 3)]
          @ (if format_number (image_format vd) = 8050 then [] else [(768, 38, 6), (1024, 38, 9)])
      | _ \<Rightarrow> bam_blocks vd)"

fun write_blocks :: "vdrive_t \<Rightarrow> (nat \<times> nat \<times> nat) list \<Rightarrow> (int \<times> vdrive_t) option" where
  "write_blocks vd [] = Some (0, vd)"
| "write_blocks vd ((off, t, s) # r) =
     (if length (bam vd) < off + 256 then None
      else Option.bind (vdrive_write_sector vd (take 256 (drop off (bam vd))) t s) (\<lambda>(err, vd').
        map_option (\<lambda>(err', vd''). (err OR err', vd'')) (write_blocks vd' r)))"

definition vdrive_bam_write_bam :: "vdrive_t \<Rightarrow> (int \<times> vdrive_t) option" where
  "vdrive_bam_write_bam vd = write_blocks vd (bam_write_blocks vd)"

text \<open>Attaching an image: the map is allocated without being initialised, and read.\<close>

definition vdrive_format :: "fs_image \<Rightarrow> vdrive_t \<Rightarrow> vdrive_t option" where
  "vdrive_format im vd =
     (case i_type im of
        D64 \<Rightarrow> Some (vd\<lparr>image_format := F1541, num_tracks := i_tracks im, bam_size := 0x100\<rparr>)
      | D67 \<Rightarrow> Some (vd\<lparr>image_format := F2040, num_tracks := i_tracks im, bam_size := 0x100\<rparr>)
      | D71 \<Rightarrow> Some (vd\<lparr>image_format := F1571, num_tracks := i_tracks im, bam_size := 0x200\<rparr>)
      | D81 \<Rightarrow> Some (vd\<lparr>image_format := F1581, num_tracks := i_tracks im, bam_size := 0x300\<rparr>)
      | D80 \<Rightarrow> Some (vd\<lparr>image_format := F8050, num_tracks := i_tracks im, bam_size := 0x500\<rparr>)
      | D82 \<Rightarrow> Some (vd\<lparr>image_format := F8250, num_tracks := i_tracks im, bam_size := 0x500\<rparr>)
      | G64 \<Rightarrow> Some (vd\<lparr>image_format := F1541, num_tracks := i_tracks im, bam_size := 0x100\<rparr>)
      | G71 \<Rightarrow> Some (vd\<lparr>image_format := F1571, num_tracks := i_tracks im, bam_size := 0x200\<rparr>)
      | P64 \<Rightarrow> Some (if i_tracks im > 42 then vd\<lparr>image_format := F1571, num_tracks := i_tracks im, bam_size := 0x200\<rparr>
             else vd\<lparr>image_format := F1541, num_tracks := i_tracks im, bam_size := 0x100\<rparr>)
      | X64 \<Rightarrow> Some (vd\<lparr>image_format := F1541, num_tracks := i_tracks im, bam_size := 0x100\<rparr>)
      | D1M \<Rightarrow> Some (vd\<lparr>image_format := F4000, num_tracks := i_tracks im - 1, bam_size := 0x2100\<rparr>)
      | D2M \<Rightarrow> Some (vd\<lparr>image_format := F4000, num_tracks := i_tracks im - 1, bam_size := 0x2100\<rparr>)
      | D4M \<Rightarrow> Some (vd\<lparr>image_format := F4000, num_tracks := i_tracks im - 1, bam_size := 0x2100\<rparr>)
      | OtherType \<Rightarrow> None)"

definition vdrive_attach_image :: "fs_image \<Rightarrow> byte list \<Rightarrow> vdrive_t \<Rightarrow> (int \<times> vdrive_t) option" where
  "vdrive_attach_image im fresh vd =
     (case vdrive_format im vd of None \<Rightarrow> Some (-1, vd)
      | Some vd1 \<Rightarrow>
          (let vd2 = (vdrive_set_disk_geometry vd1)\<lparr>vd_image := im, bam := take (bam_size vd1) fresh\<rparr>
           in map_option (\<lambda>(err, vd3). (if err \<noteq> 0 then -1 else 0, vd3)) (vdrive_bam_read_bam vd2)))"

subsection \<open>New maps and free blocks\<close>

definition bam_fill :: "nat \<Rightarrow> byte \<Rightarrow> nat \<Rightarrow> byte list \<Rightarrow> byte list option" where
  "bam_fill off b n m = put_at off (replicate n b) m"

definition bam_clear_ranges :: "vdrive_t \<Rightarrow> (nat \<times> byte \<times> nat) list" where
  "bam_clear_ranges vd =
     (case image_format vd of
        F1541 \<Rightarrow> [(192, 0, 4 * 5), (4, 0, 4 * 35)]
      | F2040 \<Rightarrow> [(4, 0, 4 * 35)]
      | F1571 \<Rightarrow> [(4, 0, 4 * 70 div 2), (221, 0, 70 div 2), (0x100, 0, 3 * 70 div 2)]
      | F1581 \<Rightarrow> [(0x100 + 16, 0, 6 * 80 div 2), (0x200 + 16, 0, 6 * 80 div 2)]
      | F8050 \<Rightarrow> [(0x100 + 6, 0, 0x100 - 6), (0x200 + 6, 0, 0x100 - 6)]
      | F8250 \<Rightarrow> [(0x100 + 6, 0, 0x100 - 6), (0x200 + 6, 0, 0x100 - 6), (0x300 + 6, 0, 0x100 - 6), (0x400 + 6, 0, 0x100 - 6)]
      | F4000 \<Rightarrow> [(0x100 + 32, 255, 255 * 32)])"

definition vdrive_bam_clear_all :: "vdrive_t \<Rightarrow> vdrive_t option" where
  "vdrive_bam_clear_all vd =
     map_option (\<lambda>m. vd\<lparr>bam := m\<rparr>)
       (fold (\<lambda>(off, b, n) m. Option.bind m (bam_fill off b n)) (bam_clear_ranges vd) (Some (bam vd)))"

text \<open>The bytes of the name up to a zero; the id is copied the same way.\<close>

definition mystrncpy :: "byte list \<Rightarrow> nat \<Rightarrow> byte list" where
  "mystrncpy s n = takeWhile (\<lambda>b. b \<noteq> 0) (take n s)"

definition bam_poke :: "(nat \<times> byte list) list \<Rightarrow> byte list \<Rightarrow> byte list option" where
  "bam_poke ws m = fold (\<lambda>(off, bs) m. Option.bind m (put_at off bs)) ws (Some m)"

definition bam_header :: "vdrive_t \<Rightarrow> byte list \<Rightarrow> byte list \<Rightarrow> (nat \<times> byte list) list" where
  "bam_header vd name disk_id =
     (if image_format vd \<noteq> F8050 \<and> image_format vd \<noteq> F8250
      then [(0, [of_nat (Dir_Track vd)]), (1, [of_nat (Dir_Sector vd)]), (2, [65])]
        @ (if image_format vd = F1571 then [(3, [0x80])] else [])
        @ [(bam_name vd, replicate (if image_format vd = F1581 \<or> image_format vd = F4000 then 25 else 27) 0xA0),
           (bam_name vd, mystrncpy name 16), (bam_id vd, mystrncpy disk_id 2)]
      else [])"

definition bam_format :: "vdrive_t \<Rightarrow> byte list \<Rightarrow> byte list \<Rightarrow> (nat \<times> byte list) list" where
  "bam_format vd name disk_id =
     (case image_format vd of
        F2040 \<Rightarrow> [(2, [0x01]), (0xA4, [0x20]), (0xA5, [0x20])]
      | F1541 \<Rightarrow> [(165, [50]), (166, [65])]
      | F1571 \<Rightarrow> [(165, [50]), (166, [65])]
      | F1581 \<Rightarrow>
          [(2, [68]), (0x100, [of_nat (Bam_Track vd), 2]), (0x200, [0, 0xFF]), (25, [51, 68]),
           (0x102, [68, 0xBB, disk_id ! 0, disk_id ! 1, 0xC0]), (0x202, [68, 0xBB, disk_id ! 0, disk_id ! 1, 0xC0])]
      | F4000 \<Rightarrow>
          [(2, [72]), (25, [49, 72]), (0x20, [of_nat (Bam_Track vd), of_nat (Bam_Sector vd)]),
           (0x102, [72, NOT 72, disk_id ! 0, disk_id ! 1, 0xC0]), (0x108, [of_nat (num_tracks vd)])]
      | f \<Rightarrow>
          [(0, [38, 0, 67]), (bam_name vd, replicate 27 0xA0), (bam_name vd, mystrncpy name 16), (bam_id vd, mystrncpy disk_id 2),
           (27, [50, 67]), (0x100, [38, 3, 67]), (0x104, [1, 51])]
          @ (if f = F8050 then [(0x200, [39, 1, 67]), (0x204, [51, 78])]
             else [(0x200, [38, 6, 67]), (0x204, [51, 101]), (0x300, [38, 9, 67]), (0x304, [101, 151]), (0x400, [39, 1, 67]), (0x404, [151, 155])]))"

definition vdrive_bam_create_empty_bam :: "vdrive_t \<Rightarrow> byte list \<Rightarrow> byte list \<Rightarrow> vdrive_t option" where
  "vdrive_bam_create_empty_bam vd name disk_id =
     map_option (\<lambda>m. vd\<lparr>bam := m\<rparr>)
       (Option.bind (bam_fill 0 0 (bam_size vd) (bam vd)) (bam_poke (bam_header vd name disk_id @ bam_format vd name disk_id)))"

definition bam_byte :: "vdrive_t \<Rightarrow> nat \<Rightarrow> nat option" where
  "bam_byte vd i = (if i < length (bam vd) then Some (unat (bam vd ! i)) else None)"

text \<open>The free sectors of one track, as the loop adds them up.\<close>

definition track_free :: "vdrive_t \<Rightarrow> nat \<Rightarrow> nat option" where
  "track_free vd i =
     (case image_format vd of
        F1571 \<Rightarrow> if i \<noteq> Dir_Track vd \<and> i \<noteq> Dir_Track vd + 35 then bam_byte vd (if i \<le> 35 then 4 + 4 * (i - 1) else 221 + i - 1 - 35) else Some 0
      | F1581 \<Rightarrow> if i \<noteq> Dir_Track vd then bam_byte vd (if i \<le> 40 then 16 + 256 + 6 * (i - 1) else 16 + 512 + 6 * (i - 1 - 40)) else Some 0
      | F8050 \<Rightarrow> if i \<noteq> Dir_Track vd then (case find_bam_block (bam vd) i [1, 2] of None \<Rightarrow> Some 0 | Some p \<Rightarrow> bam_byte vd p) else Some 0
      | F8250 \<Rightarrow> if i \<noteq> Dir_Track vd then (case find_bam_block (bam vd) i [1, 2, 3, 4] of None \<Rightarrow> Some 0 | Some p \<Rightarrow> bam_byte vd p) else Some 0
      | F4000 \<Rightarrow> if 0x100 + 32 + 32 * i \<le> length (bam vd)
          then Some (sum_list (map (\<lambda>j. unat (drop_bit (j mod 8) (bam vd ! (32 + 256 + 32 * (i - 1) + j div 8)) AND 1))
            [(if i = Bam_Track vd then 64 else 0)..<256])) else None
      | _ \<Rightarrow> if i \<noteq> Dir_Track vd then bam_byte vd (if i \<le> 35 then 4 + 4 * (i - 1) else 192 + 4 * (i - 35 - 1)) else Some 0)"

definition vdrive_bam_free_block_count :: "vdrive_t \<Rightarrow> nat option" where
  "vdrive_bam_free_block_count vd =
     fold (\<lambda>i blocks. Option.bind blocks (\<lambda>b. map_option (\<lambda>n. b + n) (track_free vd i))) [1..<Suc (num_tracks vd)] (Some 0)"


subsection \<open>Marking a chain ends\<close>

text \<open>The map read as a number, its last byte the most significant. Taking a sector makes it smaller.\<close>

primrec bam_value :: "byte list \<Rightarrow> nat" where
  "bam_value [] = 0"
| "bam_value (b # r) = unat b + 256 * bam_value r"

lemma bam_value_update: "i < length m \<Longrightarrow> bam_value (m[i := b]) + unat (m ! i) * 256 ^ i = bam_value m + unat b * 256 ^ i"
proof (induction m arbitrary: i)
  case (Cons a m)
  then show ?case by (cases i) (simp, force simp: algebra_simps)
qed simp

lemma bit_cleared_less: "(b::byte) AND m \<noteq> 0 \<Longrightarrow> unat (b AND NOT m) < unat b"
proof -
  assume m: "b AND m \<noteq> 0"
  have "b AND NOT m \<noteq> b"
  proof
    assume "b AND NOT m = b"
    then show False using flag_clear_test[of b m] m by simp
  qed
  then show ?thesis using word_and_le2[of b "NOT m"] by (simp add: word_less_nat_alt[symmetric])
qed

text \<open>A byte below is changed in any way, and one above gets smaller.\<close>

lemma bam_value_less:
  assumes "p < q" "q < length m" "unat b < unat (m ! q)"
  shows "bam_value (m[p := a, q := b]) < bam_value m"
proof -
  have q: "bam_value (m[p := a, q := b]) + unat (m ! q) * 256 ^ q = bam_value (m[p := a]) + unat b * 256 ^ q"
    using bam_value_update[of q "m[p := a]" b] assms(1,2) by simp
  have p: "bam_value (m[p := a]) \<le> bam_value m + unat a * 256 ^ p"
    using bam_value_update[of p m a] assms(1,2) by simp
  have "unat a * 256 ^ p < 256 * 256 ^ p" by simp
  also have "256 * (256::nat) ^ p = 256 ^ Suc p" by simp
  also have "\<dots> \<le> 256 ^ q" using assms(1) by (intro power_increasing) simp_all
  finally have a: "unat a * 256 ^ p < 256 ^ q" .
  have "Suc (unat b) * 256 ^ q \<le> unat (m ! q) * 256 ^ q" using assms(3) by (intro mult_right_mono) simp_all
  then show ?thesis using q p a by simp
qed

definition count_offset :: "vdrive_t \<Rightarrow> nat \<Rightarrow> nat \<Rightarrow> nat" where
  "count_offset vd bamp track = (if image_format vd = F1571 \<and> track > 35 then 221 + track - 35 - 1 else bamp)"

lemma count_offset_frame [simp]: "count_offset (vd\<lparr>bam := m\<rparr>) = count_offset vd"
  by (simp add: fun_eq_iff count_offset_def)

lemma sector_free_bam:
  "vdrive_bam_sector_free bamp track add vd =
    (if image_format vd = F4000 then Some vd else poke_bam (count_offset vd bamp track) (\<lambda>b. b + add) vd)"
  by (simp add: vdrive_bam_sector_free_def count_offset_def split: image_format.split)

lemma allocate_bam:
  assumes "vdrive_bam_allocate_sector vd t s = Some (True, vd')"
  obtains p q where "vdrive_bam_get_track_entry vd t = Some p" "q = p + 1 + bam_sector vd s div 8" "q < length (bam vd)"
    "bam vd ! q AND push_bit (bam_sector vd s mod 8) 1 \<noteq> 0"
    "bam vd' = (if image_format vd = F4000 then bam vd else (bam vd)[count_offset vd p t := bam vd ! count_offset vd p t - 1])
      [q := (if image_format vd = F4000 then bam vd else (bam vd)[count_offset vd p t := bam vd ! count_offset vd p t - 1]) ! q
         AND NOT (push_bit (bam_sector vd s mod 8) 1)]"
    "image_format vd' = image_format vd" "vd_image vd' = vd_image vd"
  using assms
  by (auto simp: vdrive_bam_allocate_sector_def Let_def bind_eq_Some_conv vdrive_bam_isset_def sector_free_bam poke_bam_def
      vdrive_bam_clr_def split: if_splits)

lemma entry_below_bitmap:
  "vdrive_bam_get_track_entry vd t = Some p \<Longrightarrow> count_offset vd p t < p + 1"
  by (auto simp: count_offset_def vdrive_bam_get_track_entry_def split: if_splits)

lemma allocate_decreases:
  assumes "vdrive_bam_allocate_sector vd t s = Some (True, vd')"
  shows "bam_value (bam vd') < bam_value (bam vd)"
proof -
  obtain p q where a: "vdrive_bam_get_track_entry vd t = Some p" "q = p + 1 + bam_sector vd s div 8" "q < length (bam vd)"
    "bam vd ! q AND push_bit (bam_sector vd s mod 8) 1 \<noteq> 0"
    "bam vd' = (if image_format vd = F4000 then bam vd else (bam vd)[count_offset vd p t := bam vd ! count_offset vd p t - 1])
      [q := (if image_format vd = F4000 then bam vd else (bam vd)[count_offset vd p t := bam vd ! count_offset vd p t - 1]) ! q
         AND NOT (push_bit (bam_sector vd s mod 8) 1)]"
    using allocate_bam[OF assms] by metis
  have less: "unat (bam vd ! q AND NOT (push_bit (bam_sector vd s mod 8) 1)) < unat (bam vd ! q)" by (rule bit_cleared_less[OF a(4)])
  have c: "count_offset vd p t < q" using entry_below_bitmap[OF a(1)] a(2) by simp
  show ?thesis
  proof (cases "image_format vd = F4000")
    case True
    then show ?thesis using a(5) bam_value_less[OF c a(3) less, of "bam vd ! count_offset vd p t"] by simp
  next
    case False
    then show ?thesis using a(5) c bam_value_less[OF c a(3) less] by simp
  qed
qed


lemma allocate_keeps:
  "vdrive_bam_allocate_sector vd t s = Some (ok, vd') \<Longrightarrow> \<not> ok \<Longrightarrow> vd' = vd"
  by (auto simp: vdrive_bam_allocate_sector_def Let_def bind_eq_Some_conv split: if_splits)

lemma chain_ends: "\<exists>r. vdrive_bam_allocate_chain vd t s = Some r"
proof (induction "bam_value (bam vd)" arbitrary: vd t s rule: less_induct)
  case less
  show ?case
  proof (cases "t = 0 \<or> fsimage_check_sector (vd_image vd) t s < 0")
    case True
    then show ?thesis by (subst vdrive_bam_allocate_chain.simps) auto
  next
    case False
    show ?thesis
    proof (cases "vdrive_bam_allocate_sector vd t s")
      case None
      then show ?thesis using False by (subst vdrive_bam_allocate_chain.simps) simp
    next
      case (Some a)
      obtain ok vd' where a: "a = (ok, vd')" by (cases a)
      have "\<exists>r. vdrive_bam_allocate_chain vd' u r' = Some r" if ok for u r'
        using less allocate_decreases[of vd t s vd'] Some a that by simp
      then show ?thesis using False Some a
        by (subst vdrive_bam_allocate_chain.simps) (auto split: option.split)
    qed
  qed
qed

subsection \<open>Layouts of the map\<close>

text \<open>
  The contract of a map: the bitmaps of the tracks lie one behind the other, no count is inside a bitmap,
  and both are inside the map and away from the bytes that say which tracks a block holds.
\<close>

locale bam_layout =
  fixes entry count :: "nat \<Rightarrow> nat" and width tracks len :: nat and fixed :: "nat set"
  assumes entries: "1 \<le> t \<Longrightarrow> t < u \<Longrightarrow> u \<le> tracks \<Longrightarrow> entry t + width \<le> entry u"
    and counts: "1 \<le> t \<Longrightarrow> t \<le> tracks \<Longrightarrow> 1 \<le> u \<Longrightarrow> u \<le> tracks \<Longrightarrow> count t \<le> entry u \<or> entry u + width < count t"
    and inside: "1 \<le> t \<Longrightarrow> t \<le> tracks \<Longrightarrow> entry t + width < len \<and> count t < len"
    and apart: "1 \<le> t \<Longrightarrow> t \<le> tracks \<Longrightarrow> count t \<notin> fixed \<and> (\<forall>k<width. entry t + 1 + k \<notin> fixed)"
begin

lemma bit_places:
  assumes "1 \<le> t" "t \<le> tracks" "1 \<le> u" "u \<le> tracks" "s < 8 * width" "r < 8 * width"
  shows "entry t + 1 + s div 8 = entry u + 1 + r div 8 \<and> s mod 8 = r mod 8 \<longleftrightarrow> t = u \<and> s = r"
proof -
  have w: "s div 8 < width" "r div 8 < width" using assms(5,6) by (simp_all add: less_mult_imp_div_less mult.commute)
  consider "t < u" | "u < t" | "t = u" by linarith
  then show ?thesis
  proof cases
    case 1
    then show ?thesis using entries[of t u] assms w by simp
  next
    case 2
    then show ?thesis using entries[of u t] assms w by simp
  next
    case 3
    then show ?thesis by (metis add_left_cancel mult_div_mod_eq)
  qed
qed

lemma count_place:
  assumes "1 \<le> t" "t \<le> tracks" "1 \<le> u" "u \<le> tracks" "r < 8 * width"
  shows "count t \<noteq> entry u + 1 + r div 8"
proof -
  have "r div 8 < width" using assms(5) by (simp add: less_mult_imp_div_less mult.commute)
  then show ?thesis using counts[OF assms(1-4)] by linarith
qed

lemma places_inside:
  assumes "1 \<le> t" "t \<le> tracks" "s < 8 * width"
  shows "entry t + 1 + s div 8 < len" "count t < len" "entry t + 1 + s div 8 \<notin> fixed" "count t \<notin> fixed"
proof -
  have "s div 8 < width" using assms(3) by (simp add: less_mult_imp_div_less mult.commute)
  then show "entry t + 1 + s div 8 < len" "entry t + 1 + s div 8 \<notin> fixed" using inside[OF assms(1,2)] apart[OF assms(1,2)] by simp_all
  show "count t < len" "count t \<notin> fixed" using inside[OF assms(1,2)] apart[OF assms(1,2)] by simp_all
qed

end

definition bam_tracks :: "image_format \<Rightarrow> nat" where
  "bam_tracks f = (case f of F1541 \<Rightarrow> 42 | F2040 \<Rightarrow> 42 | F1571 \<Rightarrow> 70 | F1581 \<Rightarrow> 80 | F8050 \<Rightarrow> 77 | F8250 \<Rightarrow> 154 | F4000 \<Rightarrow> 255)"

definition bam_bytes :: "image_format \<Rightarrow> nat" where
  "bam_bytes f = (case f of F1541 \<Rightarrow> 0x100 | F2040 \<Rightarrow> 0x100 | F1571 \<Rightarrow> 0x200 | F1581 \<Rightarrow> 0x300 | F8050 \<Rightarrow> 0x500 | F8250 \<Rightarrow> 0x500
     | F4000 \<Rightarrow> 0x2100)"

definition bam_width :: "image_format \<Rightarrow> nat" where
  "bam_width f = (case f of F1581 \<Rightarrow> 5 | F8050 \<Rightarrow> 4 | F8250 \<Rightarrow> 4 | F4000 \<Rightarrow> 32 | _ \<Rightarrow> 3)"

text \<open>The bytes that delimit the blocks of the large formats, as a new map has them.\<close>

definition bam_bounds :: "image_format \<Rightarrow> (nat \<times> byte) list" where
  "bam_bounds f =
     (case f of F8050 \<Rightarrow> [(260, 1), (261, 51), (516, 51), (517, 78)]
      | F8250 \<Rightarrow> [(260, 1), (261, 51), (516, 51), (517, 101), (772, 101), (773, 151), (1028, 151), (1029, 155)]
      | _ \<Rightarrow> [])"

definition bam_entry :: "image_format \<Rightarrow> nat \<Rightarrow> nat" where
  "bam_entry f t =
     (case f of
        F1571 \<Rightarrow> if t \<le> 35 then 4 * t else 255 + 3 * (t - 36)
      | F1581 \<Rightarrow> if t \<le> 40 then 266 + 6 * t else 528 + 6 * (t - 41)
      | F8050 \<Rightarrow> if t < 51 then 257 + 5 * t else 518 + 5 * (t - 51)
      | F8250 \<Rightarrow> if t < 51 then 257 + 5 * t else if t < 101 then 518 + 5 * (t - 51) else if t < 151 then 774 + 5 * (t - 101) else 1030 + 5 * (t - 151)
      | F4000 \<Rightarrow> 255 + 32 * t
      | _ \<Rightarrow> if t \<le> 35 then 4 * t else 192 + 4 * (t - 36))"

definition bam_count :: "image_format \<Rightarrow> nat \<Rightarrow> nat" where
  "bam_count f t = (case f of F1571 \<Rightarrow> if t \<le> 35 then 4 * t else 185 + t | F4000 \<Rightarrow> 0 | _ \<Rightarrow> bam_entry f t)"

interpretation layout: bam_layout "bam_entry f" "bam_count f" "bam_width f" "bam_tracks f" "bam_bytes f" "fst ` set (bam_bounds f)" for f
proof
  fix t u
  show "bam_entry f t + bam_width f \<le> bam_entry f u" if "1 \<le> t" "t < u" "u \<le> bam_tracks f"
    using that by (cases f; auto simp: bam_entry_def bam_width_def bam_tracks_def)
  show "bam_count f t \<le> bam_entry f u \<or> bam_entry f u + bam_width f < bam_count f t"
    if "1 \<le> t" "t \<le> bam_tracks f" "1 \<le> u" "u \<le> bam_tracks f"
    using that by (cases f; auto simp: bam_entry_def bam_width_def bam_tracks_def bam_count_def)
  show "bam_entry f t + bam_width f < bam_bytes f \<and> bam_count f t < bam_bytes f" if "1 \<le> t" "t \<le> bam_tracks f"
    using that by (cases f; auto simp: bam_entry_def bam_width_def bam_tracks_def bam_count_def bam_bytes_def)
  show "bam_count f t \<notin> fst ` set (bam_bounds f) \<and> (\<forall>k<bam_width f. bam_entry f t + 1 + k \<notin> fst ` set (bam_bounds f))"
    if "1 \<le> t" "t \<le> bam_tracks f"
    using that by (cases f; auto simp: bam_entry_def bam_width_def bam_tracks_def bam_count_def bam_bounds_def)
qed


subsection \<open>The set of free sectors\<close>

text \<open>A map as reading it from an image, or making a new one, leaves it.\<close>

definition bam_wf :: "vdrive_t \<Rightarrow> bool" where
  "bam_wf vd \<longleftrightarrow> length (bam vd) = bam_bytes (image_format vd) \<and> num_tracks vd \<le> bam_tracks (image_format vd)
     \<and> Dir_Track vd \<le> num_tracks vd \<and> vdrive_set_disk_geometry vd = vd \<and> (\<forall>(i, b)\<in>set (bam_bounds (image_format vd)). bam vd ! i = b)"

definition on_disk :: "vdrive_t \<Rightarrow> nat \<times> nat \<Rightarrow> bool" where
  "on_disk vd = (\<lambda>(t, s). 1 \<le> t \<and> t \<le> num_tracks vd \<and> s < vdrive_get_max_sectors vd t)"

definition bam_bit :: "vdrive_t \<Rightarrow> nat \<times> nat \<Rightarrow> bool" where
  "bam_bit vd = (\<lambda>(t, s). bit (bam vd ! (bam_entry (image_format vd) t + 1 + bam_sector vd s div 8)) (bam_sector vd s mod 8))"

definition free_sectors :: "vdrive_t \<Rightarrow> (nat \<times> nat) set" where
  "free_sectors vd = {x. on_disk vd x \<and> bam_bit vd x}"

lemma bam_wfD:
  assumes "bam_wf vd"
  shows "length (bam vd) = bam_bytes (image_format vd)" "num_tracks vd \<le> bam_tracks (image_format vd)"
    "vdrive_set_disk_geometry vd = vd" "Dir_Track vd \<le> num_tracks vd" "\<And>i b. (i, b) \<in> set (bam_bounds (image_format vd)) \<Longrightarrow> bam vd ! i = b"
  using assms by (auto simp: bam_wf_def)

lemma on_disk_track: "bam_wf vd \<Longrightarrow> on_disk vd (t, s) \<Longrightarrow> 1 \<le> t \<and> t \<le> bam_tracks (image_format vd)"
  using bam_wfD(2)[of vd] by (simp add: on_disk_def)

lemma track_entry:
  assumes "bam_wf vd" "1 \<le> t" "t \<le> bam_tracks (image_format vd)"
  shows "vdrive_bam_get_track_entry vd t = Some (bam_entry (image_format vd) t)"
proof (cases "image_format vd")
  case F8050
  have "bam vd ! 260 = 1" "bam vd ! 261 = 51" "bam vd ! 516 = 51" "bam vd ! 517 = 78"
    using bam_wfD(5)[OF assms(1)] by (simp_all add: F8050 bam_bounds_def)
  then show ?thesis using assms(2,3) by (auto simp: F8050 vdrive_bam_get_track_entry_def bam_entry_def bam_tracks_def find_bam_block_def)
next
  case F8250
  have "bam vd ! 260 = 1" "bam vd ! 261 = 51" "bam vd ! 516 = 51" "bam vd ! 517 = 101"
    "bam vd ! 772 = 101" "bam vd ! 773 = 151" "bam vd ! 1028 = 151" "bam vd ! 1029 = 155"
    using bam_wfD(5)[OF assms(1)] by (simp_all add: F8250 bam_bounds_def)
  then show ?thesis using assms(2,3) by (auto simp: F8250 vdrive_bam_get_track_entry_def bam_entry_def bam_tracks_def find_bam_block_def)
qed (use assms(2,3) in \<open>auto simp: vdrive_bam_get_track_entry_def bam_entry_def bam_tracks_def\<close>)

lemma zone_bound: "disk_image_sector_per_track D64 t \<le> 24" "disk_image_sector_per_track D67 t \<le> 24"
  "disk_image_sector_per_track D71 t \<le> 24" "disk_image_sector_per_track D80 t \<le> 32"
proof -
  show "disk_image_sector_per_track D64 t \<le> 24" using speed_zones[of D64 t] by (auto simp: zone_tables)
  show "disk_image_sector_per_track D67 t \<le> 24" using speed_zones[of D67 t] by (auto simp: zone_tables)
  show "disk_image_sector_per_track D71 t \<le> 24" using speed_zones[of D71 t] by (auto simp: zone_tables)
  show "disk_image_sector_per_track D80 t \<le> 32" using speed_zones[of D80 t] by (auto simp: zone_tables)
qed

lemma xor7: "s < 256 \<Longrightarrow> (s::nat) XOR 7 < 256" "(s XOR 7 = r XOR 7) = (s = (r::nat))"
proof -
  show "s < 256 \<Longrightarrow> s XOR 7 < 256"
    using take_bit_nat_eq_self_iff[of 8 "s XOR 7"] take_bit_nat_eq_self_iff[of 8 s] by (simp add: take_bit_xor)
  have "(x XOR 7) XOR 7 = x" for x :: nat by (simp add: xor.assoc)
  then show "(s XOR 7 = r XOR 7) = (s = r)" by metis
qed

lemma sector_in_bitmap: "s < vdrive_get_max_sectors vd t \<Longrightarrow> bam_sector vd s < 8 * bam_width (image_format vd)"
  using zone_bound[of t] zone_bound(4)[of "t - 77"] xor7(1)[of s]
  by (cases "image_format vd") (auto simp: vdrive_get_max_sectors_def bam_sector_def bam_width_def split: if_splits)

lemma bam_sector_inj: "bam_sector vd s = bam_sector vd r \<longleftrightarrow> s = r"
  by (simp add: bam_sector_def xor7(2))

lemma count_place_offset:
  "1 \<le> t \<Longrightarrow> image_format vd \<noteq> F4000 \<Longrightarrow> count_offset vd (bam_entry (image_format vd) t) t = bam_count (image_format vd) t"
  by (cases "image_format vd") (auto simp: count_offset_def bam_count_def bam_entry_def)

text \<open>What an operation on a sector does to the map: the bit is set or cleared, the count goes along.\<close>

definition bam_after :: "vdrive_t \<Rightarrow> nat \<times> nat \<Rightarrow> bool \<Rightarrow> vdrive_t \<Rightarrow> bool" where
  "bam_after vd x v vd' \<longleftrightarrow> (\<exists>m. vd' = vd\<lparr>bam := m\<rparr> \<and> length m = length (bam vd)
     \<and> (\<forall>y. on_disk vd y \<longrightarrow> bam_bit vd' y = (if y = x then v else bam_bit vd y))
     \<and> (\<forall>i\<in>fst ` set (bam_bounds (image_format vd)). m ! i = bam vd ! i)
     \<and> (image_format vd \<noteq> F4000 \<longrightarrow> (\<forall>t. 1 \<le> t \<and> t \<le> bam_tracks (image_format vd) \<longrightarrow>
          m ! bam_count (image_format vd) t = bam vd ! bam_count (image_format vd) t + (if t = fst x then (if v then 1 else -1) else 0))))"

lemma counts_distinct:
  "f \<noteq> F4000 \<Longrightarrow> 1 \<le> t \<Longrightarrow> t \<le> bam_tracks f \<Longrightarrow> 1 \<le> u \<Longrightarrow> u \<le> bam_tracks f \<Longrightarrow> bam_count f t = bam_count f u \<longleftrightarrow> t = u"
  by (cases f; auto simp: bam_count_def bam_entry_def bam_tracks_def split: if_splits)


text \<open>The map after changing the count and one bit.\<close>

lemma changed_map:
  assumes wf: "bam_wf vd" and x: "on_disk vd (t, s)"
    and q: "q = bam_entry (image_format vd) t + 1 + bam_sector vd s div 8"
    and g: "\<And>b l. l < 8 \<Longrightarrow> bit (g b :: byte) l \<longleftrightarrow> (if l = bam_sector vd s mod 8 then v else bit b l)"
    and m: "m = (if image_format vd = F4000 then bam vd
        else (bam vd)[bam_count (image_format vd) t := bam vd ! bam_count (image_format vd) t + (if v then 1 else -1)])"
  shows "bam_after vd (t, s) v (vd\<lparr>bam := m[q := g (m ! q)]\<rparr>)" "q < length (bam vd)"
    "bam_count (image_format vd) t < length (bam vd)" "bam_count (image_format vd) t \<noteq> q"
proof -
  let ?f = "image_format vd"
  have tr: "1 \<le> t" "t \<le> bam_tracks ?f" using on_disk_track[OF wf x] by simp_all
  have sec: "bam_sector vd s < 8 * bam_width ?f" using x sector_in_bitmap[of s vd t] by (simp add: on_disk_def)
  note len = bam_wfD(1)[OF wf]
  note pl = layout.places_inside[OF tr sec]
  show ql: "q < length (bam vd)" and cl: "bam_count ?f t < length (bam vd)" using pl len q by simp_all
  show cq: "bam_count ?f t \<noteq> q" using layout.count_place[OF tr tr sec] q by simp
  have mq: "m ! q = bam vd ! q" using cq by (simp add: m)
  have bits: "bam_bit (vd\<lparr>bam := m[q := g (m ! q)]\<rparr>) y = (if y = (t, s) then v else bam_bit vd y)" if y: "on_disk vd y" for y
  proof -
    obtain u r where yr: "y = (u, r)" by fastforce
    have ur: "1 \<le> u" "u \<le> bam_tracks ?f" "bam_sector vd r < 8 * bam_width ?f"
      using on_disk_track[OF wf] y sector_in_bitmap[of r vd u] by (simp_all add: yr on_disk_def)
    let ?j = "bam_entry ?f u + 1 + bam_sector vd r div 8" and ?l = "bam_sector vd r mod 8"
    have mj: "m ! ?j = bam vd ! ?j" using layout.count_place[OF tr ur] by (auto simp: m)
    have "length m = length (bam vd)" by (simp add: m)
    then have "?j < length m" using layout.places_inside(1)[OF ur] len by simp
    then have "bit (m[q := g (m ! q)] ! ?j) ?l = (if ?j = q \<and> ?l = bam_sector vd s mod 8 then v else bit (bam vd ! ?j) ?l)"
      using g[of ?l "m ! q"] mj mq by (cases "?j = q") simp_all
    moreover have "?j = q \<and> ?l = bam_sector vd s mod 8 \<longleftrightarrow> u = t \<and> r = s"
      unfolding q layout.bit_places[OF ur(1,2) tr ur(3) sec] bam_sector_inj by simp
    ultimately show ?thesis by (simp add: yr bam_bit_def bam_sector_def)
  qed
  have bnd: "m[q := g (m ! q)] ! i = bam vd ! i" if "i \<in> fst ` set (bam_bounds ?f)" for i
  proof -
    have "i \<noteq> q" "i \<noteq> bam_count ?f t" using that pl(3,4) q by metis+
    then show ?thesis by (simp add: m)
  qed
  have cnt: "m[q := g (m ! q)] ! bam_count ?f u = bam vd ! bam_count ?f u + (if u = t then (if v then 1 else -1) else 0)"
    if "?f \<noteq> F4000" "1 \<le> u" "u \<le> bam_tracks ?f" for u
    using counts_distinct[OF that(1) tr that(2,3)] layout.count_place[OF that(2,3) tr sec] that(1) cl q
    by (auto simp: m nth_list_update)
  have "length (m[q := g (m ! q)]) = length (bam vd)" by (simp add: m)
  with bits bnd cnt show "bam_after vd (t, s) v (vd\<lparr>bam := m[q := g (m ! q)]\<rparr>)"
    unfolding bam_after_def by (intro exI[of _ "m[q := g (m ! q)]"]) auto
qed

lemma byte_test: "(b::byte) AND 2 ^ k = 0 \<longleftrightarrow> \<not> bit b k"
  by (simp add: bit_iff_and_push_bit_not_eq_0 push_bit_of_1)

lemma allocate_wf:
  assumes wf: "bam_wf vd" and x: "on_disk vd (t, s)"
  shows "\<not> bam_bit vd (t, s) \<Longrightarrow> vdrive_bam_allocate_sector vd t s = Some (False, vd)"
    "bam_bit vd (t, s) \<Longrightarrow> \<exists>vd'. vdrive_bam_allocate_sector vd t s = Some (True, vd') \<and> bam_after vd (t, s) False vd'"
proof -
  let ?f = "image_format vd" and ?k = "bam_sector vd s mod 8"
  let ?q = "bam_entry ?f t + 1 + bam_sector vd s div 8"
  let ?m = "if ?f = F4000 then bam vd else (bam vd)[bam_count ?f t := bam vd ! bam_count ?f t + (if False then 1 else -1)]"
  have tr: "1 \<le> t" "t \<le> bam_tracks ?f" using on_disk_track[OF wf x] by simp_all
  have g: "l < 8 \<Longrightarrow> bit (b AND NOT (push_bit ?k 1) :: byte) l \<longleftrightarrow> (if l = ?k then False else bit b l)" for b l by (simp only: bit_masks) auto
  note c = changed_map[OF wf x refl, where v = False, OF g refl]
  note e = track_entry[OF wf tr]
  have i: "vdrive_bam_isset (bam vd) (bam_entry ?f t) (bam_sector vd s) = Some (bam_bit vd (t, s))"
    using c(2) by (simp add: vdrive_bam_isset_def byte_test bam_bit_def Let_def)
  show "vdrive_bam_allocate_sector vd t s = Some (False, vd)" if "\<not> bam_bit vd (t, s)"
    using that e i by (simp add: vdrive_bam_allocate_sector_def Let_def)
  show "\<exists>vd'. vdrive_bam_allocate_sector vd t s = Some (True, vd') \<and> bam_after vd (t, s) False vd'" if "bam_bit vd (t, s)"
  proof -
    have "vdrive_bam_allocate_sector vd t s = Some (True, vd\<lparr>bam := ?m[?q := ?m ! ?q AND NOT (push_bit ?k 1)]\<rparr>)"
      using that e i c(2-4) count_place_offset[OF tr(1), of vd]
      by (auto simp: vdrive_bam_allocate_sector_def Let_def sector_free_bam poke_bam_def vdrive_bam_clr_def)
    then show ?thesis using c(1) by blast
  qed
qed

lemma free_wf:
  assumes wf: "bam_wf vd" and x: "on_disk vd (t, s)"
  shows "bam_bit vd (t, s) \<Longrightarrow> vdrive_bam_free_sector vd t s = Some (False, vd)"
    "\<not> bam_bit vd (t, s) \<Longrightarrow> \<exists>vd'. vdrive_bam_free_sector vd t s = Some (True, vd') \<and> bam_after vd (t, s) True vd'"
proof -
  let ?f = "image_format vd" and ?k = "bam_sector vd s mod 8"
  let ?q = "bam_entry ?f t + 1 + bam_sector vd s div 8" and ?c = "bam_count (image_format vd) t"
  let ?m = "if ?f = F4000 then bam vd else (bam vd)[?c := bam vd ! ?c + (if True then 1 else -1)]"
  have tr: "1 \<le> t" "t \<le> bam_tracks ?f" using on_disk_track[OF wf x] by simp_all
  have g: "l < 8 \<Longrightarrow> bit (b OR push_bit ?k 1 :: byte) l \<longleftrightarrow> (if l = ?k then True else bit b l)" for b l by (simp only: bit_masks) auto
  note c = changed_map[OF wf x refl, where v = True, OF g refl]
  note e = track_entry[OF wf tr]
  have i: "vdrive_bam_isset (bam vd) (bam_entry ?f t) (bam_sector vd s) = Some (bam_bit vd (t, s))"
    using c(2) by (simp add: vdrive_bam_isset_def byte_test bam_bit_def Let_def)
  show "vdrive_bam_free_sector vd t s = Some (False, vd)" if "bam_bit vd (t, s)"
    using that e i by (simp add: vdrive_bam_free_sector_def Let_def)
  show "\<exists>vd'. vdrive_bam_free_sector vd t s = Some (True, vd') \<and> bam_after vd (t, s) True vd'" if "\<not> bam_bit vd (t, s)"
  proof -
    have "vdrive_bam_free_sector vd t s = Some (True, vd\<lparr>bam := ?m[?q := ?m ! ?q OR push_bit ?k 1]\<rparr>)"
      using that e i c(2-4) count_place_offset[OF tr(1), of vd]
      by (auto simp: vdrive_bam_free_sector_def Let_def sector_free_bam poke_bam_def vdrive_bam_set_def
          list_update_swap[OF c(4)[symmetric, unfolded add.assoc[symmetric]], simplified])
    then show ?thesis using c(1) by blast
  qed
qed

lemma geometry_bam: "vdrive_set_disk_geometry (vd\<lparr>bam := m\<rparr>) = (vdrive_set_disk_geometry vd)\<lparr>bam := m\<rparr>"
  by (cases vd) (simp add: vdrive_set_disk_geometry_def split: image_format.split)

lemma bam_after_wf:
  assumes "bam_wf vd" "bam_after vd x v vd'"
  shows "bam_wf vd'" "on_disk vd' = on_disk vd" "free_sectors vd' = {y. on_disk vd y \<and> (if y = x then v else bam_bit vd y)}"
    "image_format vd' = image_format vd" "num_tracks vd' = num_tracks vd" "Bam_Track vd' = Bam_Track vd" "Dir_Track vd' = Dir_Track vd"
    "vd_image vd' = vd_image vd"
proof -
  obtain m where m: "vd' = vd\<lparr>bam := m\<rparr>" "length m = length (bam vd)" "\<forall>y. on_disk vd y \<longrightarrow> bam_bit vd' y = (if y = x then v else bam_bit vd y)"
    "\<forall>i\<in>fst ` set (bam_bounds (image_format vd)). m ! i = bam vd ! i"
    using assms(2) unfolding bam_after_def by blast
  show f: "image_format vd' = image_format vd" "num_tracks vd' = num_tracks vd" "Bam_Track vd' = Bam_Track vd" "Dir_Track vd' = Dir_Track vd"
    "vd_image vd' = vd_image vd" using m(1) by simp_all
  show o: "on_disk vd' = on_disk vd" by (simp add: fun_eq_iff on_disk_def m(1) vdrive_get_max_sectors_def)
  show "free_sectors vd' = {y. on_disk vd y \<and> (if y = x then v else bam_bit vd y)}"
    using m(3) o by (auto simp: free_sectors_def)
  have "vdrive_set_disk_geometry vd' = vd'"
    using geometry_bam[where vd = vd and m = m] bam_wfD(3)[OF assms(1)] by (simp add: m(1))
  then show "bam_wf vd'" using assms(1) m(2,4) f by (fastforce simp: bam_wf_def m(1))
qed


lemma free_sectors_bit: "on_disk vd x \<Longrightarrow> x \<in> free_sectors vd \<longleftrightarrow> bam_bit vd x"
  by (simp add: free_sectors_def)

lemma bam_after_free:
  assumes "bam_wf vd" "bam_after vd x v vd'" "on_disk vd x"
  shows "free_sectors vd' = (if v then insert x (free_sectors vd) else free_sectors vd - {x})"
  using bam_after_wf(3)[OF assms(1,2)] assms(3) by (auto simp: free_sectors_def)

subsection \<open>Searching\<close>

text \<open>A search takes the first free sector of its order.\<close>

definition take_first :: "(nat \<times> nat) list \<Rightarrow> vdrive_t \<Rightarrow> ((nat \<times> nat) option \<times> vdrive_t) option" where
  "take_first ps vd =
     (case find (\<lambda>x. x \<in> free_sectors vd) ps of None \<Rightarrow> Some (None, vd)
      | Some x \<Rightarrow> map_option (\<lambda>(_, vd'). (Some x, vd')) (vdrive_bam_allocate_sector vd (fst x) (snd x)))"

lemma take_first_Nil [simp]: "take_first [] vd = Some (None, vd)"
  by (simp add: take_first_def)

lemma take_first_append:
  "take_first (ps @ qs) vd = or_else (take_first ps vd) (take_first qs)"
proof (cases "find (\<lambda>x. x \<in> free_sectors vd) ps")
  case None
  then have "find (\<lambda>x. x \<in> free_sectors vd) (ps @ qs) = find (\<lambda>x. x \<in> free_sectors vd) qs" by (induction ps) (auto split: if_splits)
  then show ?thesis using None by (simp add: take_first_def or_else_def)
next
  case (Some x)
  then have "find (\<lambda>x. x \<in> free_sectors vd) (ps @ qs) = Some x" by (induction ps) (auto split: if_splits)
  then show ?thesis using Some by (cases "vdrive_bam_allocate_sector vd (fst x) (snd x)") (auto simp: take_first_def or_else_def)
qed

lemma try_sectors_first:
  assumes "bam_wf vd"
  shows "\<forall>s\<in>set ss. on_disk vd (t, s) \<Longrightarrow> try_sectors vd t ss = take_first (map (Pair t) ss) vd"
proof (induction ss)
  case (Cons s ss)
  have x: "on_disk vd (t, s)" using Cons.prems by simp
  show ?case
  proof (cases "bam_bit vd (t, s)")
    case True
    then show ?thesis using allocate_wf(2)[OF assms x True] by (auto simp: take_first_def free_sectors_bit[OF x])
  next
    case False
    then have f: "find (\<lambda>x. x \<in> free_sectors vd) (map (Pair t) (s # ss)) = find (\<lambda>x. x \<in> free_sectors vd) (map (Pair t) ss)"
      by (simp add: free_sectors_bit[OF x])
    have "try_sectors vd t (s # ss) = try_sectors vd t ss" using allocate_wf(1)[OF assms x False] by simp
    also have "\<dots> = take_first (map (Pair t) ss) vd" using Cons by simp
    finally show ?thesis unfolding take_first_def f .
  qed
qed simp

definition in_order :: "(nat \<times> nat list) list \<Rightarrow> (nat \<times> nat) list" where
  "in_order r = concat (map (\<lambda>(t, ss). map (Pair t) ss) r)"

lemma in_order_Cons [simp]: "in_order ((t, ss) # r) = map (Pair t) ss @ in_order r"
  by (simp add: in_order_def)

lemma take_first_keeps: "take_first ps vd = Some (None, vd') \<Longrightarrow> vd' = vd"
  by (auto simp: take_first_def split: option.splits)

lemma or_else_cong: "(\<And>vd'. a = Some (None, vd') \<Longrightarrow> f vd' = g vd') \<Longrightarrow> or_else a f = or_else a g"
proof (cases a)
  case (Some p)
  assume h: "\<And>vd'. a = Some (None, vd') \<Longrightarrow> f vd' = g vd'"
  obtain found v where p: "p = (found, v)" by (cases p)
  show ?thesis using h[of v] Some p by (cases found) (simp_all add: or_else_def)
qed (simp add: or_else_def)

lemma try_tracks_first:
  assumes "bam_wf vd"
  shows "\<forall>x\<in>set (in_order r). on_disk vd x \<Longrightarrow> try_tracks vd r = take_first (in_order r) vd"
proof (induction r)
  case (Cons a r)
  obtain t ss where a: "a = (t, ss)" by (cases a)
  have "try_tracks vd (a # r) = or_else (take_first (map (Pair t) ss) vd) (\<lambda>vd'. try_tracks vd' r)"
    using try_sectors_first[OF assms, of ss t] Cons.prems by (simp add: a or_else_def)
  also have "\<dots> = or_else (take_first (map (Pair t) ss) vd) (take_first (in_order r))"
    using Cons by (intro or_else_cong) (auto simp: a dest: take_first_keeps)
  finally show ?case by (simp add: a take_first_append)
qed (simp add: in_order_def)

lemma take_first_finds:
  assumes wf: "bam_wf vd" and on: "\<forall>y\<in>set ps. on_disk vd y" and x: "x \<in> set ps" "x \<in> free_sectors vd"
  shows "\<exists>y vd'. take_first ps vd = Some (Some y, vd') \<and> y \<in> free_sectors vd \<and> bam_wf vd' \<and> free_sectors vd' = free_sectors vd - {y}"
proof -
  have "find (\<lambda>x. x \<in> free_sectors vd) ps \<noteq> None" using x by (metis find_None_iff)
  then obtain y where y: "find (\<lambda>x. x \<in> free_sectors vd) ps = Some y" by blast
  then have m: "y \<in> set ps" "y \<in> free_sectors vd" by (auto simp: find_Some_iff)
  then have o: "on_disk vd (fst y, snd y)" "bam_bit vd (fst y, snd y)" using on by (auto simp: free_sectors_def)
  obtain vd' where "vdrive_bam_allocate_sector vd (fst y) (snd y) = Some (True, vd')" "bam_after vd (fst y, snd y) False vd'"
    using allocate_wf(2)[OF wf o] by blast
  then show ?thesis using y m bam_after_wf(1)[OF wf] bam_after_free[OF wf _ o(1)] by (auto simp: take_first_def)
qed

lemma take_first_none: "\<forall>y\<in>set ps. y \<notin> free_sectors vd \<Longrightarrow> take_first ps vd = Some (None, vd)"
proof -
  assume "\<forall>y\<in>set ps. y \<notin> free_sectors vd"
  then have "find (\<lambda>x. x \<in> free_sectors vd) ps = None" by (simp add: find_None_iff)
  then show ?thesis by (simp add: take_first_def)
qed

definition tracks_order :: "vdrive_t \<Rightarrow> nat list \<Rightarrow> (nat \<times> nat) list" where
  "tracks_order vd ts = in_order (map (all_sectors vd) ts)"

lemma tracks_order_iff: "(t, s) \<in> set (tracks_order vd ts) \<longleftrightarrow> t \<in> set ts \<and> s < vdrive_get_max_sectors vd t"
  by (auto simp: tracks_order_def in_order_def all_sectors_def image_iff)

lemma tracks_on_disk: "\<forall>t\<in>set ts. 1 \<le> t \<and> t \<le> num_tracks vd \<Longrightarrow> x \<in> set (tracks_order vd ts) \<Longrightarrow> on_disk vd x"
  by (cases x) (auto simp: tracks_order_iff on_disk_def)

lemma alloc_down_first:
  "bam_wf vd \<Longrightarrow> t \<le> num_tracks vd \<Longrightarrow> vdrive_bam_alloc_down t vd = take_first (tracks_order vd (rev [1..<Suc t])) vd"
  unfolding vdrive_bam_alloc_down_def tracks_order_def
  by (intro try_tracks_first ballI tracks_on_disk[where ts = "rev [1..<Suc t]", unfolded tracks_order_def]) auto

lemma alloc_up_first:
  "bam_wf vd \<Longrightarrow> 1 \<le> t \<Longrightarrow> vdrive_bam_alloc_up t vd = take_first (tracks_order vd [t..<Suc (num_tracks vd)]) vd"
  unfolding vdrive_bam_alloc_up_def tracks_order_def
  by (intro try_tracks_first ballI tracks_on_disk[where ts = "[t..<Suc (num_tracks vd)]", unfolded tracks_order_def]) auto

lemma same_track_bound:
  "s < m \<Longrightarrow> (low \<longrightarrow> 64 < m) \<Longrightarrow> r \<in> set (same_track_order low m s n) \<Longrightarrow> r < m"
proof (induction n arbitrary: s)
  case (Suc n)
  define s' where "s' = (if low \<and> s < 64 then 64 else s)"
  have "s' < m" using Suc.prems by (simp add: s'_def)
  moreover have "r = s' \<or> r \<in> set (same_track_order low m (if s' + 1 \<ge> m then 0 else s' + 1) n)"
    using Suc.prems(3) by (simp only: same_track_order.simps s'_def[symmetric] Let_def list.set insert_iff)
  ultimately show ?case using Suc.IH[of "if s' + 1 \<ge> m then 0 else s' + 1"] Suc.prems(2) by (auto split: if_splits)
qed simp


lemma bam_tracks_of:
  assumes "bam_wf vd"
  shows "Bam_Track vd = Dir_Track vd" "1 \<le> Dir_Track vd" "image_format vd = F4000 \<Longrightarrow> Dir_Track vd = 1"
    "image_format vd = F8250 \<Longrightarrow> Dir_Track vd = 39"
proof -
  let ?g = "vdrive_set_disk_geometry vd"
  have g: "Bam_Track ?g = Dir_Track ?g" "1 \<le> Dir_Track ?g" "image_format vd = F4000 \<Longrightarrow> Dir_Track ?g = 1"
    "image_format vd = F8250 \<Longrightarrow> Dir_Track ?g = 39"
    by (simp_all add: vdrive_set_disk_geometry_def split: image_format.split)
  then show "Bam_Track vd = Dir_Track vd" "1 \<le> Dir_Track vd" "image_format vd = F4000 \<Longrightarrow> Dir_Track vd = 1"
    "image_format vd = F8250 \<Longrightarrow> Dir_Track vd = 39"
    unfolding bam_wfD(3)[OF assms] by simp_all
qed

lemma zone_least: "17 \<le> disk_image_sector_per_track D64 t" "17 \<le> disk_image_sector_per_track D67 t"
  "17 \<le> disk_image_sector_per_track D71 t" "23 \<le> disk_image_sector_per_track D80 t"
proof -
  show "17 \<le> disk_image_sector_per_track D64 t" using speed_zones[of D64 t] by (auto simp: zone_tables)
  show "17 \<le> disk_image_sector_per_track D67 t" using speed_zones[of D67 t] by (auto simp: zone_tables)
  show "17 \<le> disk_image_sector_per_track D71 t" using speed_zones[of D71 t] by (auto simp: zone_tables)
  show "23 \<le> disk_image_sector_per_track D80 t" using speed_zones[of D80 t] by (auto simp: zone_tables)
qed

lemma interleave_fits: "vdrive_bam_get_interleave (image_format vd) \<le> vdrive_get_max_sectors vd t"
  using zone_least[of t] zone_least(4)[of "t - 77"]
  by (cases "image_format vd") (simp_all add: vdrive_bam_get_interleave_def vdrive_get_max_sectors_def)

definition next_sector :: "vdrive_t \<Rightarrow> nat \<Rightarrow> nat \<Rightarrow> nat" where
  "next_sector vd t s =
     (let m = vdrive_get_max_sectors vd t; s0 = s + vdrive_bam_get_interleave (image_format vd)
      in if s0 \<ge> m then (if s0 - m \<noteq> 0 then s0 - m - 1 else s0 - m) else s0)"

lemma next_sector_bound: "s < vdrive_get_max_sectors vd t \<Longrightarrow> next_sector vd t s < vdrive_get_max_sectors vd t"
  using interleave_fits[of vd t] by (auto simp: next_sector_def Let_def)

definition next_order :: "vdrive_t \<Rightarrow> nat \<Rightarrow> nat \<Rightarrow> (nat \<times> nat) list" where
  "next_order vd t s =
     (let first = (image_format vd = F4000 \<and> t = Bam_Track vd); m = vdrive_get_max_sectors vd t; t' = (if first then t + 1 else t);
          d = Dir_Track vd; n = num_tracks vd
      in map (Pair t) (same_track_order first m (next_sector vd t s) m)
         @ (if t' < d
            then tracks_order vd (rev [1..<Suc t']) @ tracks_order vd (rev [1..<d]) @ tracks_order vd [Suc d..<Suc n]
            else tracks_order vd [t'..<Suc n] @ tracks_order vd [Suc d..<Suc n] @ tracks_order vd (rev [1..<d])))"

lemma next_order_on_disk:
  assumes wf: "bam_wf vd" and on: "on_disk vd (t, s)" and x: "x \<in> set (next_order vd t s)"
  shows "on_disk vd x"
proof -
  let ?first = "image_format vd = F4000 \<and> t = Bam_Track vd" and ?m = "vdrive_get_max_sectors vd t"
  have t: "1 \<le> t" "t \<le> num_tracks vd" "s < ?m" using on by (simp_all add: on_disk_def)
  have d: "Dir_Track vd \<le> num_tracks vd" "1 \<le> Dir_Track vd" using bam_wfD(4)[OF wf] bam_tracks_of(2)[OF wf] by simp_all
  have low: "?first \<longrightarrow> 64 < ?m" by (simp add: vdrive_get_max_sectors_def)
  have same: "on_disk vd y" if y: "y \<in> set (map (Pair t) (same_track_order ?first ?m (next_sector vd t s) ?m))" for y
  proof -
    obtain r where r: "y = (t, r)" "r \<in> set (same_track_order ?first ?m (next_sector vd t s) ?m)" using y by auto
    show ?thesis using same_track_bound[OF next_sector_bound[OF t(3)] low r(2)] t r(1) by (simp add: on_disk_def)
  qed
  have rest: "on_disk vd y" if "y \<in> set (tracks_order vd ts)" "\<forall>u\<in>set ts. 1 \<le> u \<and> u \<le> num_tracks vd" for y ts
    using tracks_on_disk that by blast
  let ?t' = "if ?first then t + 1 else t"
  have r: "\<forall>u\<in>set (rev [1..<Dir_Track vd]). 1 \<le> u \<and> u \<le> num_tracks vd" "\<forall>u\<in>set [Suc (Dir_Track vd)..<Suc (num_tracks vd)]. 1 \<le> u \<and> u \<le> num_tracks vd"
    "?t' < Dir_Track vd \<Longrightarrow> \<forall>u\<in>set (rev [1..<Suc ?t']). 1 \<le> u \<and> u \<le> num_tracks vd" "\<forall>u\<in>set [?t'..<Suc (num_tracks vd)]. 1 \<le> u \<and> u \<le> num_tracks vd"
    using d t by auto
  show ?thesis
  proof (cases "?t' < Dir_Track vd")
    case True
    have "x \<in> set (map (Pair t) (same_track_order ?first ?m (next_sector vd t s) ?m))
        \<or> x \<in> set (tracks_order vd (rev [1..<Suc ?t'])) \<or> x \<in> set (tracks_order vd (rev [1..<Dir_Track vd]))
        \<or> x \<in> set (tracks_order vd [Suc (Dir_Track vd)..<Suc (num_tracks vd)])"
      using x True by (simp only: next_order_def Let_def if_True set_append Un_iff)
    then show ?thesis by (elim disjE) (erule same rest[OF _ r(1)] rest[OF _ r(2)] rest[OF _ r(3)[OF True]])+
  next
    case False
    have "x \<in> set (map (Pair t) (same_track_order ?first ?m (next_sector vd t s) ?m))
        \<or> x \<in> set (tracks_order vd [?t'..<Suc (num_tracks vd)]) \<or> x \<in> set (tracks_order vd [Suc (Dir_Track vd)..<Suc (num_tracks vd)])
        \<or> x \<in> set (tracks_order vd (rev [1..<Dir_Track vd]))"
      using x False by (simp only: next_order_def Let_def if_False set_append Un_iff)
    then show ?thesis by (elim disjE) (erule same rest[OF _ r(1)] rest[OF _ r(2)] rest[OF _ r(4)])+
  qed
qed

lemma next_order_covers:
  assumes "on_disk vd (u, r)" "u \<noteq> Dir_Track vd"
  shows "(u, r) \<in> set (next_order vd t s)"
proof -
  have "(u, r) \<in> set (tracks_order vd (rev [1..<Dir_Track vd])) \<union> set (tracks_order vd [Suc (Dir_Track vd)..<Suc (num_tracks vd)])"
    using assms by (auto simp: tracks_order_iff on_disk_def)
  then show ?thesis unfolding next_order_def Let_def by auto
qed


lemma or_else_first:
  "or_else (take_first ps vd) f = or_else (take_first ps vd) (\<lambda>_. f vd)"
  by (rule or_else_cong) (auto dest: take_first_keeps)

lemma or_else_step: "f vd = take_first qs vd \<Longrightarrow> or_else (take_first ps vd) f = take_first (ps @ qs) vd"
  unfolding take_first_append by (subst or_else_first, subst (2) or_else_first) simp

lemma or_else_three:
  assumes "f1 vd = take_first p1 vd" "f2 vd = take_first p2 vd" "f3 vd vd = take_first p3 vd"
  shows "or_else (f1 vd) (\<lambda>v. or_else (f2 v) (f3 v)) = take_first (p1 @ p2 @ p3) vd"
proof -
  have "or_else (f2 vd) (f3 vd) = take_first (p2 @ p3) vd" unfolding assms(2) by (rule or_else_step[where f = "f3 vd", OF assms(3)])
  then show ?thesis unfolding assms(1) by (rule or_else_step[where f = "\<lambda>v. or_else (f2 v) (f3 v)"])
qed

lemma alloc_next_first:
  assumes wf: "bam_wf vd" and on: "on_disk vd (t, s)" and go: "\<not> (t = Bam_Track vd \<and> (image_format vd \<noteq> F4000 \<or> s < 64))"
  shows "vdrive_bam_alloc_next_free_sector vd t s = take_first (next_order vd t s) vd"
proof -
  let ?first = "image_format vd = F4000 \<and> t = Bam_Track vd" and ?m = "vdrive_get_max_sectors vd t"
  let ?t' = "if ?first then t + 1 else t" and ?same = "same_track_order ?first ?m (next_sector vd t s) ?m" and ?d = "Dir_Track vd"
  have t: "1 \<le> t" "t \<le> num_tracks vd" using on by (simp_all add: on_disk_def)
  have d: "?d - 1 \<le> num_tracks vd" "1 \<le> ?d + 1" "rev [1..<Suc (?d - 1)] = rev [1..<?d]"
    using bam_wfD(4)[OF wf] bam_tracks_of(2)[OF wf] by simp_all
  have same: "try_sectors vd t ?same = take_first (map (Pair t) ?same) vd"
    using next_order_on_disk[OF wf on] by (intro try_sectors_first[OF wf]) (auto simp: next_order_def Let_def)
  have up: "vdrive_bam_alloc_up (?d + 1) vd = take_first (tracks_order vd [Suc ?d..<Suc (num_tracks vd)]) vd"
    using alloc_up_first[OF wf d(2)] by simp
  have down: "vdrive_bam_alloc_down (?d - 1) vd = take_first (tracks_order vd (rev [1..<?d])) vd"
    using alloc_down_first[OF wf d(1)] unfolding d(3) .
  have s: "vdrive_bam_alloc_next_free_sector vd t s = or_else (try_sectors vd t ?same) (\<lambda>v.
      if ?t' < Dir_Track v
      then or_else (vdrive_bam_alloc_down ?t' v) (\<lambda>v. or_else (vdrive_bam_alloc_down (Dir_Track v - 1) v) (vdrive_bam_alloc_up (Dir_Track v + 1)))
      else or_else (vdrive_bam_alloc_up ?t' v) (\<lambda>v. or_else (vdrive_bam_alloc_up (Dir_Track v + 1) v) (vdrive_bam_alloc_down (Dir_Track v - 1))))"
    unfolding vdrive_bam_alloc_next_free_sector_def Let_def if_not_P[OF go] next_sector_def ..
  show ?thesis
  proof (cases "?t' < ?d")
    case True
    then have "?t' \<le> num_tracks vd" using d(1) by linarith
    note first = alloc_down_first[OF wf this]
    note three = or_else_three[where ?f1.0 = "vdrive_bam_alloc_down ?t'" and ?f2.0 = "\<lambda>v. vdrive_bam_alloc_down (Dir_Track v - 1) v"
        and ?f3.0 = "\<lambda>v. vdrive_bam_alloc_up (Dir_Track v + 1)", OF first down up]
    show ?thesis unfolding s same
      by (rule trans[OF or_else_step], subst if_P[OF True], rule three)
        (simp only: next_order_def Let_def if_P[OF True] if_True)
  next
    case False
    have "1 \<le> ?t'" using t by simp
    note first = alloc_up_first[OF wf this]
    note three = or_else_three[where ?f1.0 = "vdrive_bam_alloc_up ?t'" and ?f2.0 = "\<lambda>v. vdrive_bam_alloc_up (Dir_Track v + 1) v"
        and ?f3.0 = "\<lambda>v. vdrive_bam_alloc_down (Dir_Track v - 1)", OF first up down]
    show ?thesis unfolding s same
      by (rule trans[OF or_else_step], subst if_not_P[OF False], rule three)
        (simp only: next_order_def Let_def if_not_P[OF False] if_False)
  qed
qed


lemma in_order_iff: "(u, r) \<in> set (in_order l) \<longleftrightarrow> (\<exists>ss. (u, ss) \<in> set l \<and> r \<in> set ss)"
  by (auto simp: in_order_def image_iff)

lemma in_order_concat:
  "(u, r) \<in> set (in_order (concat (map f ds))) \<longleftrightarrow> (\<exists>d\<in>set ds. \<exists>ss. (u, ss) \<in> set (f d) \<and> r \<in> set ss)"
  by (auto simp: in_order_iff)

lemma first_order_iff:
  "(u, r) \<in> set (in_order (first_free_order vd)) \<longleftrightarrow>
     r < vdrive_get_max_sectors vd u \<and>
     (\<exists>d\<le>vdrive_calculate_disk_half vd. (d > 0 \<and> Bam_Track vd > d \<and> u = Bam_Track vd - d)
        \<or> (u = Bam_Track vd + d \<and> u \<le> num_tracks vd \<and> (d > 0 \<or> image_format vd = F4000 \<and> 64 \<le> r)))"
proof -
  let ?low = "\<lambda>d. if d > 0 \<and> Bam_Track vd > d then [all_sectors vd (Bam_Track vd - d)] else []"
  let ?high = "\<lambda>d. let t = Bam_Track vd + d; max_sector = vdrive_get_max_sectors vd t
      in if t \<le> num_tracks vd then [(t, if d > 0 then [0..<max_sector] else if image_format vd = F4000 then [64..<max_sector] else [])] else []"
  have low: "(\<exists>ss. (u, ss) \<in> set (?low d) \<and> r \<in> set ss) \<longleftrightarrow> d > 0 \<and> Bam_Track vd > d \<and> u = Bam_Track vd - d \<and> r < vdrive_get_max_sectors vd u" for d
    by (simp add: all_sectors_def) blast
  have high: "(\<exists>ss. (u, ss) \<in> set (?high d) \<and> r \<in> set ss) \<longleftrightarrow>
      u = Bam_Track vd + d \<and> u \<le> num_tracks vd \<and> (d > 0 \<or> image_format vd = F4000 \<and> 64 \<le> r) \<and> r < vdrive_get_max_sectors vd u" for d
    by (simp add: Let_def) blast
  have "(u, r) \<in> set (in_order (first_free_order vd)) \<longleftrightarrow>
      (\<exists>d\<in>set [0..<Suc (vdrive_calculate_disk_half vd)].
        (\<exists>ss. (u, ss) \<in> set (?low d) \<and> r \<in> set ss) \<or> (\<exists>ss. (u, ss) \<in> set (?high d) \<and> r \<in> set ss))"
    unfolding first_free_order_def in_order_concat by (simp only: set_append Un_iff conj_disj_distribR ex_disj_distrib)
  then show ?thesis unfolding low high set_upt by (auto simp: less_Suc_eq_le)
qed

lemma first_order_on_disk: "bam_wf vd \<Longrightarrow> x \<in> set (in_order (first_free_order vd)) \<Longrightarrow> on_disk vd x"
  using bam_tracks_of(1,2)[of vd] bam_wfD(4)[of vd] by (cases x) (auto simp: first_order_iff on_disk_def)

lemma alloc_first_first:
  "bam_wf vd \<Longrightarrow> vdrive_bam_alloc_first_free_sector vd = take_first (in_order (first_free_order vd)) vd"
  unfolding vdrive_bam_alloc_first_free_sector_def using first_order_on_disk by (intro try_tracks_first) auto

lemma half_below: "bam_wf vd \<Longrightarrow> Bam_Track vd \<le> Suc (vdrive_calculate_disk_half vd)"
  using arg_cong[OF bam_wfD(3)[of vd], of Bam_Track]
  by (cases "image_format vd") (simp_all add: vdrive_set_disk_geometry_def vdrive_calculate_disk_half_def)

lemma first_order_covers:
  assumes "bam_wf vd" "on_disk vd (u, r)" "u \<noteq> Bam_Track vd" "u \<le> Bam_Track vd + vdrive_calculate_disk_half vd"
  shows "(u, r) \<in> set (in_order (first_free_order vd))"
proof (cases "u < Bam_Track vd")
  case True
  then show ?thesis using assms half_below[OF assms(1)] unfolding first_order_iff
    by (intro conjI exI[of _ "Bam_Track vd - u"]) (auto simp: on_disk_def)
next
  case False
  then show ?thesis using assms unfolding first_order_iff
    by (intro conjI exI[of _ "u - Bam_Track vd"]) (auto simp: on_disk_def)
qed

subsection \<open>Counts\<close>

definition track_frees :: "vdrive_t \<Rightarrow> nat \<Rightarrow> nat set" where
  "track_frees vd t = {s. (t, s) \<in> free_sectors vd}"

definition counts_ok :: "vdrive_t \<Rightarrow> bool" where
  "counts_ok vd \<longleftrightarrow> image_format vd \<noteq> F4000
     \<and> (\<forall>t. 1 \<le> t \<and> t \<le> num_tracks vd \<longrightarrow> unat (bam vd ! bam_count (image_format vd) t) = card (track_frees vd t))"

lemma track_frees_range: "track_frees vd t \<subseteq> {..<vdrive_get_max_sectors vd t}"
  by (auto simp: track_frees_def free_sectors_def on_disk_def)

lemma finite_track_frees [simp]: "finite (track_frees vd t)"
  using finite_subset[OF track_frees_range] by blast

lemma max_sectors_bound: "image_format vd \<noteq> F4000 \<Longrightarrow> vdrive_get_max_sectors vd t \<le> 40"
  using zone_bound[of t] zone_bound(4)[of "t - 77"] by (cases "image_format vd") (auto simp: vdrive_get_max_sectors_def)

lemma card_track_frees: "image_format vd \<noteq> F4000 \<Longrightarrow> card (track_frees vd t) \<le> 40"
  using card_mono[OF _ track_frees_range[of vd t]] max_sectors_bound[of vd t] by simp

lemma track_frees_after:
  assumes "bam_wf vd" "bam_after vd (t, s) v vd'" "on_disk vd (t, s)"
  shows "track_frees vd' u = (if u = t then (if v then insert s (track_frees vd t) else track_frees vd t - {s}) else track_frees vd u)"
  using bam_after_free[OF assms] by (auto simp: track_frees_def)

lemma counts_after:
  assumes wf: "bam_wf vd" and a: "bam_after vd (t, s) v vd'" and on: "on_disk vd (t, s)" and ok: "counts_ok vd"
    and new: "(t, s) \<in> free_sectors vd \<longleftrightarrow> \<not> v"
  shows "counts_ok vd'"
proof -
  have f: "image_format vd' = image_format vd" "num_tracks vd' = num_tracks vd" using bam_after_wf(4,5)[OF wf a] by simp_all
  have nf: "image_format vd \<noteq> F4000" using ok by (simp add: counts_ok_def)
  have c: "bam vd' ! bam_count (image_format vd) u = bam vd ! bam_count (image_format vd) u + (if u = t then (if v then 1 else -1) else 0)"
    if "1 \<le> u" "u \<le> num_tracks vd" for u
    using a that nf bam_wfD(2)[OF wf] by (auto simp: bam_after_def)
  have "unat (bam vd' ! bam_count (image_format vd) u) = card (track_frees vd' u)" if u: "1 \<le> u" "u \<le> num_tracks vd" for u
  proof (cases "u = t")
    case False
    then show ?thesis using c[OF u] ok u track_frees_after[OF wf a on, of u] by (simp add: counts_ok_def)
  next
    case True
    let ?b = "bam vd ! bam_count (image_format vd) t"
    have b: "unat ?b = card (track_frees vd t)" using ok u True by (simp add: counts_ok_def)
    have le: "unat ?b \<le> 40" using b card_track_frees[OF nf, of t] by simp
    show ?thesis
    proof (cases v)
      case True
      then have "s \<notin> track_frees vd t" using new by (simp add: track_frees_def)
      then have "card (track_frees vd' t) = Suc (unat ?b)" using True track_frees_after[OF wf a on, of t] b by simp
      moreover have "unat (?b + 1) = Suc (unat ?b)" using le by (subst unat_add_small) simp_all
      ultimately show ?thesis using c[OF u] True \<open>u = t\<close> by simp
    next
      case False
      then have s: "s \<in> track_frees vd t" using new by (simp add: track_frees_def)
      then have "?b \<noteq> 0" using b finite_track_frees[of vd t] by (metis card_0_eq empty_iff unat_0)
      then have "unat (?b - 1) = unat ?b - 1" by (rule unat_minus_one)
      moreover have "card (track_frees vd' t) = unat ?b - 1" using False s track_frees_after[OF wf a on, of t] b by simp
      ultimately show ?thesis using c[OF u] False \<open>u = t\<close> by simp
    qed
  qed
  then show ?thesis using f nf by (simp add: counts_ok_def)
qed


text \<open>The tracks the block count leaves out.\<close>

definition uncounted :: "vdrive_t \<Rightarrow> nat set" where
  "uncounted vd = (if image_format vd = F1571 then {Dir_Track vd, Dir_Track vd + 35} else {Dir_Track vd})"

lemma track_free_card:
  assumes wf: "bam_wf vd" and ok: "counts_ok vd" and t: "1 \<le> t" "t \<le> num_tracks vd"
  shows "track_free vd t = Some (if t \<in> uncounted vd then 0 else card (track_frees vd t))"
proof -
  let ?f = "image_format vd"
  have nf: "?f \<noteq> F4000" using ok by (simp add: counts_ok_def)
  have tt: "t \<le> bam_tracks ?f" using t(2) bam_wfD(2)[OF wf] by simp
  have inb: "bam_count ?f t < length (bam vd)" using layout.inside[OF t(1) tt] bam_wfD(1)[OF wf] by simp
  have c: "unat (bam vd ! bam_count ?f t) = card (track_frees vd t)" using ok t by (simp add: counts_ok_def)
  have e: "vdrive_bam_get_track_entry vd t = Some (bam_entry ?f t)" by (rule track_entry[OF wf t(1) tt])
  have byte: "bam_byte vd (bam_count ?f t) = Some (card (track_frees vd t))" using inb c by (simp add: bam_byte_def)
  show ?thesis
  proof (cases ?f)
    case F8050
    then have "find_bam_block (bam vd) t [1, 2] = Some (bam_count ?f t)" using e t(1) by (simp add: vdrive_bam_get_track_entry_def bam_count_def)
    then show ?thesis using byte F8050 by (simp add: track_free_def uncounted_def)
  next
    case F8250
    then have "find_bam_block (bam vd) t [1, 2, 3, 4] = Some (bam_count ?f t)" using e t(1) by (simp add: vdrive_bam_get_track_entry_def bam_count_def)
    then show ?thesis using byte F8250 by (simp add: track_free_def uncounted_def)
  next
    case F1541
    then have "bam_count ?f t = (if t \<le> 35 then 4 + 4 * (t - 1) else 192 + 4 * (t - 35 - 1))" using t(1) by (auto simp: bam_count_def bam_entry_def)
    then show ?thesis using byte F1541 by (simp add: track_free_def uncounted_def)
  next
    case F2040
    then have "bam_count ?f t = (if t \<le> 35 then 4 + 4 * (t - 1) else 192 + 4 * (t - 35 - 1))" using t(1) by (auto simp: bam_count_def bam_entry_def)
    then show ?thesis using byte F2040 by (simp add: track_free_def uncounted_def)
  next
    case F1571
    then have "bam_count ?f t = (if t \<le> 35 then 4 + 4 * (t - 1) else 221 + t - 1 - 35)" using t(1) by (auto simp: bam_count_def bam_entry_def)
    then show ?thesis using byte F1571 by (simp add: track_free_def uncounted_def)
  next
    case F1581
    then have "bam_count ?f t = (if t \<le> 40 then 16 + 256 + 6 * (t - 1) else 16 + 512 + 6 * (t - 1 - 40))" using t(1) by (auto simp: bam_count_def bam_entry_def)
    then show ?thesis using byte F1581 by (simp add: track_free_def uncounted_def)
  qed (use nf in simp)
qed

lemma fold_counts:
  "\<forall>i\<in>set is. h i = Some (g i) \<Longrightarrow>
    fold (\<lambda>i blocks. Option.bind blocks (\<lambda>b. map_option (\<lambda>n. b + n) (h i))) is (Some a) = Some (a + sum_list (map g is) :: nat)"
  by (induction "is" arbitrary: a) simp_all

text \<open>The 4000 counts the bits themselves, all but those of the first two blocks' worth of its first track.\<close>

lemma xor7_byte: "((s::nat) XOR 7) div 8 = s div 8" "a = 0 \<or> a = 64 \<Longrightarrow> a \<le> s XOR 7 \<longleftrightarrow> a \<le> s"
proof -
  have d: "(s XOR 7) div 8 = s div 8" for s :: nat
    by (simp flip: drop_bit_eq_div[of 3, simplified])
  then show "((s::nat) XOR 7) div 8 = s div 8" .
  have "64 \<le> m \<longleftrightarrow> 8 \<le> m div 8" for m :: nat by linarith
  then have "64 \<le> s XOR 7 \<longleftrightarrow> 64 \<le> s" using d[of s] by metis
  then show "a = 0 \<or> a = 64 \<Longrightarrow> a \<le> s XOR 7 \<longleftrightarrow> a \<le> s" by auto
qed

lemma sum_list_bits: "sum_list (map (\<lambda>j. of_bool (P j)) [a..<b]) = card {j \<in> {a..<b}. P j}"
  by (subst interv_sum_list_conv_sum_set_nat) (simp add: sum.inter_filter[symmetric] of_bool_def)

lemma bit_value: "unat (drop_bit n (b::byte) AND 1) = of_bool (bit b n)"
  by (simp add: and_one_eq bit_iff_odd_drop_bit mod_2_eq_odd unat_arith_simps)

lemma track_free_4000:
  assumes wf: "bam_wf vd" and f: "image_format vd = F4000" and t: "1 \<le> t" "t \<le> num_tracks vd"
  shows "track_free vd t = Some (card {s \<in> track_frees vd t. \<not> (t = Bam_Track vd \<and> s < 64)})"
proof -
  let ?a = "if t = Bam_Track vd then 64 else 0 :: nat" and ?P = "\<lambda>j. bit (bam vd ! (256 + 32 * t + j div 8)) (j mod 8)"
  have len: "0x100 + 32 + 32 * t \<le> length (bam vd)" using bam_wfD(1,2)[OF wf] t(2) f by (simp add: bam_bytes_def bam_tracks_def)
  have e: "32 + 256 + 32 * (t - 1) = 256 + 32 * t" using t(1) by simp
  have "track_free vd t = Some (sum_list (map (\<lambda>j. unat (drop_bit (j mod 8) (bam vd ! (256 + 32 * t + j div 8)) AND 1)) [?a..<256]))"
    unfolding track_free_def f e using len by simp
  also have "\<dots> = Some (card {j \<in> {?a..<256}. ?P j})" unfolding bit_value sum_list_bits ..
  also have "card {j \<in> {?a..<256}. ?P j} = card {s \<in> {?a..<256}. ?P (s XOR 7)}"
  proof (rule bij_betw_same_card, rule bij_betw_byWitness[where f = "\<lambda>s. s XOR 7" and f' = "\<lambda>s. s XOR 7"])
    have inv: "(k XOR 7) XOR 7 = k" for k :: nat by (simp add: xor.assoc)
    have a: "?a = 0 \<or> ?a = 64" by simp
    have "k XOR 7 < 256 \<longleftrightarrow> k < 256" for k :: nat using xor7(1)[of k] xor7(1)[of "k XOR 7"] unfolding inv by blast
    then have m: "k XOR 7 \<in> {?a..<256} \<longleftrightarrow> k \<in> {?a..<256}" for k using xor7_byte(2)[OF a, of k] by simp
    show "(\<lambda>s. s XOR 7) ` {j \<in> {?a..<256}. ?P j} \<subseteq> {s \<in> {?a..<256}. ?P (s XOR 7)}"
      using m by (simp only: image_subset_iff mem_Collect_eq inv) blast
    show "(\<lambda>s. s XOR 7) ` {s \<in> {?a..<256}. ?P (s XOR 7)} \<subseteq> {j \<in> {?a..<256}. ?P j}"
      using m by (simp only: image_subset_iff mem_Collect_eq) blast
  qed (simp_all add: xor.assoc)
  also have "{s \<in> {?a..<256}. ?P (s XOR 7)} = {s \<in> track_frees vd t. \<not> (t = Bam_Track vd \<and> s < 64)}"
    using t by (auto simp: track_frees_def free_sectors_def on_disk_def bam_bit_def bam_sector_def bam_entry_def f vdrive_get_max_sectors_def)
  finally show ?thesis .
qed

text \<open>The sectors the block count counts.\<close>

definition counted :: "vdrive_t \<Rightarrow> nat \<times> nat \<Rightarrow> bool" where
  "counted vd x \<longleftrightarrow> (if image_format vd = F4000 then \<not> (fst x = Bam_Track vd \<and> snd x < 64) else fst x \<notin> uncounted vd)"

lemma track_free_counted:
  assumes "bam_wf vd" "image_format vd = F4000 \<or> counts_ok vd" "1 \<le> t" "t \<le> num_tracks vd"
  shows "track_free vd t = Some (card {s \<in> track_frees vd t. counted vd (t, s)})"
proof (cases "image_format vd = F4000")
  case True
  then show ?thesis using track_free_4000[OF assms(1) _ assms(3,4)] by (simp add: counted_def)
next
  case False
  then show ?thesis using track_free_card[OF assms(1) _ assms(3,4)] assms(2) by (auto simp: counted_def)
qed

lemma free_count:
  assumes wf: "bam_wf vd" and ok: "image_format vd = F4000 \<or> counts_ok vd"
  shows "vdrive_bam_free_block_count vd = Some (card {x \<in> free_sectors vd. counted vd x})"
proof -
  let ?g = "\<lambda>t. card {s \<in> track_frees vd t. counted vd (t, s)}" and ?I = "set [1..<Suc (num_tracks vd)]"
  have "vdrive_bam_free_block_count vd = Some (sum_list (map ?g [1..<Suc (num_tracks vd)]))"
    unfolding vdrive_bam_free_block_count_def using track_free_counted[OF wf ok] by (subst fold_counts[where g = ?g]) auto
  also have "sum_list (map ?g [1..<Suc (num_tracks vd)]) = (\<Sum>t\<in>?I. ?g t)"
    by (subst interv_sum_list_conv_sum_set_nat) (simp only: set_upt)
  also have "\<dots> = card (SIGMA t:?I. {s \<in> track_frees vd t. counted vd (t, s)})" by (subst card_SigmaI) simp_all
  also have "(SIGMA t:?I. {s \<in> track_frees vd t. counted vd (t, s)}) = {x \<in> free_sectors vd. counted vd x}"
    by (auto simp: track_frees_def free_sectors_def on_disk_def)
  finally show ?thesis .
qed

subsection \<open>The map on the image\<close>

text \<open>An image outside the emulated drives, without error information.\<close>

definition bare :: "fs_image \<Rightarrow> bool" where
  "bare im \<longleftrightarrow> holds_sectors (i_type im) \<and> fs_writable im \<and> error_map im = None \<and> gcr_tracks im = None"

text \<open>A list of blocks: places of the image that can be reached, each once, at offsets of the map that do not overlap.\<close>

definition blocks_ok :: "(nat \<times> nat \<Rightarrow> bool) \<Rightarrow> vdrive_t \<Rightarrow> (nat \<times> nat \<times> nat) list \<Rightarrow> bool" where
  "blocks_ok reach vd bl \<longleftrightarrow> distinct (map fst bl) \<and> distinct (map snd bl)
     \<and> (\<forall>b\<in>set bl. 256 dvd fst b \<and> fst b + 256 \<le> length (bam vd) \<and> reach (snd b))"

text \<open>Everything a list of writes leaves in the image, for every kind of image that keeps what is written.\<close>

context sector_store
begin

lemma write_blocks_kept:
  assumes "good (vd_image vd)" "holds_sectors (i_type (vd_image vd))" "blocks_ok (reach (vd_image vd)) vd bl"
  shows "\<exists>im'. write_blocks vd bl = Some (0, vd\<lparr>vd_image := im'\<rparr>) \<and> good im' \<and> i_type im' = i_type (vd_image vd)
    \<and> reach im' = reach (vd_image vd)
    \<and> (\<forall>b\<in>set bl. holds im' (snd b) (take 256 (drop (fst b) (bam vd))))
    \<and> (\<forall>y blk. reach (vd_image vd) y \<longrightarrow> y \<notin> snd ` set bl \<longrightarrow> holds (vd_image vd) y blk \<longrightarrow> holds im' y blk)"
  using assms
proof (induction bl arbitrary: vd)
  case Nil
  have "vd = vd\<lparr>vd_image := vd_image vd\<rparr>" by simp
  then show ?case using Nil by (intro exI[of _ "vd_image vd"]) simp
next
  case (Cons b bl)
  obtain off x where b: "b = (off, x)" by (cases b)
  let ?im = "vd_image vd" and ?buf = "take 256 (drop off (bam vd))"
  have ok: "off + 256 \<le> length (bam vd)" "reach ?im x" "blocks_ok (reach ?im) vd bl" "x \<notin> snd ` set bl"
    using Cons.prems(3) by (auto simp: b blocks_ok_def)
  have l: "length ?buf = 256" using ok(1) by simp
  obtain im1 where w1: "fsimage_dxx_write_sector ?im ?buf (fst x) (snd x) = Some (0, im1)" "good im1" "i_type im1 = i_type ?im"
    "reach im1 = reach ?im" "holds im1 x ?buf"
    and k1: "\<And>y blk. reach ?im y \<Longrightarrow> y \<noteq> x \<Longrightarrow> holds ?im y blk \<Longrightarrow> holds im1 y blk"
    using put[OF Cons.prems(1) ok(2) l] by blast
  define vd1 where "vd1 = vd\<lparr>vd_image := im1\<rparr>"
  have v1: "vd_image vd1 = im1" "bam vd1 = bam vd" "\<And>im'. vd1\<lparr>vd_image := im'\<rparr> = vd\<lparr>vd_image := im'\<rparr>"
    by (simp_all add: vd1_def)
  have p: "good (vd_image vd1)" "holds_sectors (i_type (vd_image vd1))" "blocks_ok (reach (vd_image vd1)) vd1 bl"
    using w1(2-4) ok(3) Cons.prems(2) by (simp_all add: v1 blocks_ok_def)
  obtain im' where im': "write_blocks vd1 bl = Some (0, vd\<lparr>vd_image := im'\<rparr>)" "good im'" "i_type im' = i_type ?im" "reach im' = reach ?im"
    "\<forall>b\<in>set bl. holds im' (snd b) (take 256 (drop (fst b) (bam vd)))"
    and k: "\<And>y blk. reach ?im y \<Longrightarrow> y \<notin> snd ` set bl \<Longrightarrow> holds im1 y blk \<Longrightarrow> holds im' y blk"
    using Cons.IH[OF p] unfolding v1 w1(3,4) by blast
  have w: "write_blocks vd (b # bl) = Some (0, vd\<lparr>vd_image := im'\<rparr>)"
    using w1(1) im'(1) ok(1) Cons.prems(2) by (cases x) (simp add: b vdrive_write_sector_def vd1_def)
  have "\<forall>b'\<in>set (b # bl). holds im' (snd b') (take 256 (drop (fst b') (bam vd)))"
    using im'(5) k[OF ok(2,4) w1(5)] by (simp add: b)
  moreover have "holds im' y blk" if y: "reach ?im y" "y \<notin> snd ` set (b # bl)" "holds ?im y blk" for y blk
    using k[OF y(1) _ k1[OF y(1) _ y(3)]] y(2) by (simp add: b)
  ultimately show ?case using w im'(2-4) by blast
qed

end

lemma take_drop_put:
  assumes "length blk = 256" "off + 256 \<le> length m" "off' + 256 \<le> off \<or> off + 256 \<le> off'"
  shows "take 256 (drop off' (take off m @ blk @ drop (off + 256) m)) = take 256 (drop off' m)"
  using assms(3)
proof
  assume "off' + 256 \<le> off"
  then show ?thesis using assms(1,2) by (simp add: drop_take)
next
  assume "off + 256 \<le> off'"
  then show ?thesis using assms(1,2) by simp
qed

lemma apart_256: "256 dvd a \<Longrightarrow> 256 dvd b \<Longrightarrow> a \<noteq> b \<Longrightarrow> a + 256 \<le> b \<or> b + 256 \<le> (a::nat)"
proof -
  assume "256 dvd a" "256 dvd b" "a \<noteq> b"
  then obtain k l where kl: "a = 256 * k" "b = 256 * l" by (auto elim!: dvdE)
  with \<open>a \<noteq> b\<close> have "k < l \<or> l < k" by auto
  then show ?thesis unfolding kl by linarith
qed

text \<open>Everything a list of reads leaves in the map.\<close>

definition blocks_read :: "byte list \<Rightarrow> byte list \<Rightarrow> (nat \<times> nat \<times> nat) list \<Rightarrow> byte list \<Rightarrow> bool" where
  "blocks_read old m0 bl m \<longleftrightarrow> length m = length m0
    \<and> (\<forall>b\<in>set bl. take 256 (drop (fst b) m) = take 256 (drop (fst b) old))
    \<and> (\<forall>off. 256 dvd off \<longrightarrow> off \<notin> fst ` set bl \<longrightarrow> take 256 (drop off m) = take 256 (drop off m0))"

lemma read_blocks_kept:
  assumes "holds_sectors (i_type (vd_image vd))" "blocks_ok reach vd bl"
    "\<forall>b\<in>set bl. holds (vd_image vd) (snd b) (take 256 (drop (fst b) old))" "length old = length (bam vd)"
  shows "\<exists>m. read_blocks vd bl = Some (0, vd\<lparr>bam := m\<rparr>) \<and> blocks_read old (bam vd) bl m"
  using assms
proof (induction bl arbitrary: vd)
  case Nil
  have "vd = vd\<lparr>bam := bam vd\<rparr>" by simp
  then show ?case by (intro exI[of _ "bam vd"]) (simp add: blocks_read_def)
next
  case (Cons b bl)
  obtain off t s where b: "b = (off, t, s)" by (cases b)
  let ?blk = "take 256 (drop off old)" and ?m = "take off (bam vd) @ take 256 (drop off old) @ drop (off + 256) (bam vd)"
  have ok: "off + 256 \<le> length (bam vd)" "blocks_ok reach vd bl" "off \<notin> set (map fst bl)" "256 dvd off"
    using Cons.prems(2) by (auto simp: b blocks_ok_def)
  have l: "length ?blk = 256" "length ?m = length (bam vd)" using ok(1) Cons.prems(4) by simp_all
  have r: "vdrive_read_sector vd (take 256 (drop off (bam vd))) t s = Some (0, ?blk)"
    using Cons.prems(1,3) ok(1) by (simp add: b vdrive_read_sector_def holds_def)
  define vd1 where "vd1 = vd\<lparr>bam := ?m\<rparr>"
  have v1: "vd_image vd1 = vd_image vd" "bam vd1 = ?m" "\<And>m. vd1\<lparr>bam := m\<rparr> = vd\<lparr>bam := m\<rparr>" by (simp_all add: vd1_def)
  have p: "holds_sectors (i_type (vd_image vd1))" "length old = length (bam vd1)"
    "\<forall>b\<in>set bl. holds (vd_image vd1) (snd b) (take 256 (drop (fst b) old))"
    using Cons.prems(1,3,4) l(2) unfolding v1 by simp_all
  have "blocks_ok reach vd1 bl" using ok(2) unfolding blocks_ok_def v1 l(2) .
  then obtain m where m: "read_blocks vd1 bl = Some (0, vd\<lparr>bam := m\<rparr>)" "blocks_read old ?m bl m"
    using Cons.IH[of vd1] p unfolding v1(2,3) by blast
  note m' = m(2)[unfolded blocks_read_def]
  have "read_blocks vd (b # bl) = Some (0, vd\<lparr>bam := m\<rparr>)" using r m(1) ok(1) by (simp add: b Let_def vd1_def)
  moreover have "blocks_read old (bam vd) (b # bl) m"
    unfolding blocks_read_def
  proof (intro conjI ballI allI impI)
    show "length m = length (bam vd)" using m' l(2) by argo
    show "take 256 (drop (fst x) m) = take 256 (drop (fst x) old)" if x: "x \<in> set (b # bl)" for x
    proof (cases "x \<in> set bl")
      case True
      then show ?thesis using m' by blast
    next
      case False
      then have "x = b" using x by simp
      moreover have "take 256 (drop off m) = take 256 (drop off ?m)" using m' ok(3,4) by simp
      ultimately show ?thesis using ok(1) l(1) by (simp add: b)
    qed
    show "take 256 (drop o' m) = take 256 (drop o' (bam vd))" if o: "256 dvd o'" "o' \<notin> fst ` set (b # bl)" for o'
    proof -
      have "o' \<noteq> off" "o' \<notin> fst ` set bl" using o(2) by (auto simp: b)
      then show ?thesis using m' o(1) take_drop_put[OF l(1) ok(1), of o'] apart_256[OF o(1) ok(4)] by metis
    qed
  qed
  ultimately show ?case by blast
qed


text \<open>A drive whose image has the format of its map.\<close>

definition fits_image :: "vdrive_t \<Rightarrow> bool" where
  "fits_image vd \<longleftrightarrow> length (bam vd) = bam_bytes (image_format vd) \<and> (image_format vd = F1571 \<longrightarrow> num_tracks vd = 70)
     \<and> (image_format vd, i_type (vd_image vd)) \<in> {(F1541, D64), (F1541, X64), (F2040, D67), (F1571, D71), (F1581, D81), (F8050, D80), (F8250, D82),
         (F4000, D1M), (F4000, D2M), (F4000, D4M)}"

lemmas sector_tables = img.check_nonneg image_tracks_def image_per_track_def disk_image_sector_per_track_def disk_image_speed_map_def Let_def
  sector_map_d64_def sector_map_d67_def sector_map_d80_def

lemma dvd_256: "256 dvd (512::nat)" "256 dvd (768::nat)" "256 dvd (1024::nat)"
  by presburger+

definition valid_place :: "fs_image \<Rightarrow> nat \<times> nat \<Rightarrow> bool" where
  "valid_place im x \<longleftrightarrow> 0 \<le> fsimage_check_sector im (fst x) (snd x)"

lemma bam_blocks_ok:
  assumes "fits_image vd"
  shows "blocks_ok (valid_place (vd_image vd)) vd (bam_blocks vd)" "blocks_ok (valid_place (vd_image vd)) vd (bam_write_blocks vd)"
    "set (bam_blocks vd) \<subseteq> set (bam_write_blocks vd)" "holds_sectors (i_type (vd_image vd))"
proof -
  show "blocks_ok (valid_place (vd_image vd)) vd (bam_blocks vd)" using assms
    by (cases "image_format vd")
      (auto simp: fits_image_def blocks_ok_def valid_place_def bam_blocks_def sector_tables bam_bytes_def dvd_256 distinct_map inj_on_def)
  show "blocks_ok (valid_place (vd_image vd)) vd (bam_write_blocks vd)" using assms
    by (cases "image_format vd")
      (auto simp: fits_image_def blocks_ok_def valid_place_def bam_write_blocks_def bam_blocks_def format_number_def sector_tables bam_bytes_def
        dvd_256 distinct_map inj_on_def)
  show "set (bam_blocks vd) \<subseteq> set (bam_write_blocks vd)" using assms
    by (cases "image_format vd") (auto simp: fits_image_def bam_write_blocks_def bam_blocks_def format_number_def)
  show "holds_sectors (i_type (vd_image vd))" using assms by (auto simp: fits_image_def holds_sectors_def)
qed

lemma blocks_ok_reach:
  "blocks_ok P vd bl \<Longrightarrow> \<forall>b\<in>set bl. P (snd b) \<longrightarrow> Q (snd b) \<Longrightarrow> blocks_ok Q vd bl"
  by (auto simp: blocks_ok_def)

lemma bare_usable: "bare im \<Longrightarrow> usable im \<and> (reachable im x \<longleftrightarrow> valid_place im x)"
  by (simp add: bare_def usable_def reachable_def in_map_def valid_place_def)

lemma length_read:
  assumes "bare (vd_image vd)" "vdrive_read_sector vd buf t s = Some (e, blk)" "length buf = 256"
  shows "length blk = 256"
  using assms by (auto simp: vdrive_read_sector_def fsimage_dxx_read_sector_def bare_def Let_def util_fpread_def map_entry_def split: if_splits)

lemma read_blocks_keeps:
  "bare (vd_image vd) \<Longrightarrow> \<forall>b\<in>set bl. 256 dvd fst b \<Longrightarrow> read_blocks vd bl = Some (e, vd') \<Longrightarrow>
    \<exists>m. vd' = vd\<lparr>bam := m\<rparr> \<and> length m = length (bam vd)
      \<and> (\<forall>off. 256 dvd off \<longrightarrow> off \<notin> fst ` set bl \<longrightarrow> take 256 (drop off m) = take 256 (drop off (bam vd)))"
proof (induction bl arbitrary: vd)
  case Nil
  have "vd = vd\<lparr>bam := bam vd\<rparr>" by simp
  then show ?case using Nil by (intro exI[of _ "bam vd"]) simp
next
  case (Cons b bl)
  obtain off t s where b: "b = (off, t, s)" by (cases b)
  have o: "off + 256 \<le> length (bam vd)" "256 dvd off" using Cons.prems(2,3) by (auto simp: b split: if_splits)
  obtain err blk where r: "vdrive_read_sector vd (take 256 (drop off (bam vd))) t s = Some (err, blk)"
    using Cons.prems(3) o(1) by (auto simp: b bind_eq_Some_conv)
  have l: "length blk = 256" using length_read[OF Cons.prems(1) r] o(1) by simp
  let ?m = "take off (bam vd) @ blk @ drop (off + 256) (bam vd)"
  have keep: "take 256 (drop o' ?m) = take 256 (drop o' (bam vd))" if "256 dvd o'" "o' \<noteq> off" for o'
    using take_drop_put[OF l o(1), of o'] apart_256[OF that(1) o(2) that(2)] by blast
  show ?case
  proof (cases "err = 0")
    case False
    then have "vd' = vd\<lparr>bam := ?m\<rparr>" using Cons.prems(3) r o(1) by (simp add: b Let_def)
    then show ?thesis using keep l o(1) by (intro exI[of _ ?m]) (auto simp: b)
  next
    case True
    define vd1 where "vd1 = vd\<lparr>bam := ?m\<rparr>"
    have v1: "vd_image vd1 = vd_image vd" "bam vd1 = ?m" "\<And>m. vd1\<lparr>bam := m\<rparr> = vd\<lparr>bam := m\<rparr>" by (simp_all add: vd1_def)
    have "read_blocks vd1 bl = Some (e, vd')" using Cons.prems(3) r o(1) True by (simp add: b Let_def vd1_def)
    moreover have "bare (vd_image vd1)" "\<forall>b\<in>set bl. 256 dvd fst b" using Cons.prems(1,2) unfolding v1(1) by simp_all
    ultimately obtain m where m: "vd' = vd\<lparr>bam := m\<rparr>" "length m = length ?m"
      "\<forall>off. 256 dvd off \<longrightarrow> off \<notin> fst ` set bl \<longrightarrow> take 256 (drop off m) = take 256 (drop off ?m)"
      using Cons.IH[of vd1] unfolding v1(2,3) by blast
    moreover have "length ?m = length (bam vd)" using l o(1) by simp
    moreover have "take 256 (drop o' m) = take 256 (drop o' (bam vd))" if "256 dvd o'" "o' \<notin> fst ` set (b # bl)" for o'
      using m(3) keep[OF that(1)] that by (simp add: b)
    ultimately show ?thesis by (intro exI[of _ m]) simp
  qed
qed

subsection \<open>The properties\<close>

definition example_vdrive :: vdrive_t where
  "example_vdrive = \<lparr>image_format = F1541, num_tracks = 35, Bam_Track = 18, Bam_Sector = 0, Dir_Track = 18, Dir_Sector = 1,
     bam_name = 144, bam_id = 162, bam_size = 256, bam = replicate 256 0xFF, vd_image = example_image\<lparr>gcr_tracks := None\<rparr>\<rparr>"

lemma example_vdrive_facts:
  "bam_wf example_vdrive" "on_disk example_vdrive (17, 3)" "(17, 3) \<in> free_sectors example_vdrive" "(1, 0) \<in> free_sectors example_vdrive"
  "Bam_Track example_vdrive = 18" "Dir_Track example_vdrive = 18" "image_format example_vdrive = F1541" "num_tracks example_vdrive = 35"
  by (simp_all add: example_vdrive_def bam_wf_def bam_bytes_def bam_tracks_def vdrive_set_disk_geometry_def bam_bounds_def
      free_sectors_def on_disk_def bam_bit_def bam_sector_def bam_entry_def vdrive_get_max_sectors_def disk_image_sector_per_track_def
      disk_image_speed_map_def sector_map_d64_def)

text \<open>
  C5: the map is a set of free sectors: taking a sector says whether it was free and removes it, freeing
  says whether it was taken and adds it, whatever the format; the map stays well formed and its counts,
  where it has them, stay right.
\<close>

theorem bam_refines_free_set:
  assumes "bam_wf vd" "on_disk vd (t, s)"
  shows "(\<exists>vd'. vdrive_bam_allocate_sector vd t s = Some ((t, s) \<in> free_sectors vd, vd') \<and> bam_wf vd'
        \<and> free_sectors vd' = free_sectors vd - {(t, s)} \<and> (counts_ok vd \<longrightarrow> counts_ok vd'))
    \<and> (\<exists>vd'. vdrive_bam_free_sector vd t s = Some ((t, s) \<notin> free_sectors vd, vd') \<and> bam_wf vd'
        \<and> free_sectors vd' = insert (t, s) (free_sectors vd) \<and> (counts_ok vd \<longrightarrow> counts_ok vd'))"
proof (cases "bam_bit vd (t, s)")
  case True
  then have f: "(t, s) \<in> free_sectors vd" using free_sectors_bit[OF assms(2)] by simp
  obtain vd' where a: "vdrive_bam_allocate_sector vd t s = Some (True, vd')" "bam_after vd (t, s) False vd'"
    using allocate_wf(2)[OF assms True] by blast
  have "counts_ok vd \<longrightarrow> counts_ok vd'" using counts_after[OF assms(1) a(2) assms(2)] f by blast
  then show ?thesis using a f free_wf(1)[OF assms True] bam_after_wf(1)[OF assms(1) a(2)] bam_after_free[OF assms(1) a(2) assms(2)] assms(1)
    by (simp add: insert_absorb)
next
  case False
  then have f: "(t, s) \<notin> free_sectors vd" using free_sectors_bit[OF assms(2)] by simp
  obtain vd' where a: "vdrive_bam_free_sector vd t s = Some (True, vd')" "bam_after vd (t, s) True vd'"
    using free_wf(2)[OF assms False] by blast
  have "counts_ok vd \<longrightarrow> counts_ok vd'" using counts_after[OF assms(1) a(2) assms(2)] f by blast
  then show ?thesis using a f allocate_wf(1)[OF assms False] bam_after_wf(1)[OF assms(1) a(2)] bam_after_free[OF assms(1) a(2) assms(2)] assms(1)
    by simp
qed

theorem bam_refines_free_set_witness:
  "\<exists>vd'. vdrive_bam_allocate_sector example_vdrive 17 3 = Some (True, vd') \<and> (17, 3) \<notin> free_sectors vd'"
  using bam_refines_free_set[OF example_vdrive_facts(1,2)] example_vdrive_facts(3) by auto

text \<open>
  C32: The free blocks the drive shows are the free sectors outside the directory track (and, on a 1571, the track of the second
  map; on a 4000, outside the first 64 sectors of its first track). The 4000 counts the bits of the map and needs nothing; the other formats
  add up the count bytes of the tracks, and the number is right when each of these is the number of free sectors
  of its track, which taking and freeing sectors keeps so (C5). A disk that keeps other bytes there
  shows their sum.
\<close>

theorem free_block_count_is_card:
  assumes "bam_wf vd" "image_format vd = F4000 \<or> counts_ok vd"
  shows "vdrive_bam_free_block_count vd = Some (card {x \<in> free_sectors vd. counted vd x})"
  by (rule free_count[OF assms])

text \<open>A 1541 disk with three free sectors on track 1 and one on track 18, the directory.\<close>

definition four_map :: "byte list" where
  "four_map = (replicate 256 0)[4 := 3, 5 := 7, 72 := 1, 73 := 1]"

lemma four_map: "length four_map = 256" "i < 256 \<Longrightarrow> four_map ! i = (if i = 4 then 3 else if i = 5 then 7 else if i = 72 \<or> i = 73 then 1 else 0)"
  unfolding four_map_def by (simp_all only: length_list_update length_replicate nth_list_update nth_replicate) auto

definition example_four :: vdrive_t where
  "example_four = example_vdrive\<lparr>bam := four_map\<rparr>"

lemma example_four_facts:
  "bam_wf example_four" "free_sectors example_four = {(1, 0), (1, 1), (1, 2), (18, 0)}" "counts_ok example_four"
proof -
  have f: "image_format example_four = F1541" "num_tracks example_four = 35" "bam example_four = four_map"
    by (simp_all add: example_four_def example_vdrive_def)
  show wf: "bam_wf example_four"
    by (simp add: four_map(1) example_four_def bam_wf_def bam_tracks_def example_vdrive_def bam_bytes_def vdrive_set_disk_geometry_def bam_bounds_def)
  have b: "bam_bit example_four (t, s) \<longleftrightarrow> (t = 1 \<and> s < 3) \<or> (t = 18 \<and> s = 0)" if "1 \<le> t" "t \<le> 35" "s < 24" for t s
  proof -
    have p: "4 * t + 1 + s div 8 < 256" "4 * t + 1 + s div 8 \<noteq> 4" "4 * t + 1 + s div 8 \<noteq> 72"
      "4 * t + 1 + s div 8 = 5 \<longleftrightarrow> t = 1 \<and> s < 8" "4 * t + 1 + s div 8 = 73 \<longleftrightarrow> t = 18 \<and> s < 8"
    proof -
      have q: "4 * t + 1 + d \<noteq> 72 \<and> (4 * t + 1 + d = 5 \<longleftrightarrow> t = 1 \<and> d = 0) \<and> (4 * t + 1 + d = 73 \<longleftrightarrow> t = 18 \<and> d = 0)" if "d \<le> 2" for d :: nat
        using that by presburger
      have d: "s div 8 \<le> 2" "s < 8 \<longleftrightarrow> s div 8 = 0" using that by auto
      show "4 * t + 1 + s div 8 < 256" "4 * t + 1 + s div 8 \<noteq> 4" "4 * t + 1 + s div 8 \<noteq> 72" using q[OF d(1)] d(1) that by linarith+
      show "4 * t + 1 + s div 8 = 5 \<longleftrightarrow> t = 1 \<and> s < 8" "4 * t + 1 + s div 8 = 73 \<longleftrightarrow> t = 18 \<and> s < 8"
        unfolding d(2) using q[OF d(1)] by blast+
    qed
    have "four_map ! (4 * t + 1 + s div 8) = (if t = 1 \<and> s < 8 then 7 else if t = 18 \<and> s < 8 then 1 else 0)"
      unfolding four_map(2)[OF p(1)] p(4,5) using p(2,3) by simp
    moreover have "bam_bit example_four (t, s) = bit (four_map ! (4 * t + 1 + s div 8)) (s mod 8)"
      using that(2) by (simp add: bam_bit_def f bam_entry_def bam_sector_def)
    moreover have "bit (7 :: byte) n \<longleftrightarrow> n < 3" for n
      using bit_mask_iff[of 3 n, where 'a = byte] by (auto simp: mask_numeral)
    ultimately have "bam_bit example_four (t, s) \<longleftrightarrow> (if t = 1 \<and> s < 8 then s mod 8 < 3 else t = 18 \<and> s < 8 \<and> s mod 8 = 0)"
      by (auto simp: bit_1_iff)
    then show ?thesis by auto
  qed
  have on: "on_disk example_four (t, s) \<Longrightarrow> 1 \<le> t \<and> t \<le> 35 \<and> s < 24" for t s
    using zone_bound(1)[of t] by (auto simp: on_disk_def f vdrive_get_max_sectors_def)
  have in': "on_disk example_four (t, s)" if "(t, s) \<in> {(1, 0), (1, 1), (1, 2), (18, 0)}" for t s
    using that by (auto simp: on_disk_def f vdrive_get_max_sectors_def disk_image_sector_per_track_def disk_image_speed_map_def sector_map_d64_def)
  show free: "free_sectors example_four = {(1, 0), (1, 1), (1, 2), (18, 0)}"
    using on b in' by (auto simp: free_sectors_def less_Suc_eq numeral_3_eq_3)
  have "track_frees example_four t = (if t = 1 then {0, 1, 2} else if t = 18 then {0} else {})" for t
    by (auto simp: track_frees_def free)
  then show "counts_ok example_four"
    by (auto simp: counts_ok_def f bam_count_def bam_entry_def four_map(2))
qed

theorem free_block_count_is_card_witness:
  "vdrive_bam_free_block_count example_four = Some 3 \<and> card (free_sectors example_four) = 4"
proof -
  have "counted example_four x \<longleftrightarrow> fst x \<noteq> 18" for x
    by (simp add: counted_def uncounted_def example_four_def example_vdrive_facts)
  then have "{x \<in> free_sectors example_four. counted example_four x} = {(1, 0), (1, 1), (1, 2)}"
    unfolding example_four_facts(2) by auto
  then show ?thesis using free_block_count_is_card[of example_four] example_four_facts by simp
qed

text \<open>
  C13: The search for the next sector of a file, started at a sector outside the directory track (on a 4000: outside its first 64
  sectors), finds one whenever a sector outside the directory track is free, and takes a free sector and no other. Started
  inside, as B-A does for a sector of track 18 that is taken, it gives up at once and changes nothing.
\<close>

theorem next_free_sector_found:
  assumes "bam_wf vd" "on_disk vd (t, s)" "x \<in> free_sectors vd" "fst x \<noteq> Dir_Track vd"
  shows "if t = Bam_Track vd \<and> (image_format vd \<noteq> F4000 \<or> s < 64)
    then vdrive_bam_alloc_next_free_sector vd t s = Some (None, vd)
    else \<exists>y vd'. vdrive_bam_alloc_next_free_sector vd t s = Some (Some y, vd') \<and> y \<in> free_sectors vd
      \<and> bam_wf vd' \<and> free_sectors vd' = free_sectors vd - {y}"
proof (cases "t = Bam_Track vd \<and> (image_format vd \<noteq> F4000 \<or> s < 64)")
  case True
  then show ?thesis by (simp add: vdrive_bam_alloc_next_free_sector_def)
next
  case False
  have "x \<in> set (next_order vd t s)" using next_order_covers[of vd "fst x" "snd x"] assms(3,4) by (simp add: free_sectors_def)
  then have "\<exists>y vd'. vdrive_bam_alloc_next_free_sector vd t s = Some (Some y, vd') \<and> y \<in> free_sectors vd
      \<and> bam_wf vd' \<and> free_sectors vd' = free_sectors vd - {y}"
    unfolding alloc_next_first[OF assms(1,2) False] using next_order_on_disk[OF assms(1,2)] by (intro take_first_finds[OF assms(1) _ _ assms(3)]) auto
  then show ?thesis unfolding if_not_P[OF False] .
qed

theorem next_free_sector_found_witness:
  "(\<exists>y vd'. vdrive_bam_alloc_next_free_sector example_vdrive 17 3 = Some (Some y, vd') \<and> y \<in> free_sectors example_vdrive)
    \<and> vdrive_bam_alloc_next_free_sector example_vdrive 18 0 = Some (None, example_vdrive)"
proof -
  have "on_disk example_vdrive (18, 0)"
    by (simp add: example_vdrive_def on_disk_def vdrive_get_max_sectors_def disk_image_sector_per_track_def disk_image_speed_map_def sector_map_d64_def)
  from next_free_sector_found[OF example_vdrive_facts(1) this example_vdrive_facts(4)]
    next_free_sector_found[OF example_vdrive_facts(1,2,4)]
  show ?thesis by (auto simp: example_vdrive_facts(5-8))
qed

text \<open>
  On an 8250 the search for the first sector of a file stops 39 tracks from the directory: with every
  sector of the first 78 tracks taken it reports a full disk, however many of tracks 79 to 154 are free.
\<close>

theorem first_free_sector_8250:
  assumes "bam_wf vd" "image_format vd = F8250" "\<forall>x\<in>free_sectors vd. fst x = 39 \<or> fst x > 78"
  shows "vdrive_bam_alloc_first_free_sector vd = Some (None, vd)"
proof -
  have b: "Bam_Track vd = 39" using bam_tracks_of(1,4)[OF assms(1)] assms(2) by simp
  have "x \<notin> free_sectors vd" if "x \<in> set (in_order (first_free_order vd))" for x
  proof -
    have "fst x \<noteq> 39" "fst x \<le> 78"
      using that assms(2) first_order_iff[of "fst x" "snd x" vd] b by (auto simp: vdrive_calculate_disk_half_def)
    then show ?thesis using assms(3) by force
  qed
  then show ?thesis unfolding alloc_first_first[OF assms(1)] by (intro take_first_none) blast
qed

definition example_8250 :: vdrive_t where
  "example_8250 = \<lparr>image_format = F8250, num_tracks = 154, Bam_Track = 39, Bam_Sector = 0, Dir_Track = 39, Dir_Sector = 1,
     bam_name = 6, bam_id = 24, bam_size = 0x500,
     bam = fold (\<lambda>(i, b) m. m[i := b]) (bam_bounds F8250) (replicate 0x500 0), vd_image = example_image\<rparr>"

lemma example_8250_full: "bam_wf example_8250" "free_sectors example_8250 = {}"
proof -
  show wf: "bam_wf example_8250"
    by (simp add: example_8250_def bam_wf_def bam_bytes_def bam_tracks_def vdrive_set_disk_geometry_def bam_bounds_def)
  have z: "bam example_8250 ! i = 0" if "i \<notin> fst ` set (bam_bounds F8250)" "i < 0x500" for i
    using that by (simp add: example_8250_def bam_bounds_def)
  have "\<not> bam_bit example_8250 (t, s)" if "on_disk example_8250 (t, s)" for t s
  proof -
    have "1 \<le> t" "t \<le> bam_tracks F8250" using on_disk_track[OF wf that] by (simp_all add: example_8250_def)
    moreover have "bam_sector example_8250 s < 8 * bam_width F8250"
      using sector_in_bitmap[of s example_8250 t] that by (simp add: on_disk_def example_8250_def)
    ultimately show ?thesis
      using layout.places_inside(1,3)[of t F8250] z by (simp add: bam_bit_def bam_bytes_def) (simp add: example_8250_def)
  qed
  then show "free_sectors example_8250 = {}" by (auto simp: free_sectors_def)
qed

theorem first_free_sector_8250_witness: "vdrive_bam_alloc_first_free_sector example_8250 = Some (None, example_8250)"
  using first_free_sector_8250[OF example_8250_full(1)] by (simp add: example_8250_full(2)) (simp add: example_8250_def)

text \<open>
  C27: marking the chain of a file ends on every image, whatever the links of its sectors: a sector that was
  marked is not free when the chain returns to it.
\<close>

theorem allocate_chain_ends: "\<exists>r. vdrive_bam_allocate_chain vd t s = Some r"
  by (rule chain_ends)



definition example_d80 :: fs_image where
  "example_d80 = \<lparr>i_type = D80, i_tracks = 77, i_max_half_tracks = 154, fs_file = replicate 533248 0, fs_writable = True,
     error_map = None, error_dirty = False, gcr_tracks = None\<rparr>"

text \<open>
  C35: on an 8050, whose map has three blocks, writing the map also writes the fourth and fifth of an 8250,
  because the format is compared with the number 8050: sectors 38/6 and 38/9, which belong to files, get
  what the uninitialised end of the map held when the image was attached.
\<close>

theorem bam_write_8050_clobbers:
  assumes "bare im" "i_type im = D80" "length fresh = 0x500" "length buf = 256"
    "vdrive_attach_image im fresh vd = Some (rc, vd1)"
  shows "\<exists>vd2. vdrive_bam_write_bam vd1 = Some (0, vd2)
    \<and> vdrive_read_sector vd2 buf 38 6 = Some (0, take 256 (drop 768 fresh))
    \<and> vdrive_read_sector vd2 buf 38 9 = Some (0, take 256 (drop 1024 fresh))"
proof -
  define vd0 where "vd0 = (vdrive_set_disk_geometry (vd\<lparr>image_format := F8050, num_tracks := i_tracks im, bam_size := 0x500\<rparr>))
      \<lparr>vd_image := im, bam := fresh\<rparr>"
  have v0: "image_format vd0 = F8050" "vd_image vd0 = im" "bam vd0 = fresh" by (simp_all add: vd0_def vdrive_set_disk_geometry_def)
  have "bam_size (vdrive_set_disk_geometry (vd\<lparr>image_format := F8050, num_tracks := i_tracks im, bam_size := 0x500\<rparr>)) = 0x500"
    by (simp add: vdrive_set_disk_geometry_def)
  then obtain e where e: "read_blocks vd0 (bam_blocks vd0) = Some (e, vd1)"
    using assms(2,3,5) by (auto simp: vdrive_attach_image_def vdrive_format_def Let_def vdrive_bam_read_bam_def vd0_def)
  have d: "\<forall>b\<in>set (bam_blocks vd0). 256 dvd fst b" by (simp add: bam_blocks_def v0 dvd_256)
  have far: "768 \<notin> fst ` set (bam_blocks vd0)" "1024 \<notin> fst ` set (bam_blocks vd0)" by (simp_all add: bam_blocks_def v0)
  have b0: "bare (vd_image vd0)" using assms(1) by (simp add: v0)
  obtain m where m: "vd1 = vd0\<lparr>bam := m\<rparr>" "length m = length fresh"
    "take 256 (drop 768 m) = take 256 (drop 768 fresh)" "take 256 (drop 1024 m) = take 256 (drop 1024 fresh)"
    using read_blocks_keeps[OF b0 d e] dvd_256 far unfolding v0 by blast
  have v1: "image_format vd1 = F8050" "vd_image vd1 = im" "bam vd1 = m" by (simp_all add: m(1) v0)
  have fits: "fits_image vd1" using assms(2,3) m(2) by (simp add: fits_image_def v1 bam_bytes_def)
  have okw: "blocks_ok (reachable (vd_image vd1)) vd1 (bam_write_blocks vd1)"
    using blocks_ok_reach[OF bam_blocks_ok(2)[OF fits]] bare_usable[OF assms(1)] unfolding v1 by blast
  obtain im' where w: "vdrive_bam_write_bam vd1 = Some (0, vd1\<lparr>vd_image := im'\<rparr>)" "i_type im' = i_type im"
    "\<forall>b\<in>set (bam_write_blocks vd1). holds im' (snd b) (take 256 (drop (fst b) m))"
    using image_store.write_blocks_kept[OF _ bam_blocks_ok(4)[OF fits] okw] bare_usable[OF assms(1)] unfolding vdrive_bam_write_bam_def v1 by blast
  have read: "vdrive_read_sector (vd1\<lparr>vd_image := im'\<rparr>) buf t s = Some (0, take 256 (drop off m))"
    if "(off, t, s) \<in> set (bam_write_blocks vd1)" for off t s
    using w(2,3) that assms(2,4) by (force simp: vdrive_read_sector_def holds_sectors_def holds_def)
  have "(768, 38, 6) \<in> set (bam_write_blocks vd1)" "(1024, 38, 9) \<in> set (bam_write_blocks vd1)"
    by (simp_all add: bam_write_blocks_def v1 format_number_def)
  then show ?thesis using read w(1) m(3,4) by metis
qed

lemma example_d80_facts: "bare example_d80" "i_type example_d80 = D80"
  by (simp_all add: example_d80_def bare_def holds_sectors_def)

lemma example_d80_holds: "x \<in> {(39, 0), (38, 0), (38, 3)} \<Longrightarrow> holds example_d80 x (replicate 256 0)"
proof -
  assume x: "x \<in> {(39, 0), (38, 0), (38, 3)}"
  have "sector_index example_d80 (39, 0) < 2083" "sector_index example_d80 (38, 0) < 2083" "sector_index example_d80 (38, 3) < 2083"
    by (simp_all add: sector_index_def fsimage_check_sector_def example_d80_def zoned_sector_def sectors_below_def upt_rec
        disk_image_sector_per_track_def disk_image_speed_map_def sector_map_d80_def)
  then have "sector_index example_d80 x < 2083" using x by auto
  moreover have "in_map example_d80 x" using x by (auto simp: in_map_def example_d80_def sector_tables)
  ultimately show ?thesis
    using file_holds[of example_d80 x "replicate 256 0"]
    by (simp add: example_d80_def sector_offset_def file_sector_def status_at_def ipe_ok)
qed

lemma example_d80_attach: "\<exists>vd1. vdrive_attach_image example_d80 (replicate 0x500 0xAA) example_vdrive = Some (0, vd1)"
proof -
  define vd1 where "vd1 = vdrive_set_disk_geometry (example_vdrive\<lparr>image_format := F8050, num_tracks := 77, bam_size := 0x500\<rparr>)"
  define vd2 where "vd2 = vd1\<lparr>vd_image := example_d80, bam := replicate 0x500 0xAA\<rparr>"
  have v1: "image_format vd1 = F8050" "bam_size vd1 = 0x500" by (simp_all add: vd1_def vdrive_set_disk_geometry_def)
  have v2: "image_format vd2 = F8050" "vd_image vd2 = example_d80" "bam vd2 = replicate 0x500 0xAA" by (simp_all add: vd2_def v1)
  have fits: "fits_image vd2" by (simp add: fits_image_def v2 bam_bytes_def) (simp add: example_d80_def)
  have st: "\<forall>b\<in>set (bam_blocks vd2). holds (vd_image vd2) (snd b) (take 256 (drop (fst b) (replicate 0x500 0)))"
    using example_d80_holds by (simp add: bam_blocks_def v2)
  obtain m where "read_blocks vd2 (bam_blocks vd2) = Some (0, vd2\<lparr>bam := m\<rparr>)"
    using read_blocks_kept[OF bam_blocks_ok(4,1)[OF fits] st] by (auto simp: v2)
  then have "vdrive_bam_read_bam vd2 = Some (0, vd2\<lparr>bam := m\<rparr>)" by (simp add: vdrive_bam_read_bam_def)
  moreover have "vdrive_format example_d80 example_vdrive = Some (example_vdrive\<lparr>image_format := F8050, num_tracks := 77, bam_size := 0x500\<rparr>)"
    by (simp add: vdrive_format_def example_d80_def)
  ultimately show ?thesis unfolding vd2_def vd1_def by (simp add: vdrive_attach_image_def Let_def)
qed

theorem bam_write_8050_clobbers_witness:
  "\<exists>vd1 vd2. vdrive_attach_image example_d80 (replicate 0x500 0xAA) example_vdrive = Some (0, vd1)
    \<and> vdrive_bam_write_bam vd1 = Some (0, vd2) \<and> vdrive_read_sector vd2 (replicate 256 0) 38 6 = Some (0, replicate 256 0xAA)"
proof -
  obtain vd1 where a: "vdrive_attach_image example_d80 (replicate 0x500 0xAA) example_vdrive = Some (0, vd1)"
    using example_d80_attach by blast
  from bam_write_8050_clobbers[OF example_d80_facts _ _ a, of "replicate 256 0"]
  show ?thesis using a by auto
qed

end
