(* ===== verification/Flash040.thy ===== *)
theory Flash040
  imports Alarm
begin

text \<open>
  The flash memory of cartridges, \<open>core/flash040core.c\<close>: the command state machine of the 29F040 family, the
  programming of bytes and the erasing of sectors, which the alarm of the chip does in its time. \<open>None\<close> is an
  access outside a buffer.
\<close>

subsection \<open>The code\<close>

datatype flash040_type = TYPE_NORMAL | TYPE_B | TYPE_010 | TYPE_032B_A0_1_SWAP | TYPE_064

datatype flash040_state =
  STATE_READ | STATE_MAGIC_1 | STATE_MAGIC_2 | STATE_AUTOSELECT | STATE_BYTE_PROGRAM | STATE_BYTE_PROGRAM_ERROR
  | STATE_ERASE_MAGIC_1 | STATE_ERASE_MAGIC_2 | STATE_ERASE_SELECT | STATE_CHIP_ERASE | STATE_SECTOR_ERASE
  | STATE_SECTOR_ERASE_TIMEOUT | STATE_SECTOR_ERASE_SUSPEND

definition ERASE_SECTOR_TIMEOUT_CYCLES :: clock where "ERASE_SECTOR_TIMEOUT_CYCLES = 50"
definition ERASE_SECTOR_CYCLES :: clock where "ERASE_SECTOR_CYCLES = 1012"
definition ERASE_CHIP_CYCLES :: clock where "ERASE_CHIP_CYCLES = 8192"
definition FLASH040_ERASE_MASK_SIZE :: nat where "FLASH040_ERASE_MASK_SIZE = 8"

record flash_types_t =
  manufacturer_ID :: byte
  device_ID :: byte
  device_ID_addr :: nat
  flash_size :: nat
  sector_mask :: nat
  sector_size :: nat
  sector_shift :: nat
  magic_1_addr :: nat
  magic_2_addr :: nat
  magic_1_mask :: nat
  magic_2_mask :: nat
  status_toggle_bits :: byte

definition flash_types :: "flash040_type \<Rightarrow> flash_types_t" where
  "flash_types ty =
     (case ty of
        TYPE_NORMAL \<Rightarrow>
          \<lparr>manufacturer_ID = 0x01, device_ID = 0xA4, device_ID_addr = 1, flash_size = 0x80000,
           sector_mask = 0x70000, sector_size = 0x10000, sector_shift = 16,
           magic_1_addr = 0x5555, magic_2_addr = 0x2AAA, magic_1_mask = 0x7FFF, magic_2_mask = 0x7FFF, status_toggle_bits = 0x40\<rparr>
      | TYPE_B \<Rightarrow>
          \<lparr>manufacturer_ID = 0x01, device_ID = 0xA4, device_ID_addr = 1, flash_size = 0x80000,
           sector_mask = 0x70000, sector_size = 0x10000, sector_shift = 16,
           magic_1_addr = 0x555, magic_2_addr = 0x2AA, magic_1_mask = 0x7FF, magic_2_mask = 0x7FF, status_toggle_bits = 0x40\<rparr>
      | TYPE_010 \<Rightarrow>
          \<lparr>manufacturer_ID = 0x01, device_ID = 0x20, device_ID_addr = 1, flash_size = 0x20000,
           sector_mask = 0x1C000, sector_size = 0x04000, sector_shift = 14,
           magic_1_addr = 0x5555, magic_2_addr = 0x2AAA, magic_1_mask = 0x7FFF, magic_2_mask = 0x7FFF, status_toggle_bits = 0x40\<rparr>
      | TYPE_032B_A0_1_SWAP \<Rightarrow>
          \<lparr>manufacturer_ID = 0x01, device_ID = 0x41, device_ID_addr = 1, flash_size = 0x400000,
           sector_mask = 0x3F0000, sector_size = 0x10000, sector_shift = 16,
           magic_1_addr = 0x556, magic_2_addr = 0x2A9, magic_1_mask = 0x7FF, magic_2_mask = 0x7FF, status_toggle_bits = 0x44\<rparr>
      | TYPE_064 \<Rightarrow>
          \<lparr>manufacturer_ID = 0x01, device_ID = 0x7E, device_ID_addr = 2, flash_size = 0x800000,
           sector_mask = 0x7F0000, sector_size = 0x10000, sector_shift = 16,
           magic_1_addr = 0xAAA, magic_2_addr = 0x555, magic_1_mask = 0xFFF, magic_2_mask = 0xFFF, status_toggle_bits = 0x40\<rparr>)"

text \<open>The alarm is its number in the alarm context of the CPU.\<close>

record flash040_context_t =
  flash_data :: "byte list"
  flash_state :: flash040_state
  flash_base_state :: flash040_state
  program_byte :: byte
  erase_mask :: "byte list"
  flash_dirty :: bool
  flash_type :: flash040_type
  last_read :: byte
  erase_alarm :: nat

type_synonym flash_machine = "flash040_context_t \<times> alarm_context"

definition flash_magic_1 :: "flash040_type \<Rightarrow> nat \<Rightarrow> bool" where
  "flash_magic_1 ty addr \<longleftrightarrow> addr AND magic_1_mask (flash_types ty) = magic_1_addr (flash_types ty)"

definition flash_magic_2 :: "flash040_type \<Rightarrow> nat \<Rightarrow> bool" where
  "flash_magic_2 ty addr \<longleftrightarrow> addr AND magic_2_mask (flash_types ty) = magic_2_addr (flash_types ty)"

definition flash_clear_erase_mask :: "flash040_context_t \<Rightarrow> flash040_context_t" where
  "flash_clear_erase_mask f = f\<lparr>erase_mask := replicate FLASH040_ERASE_MASK_SIZE 0\<rparr>"

definition flash_sector_to_addr :: "flash040_type \<Rightarrow> nat \<Rightarrow> nat" where
  "flash_sector_to_addr ty sector = sector * sector_size (flash_types ty)"

definition flash_addr_to_sector_number :: "flash040_type \<Rightarrow> nat \<Rightarrow> nat" where
  "flash_addr_to_sector_number ty addr = drop_bit (sector_shift (flash_types ty)) (sector_mask (flash_types ty) AND addr)"

definition flash_add_sector_to_erase_mask :: "nat \<Rightarrow> flash040_context_t \<Rightarrow> flash040_context_t option" where
  "flash_add_sector_to_erase_mask addr f =
     (let sector_num = flash_addr_to_sector_number (flash_type f) addr; j = drop_bit 3 sector_num
      in if j < length (erase_mask f)
         then Some (f\<lparr>erase_mask := (erase_mask f)[j := erase_mask f ! j OR push_bit (sector_num AND 7) 1]\<rparr>)
         else None)"

definition flash_fill :: "nat \<Rightarrow> nat \<Rightarrow> flash040_context_t \<Rightarrow> flash040_context_t option" where
  "flash_fill start n f =
     (if start + n \<le> length (flash_data f)
      then Some (f\<lparr>flash_data := take start (flash_data f) @ replicate n 0xFF @ drop (start + n) (flash_data f), flash_dirty := True\<rparr>)
      else None)"

definition flash_erase_sector :: "nat \<Rightarrow> flash040_context_t \<Rightarrow> flash040_context_t option" where
  "flash_erase_sector sector f = flash_fill (flash_sector_to_addr (flash_type f) sector) (sector_size (flash_types (flash_type f))) f"

definition flash_erase_chip :: "flash040_context_t \<Rightarrow> flash040_context_t option" where
  "flash_erase_chip f = flash_fill 0 (flash_size (flash_types (flash_type f))) f"

definition flash_program_byte :: "nat \<Rightarrow> byte \<Rightarrow> flash040_context_t \<Rightarrow> (bool \<times> flash040_context_t) option" where
  "flash_program_byte addr b f =
     (if addr < length (flash_data f)
      then (let new_data = flash_data f ! addr AND b
            in Some (new_data = b, f\<lparr>program_byte := b, flash_data := (flash_data f)[addr := new_data], flash_dirty := True\<rparr>))
      else None)"

definition flash_write_operation_status :: "clock \<Rightarrow> flash040_context_t \<Rightarrow> byte" where
  "flash_write_operation_status clk f =
     ((program_byte f XOR 0x80) AND 0x80) OR ucast (push_bit 5 (clk AND 2)) OR push_bit 5 1"

definition flash_erase_operation_status :: "flash040_context_t \<Rightarrow> byte \<times> flash040_context_t" where
  "flash_erase_operation_status f =
     (program_byte f OR (if flash_state f \<noteq> STATE_SECTOR_ERASE_TIMEOUT then 0x08 else 0),
      f\<lparr>program_byte := program_byte f XOR status_toggle_bits (flash_types (flash_type f))\<rparr>)"

text \<open>The alarm erases the sector with the lowest number in the mask, and is set again while there are more.\<close>

definition mask_bit :: "byte list \<Rightarrow> nat \<Rightarrow> bool" where
  "mask_bit m i = (m ! drop_bit 3 i AND push_bit (i AND 7) 1 \<noteq> 0)"

definition flash_erase_next :: "flash040_context_t \<Rightarrow> flash040_context_t option" where
  "flash_erase_next f =
     (case find (mask_bit (erase_mask f)) [0..<8 * FLASH040_ERASE_MASK_SIZE] of
        None \<Rightarrow> Some f
      | Some i \<Rightarrow>
          map_option (\<lambda>f. f\<lparr>erase_mask := (erase_mask f)[drop_bit 3 i := erase_mask f ! drop_bit 3 i AND NOT (push_bit (i AND 7) 1)]\<rparr>)
            (flash_erase_sector i f))"

definition erase_alarm_handler :: "clock \<Rightarrow> flash_machine \<Rightarrow> flash_machine option" where
  "erase_alarm_handler clk = (\<lambda>(f, c0).
     let c = alarm_unset (erase_alarm f) c0
     in if flash_state f = STATE_SECTOR_ERASE_TIMEOUT \<or> flash_state f = STATE_SECTOR_ERASE
        then map_option (\<lambda>f.
            if fold (OR) (erase_mask f) 0 \<noteq> 0 then (f, alarm_set (erase_alarm f) (clk + ERASE_SECTOR_CYCLES) c)
            else (f\<lparr>flash_state := flash_base_state f\<rparr>, c)) (flash_erase_next f)
        else if flash_state f = STATE_CHIP_ERASE
        then map_option (\<lambda>f. (f\<lparr>flash_state := flash_base_state f\<rparr>, c)) (flash_erase_chip f)
        else Some (f, c))"

definition to_state :: "flash040_state \<Rightarrow> flash_machine \<Rightarrow> flash_machine option" where
  "to_state st = (\<lambda>(f, c). Some (f\<lparr>flash_state := st\<rparr>, c))"

definition to_base :: "flash_machine \<Rightarrow> flash_machine option" where
  "to_base = (\<lambda>(f, c). Some (f\<lparr>flash_state := flash_base_state f\<rparr>, c))"

definition to_both :: "flash040_state \<Rightarrow> flash_machine \<Rightarrow> flash_machine option" where
  "to_both st = (\<lambda>(f, c). Some (f\<lparr>flash_state := st, flash_base_state := st\<rparr>, c))"

definition flash040core_store_internal :: "clock \<Rightarrow> nat \<Rightarrow> byte \<Rightarrow> flash_machine \<Rightarrow> flash_machine option" where
  "flash040core_store_internal clk addr b = (\<lambda>(f, c).
     let ty = flash_type f
     in case flash_state f of
          STATE_READ \<Rightarrow> if flash_magic_1 ty addr \<and> b = 0xAA then to_state STATE_MAGIC_1 (f, c) else Some (f, c)
        | STATE_MAGIC_1 \<Rightarrow> if flash_magic_2 ty addr \<and> b = 0x55 then to_state STATE_MAGIC_2 (f, c) else to_base (f, c)
        | STATE_MAGIC_2 \<Rightarrow>
            if flash_magic_1 ty addr
            then if b = 0x90 then to_both STATE_AUTOSELECT (f, c)
              else if b = 0xF0 then to_both STATE_READ (f, c)
              else if b = 0xA0 then to_state STATE_BYTE_PROGRAM (f, c)
              else if b = 0x80 then to_state STATE_ERASE_MAGIC_1 (f, c)
              else to_base (f, c)
            else to_base (f, c)
        | STATE_BYTE_PROGRAM \<Rightarrow>
            Option.bind (flash_program_byte addr b f) (\<lambda>(ok, f). if ok then to_base (f, c) else to_state STATE_BYTE_PROGRAM_ERROR (f, c))
        | STATE_ERASE_MAGIC_1 \<Rightarrow> if flash_magic_1 ty addr \<and> b = 0xAA then to_state STATE_ERASE_MAGIC_2 (f, c) else to_base (f, c)
        | STATE_ERASE_MAGIC_2 \<Rightarrow> if flash_magic_2 ty addr \<and> b = 0x55 then to_state STATE_ERASE_SELECT (f, c) else to_base (f, c)
        | STATE_ERASE_SELECT \<Rightarrow>
            if flash_magic_1 ty addr \<and> b = 0x10
            then Some (f\<lparr>flash_state := STATE_CHIP_ERASE, program_byte := 0\<rparr>, alarm_set (erase_alarm f) (clk + ERASE_CHIP_CYCLES) c)
            else if b = 0x30
            then map_option (\<lambda>f. (f\<lparr>program_byte := 0, flash_state := STATE_SECTOR_ERASE_TIMEOUT\<rparr>,
                alarm_set (erase_alarm f) (clk + ERASE_SECTOR_TIMEOUT_CYCLES) c)) (flash_add_sector_to_erase_mask addr f)
            else to_base (f, c)
        | STATE_SECTOR_ERASE_TIMEOUT \<Rightarrow>
            if b = 0x30 then map_option (\<lambda>f. (f, c)) (flash_add_sector_to_erase_mask addr f)
            else Some (flash_clear_erase_mask (f\<lparr>flash_state := flash_base_state f\<rparr>), alarm_unset (erase_alarm f) c)
        | STATE_SECTOR_ERASE \<Rightarrow>
            if b = 0xB0 then Some (f\<lparr>flash_state := STATE_SECTOR_ERASE_SUSPEND\<rparr>, alarm_unset (erase_alarm f) c) else Some (f, c)
        | STATE_SECTOR_ERASE_SUSPEND \<Rightarrow>
            if b = 0x30 then Some (f\<lparr>flash_state := STATE_SECTOR_ERASE\<rparr>, alarm_set (erase_alarm f) (clk + ERASE_SECTOR_CYCLES) c)
            else Some (f, c)
        | STATE_CHIP_ERASE \<Rightarrow> Some (f, c)
        | _ \<Rightarrow>
            if b = 0xF0 then to_both STATE_READ (f, c)
            else if flash_magic_1 ty addr \<and> b = 0xAA then to_state STATE_MAGIC_1 (f, c) else Some (f, c))"

definition flash040core_store :: "bool \<Rightarrow> clock \<Rightarrow> nat \<Rightarrow> byte \<Rightarrow> flash_machine \<Rightarrow> flash_machine option" where
  "flash040core_store maincpu_rmw_flag clk addr b = (\<lambda>(f, c).
     Option.bind (if maincpu_rmw_flag then flash040core_store_internal (clk - 1) addr (last_read f) (f, c) else Some (f, c))
       (flash040core_store_internal clk addr b))"

definition data_byte :: "nat \<Rightarrow> flash040_context_t \<Rightarrow> byte option" where
  "data_byte addr f = (if addr < length (flash_data f) then Some (flash_data f ! addr) else None)"

text \<open>The swapped address lines of the 29F032B, in the area of the identification.\<close>

definition autoselect_address :: "flash040_type \<Rightarrow> nat \<Rightarrow> nat" where
  "autoselect_address ty addr = (if ty = TYPE_032B_A0_1_SWAP \<and> addr AND 0xFF < 4 then [0, 2, 1, 3] ! (addr AND 3) else addr)"

definition autoselect_value :: "nat \<Rightarrow> flash040_context_t \<Rightarrow> byte option" where
  "autoselect_value addr0 f =
     (let t = flash_types (flash_type f); addr = autoselect_address (flash_type f) addr0
      in if addr AND 0xFF = 0 then Some (manufacturer_ID t)
         else if addr AND 0xFF = device_ID_addr t then Some (device_ID t)
         else if addr AND 0xFF = 2 then Some 0
         else data_byte addr f)"

definition flash040core_read :: "clock \<Rightarrow> nat \<Rightarrow> flash040_context_t \<Rightarrow> (byte \<times> flash040_context_t) option" where
  "flash040core_read clk addr f =
     map_option (\<lambda>(v, f). (v, f\<lparr>last_read := v\<rparr>))
       (case flash_state f of
          STATE_AUTOSELECT \<Rightarrow> map_option (\<lambda>v. (v, f)) (autoselect_value addr f)
        | STATE_BYTE_PROGRAM_ERROR \<Rightarrow> Some (flash_write_operation_status clk f, f)
        | STATE_SECTOR_ERASE_SUSPEND \<Rightarrow> Some (flash_erase_operation_status f)
        | STATE_CHIP_ERASE \<Rightarrow> Some (flash_erase_operation_status f)
        | STATE_SECTOR_ERASE \<Rightarrow> Some (flash_erase_operation_status f)
        | STATE_SECTOR_ERASE_TIMEOUT \<Rightarrow> Some (flash_erase_operation_status f)
        | _ \<Rightarrow> map_option (\<lambda>v. (v, f)) (data_byte addr f))"

definition flash040core_peek :: "nat \<Rightarrow> flash040_context_t \<Rightarrow> byte option" where
  "flash040core_peek addr f = data_byte addr f"

definition flash040core_reset :: "flash_machine \<Rightarrow> flash_machine" where
  "flash040core_reset = (\<lambda>(f, c).
     (flash_clear_erase_mask (f\<lparr>flash_state := STATE_READ, flash_base_state := STATE_READ, program_byte := 0\<rparr>), alarm_unset (erase_alarm f) c))"

definition flash040core_init :: "flash040_type \<Rightarrow> byte list \<Rightarrow> nat \<Rightarrow> flash_machine \<Rightarrow> flash_machine" where
  "flash040core_init ty data a = (\<lambda>(f, c).
     (flash_clear_erase_mask (f\<lparr>flash_data := data, flash_type := ty, flash_state := STATE_READ, flash_base_state := STATE_READ,
        program_byte := 0, flash_dirty := False, erase_alarm := a\<rparr>), alarm_new a c))"


subsection \<open>Sectors and the mask\<close>

definition sectors :: "flash040_type \<Rightarrow> nat" where
  "sectors ty = flash_size (flash_types ty) div sector_size (flash_types ty)"

lemmas type_tables = flash_types_def sectors_def

lemma sector_fields:
  "sector_mask (flash_types ty) = push_bit (sector_shift (flash_types ty)) (mask (case ty of TYPE_032B_A0_1_SWAP \<Rightarrow> 6 | TYPE_064 \<Rightarrow> 7 | _ \<Rightarrow> 3))"
  "sectors ty = 2 ^ (case ty of TYPE_032B_A0_1_SWAP \<Rightarrow> 6 | TYPE_064 \<Rightarrow> 7 | _ \<Rightarrow> 3)"
  "sector_size (flash_types ty) = 2 ^ sector_shift (flash_types ty)"
  "flash_size (flash_types ty) = sectors ty * sector_size (flash_types ty)"
  by (cases ty; simp add: type_tables push_bit_eq_mult mask_eq_exp_minus_1)+

lemma flash_sector_number: "flash_addr_to_sector_number ty addr = addr div sector_size (flash_types ty) mod sectors ty"
  by (simp add: flash_addr_to_sector_number_def sector_fields and.commute[of "push_bit _ _"] nat_and_field drop_bit_eq_div)

lemma sectors_le: "ty \<noteq> TYPE_064 \<Longrightarrow> sectors ty \<le> 64"
  by (cases ty) (simp_all add: sector_fields)

lemma sectors_pos [simp]: "0 < sectors ty" "0 < sector_size (flash_types ty)"
  by (simp_all add: sector_fields)

lemma mask_bit_place: "mask_bit m i \<longleftrightarrow> bit (m ! (i div 8)) (i mod 8)"
proof -
  have "i AND 7 = i mod 8" using and_exp_eq_0_iff_not_bit take_bit_eq_mask[of 3 i] by (simp add: mask_eq_exp_minus_1 take_bit_eq_mod)
  then show ?thesis by (simp add: mask_bit_def drop_bit_eq_div bit_iff_and_push_bit_not_eq_0)
qed

lemma same_place: "(i::nat) div 8 = k div 8 \<and> i mod 8 = k mod 8 \<longleftrightarrow> i = k"
  by (metis div_mult_mod_eq)

lemma and7: "(i::nat) AND 7 = i mod 8"
  using take_bit_eq_mask[of 3 i] by (simp add: mask_eq_exp_minus_1 take_bit_eq_mod)

definition marked :: "flash040_context_t \<Rightarrow> nat set" where
  "marked f = {i. i < 64 \<and> mask_bit (erase_mask f) i}"

lemmas bit_masks_exp = bit_masks[unfolded push_bit_of_1]

lemma marked_add:
  assumes "length (erase_mask f) = 8" "flash_addr_to_sector_number (flash_type f) addr < 64"
  shows "\<exists>m. flash_add_sector_to_erase_mask addr f = Some (f\<lparr>erase_mask := m\<rparr>) \<and> length m = 8
    \<and> marked (f\<lparr>erase_mask := m\<rparr>) = insert (flash_addr_to_sector_number (flash_type f) addr) (marked f)"
proof -
  let ?k = "flash_addr_to_sector_number (flash_type f) addr"
  let ?m = "(erase_mask f)[?k div 8 := erase_mask f ! (?k div 8) OR push_bit (?k mod 8) 1]"
  have k: "?k div 8 < 8" using assms(2) by simp
  have "mask_bit ?m i \<longleftrightarrow> mask_bit (erase_mask f) i \<or> i = ?k" if "i < 64" for i
  proof (cases "i div 8 = ?k div 8")
    case True
    then show ?thesis using k assms(1) same_place[of i ?k] by (simp add: mask_bit_place bit_masks_exp)
  next
    case False
    then show ?thesis by (auto simp: mask_bit_place)
  qed
  then have "marked (f\<lparr>erase_mask := ?m\<rparr>) = insert ?k (marked f)" using assms(2) by (auto simp: marked_def)
  then show ?thesis using k assms(1)
    by (intro exI[of _ ?m]) (simp add: flash_add_sector_to_erase_mask_def Let_def and7 drop_bit_eq_div)
qed

lemma marked_clear: "marked (flash_clear_erase_mask f) = {}"
  by (simp add: marked_def flash_clear_erase_mask_def FLASH040_ERASE_MASK_SIZE_def mask_bit_place)

lemma marked_zero: "erase_mask f = replicate 8 0 \<Longrightarrow> marked f = {}"
  by (simp add: marked_def mask_bit_place)

lemma marked_cong: "erase_mask f = erase_mask g \<Longrightarrow> marked f = marked g"
  by (simp add: marked_def)

lemma fold_or_bit: "bit (fold (OR) m (w::byte)) n \<longleftrightarrow> bit w n \<or> (\<exists>b\<in>set m. bit b n)"
  by (induction m arbitrary: w) (auto simp: bit_or_iff)

lemma mask_empty:
  assumes "length (erase_mask f) = 8"
  shows "fold (OR) (erase_mask f) 0 = 0 \<longleftrightarrow> marked f = {}"
proof
  assume e: "fold (OR) (erase_mask f) 0 = 0"
  show "marked f = {}"
  proof (rule ccontr)
    assume "marked f \<noteq> {}"
    then obtain i where i: "i < 64" "bit (erase_mask f ! (i div 8)) (i mod 8)" by (auto simp: marked_def mask_bit_place)
    then have "erase_mask f ! (i div 8) \<in> set (erase_mask f)" using assms by simp
    then have "bit (fold (OR) (erase_mask f) 0) (i mod 8)" using i(2) by (auto simp: fold_or_bit)
    then show False using e by simp
  qed
next
  assume e: "marked f = {}"
  show "fold (OR) (erase_mask f) 0 = 0"
  proof (rule bit_eqI)
    fix n
    assume "possible_bit TYPE(8 word) n"
    then have n: "n < 8" by simp
    have "\<not> bit b n" if "b \<in> set (erase_mask f)" for b
    proof -
      obtain j where "j < 8" "b = erase_mask f ! j" using \<open>b \<in> _\<close> assms by (metis in_set_conv_nth)
      moreover have "8 * j + n \<notin> marked f" using e by simp
      ultimately show ?thesis using n by (simp add: marked_def mask_bit_place)
    qed
    then show "bit (fold (OR) (erase_mask f) 0) n \<longleftrightarrow> bit 0 n" by (simp add: fold_or_bit)
  qed
qed

text \<open>One sector erased.\<close>

definition erased :: "flash040_type \<Rightarrow> nat set \<Rightarrow> byte list \<Rightarrow> byte list" where
  "erased ty S d = map (\<lambda>i. if i div sector_size (flash_types ty) \<in> S then 0xFF else d ! i) [0..<length d]"

lemma erased_simps [simp]: "length (erased ty S d) = length d" "erased ty {} d = d"
  by (simp_all add: erased_def map_nth)

lemma erased_erased: "erased ty S (erased ty T d) = erased ty (S \<union> T) d"
  by (auto simp: erased_def)

lemma fill_erases:
  assumes "length (flash_data f) = flash_size (flash_types (flash_type f))" "k < sectors (flash_type f)"
  shows "flash_erase_sector k f = Some (f\<lparr>flash_data := erased (flash_type f) {k} (flash_data f), flash_dirty := True\<rparr>)"
proof -
  let ?n = "sector_size (flash_types (flash_type f))" and ?d = "flash_data f"
  have "Suc k * ?n \<le> sectors (flash_type f) * ?n" using assms(2) by (intro mult_le_mono1) simp
  then have b: "k * ?n + ?n \<le> length ?d" using assms(1) sector_fields(4)[of "flash_type f"] by simp
  have "take (k * ?n) ?d @ replicate ?n 0xFF @ drop (k * ?n + ?n) ?d = erased (flash_type f) {k} ?d" (is "?l = _")
  proof (rule nth_equalityI)
    show "length ?l = length (erased (flash_type f) {k} ?d)" using b by simp
    fix i
    assume i: "i < length ?l"
    have "i div ?n = k \<longleftrightarrow> k * ?n \<le> i \<and> i < k * ?n + ?n"
      using sectors_pos(2)[of "flash_type f"] div_times_less_eq_dividend[of i ?n] dividend_less_div_times[of ?n i]
      by (auto simp: add.commute mult.commute intro!: div_nat_eqI)
    then show "?l ! i = erased (flash_type f) {k} ?d ! i" using i b by (auto simp: nth_append erased_def)
  qed
  then show ?thesis using b by (simp add: flash_erase_sector_def flash_fill_def flash_sector_to_addr_def)
qed


lemma erase_next_marked:
  assumes "length (flash_data f) = flash_size (flash_types (flash_type f))" "length (erase_mask f) = 8" "marked f \<noteq> {}"
    "marked f \<subseteq> {..<sectors (flash_type f)}"
  shows "\<exists>i m. i \<in> marked f \<and> length m = 8 \<and> marked (f\<lparr>erase_mask := m\<rparr>) = marked f - {i}
    \<and> flash_erase_next f = Some (f\<lparr>flash_data := erased (flash_type f) {i} (flash_data f), flash_dirty := True, erase_mask := m\<rparr>)"
proof -
  have "find (mask_bit (erase_mask f)) [0..<64] \<noteq> None" using assms(3) by (auto simp: find_None_iff marked_def)
  then obtain i where i: "find (mask_bit (erase_mask f)) [0..<64] = Some i" by blast
  then have m: "i \<in> marked f" by (auto simp: find_Some_iff marked_def)
  let ?m = "(erase_mask f)[i div 8 := erase_mask f ! (i div 8) AND NOT (push_bit (i mod 8) 1)]"
  have "mask_bit ?m l \<longleftrightarrow> mask_bit (erase_mask f) l \<and> l \<noteq> i" if "l < 64" for l
  proof (cases "l div 8 = i div 8")
    case True
    moreover have "i div 8 < 8" using conjunct1[OF m[unfolded marked_def mem_Collect_eq]] by simp
    ultimately show ?thesis using assms(2) same_place[of l i] by (simp add: mask_bit_place bit_masks_exp)
  next
    case False
    then show ?thesis by (auto simp: mask_bit_place)
  qed
  then have "marked (f\<lparr>erase_mask := ?m\<rparr>) = marked f - {i}" by (auto simp: marked_def)
  moreover have "i < sectors (flash_type f)" using m assms(4) by blast
  ultimately show ?thesis using m assms(2) i fill_erases[OF assms(1)]
    by (intro exI[of _ i] exI[of _ ?m]) (simp add: flash_erase_next_def FLASH040_ERASE_MASK_SIZE_def and7 drop_bit_eq_div)
qed

subsection \<open>Invariant\<close>

lemma alarm_room_unset: "alarm_ok c \<Longrightarrow> alarm_room c a \<Longrightarrow> alarm_room (alarm_unset a c) a"
  by (auto simp: alarm_room_def alarm_unset_def Let_def alarm_ok_def slots_ok_def alarm_due_def)

lemma alarm_room_set: "alarm_ok c \<Longrightarrow> alarm_room c a \<Longrightarrow> alarm_room (alarm_set a t c) a"
  by (rule alarm_q.due_room) (simp add: alarm_q.due_set)

lemmas alarm_steps = alarm_q.invar_set alarm_q.invar_cancel alarm_q.due_set alarm_q.due_cancel alarm_room_unset alarm_room_set

definition flash_ok :: "flash_machine \<Rightarrow> bool" where
  "flash_ok = (\<lambda>(f, c). length (flash_data f) = flash_size (flash_types (flash_type f))
     \<and> length (erase_mask f) = 8 \<and> flash_base_state f \<in> {STATE_READ, STATE_AUTOSELECT}
     \<and> flash_state f \<notin> {STATE_SECTOR_ERASE, STATE_SECTOR_ERASE_SUSPEND}
     \<and> (marked f \<noteq> {} \<longleftrightarrow> flash_state f = STATE_SECTOR_ERASE_TIMEOUT) \<and> marked f \<subseteq> {..<sectors (flash_type f)}
     \<and> (alarm_due c (erase_alarm f) \<noteq> None \<longleftrightarrow> flash_state f \<in> {STATE_CHIP_ERASE, STATE_SECTOR_ERASE_TIMEOUT})
     \<and> alarm_ok c \<and> alarm_room c (erase_alarm f))"

text \<open>
  The mask has room for 64 sectors. A store may add the sector of its address to it only when that is one of them, which
  is always so but for the S29GL064N.
\<close>

definition maskable :: "flash040_type \<Rightarrow> nat \<Rightarrow> bool" where
  "maskable ty addr \<longleftrightarrow> flash_addr_to_sector_number ty addr < 64"

lemma maskable_types: "ty \<noteq> TYPE_064 \<Longrightarrow> maskable ty addr"
proof -
  assume "ty \<noteq> TYPE_064"
  moreover have "flash_addr_to_sector_number ty addr < sectors ty" by (simp add: flash_sector_number)
  ultimately show ?thesis using sectors_le[of ty] by (simp add: maskable_def)
qed

lemma not_maskable: "length (erase_mask f) = 8 \<Longrightarrow> \<not> maskable (flash_type f) addr \<Longrightarrow> flash_add_sector_to_erase_mask addr f = None"
proof -
  assume a: "length (erase_mask f) = 8" "\<not> maskable (flash_type f) addr"
  then have "8 \<le> flash_addr_to_sector_number (flash_type f) addr div 8" by (simp add: maskable_def less_eq_div_iff_mult_less_eq)
  then show ?thesis using a(1) by (simp add: flash_add_sector_to_erase_mask_def Let_def drop_bit_eq_div)
qed

text \<open>What no step changes.\<close>

definition same_chip :: "flash_machine \<Rightarrow> flash_machine \<Rightarrow> bool" where
  "same_chip s s' \<longleftrightarrow> flash_type (fst s') = flash_type (fst s) \<and> erase_alarm (fst s') = erase_alarm (fst s)"

lemma same_chip_simps [simp]: "same_chip s s" "same_chip s s' \<Longrightarrow> same_chip s' s'' \<Longrightarrow> same_chip s s''"
  by (simp_all add: same_chip_def)

lemma marked_frame [simp]:
  "marked (f\<lparr>flash_state := st\<rparr>) = marked f" "marked (f\<lparr>flash_base_state := st\<rparr>) = marked f" "marked (f\<lparr>program_byte := b\<rparr>) = marked f"
  "marked (f\<lparr>flash_data := d\<rparr>) = marked f" "marked (f\<lparr>flash_dirty := x\<rparr>) = marked f" "marked (f\<lparr>last_read := b\<rparr>) = marked f"
  by (simp_all add: marked_def)

lemmas to_defs = to_state_def to_base_def to_both_def

lemma erase_select_ok:
  assumes "flash_ok (f, c)" "flash_state f \<in> {STATE_ERASE_SELECT, STATE_SECTOR_ERASE_TIMEOUT}" "b = 0x30 \<longrightarrow> maskable (flash_type f) addr"
  shows "\<exists>s'. flash040core_store_internal clk addr b (f, c) = Some s' \<and> flash_ok s' \<and> same_chip (f, c) s'"
proof -
  have n: "flash_addr_to_sector_number (flash_type f) addr < sectors (flash_type f)" by (simp add: flash_sector_number)
  obtain m where m: "b = 0x30 \<Longrightarrow> flash_add_sector_to_erase_mask addr f = Some (f\<lparr>erase_mask := m\<rparr>)" "b = 0x30 \<Longrightarrow> length m = 8"
    "b = 0x30 \<Longrightarrow> marked (f\<lparr>erase_mask := m\<rparr>) = insert (flash_addr_to_sector_number (flash_type f) addr) (marked f)"
    using marked_add[of f addr] assms(1,3) by (auto simp: flash_ok_def maskable_def)
  note ok = assms(1)[unfolded flash_ok_def prod.case]
  consider (chip) "flash_state f = STATE_ERASE_SELECT" "flash_magic_1 (flash_type f) addr \<and> b = 0x10"
    | (first) "flash_state f = STATE_ERASE_SELECT" "b = 0x30"
    | (none) "flash_state f = STATE_ERASE_SELECT" "\<not> (flash_magic_1 (flash_type f) addr \<and> b = 0x10)" "b \<noteq> 0x30"
    | (more) "flash_state f = STATE_SECTOR_ERASE_TIMEOUT" "b = 0x30" | (stop) "flash_state f = STATE_SECTOR_ERASE_TIMEOUT" "b \<noteq> 0x30"
    using assms(2) by blast
  then show ?thesis
  proof cases
    case chip
    then show ?thesis using ok by (simp add: flash040core_store_internal_def flash_ok_def same_chip_def alarm_steps)
  next
    case first
    have "marked (f\<lparr>program_byte := 0, flash_state := STATE_SECTOR_ERASE_TIMEOUT, erase_mask := m\<rparr>) = marked (f\<lparr>erase_mask := m\<rparr>)"
      by (simp add: marked_def)
    then show ?thesis using first ok n m[OF first(2)] by (simp add: flash040core_store_internal_def flash_ok_def same_chip_def alarm_steps)
  next
    case none
    then show ?thesis using ok by (auto simp: flash040core_store_internal_def flash_ok_def same_chip_def to_defs)
  next
    case more
    then show ?thesis using ok n m by (simp add: flash040core_store_internal_def flash_ok_def same_chip_def)
  next
    case stop
    have "flash040core_store_internal clk addr b (f, c)
        = Some (flash_clear_erase_mask (f\<lparr>flash_state := flash_base_state f\<rparr>), alarm_unset (erase_alarm f) c)" (is "_ = Some (?f, ?c)")
      using stop by (simp add: flash040core_store_internal_def)
    moreover have "flash_state ?f = flash_base_state f" "flash_base_state ?f = flash_base_state f" "length (erase_mask ?f) = 8"
      "flash_data ?f = flash_data f" "flash_type ?f = flash_type f" "erase_alarm ?f = erase_alarm f"
      by (simp_all add: flash_clear_erase_mask_def FLASH040_ERASE_MASK_SIZE_def)
    ultimately show ?thesis using ok by (auto simp: flash_ok_def same_chip_def marked_clear alarm_steps)
  qed
qed

lemma store_internal_ok:
  assumes "flash_ok (f, c)" "addr < length (flash_data f)"
    "flash_state f \<in> {STATE_ERASE_SELECT, STATE_SECTOR_ERASE_TIMEOUT} \<longrightarrow> b = 0x30 \<longrightarrow> maskable (flash_type f) addr"
  shows "\<exists>s'. flash040core_store_internal clk addr b (f, c) = Some s' \<and> flash_ok s' \<and> same_chip (f, c) s'"
proof (cases "flash_state f \<in> {STATE_ERASE_SELECT, STATE_SECTOR_ERASE_TIMEOUT}")
  case True
  then show ?thesis using assms(3) by (intro erase_select_ok[OF assms(1)]) auto
next
  case False
  then show ?thesis using assms(1,2)
    by (cases "flash_state f"; auto simp: flash_ok_def flash040core_store_internal_def to_defs same_chip_def flash_program_byte_def Let_def)
qed

lemma store_internal_some:
  assumes "flash_ok (f, c)" "addr < length (flash_data f)" "flash040core_store_internal clk addr b (f, c) = Some s'"
  shows "flash_ok s' \<and> same_chip (f, c) s'"
proof (cases "flash_state f \<in> {STATE_ERASE_SELECT, STATE_SECTOR_ERASE_TIMEOUT} \<longrightarrow> b = 0x30 \<longrightarrow> maskable (flash_type f) addr")
  case True
  from store_internal_ok[OF assms(1,2) True, of clk] show ?thesis using assms(3) by auto
next
  case False
  then have n: "flash_add_sector_to_erase_mask addr f = None" using assms(1) by (intro not_maskable) (auto simp: flash_ok_def)
  have "flash_state f = STATE_ERASE_SELECT \<or> flash_state f = STATE_SECTOR_ERASE_TIMEOUT" "b = 0x30" using False by auto
  then show ?thesis using n assms(3) by (elim disjE) (simp_all add: flash040core_store_internal_def)
qed


lemma alarm_handler_ok:
  assumes "flash_ok (f, c)"
  shows "\<exists>s'. erase_alarm_handler clk (f, c) = Some s' \<and> flash_ok s' \<and> same_chip (f, c) s'"
proof -
  note ok = assms[unfolded flash_ok_def prod.case]
  consider (sectors) "flash_state f = STATE_SECTOR_ERASE_TIMEOUT" | (chip) "flash_state f = STATE_CHIP_ERASE"
    | (other) "flash_state f \<notin> {STATE_SECTOR_ERASE_TIMEOUT, STATE_CHIP_ERASE}" by blast
  then show ?thesis
  proof cases
    case sectors
    obtain i m where i: "i \<in> marked f" "length m = 8" "marked (f\<lparr>erase_mask := m\<rparr>) = marked f - {i}"
      "flash_erase_next f = Some (f\<lparr>flash_data := erased (flash_type f) {i} (flash_data f), flash_dirty := True, erase_mask := m\<rparr>)"
      (is "_ = Some ?f")
      using erase_next_marked[of f] ok sectors by blast
    have m: "marked ?f = marked f - {i}" using i(3) by (simp add: marked_def)
    have e: "fold (OR) (erase_mask ?f) 0 = 0 \<longleftrightarrow> marked ?f = {}" using i(2) by (intro mask_empty) simp
    show ?thesis
    proof (cases "marked ?f = {}")
      case True
      then have "erase_alarm_handler clk (f, c) = Some (?f\<lparr>flash_state := flash_base_state f\<rparr>, alarm_unset (erase_alarm f) c)"
        using sectors i(4) e by (simp add: erase_alarm_handler_def)
      moreover have "marked (?f\<lparr>flash_state := flash_base_state f\<rparr>) = {}" using True by (simp only: marked_frame)
      ultimately show ?thesis using ok i(2) by (auto simp: flash_ok_def same_chip_def alarm_steps simp del: marked_frame)
    next
      case False
      then have "erase_alarm_handler clk (f, c) = Some (?f, alarm_set (erase_alarm f) (clk + ERASE_SECTOR_CYCLES) (alarm_unset (erase_alarm f) c))"
        using sectors i(4) e by (simp add: erase_alarm_handler_def)
      then show ?thesis using ok i(2) m False sectors by (auto simp: flash_ok_def same_chip_def alarm_steps simp del: marked_frame)
    qed
  next
    case chip
    then have "flash_erase_chip f = Some (f\<lparr>flash_data := replicate (length (flash_data f)) 0xFF, flash_dirty := True\<rparr>)"
      using ok by (simp add: flash_erase_chip_def flash_fill_def)
    then show ?thesis using chip ok by (auto simp: erase_alarm_handler_def flash_ok_def same_chip_def alarm_steps)
  next
    case other
    then show ?thesis using ok by (auto simp: erase_alarm_handler_def flash_ok_def same_chip_def alarm_steps)
  qed
qed

lemma store_ok:
  assumes "flash_ok (f, c)" "addr < length (flash_data f)" "maskable (flash_type f) addr"
  shows "\<exists>s'. flash040core_store rmw clk addr b (f, c) = Some s' \<and> flash_ok s' \<and> same_chip (f, c) s'"
proof (cases rmw)
  case True
  obtain f1 c1 where 1: "flash040core_store_internal (clk - 1) addr (last_read f) (f, c) = Some (f1, c1)" "flash_ok (f1, c1)" "same_chip (f, c) (f1, c1)"
    using store_internal_ok[OF assms(1,2)] assms(3) by (metis surj_pair)
  then have "addr < length (flash_data f1)" "maskable (flash_type f1) addr" using assms by (simp_all add: flash_ok_def same_chip_def)
  then obtain s' where "flash040core_store_internal clk addr b (f1, c1) = Some s'" "flash_ok s'" "same_chip (f1, c1) s'"
    using store_internal_ok[OF 1(2), of addr b clk] by blast
  moreover from this(3) have "same_chip (f, c) s'" using 1(3) by (auto intro: same_chip_simps(2))
  ultimately show ?thesis using 1(1) True by (simp add: flash040core_store_def)
qed (use store_internal_ok[OF assms(1,2)] assms(3) in \<open>simp add: flash040core_store_def\<close>)

lemma store_some:
  assumes "flash_ok (f, c)" "addr < length (flash_data f)" "flash040core_store rmw clk addr b (f, c) = Some s'"
  shows "flash_ok s' \<and> same_chip (f, c) s'"
proof (cases rmw)
  case True
  obtain f1 c1 where 1: "flash040core_store_internal (clk - 1) addr (last_read f) (f, c) = Some (f1, c1)"
    "flash040core_store_internal clk addr b (f1, c1) = Some s'"
    using assms(3) True by (auto simp: flash040core_store_def bind_eq_Some_conv)
  have 2: "flash_ok (f1, c1)" "same_chip (f, c) (f1, c1)" using store_internal_some[OF assms(1,2) 1(1)] by simp_all
  then have "addr < length (flash_data f1)" using assms(1,2) by (simp add: flash_ok_def same_chip_def)
  from store_internal_some[OF 2(1) this 1(2)] show ?thesis using 2(2) by (auto intro: same_chip_simps(2))
next
  case False
  then show ?thesis using store_internal_some[OF assms(1,2)] assms(3) by (auto simp: flash040core_store_def)
qed

lemma autoselect_inside: "addr < n \<Longrightarrow> 4 \<le> n \<Longrightarrow> autoselect_address ty addr < n"
proof -
  have "addr AND 3 < 4" using take_bit_eq_mask[of 2 addr] by (simp add: mask_eq_exp_minus_1 take_bit_eq_mod)
  then have "addr AND 3 \<in> {0, 1, 2, 3}" by auto
  then have "[0, 2, 1, 3] ! (addr AND 3) < (4::nat)" by auto
  then show "addr < n \<Longrightarrow> 4 \<le> n \<Longrightarrow> autoselect_address ty addr < n" by (simp add: autoselect_address_def)
qed

lemma read_frame:
  assumes "flash040core_read clk addr f = Some (v, f')"
  shows "flash_data f' = flash_data f \<and> flash_state f' = flash_state f \<and> flash_base_state f' = flash_base_state f
    \<and> erase_mask f' = erase_mask f \<and> flash_type f' = flash_type f \<and> erase_alarm f' = erase_alarm f"
  using assms by (cases "flash_state f") (auto simp: flash040core_read_def flash_erase_operation_status_def)

lemma read_some:
  assumes "addr < length (flash_data f)" "4 \<le> length (flash_data f)"
  shows "\<exists>v f'. flash040core_read clk addr f = Some (v, f')"
proof -
  have "autoselect_value addr f \<noteq> None" "data_byte addr f \<noteq> None"
    using assms autoselect_inside[OF assms, of "flash_type f"] by (simp_all add: autoselect_value_def data_byte_def Let_def)
  then obtain v w where "autoselect_value addr f = Some v" "data_byte addr f = Some w" by blast
  then show ?thesis by (cases "flash_state f") (simp_all add: flash040core_read_def flash_erase_operation_status_def)
qed

lemma reset_ok: "flash_ok s \<Longrightarrow> flash_ok (flash040core_reset s) \<and> same_chip s (flash040core_reset s)"
proof (cases s)
  case (Pair f c)
  assume ok: "flash_ok s"
  let ?f = "flash_clear_erase_mask (f\<lparr>flash_state := STATE_READ, flash_base_state := STATE_READ, program_byte := 0\<rparr>)"
  have r: "flash040core_reset s = (?f, alarm_unset (erase_alarm f) c)" by (simp add: flash040core_reset_def Pair)
  have f: "flash_data ?f = flash_data f" "flash_state ?f = STATE_READ" "flash_base_state ?f = STATE_READ" "flash_type ?f = flash_type f"
    "erase_alarm ?f = erase_alarm f" "length (erase_mask ?f) = 8"
    by (simp_all add: flash_clear_erase_mask_def FLASH040_ERASE_MASK_SIZE_def)
  show ?thesis using ok unfolding r unfolding Pair flash_ok_def same_chip_def prod.case fst_conv f by (simp add: marked_clear alarm_steps)
qed

subsection \<open>The chip in a machine\<close>

text \<open>
  What a program and the clock do to a chip, with the stores it has seen, the last one first. Other chips may
  set and unset their own alarms.
\<close>

inductive flash_reach :: "flash_machine \<Rightarrow> (nat \<times> byte) list \<Rightarrow> flash_machine \<Rightarrow> bool" for s0 where
  start: "flash_reach s0 [] s0"
| read: "flash_reach s0 h (f, c) \<Longrightarrow> flash040core_read clk addr f = Some (v, f') \<Longrightarrow> flash_reach s0 h (f', c)"
| store: "flash_reach s0 h (f, c) \<Longrightarrow> flash040core_store rmw clk addr b (f, c) = Some s' \<Longrightarrow> addr < length (flash_data f) \<Longrightarrow>
    flash_reach s0 ((addr, b) # (if rmw then [(addr, last_read f)] else []) @ h) s'"
| alarm: "flash_reach s0 h s \<Longrightarrow> erase_alarm_handler clk s = Some s' \<Longrightarrow> flash_reach s0 h s'"
| reset: "flash_reach s0 h s \<Longrightarrow> flash_reach s0 h (flash040core_reset s)"
| others: "flash_reach s0 h (f, c) \<Longrightarrow> alarm_ok c' \<Longrightarrow> alarm_due c' (erase_alarm f) = alarm_due c (erase_alarm f) \<Longrightarrow>
    alarm_room c' (erase_alarm f) \<Longrightarrow> flash_reach s0 h (f, c')"

lemma reach_ok: "flash_reach s0 h s \<Longrightarrow> flash_ok s0 \<Longrightarrow> flash_ok s \<and> same_chip s0 s"
proof (induction rule: flash_reach.induct)
  case (read h f c clk addr v f')
  then have ok: "flash_ok (f, c)" "same_chip s0 (f, c)" by simp_all
  note fr = read_frame[OF read.hyps(2)]
  then have "marked f' = marked f" by (intro marked_cong) simp
  then show ?case using ok fr by (simp add: flash_ok_def same_chip_def)
next
  case (store h f c rmw clk addr b s')
  then show ?case using store_some[of f c addr rmw clk b s'] by (auto intro: same_chip_simps(2))
next
  case (alarm h s clk s')
  then show ?case using alarm_handler_ok[of "fst s" "snd s" clk] by (auto intro: same_chip_simps(2))
next
  case (reset h s)
  then show ?case using reset_ok[of s] by (auto intro: same_chip_simps(2))
next
  case (others h f c c')
  then have "flash_ok (f, c)" "same_chip s0 (f, c)" by simp_all
  then show ?case using others.hyps(2-4) by (simp add: flash_ok_def same_chip_def)
qed simp


subsection \<open>What a program must store before the data can change\<close>

text \<open>A pattern of stores, the last one first, at the head of a history.\<close>

fun recent :: "((nat \<Rightarrow> bool) \<times> byte) list \<Rightarrow> (nat \<times> byte) list \<Rightarrow> bool" where
  "recent [] h = True"
| "recent (p # ps) [] = False"
| "recent ((p, v) # ps) ((a, b) # h) = (p a \<and> b = v \<and> recent ps h)"

definition unlock :: "flash040_type \<Rightarrow> ((nat \<Rightarrow> bool) \<times> byte) list" where
  "unlock ty = [(flash_magic_2 ty, 0x55), (flash_magic_1 ty, 0xAA)]"

definition program_command :: "flash040_type \<Rightarrow> ((nat \<Rightarrow> bool) \<times> byte) list" where
  "program_command ty = (flash_magic_1 ty, 0xA0) # unlock ty"

definition erase_setup :: "flash040_type \<Rightarrow> ((nat \<Rightarrow> bool) \<times> byte) list" where
  "erase_setup ty = unlock ty @ (flash_magic_1 ty, 0x80) # unlock ty"

definition chip_command :: "flash040_type \<Rightarrow> ((nat \<Rightarrow> bool) \<times> byte) list" where
  "chip_command ty = (flash_magic_1 ty, 0x10) # erase_setup ty"

definition sector_command :: "flash040_type \<Rightarrow> ((nat \<Rightarrow> bool) \<times> byte) list" where
  "sector_command ty = (\<lambda>_. True, 0x30) # erase_setup ty"

definition seen :: "((nat \<Rightarrow> bool) \<times> byte) list \<Rightarrow> (nat \<times> byte) list \<Rightarrow> bool" where
  "seen ps h \<longleftrightarrow> (\<exists>k. recent ps (drop k h))"

text \<open>A program command with a store behind it, or one of the erase commands.\<close>

definition unlocked :: "flash040_type \<Rightarrow> (nat \<times> byte) list \<Rightarrow> bool" where
  "unlocked ty h \<longleftrightarrow> seen (program_command ty) (tl h) \<or> seen (chip_command ty) h \<or> seen (sector_command ty) h"

lemma seen_now: "recent ps h \<Longrightarrow> seen ps h"
  unfolding seen_def by (rule exI[of _ 0]) simp

lemma seen_later: "seen ps h \<Longrightarrow> seen ps (x # h)"
  unfolding seen_def by (metis drop_Suc_Cons)

lemma unlocked_later: "unlocked ty h \<Longrightarrow> unlocked ty (x # h)"
  unfolding unlocked_def using seen_later[of _ h x] seen_later[of _ "tl h" "hd h"] by (cases h) auto

definition hist_inv :: "byte list \<Rightarrow> (nat \<times> byte) list \<Rightarrow> flash040_context_t \<Rightarrow> bool" where
  "hist_inv d h f \<longleftrightarrow> (flash_data f = d \<or> unlocked (flash_type f) h) \<and>
     (case flash_state f of
        STATE_MAGIC_1 \<Rightarrow> recent [(flash_magic_1 (flash_type f), 0xAA)] h
      | STATE_MAGIC_2 \<Rightarrow> recent (unlock (flash_type f)) h
      | STATE_BYTE_PROGRAM \<Rightarrow> recent (program_command (flash_type f)) h
      | STATE_ERASE_MAGIC_1 \<Rightarrow> recent ((flash_magic_1 (flash_type f), 0x80) # unlock (flash_type f)) h
      | STATE_ERASE_MAGIC_2 \<Rightarrow> recent ((flash_magic_1 (flash_type f), 0xAA) # (flash_magic_1 (flash_type f), 0x80) # unlock (flash_type f)) h
      | STATE_ERASE_SELECT \<Rightarrow> recent (erase_setup (flash_type f)) h
      | STATE_CHIP_ERASE \<Rightarrow> seen (chip_command (flash_type f)) h
      | STATE_SECTOR_ERASE_TIMEOUT \<Rightarrow> seen (sector_command (flash_type f)) h
      | _ \<Rightarrow> True)"

lemma add_sector_frame: "flash_add_sector_to_erase_mask addr f = Some f' \<Longrightarrow> \<exists>m. f' = f\<lparr>erase_mask := m\<rparr>"
  by (auto simp: flash_add_sector_to_erase_mask_def Let_def split: if_splits)

lemma hist_base: "flash_data f = d \<or> unlocked (flash_type f) h \<Longrightarrow> flash_base_state f \<in> {STATE_READ, STATE_AUTOSELECT} \<Longrightarrow>
    hist_inv d (x # h) (f\<lparr>flash_state := flash_base_state f\<rparr>)"
  using unlocked_later[of "flash_type f" h x] by (auto simp: hist_inv_def)

lemmas commands = unlock_def program_command_def erase_setup_def chip_command_def sector_command_def

lemma hist_store_internal:
  assumes "hist_inv d h f" "flash_ok (f, c)" "flash040core_store_internal clk addr b (f, c) = Some (f', c')"
  shows "hist_inv d ((addr, b) # h) f'"
proof -
  have keep: "flash_data f = d \<or> unlocked (flash_type f) ((addr, b) # h)" using assms(1) unlocked_later by (auto simp: hist_inv_def)
  note base = hist_base[of f d h "(addr, b)"]
  have ok: "flash_base_state f \<in> {STATE_READ, STATE_AUTOSELECT}" "flash_state f \<notin> {STATE_SECTOR_ERASE, STATE_SECTOR_ERASE_SUSPEND}"
    using assms(2) by (simp_all add: flash_ok_def)
  have old: "flash_data f = d \<or> unlocked (flash_type f) h" using assms(1) by (simp add: hist_inv_def)
  show ?thesis
  proof (cases "flash_state f")
    case STATE_BYTE_PROGRAM
    then have "recent (program_command (flash_type f)) h" using assms(1) by (simp add: hist_inv_def)
    then have "unlocked (flash_type f) ((addr, b) # h)" by (simp add: unlocked_def seen_now)
    then show ?thesis using assms(3) STATE_BYTE_PROGRAM ok(1)
      by (auto simp: flash040core_store_internal_def flash_program_byte_def Let_def to_defs hist_inv_def split: if_splits)
  next
    case STATE_ERASE_SELECT
    then have r: "recent (erase_setup (flash_type f)) h" using assms(1) by (simp add: hist_inv_def)
    have "seen (sector_command (flash_type f)) ((addr, b) # h)" if "b = 0x30" using that r by (intro seen_now) (simp add: sector_command_def)
    moreover have "seen (chip_command (flash_type f)) ((addr, b) # h)" if "b = 0x10" "flash_magic_1 (flash_type f) addr"
      using that r by (intro seen_now) (simp add: chip_command_def)
    ultimately show ?thesis using assms(3) STATE_ERASE_SELECT keep base old ok(1)
      by (auto simp: flash040core_store_internal_def to_defs hist_inv_def dest!: add_sector_frame split: if_splits)
  next
    case STATE_SECTOR_ERASE_TIMEOUT
    then have "seen (sector_command (flash_type f)) ((addr, b) # h)" using assms(1) seen_later by (simp add: hist_inv_def)
    then show ?thesis using assms(3) STATE_SECTOR_ERASE_TIMEOUT keep ok(1)
      by (auto simp: flash040core_store_internal_def hist_inv_def flash_clear_erase_mask_def dest!: add_sector_frame split: if_splits)
  next
    case STATE_CHIP_ERASE
    then have "seen (chip_command (flash_type f)) ((addr, b) # h)" using assms(1) seen_later by (simp add: hist_inv_def)
    then show ?thesis using assms(3) STATE_CHIP_ERASE keep by (auto simp: flash040core_store_internal_def hist_inv_def)
  qed (use assms(1,3) keep base[OF old ok(1)] ok in
      \<open>auto simp: flash040core_store_internal_def to_defs hist_inv_def commands split: if_splits\<close>)
qed


lemma hist_store:
  assumes "hist_inv d h f" "flash_ok (f, c)" "addr < length (flash_data f)" "flash040core_store rmw clk addr b (f, c) = Some (f', c')"
  shows "hist_inv d ((addr, b) # (if rmw then [(addr, last_read f)] else []) @ h) f'"
proof (cases rmw)
  case True
  obtain f1 c1 where 1: "flash040core_store_internal (clk - 1) addr (last_read f) (f, c) = Some (f1, c1)" "flash_ok (f1, c1)"
    using assms(4) True store_internal_some[OF assms(2,3)] by (auto simp: flash040core_store_def bind_eq_Some_conv)
  have "hist_inv d ((addr, last_read f) # h) f1" by (rule hist_store_internal[OF assms(1,2) 1(1)])
  then show ?thesis using hist_store_internal[of d _ f1 c1 clk addr b f' c'] 1 assms(4) True by (simp add: flash040core_store_def)
next
  case False
  then show ?thesis using hist_store_internal[OF assms(1,2)] assms(4) by (simp add: flash040core_store_def)
qed

lemma hist_alarm:
  assumes "hist_inv d h f" "flash_ok (f, c)" "erase_alarm_handler clk (f, c) = Some (f', c')"
  shows "hist_inv d h f'"
proof -
  have ok: "flash_base_state f \<in> {STATE_READ, STATE_AUTOSELECT}" "flash_state f \<noteq> STATE_SECTOR_ERASE"
    using assms(2) by (auto simp: flash_ok_def)
  consider (sectors) "flash_state f = STATE_SECTOR_ERASE_TIMEOUT" | (chip) "flash_state f = STATE_CHIP_ERASE"
    | (other) "flash_state f \<notin> {STATE_SECTOR_ERASE_TIMEOUT, STATE_CHIP_ERASE}" by blast
  then show ?thesis
  proof cases
    case sectors
    then have s: "seen (sector_command (flash_type f)) h" using assms(1) by (simp add: hist_inv_def)
    obtain g where g: "flash_erase_next f = Some g" "flash_state g = flash_state f" "flash_base_state g = flash_base_state f" "flash_type g = flash_type f"
      using erase_next_marked[of f] assms(2) sectors by (auto simp: flash_ok_def)
    then have "f' = g \<or> f' = g\<lparr>flash_state := flash_base_state g\<rparr>"
      using assms(3) sectors by (auto simp: erase_alarm_handler_def Let_def split: if_splits)
    then show ?thesis using s g sectors ok(1) by (auto simp: hist_inv_def unlocked_def)
  next
    case chip
    then have "seen (chip_command (flash_type f)) h" using assms(1) by (simp add: hist_inv_def)
    then show ?thesis using assms(3) chip ok(1)
      by (auto simp: erase_alarm_handler_def Let_def flash_erase_chip_def flash_fill_def hist_inv_def unlocked_def split: if_splits)
  next
    case other
    then have "f' = f" using assms(3) ok(2) by (simp add: erase_alarm_handler_def Let_def)
    then show ?thesis using assms(1) by simp
  qed
qed

lemma reach_hist:
  "flash_reach s0 h s \<Longrightarrow> flash_ok s0 \<Longrightarrow> flash_state (fst s0) = STATE_READ \<Longrightarrow> hist_inv (flash_data (fst s0)) h (fst s)"
proof (induction rule: flash_reach.induct)
  case start
  then show ?case by (simp add: hist_inv_def)
next
  case (read h f c clk addr v f')
  have e: "flash_data f' = flash_data f" "flash_state f' = flash_state f" "flash_type f' = flash_type f"
    using read_frame[OF read.hyps(2)] by simp_all
  have "hist_inv (flash_data (fst s0)) h f" using read by simp
  then show ?case unfolding hist_inv_def e fst_conv .
next
  case (store h f c rmw clk addr b s')
  then show ?case using hist_store[of _ h f c addr rmw clk b "fst s'" "snd s'"] reach_ok[OF store.hyps(1)] by simp
next
  case (alarm h s clk s')
  then show ?case using hist_alarm[of _ h "fst s" "snd s" clk "fst s'" "snd s'"] reach_ok[OF alarm.hyps(1)] by simp
next
  case (reset h s)
  then show ?case by (cases s) (simp add: hist_inv_def flash040core_reset_def flash_clear_erase_mask_def)
qed simp

subsection \<open>Erasing sectors\<close>

fun run_stores :: "clock \<Rightarrow> (nat \<times> byte) list \<Rightarrow> flash_machine \<Rightarrow> flash_machine option" where
  "run_stores clk [] s = Some s"
| "run_stores clk ((a, b) # r) s = Option.bind (flash040core_store False clk a b s) (run_stores clk r)"

fun run_alarms :: "clock list \<Rightarrow> flash_machine \<Rightarrow> flash_machine option" where
  "run_alarms [] s = Some s"
| "run_alarms (t # ts) s = Option.bind (erase_alarm_handler t s) (run_alarms ts)"

lemma run_stores_append: "run_stores clk (xs @ ys) s = Option.bind (run_stores clk xs s) (run_stores clk ys)"
proof (induction xs arbitrary: s)
  case (Cons x xs)
  obtain a b where "x = (a, b)" by (cases x)
  then show ?case using Cons by (cases "flash040core_store False clk a b s") simp_all
qed simp

text \<open>The sectors of a list of addresses, added one by one.\<close>

lemma add_sectors:
  assumes "flash_ok (f, c)" "flash_state f = STATE_SECTOR_ERASE_TIMEOUT" "\<forall>a\<in>set as. maskable (flash_type f) a"
  shows "\<exists>m. run_stores clk (map (\<lambda>a. (a, 0x30)) as) (f, c) = Some (f\<lparr>erase_mask := m\<rparr>, c) \<and> flash_ok (f\<lparr>erase_mask := m\<rparr>, c)
    \<and> marked (f\<lparr>erase_mask := m\<rparr>) = flash_addr_to_sector_number (flash_type f) ` set as \<union> marked f"
  using assms
proof (induction as arbitrary: f)
  case Nil
  have "f = f\<lparr>erase_mask := erase_mask f\<rparr>" by simp
  then show ?case using Nil by (intro exI[of _ "erase_mask f"]) simp
next
  case (Cons a as)
  have n: "flash_addr_to_sector_number (flash_type f) a < sectors (flash_type f)" by (simp add: flash_sector_number)
  obtain m where m: "flash_add_sector_to_erase_mask a f = Some (f\<lparr>erase_mask := m\<rparr>)" "length m = 8"
    "marked (f\<lparr>erase_mask := m\<rparr>) = insert (flash_addr_to_sector_number (flash_type f) a) (marked f)"
    using marked_add[of f a] Cons.prems(1,3) by (auto simp: flash_ok_def maskable_def)
  let ?f = "f\<lparr>erase_mask := m\<rparr>"
  have "flash_ok (?f, c)" using Cons.prems m n by (simp add: flash_ok_def)
  moreover have "flash_state ?f = STATE_SECTOR_ERASE_TIMEOUT" using Cons.prems by simp
  ultimately obtain m' where "run_stores clk (map (\<lambda>a. (a, 0x30)) as) (?f, c) = Some (?f\<lparr>erase_mask := m'\<rparr>, c)" "flash_ok (?f\<lparr>erase_mask := m'\<rparr>, c)"
    "marked (?f\<lparr>erase_mask := m'\<rparr>) = flash_addr_to_sector_number (flash_type f) ` set as \<union> marked ?f"
    using Cons.IH[of ?f] Cons.prems(3) by auto
  then show ?case using Cons.prems(2) m by (intro exI[of _ m']) (simp add: flash040core_store_def flash040core_store_internal_def)
qed

lemma setup_stores:
  assumes "flash_state f = STATE_READ" "flash_magic_1 (flash_type f) a1" "flash_magic_2 (flash_type f) a2" "flash_magic_1 (flash_type f) a3"
    "flash_magic_1 (flash_type f) a4" "flash_magic_2 (flash_type f) a5"
  shows "run_stores clk [(a1, 0xAA), (a2, 0x55), (a3, 0x80), (a4, 0xAA), (a5, 0x55)] (f, c) = Some (f\<lparr>flash_state := STATE_ERASE_SELECT\<rparr>, c)"
  using assms by (simp add: flash040core_store_def flash040core_store_internal_def to_defs)

text \<open>The alarms erase what is marked, one sector each, and end in the base state.\<close>

lemma alarms_erase:
  assumes "flash_ok (f, c)" "flash_state f = STATE_SECTOR_ERASE_TIMEOUT" "length ts = card (marked f)"
  shows "\<exists>f' c'. run_alarms ts (f, c) = Some (f', c') \<and> flash_ok (f', c') \<and> flash_data f' = erased (flash_type f) (marked f) (flash_data f)
    \<and> flash_state f' = flash_base_state f \<and> flash_base_state f' = flash_base_state f"
  using assms
proof (induction ts arbitrary: f c)
  case Nil
  then have "marked f \<noteq> {}" "finite (marked f)" by (auto simp: flash_ok_def marked_def)
  then show ?case using Nil by simp
next
  case (Cons t ts)
  note ok = Cons.prems(1)[unfolded flash_ok_def prod.case]
  have fin: "finite (marked f)" by (simp add: marked_def)
  obtain i m where i: "i \<in> marked f" "length m = 8" "marked (f\<lparr>erase_mask := m\<rparr>) = marked f - {i}"
    "flash_erase_next f = Some (f\<lparr>flash_data := erased (flash_type f) {i} (flash_data f), flash_dirty := True, erase_mask := m\<rparr>)"
    (is "_ = Some ?f")
    using erase_next_marked[of f] ok Cons.prems(2) by blast
  have m: "marked ?f = marked f - {i}" using i(3) by (simp add: marked_def)
  have e: "fold (OR) (erase_mask ?f) 0 = 0 \<longleftrightarrow> marked ?f = {}" using i(2) by (intro mask_empty) simp
  have n: "length ts = card (marked ?f)" using Cons.prems(3) fin i(1) m by simp
  obtain s' where s': "erase_alarm_handler t (f, c) = Some s'" "flash_ok s'" using alarm_handler_ok[OF Cons.prems(1)] by blast
  show ?case
  proof (cases "marked ?f = {}")
    case True
    then have "s' = (?f\<lparr>flash_state := flash_base_state f\<rparr>, alarm_unset (erase_alarm f) c)"
      using s'(1) Cons.prems(2) i(4) e by (simp add: erase_alarm_handler_def)
    moreover have mi: "marked f = {i}" using True i(1) m by auto
    moreover have "ts = []" using Cons.prems(3) unfolding mi by simp
    ultimately show ?thesis using s' by simp
  next
    case False
    then have "s' = (?f, alarm_set (erase_alarm f) (t + ERASE_SECTOR_CYCLES) (alarm_unset (erase_alarm f) c))"
      using s'(1) Cons.prems(2) i(4) e by (simp add: erase_alarm_handler_def)
    then obtain c1 where c1: "s' = (?f, c1)" by blast
    have "erased (flash_type f) (marked ?f) (erased (flash_type f) {i} (flash_data f)) = erased (flash_type f) (marked f) (flash_data f)"
      unfolding erased_erased m using i(1) by (intro arg_cong[where f = "\<lambda>S. erased _ S _"]) blast
    then show ?thesis using Cons.IH[of ?f c1] s' c1 n Cons.prems(2) by simp
  qed
qed


text \<open>A chip in a machine with no alarm set.\<close>

definition example_flash :: flash_machine where
  "example_flash = (\<lparr>flash_data = replicate 0x20000 0x0F, flash_state = STATE_READ, flash_base_state = STATE_READ, program_byte = 0,
     erase_mask = replicate 8 0, flash_dirty = False, flash_type = TYPE_010, last_read = 0, erase_alarm = 7\<rparr>, example_idle)"

lemma example_flash_ok: "flash_ok example_flash"
  using marked_zero[of "fst example_flash"]
  by (simp add: example_flash_def flash_ok_def example_idle_facts flash_types_def)

lemma size_least: "4 \<le> flash_size (flash_types ty)"
  by (cases ty) (simp_all add: flash_types_def)

subsection \<open>The properties\<close>

text \<open>
  C20: Whatever a program stores and reads at addresses of the chip, and whenever the clock reaches the alarm, the chip stays well
  formed, and its alarm is set exactly while an erase is on its way. No access leaves its buffers, but for one case: on the
  S29GL064N, which has 128 sectors, a store to one of the upper 64 can write behind the mask of the sectors to erase. (A history
  goes on only after stores that stayed inside.)
\<close>

theorem flash_keeps_invariant:
  assumes "flash_ok s0" "flash_reach s0 h (f, c)" "addr < flash_size (flash_types (flash_type f))"
  shows "flash_ok (f, c) \<and> flash040core_read clk addr f \<noteq> None \<and> erase_alarm_handler clk (f, c) \<noteq> None
    \<and> (flash040core_store rmw clk addr b (f, c) = None \<longrightarrow> flash_type f = TYPE_064 \<and> 64 \<le> addr div sector_size (flash_types TYPE_064))
    \<and> (alarm_due c (erase_alarm f) \<noteq> None \<longleftrightarrow> flash_state f \<in> {STATE_CHIP_ERASE, STATE_SECTOR_ERASE_TIMEOUT})"
proof -
  have ok: "flash_ok (f, c)" using reach_ok[OF assms(2,1)] by simp
  then have l: "addr < length (flash_data f)" "4 \<le> length (flash_data f)" using assms(3) size_least by (simp_all add: flash_ok_def)
  have "alarm_due c (erase_alarm f) \<noteq> None \<longleftrightarrow> flash_state f \<in> {STATE_CHIP_ERASE, STATE_SECTOR_ERASE_TIMEOUT}"
    using ok by (simp add: flash_ok_def)
  moreover have "flash_type f = TYPE_064 \<and> 64 \<le> addr div sector_size (flash_types TYPE_064)"
    if "flash040core_store rmw clk addr b (f, c) = None"
  proof -
    have "\<not> maskable (flash_type f) addr" using that store_ok[OF ok l(1), of rmw clk b] by auto
    moreover from this have t: "flash_type f = TYPE_064" using maskable_types by blast
    ultimately have "64 \<le> flash_addr_to_sector_number TYPE_064 addr" by (simp add: maskable_def)
    also have "\<dots> \<le> addr div sector_size (flash_types TYPE_064)" by (simp add: flash_sector_number)
    finally show ?thesis using t by simp
  qed
  moreover have "flash040core_read clk addr f \<noteq> None" using read_some[OF l, of clk] by auto
  moreover have "erase_alarm_handler clk (f, c) \<noteq> None" using alarm_handler_ok[OF ok, of clk] by auto
  ultimately show ?thesis using ok by blast
qed

theorem flash_keeps_invariant_witness:
  "flash040core_store True 100 0x1555 0xAA example_flash \<noteq> None"
proof -
  obtain f c where e: "example_flash = (f, c)" by (cases example_flash)
  then have "flash_reach example_flash [] (f, c)" using flash_reach.start[of example_flash] by simp
  moreover have "flash_type f = TYPE_010" using arg_cong[OF e, of "\<lambda>x. flash_type (fst x)"] by (simp add: example_flash_def)
  ultimately show ?thesis using flash_keeps_invariant[OF example_flash_ok, where h = "[]" and addr = "0x1555" and rmw = True and clk = 100 and b = "0xAA"]
    by (auto simp: e flash_types_def)
qed

text \<open>
  C9: the data of the chip is protected: it can differ from what it was only after the stores of a program
  command, with a store behind them, or of an erase command, one directly after the other, have reached the
  addresses of the type of chip.
\<close>

theorem flash_data_protected:
  assumes "flash_ok s0" "flash_state (fst s0) = STATE_READ" "flash_reach s0 h s" "flash_data (fst s) \<noteq> flash_data (fst s0)"
  shows "unlocked (flash_type (fst s0)) h"
  using reach_hist[OF assms(3,1,2)] assms(4) reach_ok[OF assms(3,1)] by (simp add: hist_inv_def same_chip_def)

lemma example_flash_fields: "flash_state (fst example_flash) = STATE_READ" "flash_type (fst example_flash) = TYPE_010"
  by (simp_all add: example_flash_def)

lemma example_magic: "flash_magic_1 TYPE_010 0x5555" "flash_magic_2 TYPE_010 0x2AAA"
  by (simp_all add: flash_magic_1_def flash_magic_2_def flash_types_def)

lemma reach_stores:
  "flash_reach s0 h s \<Longrightarrow> run_stores clk hs s = Some s' \<Longrightarrow> \<forall>x\<in>set hs. fst x < length (flash_data (fst s)) \<Longrightarrow> flash_ok s \<Longrightarrow>
    flash_reach s0 (rev hs @ h) s'"
proof (induction hs arbitrary: s h)
  case (Cons x hs)
  obtain a b where x: "x = (a, b)" by (cases x)
  obtain f c where s: "s = (f, c)" by (cases s)
  obtain s1 where s1: "flash040core_store False clk a b (f, c) = Some s1" "flash_ok s1" "same_chip (f, c) s1"
    using store_some[of f c a False clk b] Cons.prems by (auto simp: s x bind_eq_Some_conv)
  then have "length (flash_data (fst s1)) = length (flash_data f)"
    using Cons.prems(4) by (auto simp: s flash_ok_def same_chip_def)
  moreover have "flash_reach s0 ((a, b) # h) s1" using flash_reach.store[of s0 h f c False clk a b s1] Cons.prems s1 by (simp add: s x)
  ultimately show ?case using Cons.IH[of "(a, b) # h" s1] Cons.prems(2,3) s1 by (simp add: s x)
qed simp

text \<open>Programming a byte clears bits of it and of no other.\<close>

lemma program_stores:
  assumes "flash_state f = STATE_READ" "flash_magic_1 (flash_type f) a1" "flash_magic_2 (flash_type f) a2" "flash_magic_1 (flash_type f) a3"
    "a < length (flash_data f)"
  shows "\<exists>f'. run_stores clk [(a1, 0xAA), (a2, 0x55), (a3, 0xA0), (a, b)] (f, c) = Some (f', c)
    \<and> flash_data f' = (flash_data f)[a := flash_data f ! a AND b]
    \<and> flash_state f' = (if flash_data f ! a AND b = b then flash_base_state f else STATE_BYTE_PROGRAM_ERROR)"
  using assms by (simp add: flash040core_store_def flash040core_store_internal_def to_defs flash_program_byte_def Let_def)

theorem flash_data_protected_witness:
  "\<exists>s. flash_reach example_flash [(3, 5), (0x5555, 0xA0), (0x2AAA, 0x55), (0x5555, 0xAA)] s
    \<and> flash_data (fst s) ! 3 = 5 \<and> unlocked TYPE_010 [(3, 5), (0x5555, 0xA0), (0x2AAA, 0x55), (0x5555, 0xAA)]"
proof -
  let ?h = "[(0x5555, 0xAA), (0x2AAA, 0x55), (0x5555, 0xA0), (3, 5)] :: (nat \<times> byte) list"
  obtain f c where e: "example_flash = (f, c)" by (cases example_flash)
  have t: "flash_state f = STATE_READ" "flash_type f = TYPE_010" "flash_data f = replicate 0x20000 0x0F"
    using arg_cong[OF e, of "flash_state \<circ> fst"] arg_cong[OF e, of "flash_type \<circ> fst"] arg_cong[OF e, of "flash_data \<circ> fst"]
    by (simp_all add: example_flash_def)
  obtain f' where f': "run_stores 100 ?h (f, c) = Some (f', c)" "flash_data f' = (flash_data f)[3 := flash_data f ! 3 AND 5]"
    using program_stores[of f "0x5555" "0x2AAA" "0x5555" 3 100 5 c] t example_magic by auto
  have d: "flash_data f' ! 3 = 5" "flash_data f ! 3 = 0x0F" by (simp_all add: f'(2) t(3))
  have r: "flash_reach example_flash (rev ?h @ []) (f', c)"
    using flash_reach.start[of example_flash] f'(1) example_flash_ok t(3) by (intro reach_stores[of _ _ example_flash 100]) (simp_all add: e)
  have "unlocked (flash_type (fst example_flash)) (rev ?h @ [])"
    using d by (intro flash_data_protected[OF example_flash_ok example_flash_fields(1) r]) (auto simp: e)
  then show ?thesis using r d(1) example_flash_fields(2) by (intro exI[of _ "(f', c)"]) simp
qed

text \<open>
  C19: The command to erase sectors erases the sectors of the addresses that follow it, all of them and nothing
  else: when the alarm has come once for each, these sectors are all ones, every other byte is as before, and
  the chip can be read again. The sectors have to be among the first 64, the ones the mask has room for; every type of chip but the
  S29GL064N has no more than these.
\<close>

theorem flash_erases_sectors:
  assumes "flash_ok (f, c)" "flash_state f = STATE_READ"
    "flash_magic_1 (flash_type f) a1" "flash_magic_2 (flash_type f) a2" "flash_magic_1 (flash_type f) a3"
    "flash_magic_1 (flash_type f) a4" "flash_magic_2 (flash_type f) a5" "\<forall>x\<in>set (a # as). flash_addr_to_sector_number (flash_type f) x < 64"
    "length ts = card (flash_addr_to_sector_number (flash_type f) ` set (a # as))"
  shows "\<exists>s1 f' c'. run_stores clk ([(a1, 0xAA), (a2, 0x55), (a3, 0x80), (a4, 0xAA), (a5, 0x55)] @ map (\<lambda>a. (a, 0x30)) (a # as)) (f, c) = Some s1
    \<and> alarm_due (snd s1) (erase_alarm f) = Some (clk + ERASE_SECTOR_TIMEOUT_CYCLES)
    \<and> run_alarms ts s1 = Some (f', c') \<and> flash_state f' = flash_base_state f
    \<and> flash_data f' = erased (flash_type f) (flash_addr_to_sector_number (flash_type f) ` set (a # as)) (flash_data f)"
proof -
  let ?f = "f\<lparr>flash_state := STATE_ERASE_SELECT\<rparr>"
  note ok = assms(1)[unfolded flash_ok_def prod.case]
  have mt: "marked f = {}" using ok assms(2) by simp
  have sel: "flash_ok (?f, c)" using ok assms(2) by (simp add: flash_ok_def)
  have n: "flash_addr_to_sector_number (flash_type f) a < sectors (flash_type f)" by (simp add: flash_sector_number)
  have l64: "flash_addr_to_sector_number (flash_type ?f) a < 64" using assms(8) by simp
  obtain m where m: "flash_add_sector_to_erase_mask a ?f = Some (?f\<lparr>erase_mask := m\<rparr>)" "length m = 8"
    "marked (?f\<lparr>erase_mask := m\<rparr>) = {flash_addr_to_sector_number (flash_type f) a}"
    using marked_add[of ?f a] ok mt l64 by auto
  let ?f1 = "?f\<lparr>erase_mask := m, program_byte := 0, flash_state := STATE_SECTOR_ERASE_TIMEOUT\<rparr>"
    and ?c1 = "alarm_set (erase_alarm f) (clk + ERASE_SECTOR_TIMEOUT_CYCLES) c"
  have st: "flash040core_store False clk a 0x30 (?f, c) = Some (?f1, ?c1)"
    using m(1) by (simp add: flash040core_store_def flash040core_store_internal_def)
  have "marked ?f1 = {flash_addr_to_sector_number (flash_type f) a}" using m(3) by (simp add: marked_def)
  then have ok1: "flash_ok (?f1, ?c1)" using ok n m(2) by (simp add: flash_ok_def alarm_steps del: marked_frame)
  obtain m' where m': "run_stores clk (map (\<lambda>a. (a, 0x30)) as) (?f1, ?c1) = Some (?f1\<lparr>erase_mask := m'\<rparr>, ?c1)" "flash_ok (?f1\<lparr>erase_mask := m'\<rparr>, ?c1)"
    "marked (?f1\<lparr>erase_mask := m'\<rparr>) = flash_addr_to_sector_number (flash_type f) ` set (a # as)"
    using add_sectors[OF ok1, of as clk] \<open>marked ?f1 = _\<close> assms(8) by (auto simp: maskable_def)
  let ?s1 = "(?f1\<lparr>erase_mask := m'\<rparr>, ?c1)"
  have "run_stores clk ([(a1, 0xAA), (a2, 0x55), (a3, 0x80), (a4, 0xAA), (a5, 0x55)] @ map (\<lambda>a. (a, 0x30)) (a # as)) (f, c) = Some ?s1"
    unfolding run_stores_append setup_stores[OF assms(2-7)] using st m'(1) by simp
  moreover have "alarm_due ?c1 (erase_alarm f) = Some (clk + ERASE_SECTOR_TIMEOUT_CYCLES)" using ok by (simp add: alarm_steps)
  moreover obtain f' c' where "run_alarms ts ?s1 = Some (f', c')"
    "flash_data f' = erased (flash_type f) (flash_addr_to_sector_number (flash_type f) ` set (a # as)) (flash_data f)" "flash_state f' = flash_base_state f"
    using alarms_erase[OF m'(2), of ts] assms(9) unfolding m'(3) by auto
  ultimately show ?thesis by (intro exI[of _ ?s1] exI[of _ f'] exI[of _ c']) simp
qed


theorem flash_erases_sectors_witness:
  "\<exists>s1 f' c'. run_stores 100 ([(0x5555, 0xAA), (0x2AAA, 0x55), (0x5555, 0x80), (0x5555, 0xAA), (0x2AAA, 0x55)] @ map (\<lambda>a. (a, 0x30)) [0x4001, 0x8002]) example_flash = Some s1
    \<and> run_alarms [150, 1162] s1 = Some (f', c') \<and> flash_data f' ! 0x5000 = 0xFF \<and> flash_data f' ! 0x1C000 = 0x0F"
proof -
  obtain f c where e: "example_flash = (f, c)" by (cases example_flash)
  have t: "flash_state f = STATE_READ" "flash_type f = TYPE_010" "flash_data f = replicate 0x20000 0x0F"
    using arg_cong[OF e, of "flash_state \<circ> fst"] arg_cong[OF e, of "flash_type \<circ> fst"] arg_cong[OF e, of "flash_data \<circ> fst"]
    by (simp_all add: example_flash_def)
  have n: "flash_addr_to_sector_number TYPE_010 ` set [0x4001, 0x8002] = {1, 2}"
    by (simp add: flash_sector_number flash_types_def sectors_def)
  have n64: "\<forall>x\<in>set [0x4001, 0x8002]. flash_addr_to_sector_number TYPE_010 x < 64" by (simp add: flash_sector_number flash_types_def sectors_def)
  have d: "erased TYPE_010 {1, 2} (replicate 0x20000 0x0F) ! 0x5000 = 0xFF" "erased TYPE_010 {1, 2} (replicate 0x20000 0x0F) ! 0x1C000 = 0x0F"
    by (simp_all add: erased_def flash_types_def)
  show ?thesis
    using flash_erases_sectors[of f c "0x5555" "0x2AAA" "0x5555" "0x5555" "0x2AAA" "0x4001" "[0x8002]" "[150, 1162]" 100] example_flash_ok[unfolded e] d
    unfolding t n e using t(1) example_magic n64 by auto
qed

text \<open>
  C36: while the sectors of a list are being erased the chip is still in the state that waits for more of them:
  the states that erase and that suspend are never reached. A store of the suspend command ends the erase, and
  the remaining sectors keep their bytes.
\<close>

theorem suspend_aborts_erase:
  assumes "flash_ok (f, c)" "flash_state f = STATE_SECTOR_ERASE_TIMEOUT" "card (marked f) \<ge> 2"
  shows "\<exists>f1 c1 f2 c2. erase_alarm_handler clk (f, c) = Some (f1, c1) \<and> alarm_due c1 (erase_alarm f) = Some (clk + ERASE_SECTOR_CYCLES)
    \<and> flash040core_store False clk' addr 0xB0 (f1, c1) = Some (f2, c2) \<and> flash_state f2 = flash_base_state f
    \<and> marked f2 = {} \<and> alarm_due c2 (erase_alarm f) = None \<and> flash_data f2 = flash_data f1"
proof -
  note ok = assms(1)[unfolded flash_ok_def prod.case]
  have ne: "marked f \<noteq> {}" using assms(3) by auto
  obtain i m where i: "i \<in> marked f" "length m = 8" "marked (f\<lparr>erase_mask := m\<rparr>) = marked f - {i}"
    "flash_erase_next f = Some (f\<lparr>flash_data := erased (flash_type f) {i} (flash_data f), flash_dirty := True, erase_mask := m\<rparr>)"
    (is "_ = Some ?f")
    using erase_next_marked[of f] ok ne by blast
  have m: "marked ?f = marked f - {i}" using i(3) by (simp add: marked_def)
  have "marked f \<noteq> {i}" using assms(3) by auto
  then have "marked ?f \<noteq> {}" using i(1) m by blast
  moreover have "fold (OR) (erase_mask ?f) 0 = 0 \<longleftrightarrow> marked ?f = {}" using i(2) by (intro mask_empty) simp
  ultimately have h: "erase_alarm_handler clk (f, c) = Some (?f, alarm_set (erase_alarm f) (clk + ERASE_SECTOR_CYCLES) (alarm_unset (erase_alarm f) c))"
    (is "_ = Some (_, ?c)")
    using assms(2) i(4) by (simp add: erase_alarm_handler_def)
  let ?f2 = "flash_clear_erase_mask (?f\<lparr>flash_state := flash_base_state f\<rparr>)"
  have "flash040core_store False clk' addr 0xB0 (?f, ?c) = Some (?f2, alarm_unset (erase_alarm f) ?c)"
    using assms(2) by (simp add: flash040core_store_def flash040core_store_internal_def)
  moreover have "flash_state ?f2 = flash_base_state f" "flash_data ?f2 = flash_data ?f" by (simp_all add: flash_clear_erase_mask_def)
  moreover have "alarm_due ?c (erase_alarm f) = Some (clk + ERASE_SECTOR_CYCLES)" "alarm_due (alarm_unset (erase_alarm f) ?c) (erase_alarm f) = None"
    using ok by (simp_all add: alarm_steps)
  ultimately show ?thesis using h marked_clear by blast
qed

lemma two_marked: "\<exists>m. length m = 8 \<and> marked ((fst example_flash)\<lparr>erase_mask := m\<rparr>) = {1, 2}"
proof -
  let ?f = "fst example_flash"
  have f: "length (erase_mask ?f) = 8" "flash_type ?f = TYPE_010" "marked ?f = {}"
    using marked_zero[of ?f] by (simp_all add: example_flash_def)
  have n: "flash_addr_to_sector_number TYPE_010 0x4000 = 1" "flash_addr_to_sector_number TYPE_010 0x8000 = 2"
    by (simp_all add: flash_sector_number flash_types_def sectors_def)
  obtain m where m: "length m = 8" "marked (?f\<lparr>erase_mask := m\<rparr>) = {1}"
    using marked_add[of ?f "0x4000"] f n by auto
  then show ?thesis using marked_add[of "?f\<lparr>erase_mask := m\<rparr>" "0x8000"] f n by auto
qed

theorem suspend_aborts_erase_witness:
  "\<exists>f c f1 c1 f2 c2. erase_alarm_handler 200 (f, c) = Some (f1, c1) \<and> alarm_due c1 7 = Some 1212
    \<and> flash040core_store False 300 0 0xB0 (f1, c1) = Some (f2, c2) \<and> alarm_due c2 7 = None \<and> flash_data f2 = flash_data f1"
proof -
  let ?f = "fst example_flash" and ?c = "alarm_set 7 150 example_idle"
  obtain m where m: "length m = 8" "marked (?f\<lparr>erase_mask := m\<rparr>) = {1, 2}" using two_marked by blast
  let ?g = "?f\<lparr>erase_mask := m, flash_state := STATE_SECTOR_ERASE_TIMEOUT\<rparr>"
  have g: "marked ?g = {1, 2}" using m(2) by (simp add: marked_def)
  have t: "flash_type ?g = TYPE_010" "length (flash_data ?g) = 0x20000" "flash_base_state ?g = STATE_READ" "erase_alarm ?g = 7"
    by (simp_all add: example_flash_def)
  have "sectors TYPE_010 = 8" by (simp add: sectors_def flash_types_def)
  moreover have "flash_size (flash_types TYPE_010) = 0x20000" by (simp add: flash_types_def)
  ultimately have "flash_ok (?g, ?c)"
    using t g m(1) example_idle_facts by (simp add: flash_ok_def alarm_steps del: marked_frame)
  from suspend_aborts_erase[OF this, of 200 300 0]
  obtain f1 c1 f2 c2 where "erase_alarm_handler 200 (?g, ?c) = Some (f1, c1)" "alarm_due c1 7 = Some 1212"
    "flash040core_store False 300 0 0xB0 (f1, c1) = Some (f2, c2)" "alarm_due c2 7 = None" "flash_data f2 = flash_data f1"
    using g t(4) by (auto simp: ERASE_SECTOR_CYCLES_def simp del: marked_frame)
  then show ?thesis by blast
qed

text \<open>
  The mask of the sectors to erase has 64 bits, and the S29GL064N 128 sectors: a command to erase one of the
  upper half of them changes the memory behind the mask.
\<close>

theorem s29gl064n_mask_overrun:
  assumes "flash_type f = TYPE_064" "flash_state f = STATE_ERASE_SELECT" "length (erase_mask f) = FLASH040_ERASE_MASK_SIZE"
    "0x400000 \<le> addr" "addr < 0x800000"
  shows "flash040core_store False clk addr 0x30 (f, c) = None"
proof -
  have "flash_addr_to_sector_number TYPE_064 addr = addr div 0x10000 mod 128" by (simp add: flash_sector_number flash_types_def sectors_def)
  moreover have "64 \<le> addr div 0x10000" "addr div 0x10000 < 128" using assms(4,5) by simp_all
  ultimately have "8 \<le> drop_bit 3 (flash_addr_to_sector_number TYPE_064 addr)" by (simp add: drop_bit_eq_div)
  then show ?thesis using assms(1-3)
    by (simp add: flash040core_store_def flash040core_store_internal_def flash_add_sector_to_erase_mask_def Let_def FLASH040_ERASE_MASK_SIZE_def)
qed

theorem s29gl064n_mask_overrun_witness:
  "flash040core_store False 100 0x400000 0x30
     ((fst example_flash)\<lparr>flash_type := TYPE_064, flash_state := STATE_ERASE_SELECT\<rparr>, example_idle) = None"
  by (rule s29gl064n_mask_overrun) (simp_all add: example_flash_def FLASH040_ERASE_MASK_SIZE_def)

end
