(* ===== verification/M93c86.thy ===== *)
theory M93c86
  imports Prelude
begin

text \<open>
  The serial EEPROM of cartridges, \<open>core/m93c86.c\<close>: its pins, the shift registers, the commands and the status
  after a write. \<open>None\<close> is an access outside the memory.
\<close>

subsection \<open>The code\<close>

definition M93C86_SIZE :: nat where "M93C86_SIZE = 2048"

datatype m93c86_command =
  CMDNONE | CMD00 | CMDWRITE | CMDREAD | CMDERASE | CMDWEN | CMDWDS | CMDERAL | CMDWRAL | CMDREADDUMMY | CMDREADDATA | CMDISBUSY | CMDISREADY

definition STATUSREADY :: byte where "STATUSREADY = 1"
definition STATUSBUSY :: byte where "STATUSBUSY = 0"

text \<open>The static variables of the file.\<close>

record m93c86 =
  m93c86_data :: "byte list"
  eeprom_cs :: byte
  eeprom_clock :: byte
  eeprom_data_in :: byte
  eeprom_data_out :: byte
  input_shiftreg :: dword
  input_count :: dword
  output_shiftreg :: dword
  output_count :: dword
  ee_command :: m93c86_command
  ee_addr :: nat
  data0 :: byte
  data1 :: byte
  write_enable_status :: bool
  ready_busy_status :: byte

definition reset_input_shiftreg :: "m93c86 \<Rightarrow> m93c86" where
  "reset_input_shiftreg s = s\<lparr>input_shiftreg := 0, input_count := 0\<rparr>"

definition m93c86_read_data :: "m93c86 \<Rightarrow> byte \<times> m93c86" where
  "m93c86_read_data s =
     (if eeprom_cs s = 1
      then (case ee_command s of
              CMDISBUSY \<Rightarrow> (STATUSBUSY, s\<lparr>ee_command := CMDISREADY\<rparr>)
            | CMDISREADY \<Rightarrow> (STATUSREADY, s\<lparr>ready_busy_status := STATUSREADY, ee_command := CMDNONE\<rparr>)
            | _ \<Rightarrow> (eeprom_data_out s, s))
      else (0, s))"

definition m93c86_write_data :: "byte \<Rightarrow> m93c86 \<Rightarrow> m93c86" where
  "m93c86_write_data v s = (if eeprom_cs s = 1 then s\<lparr>eeprom_data_in := v\<rparr> else s)"

definition m93c86_write_select :: "byte \<Rightarrow> m93c86 \<Rightarrow> m93c86" where
  "m93c86_write_select v s =
     (let s1 = (if eeprom_cs s = 0 \<and> v = 1 \<and> eeprom_clock s = 0 then reset_input_shiftreg s
                else if eeprom_cs s = 1 \<and> v = 0
                then (if ee_command s \<in> {CMDWRITE, CMDWRAL, CMDERAL} then s\<lparr>ee_command := CMDISBUSY\<rparr> else s)
                else s);
          s2 = s1\<lparr>eeprom_cs := v\<rparr>
      in if v = 0 \<and> ee_command s2 \<in> {CMDREAD, CMDREADDUMMY, CMDREADDATA} then s2\<lparr>ee_command := CMDNONE\<rparr> else s2)"

definition load_byte :: "nat \<Rightarrow> m93c86 \<Rightarrow> m93c86 option" where
  "load_byte i s = (if i < length (m93c86_data s) then Some (s\<lparr>output_shiftreg := ucast (m93c86_data s ! i)\<rparr>) else None)"

text \<open>The most significant bit of the output register goes out.\<close>

definition shift_out :: "m93c86 \<Rightarrow> m93c86" where
  "shift_out s = s\<lparr>eeprom_data_out := ucast (drop_bit 7 (output_shiftreg s) AND 1), output_shiftreg := push_bit 1 (output_shiftreg s),
     output_count := output_count s + 1\<rparr>"

definition clock_dummy :: "m93c86 \<Rightarrow> m93c86 option" where
  "clock_dummy s =
     map_option (\<lambda>s. (shift_out (s\<lparr>output_count := 0\<rparr>))\<lparr>ee_command := CMDREADDATA\<rparr>) (load_byte (2 * ee_addr s) s)"

definition clock_output :: "m93c86 \<Rightarrow> m93c86 option" where
  "clock_output s0 =
     (let s = shift_out s0
      in if output_count s = 8 then load_byte (2 * ee_addr s + 1) s
         else if output_count s = 16
         then (let a = (ee_addr s + 1) AND (M93C86_SIZE div 2 - 1)
               in map_option (\<lambda>s. s\<lparr>output_count := 0\<rparr>) (load_byte (2 * a) (s\<lparr>ee_addr := a\<rparr>)))
         else Some s)"

definition store_word :: "nat \<Rightarrow> byte \<Rightarrow> byte \<Rightarrow> byte list \<Rightarrow> byte list option" where
  "store_word a d0 d1 m = (if 2 * a + 1 < length m then Some (m[2 * a := d0, 2 * a + 1 := d1]) else None)"

definition field :: "nat \<Rightarrow> nat \<Rightarrow> dword \<Rightarrow> dword" where
  "field n m r = drop_bit n r AND mask m"

definition refuse :: "m93c86 \<Rightarrow> m93c86" where
  "refuse s = (reset_input_shiftreg s)\<lparr>ee_command := CMDNONE\<rparr>"

definition input_13 :: "m93c86 \<Rightarrow> m93c86" where
  "input_13 s =
     (case ee_command s of
        CMDREAD \<Rightarrow> reset_input_shiftreg (s\<lparr>ee_command := CMDREADDUMMY, ee_addr := unat (field 0 10 (input_shiftreg s))\<rparr>)
      | CMDWDS \<Rightarrow> refuse (s\<lparr>write_enable_status := False\<rparr>)
      | CMDWEN \<Rightarrow> refuse (s\<lparr>write_enable_status := True\<rparr>)
      | CMDERAL \<Rightarrow>
          if \<not> write_enable_status s then refuse s
          else reset_input_shiftreg (s\<lparr>ready_busy_status := STATUSBUSY, m93c86_data := replicate M93C86_SIZE 0xFF\<rparr>)
      | _ \<Rightarrow> s)"

definition input_29 :: "m93c86 \<Rightarrow> m93c86 option" where
  "input_29 s =
     (let d0 = ucast (field 8 8 (input_shiftreg s)); d1 = ucast (field 0 8 (input_shiftreg s)) in
      case ee_command s of
        CMDWRITE \<Rightarrow>
          if \<not> write_enable_status s then Some (refuse s)
          else (let a = unat (field 16 10 (input_shiftreg s))
                in map_option (\<lambda>m. reset_input_shiftreg (s\<lparr>ee_addr := a, data0 := d0, data1 := d1, ready_busy_status := STATUSBUSY,
                     m93c86_data := m\<rparr>)) (store_word a d0 d1 (m93c86_data s)))
      | CMDWRAL \<Rightarrow>
          if \<not> write_enable_status s then Some (refuse s)
          else map_option (\<lambda>m. reset_input_shiftreg (s\<lparr>ee_addr := M93C86_SIZE div 2, data0 := d0, data1 := d1, ready_busy_status := STATUSBUSY,
                     m93c86_data := m\<rparr>))
                 (fold (\<lambda>a m. Option.bind m (store_word a d0 d1)) [0..<M93C86_SIZE div 2] (Some (m93c86_data s)))
      | _ \<Rightarrow> Some s)"

definition command_3 :: "m93c86 \<Rightarrow> m93c86" where
  "command_3 s =
     (if input_shiftreg s = 0x04 then s\<lparr>ee_command := CMD00\<rparr>
      else if input_shiftreg s = 0x05 then s\<lparr>ee_command := CMDWRITE\<rparr>
      else if input_shiftreg s = 0x06 then s\<lparr>ee_command := CMDREAD\<rparr>
      else if input_shiftreg s = 0x07 then s\<lparr>ee_command := CMDERASE\<rparr>
      else s)"

definition command_5 :: "m93c86 \<Rightarrow> m93c86" where
  "command_5 s =
     (if ee_command s \<noteq> CMD00 then s
      else if input_shiftreg s = 0x10 then s\<lparr>ee_command := CMDWDS\<rparr>
      else if input_shiftreg s = 0x11 then s\<lparr>ee_command := CMDWRAL\<rparr>
      else if input_shiftreg s = 0x12 then s\<lparr>ee_command := CMDERAL\<rparr>
      else if input_shiftreg s = 0x13 then s\<lparr>ee_command := CMDWEN, write_enable_status := True\<rparr>
      else s)"

text \<open>What a count of bits completes.\<close>

definition input_step :: "m93c86 \<Rightarrow> m93c86 option" where
  "input_step s =
     (if input_count s = 1 then Some (if eeprom_data_in s = 0 then reset_input_shiftreg s else s)
      else if input_count s = 3 then Some (command_3 s)
      else if input_count s = 5 then Some (command_5 s)
      else if input_count s = 13 then Some (input_13 s)
      else if input_count s = 29 then input_29 s
      else Some s)"

definition clock_input :: "m93c86 \<Rightarrow> m93c86 option" where
  "clock_input s =
     input_step (s\<lparr>input_shiftreg := push_bit 1 (input_shiftreg s) OR ucast (eeprom_data_in s), input_count := input_count s + 1\<rparr>)"

definition m93c86_write_clock :: "byte \<Rightarrow> m93c86 \<Rightarrow> m93c86 option" where
  "m93c86_write_clock v s =
     map_option (\<lambda>s. s\<lparr>eeprom_clock := v\<rparr>)
       (if eeprom_cs s = 1 \<and> v = 1 \<and> eeprom_clock s = 0
        then (if ee_command s = CMDREADDUMMY then clock_dummy s
              else if ee_command s = CMDREADDATA then clock_output s
              else clock_input s)
        else Some s)"

subsection \<open>Sending bits\<close>

text \<open>A program puts a bit on the data line with the clock low, and raises the clock.\<close>

definition send_bit :: "bool \<Rightarrow> m93c86 \<Rightarrow> m93c86 option" where
  "send_bit b s = Option.bind (m93c86_write_clock 0 (m93c86_write_data (of_bool b) s)) (m93c86_write_clock 1)"

fun send_bits :: "bool list \<Rightarrow> m93c86 \<Rightarrow> m93c86 option" where
  "send_bits [] s = Some s"
| "send_bits (b # bs) s = Option.bind (send_bit b s) (send_bits bs)"

text \<open>The \<open>n\<close> low bits of a word, the most significant one first.\<close>

definition bits_of :: "nat \<Rightarrow> dword \<Rightarrow> bool list" where
  "bits_of n w = map (bit w) (rev [0..<n])"

lemma send_bits_append: "send_bits (xs @ ys) s = Option.bind (send_bits xs s) (send_bits ys)"
proof (induction xs arbitrary: s)
  case (Cons x xs)
  then show ?case by (cases "send_bit x s") simp_all
qed simp

text \<open>A selected chip that waits for, or is in, a command.\<close>

definition listening :: "m93c86 \<Rightarrow> bool" where
  "listening s \<longleftrightarrow> eeprom_cs s = 1 \<and> ee_command s \<notin> {CMDREADDUMMY, CMDREADDATA}"

text \<open>After some bits of a word, with the command found so far.\<close>

definition shifted :: "nat \<Rightarrow> dword \<Rightarrow> nat \<Rightarrow> m93c86 \<Rightarrow> m93c86 \<Rightarrow> bool" where
  "shifted n w k s0 s \<longleftrightarrow> (\<exists>d c. s = s0\<lparr>input_shiftreg := drop_bit k (take_bit n w), input_count := of_nat (n - k), eeprom_data_in := d, eeprom_clock := c\<rparr>)"

lemma send_bit_input:
  assumes "listening s"
  shows "send_bit b s = map_option (\<lambda>s. s\<lparr>eeprom_clock := 1\<rparr>) (clock_input (s\<lparr>eeprom_data_in := of_bool b, eeprom_clock := 0\<rparr>))"
  using assms by (simp add: send_bit_def m93c86_write_clock_def m93c86_write_data_def listening_def)

lemma shift_word:
  assumes "k < n"
  shows "push_bit 1 (drop_bit (Suc k) (take_bit n w)) OR ucast (of_bool (bit w k) :: byte) = drop_bit k (take_bit n (w::dword))"
proof (rule bit_eqI)
  fix i
  assume "possible_bit TYPE(32 word) i"
  then have i: "i < 32" by simp
  have "bit (push_bit 1 (drop_bit (Suc k) (take_bit n w))) i \<longleftrightarrow> i \<noteq> 0 \<and> bit (drop_bit k (take_bit n w)) i"
    using i by (simp only: bit_push_bit_iff bit_drop_bit_eq comp_apply possible_bit_word) (cases i; simp)
  moreover have "bit (ucast (of_bool (bit w k) :: byte) :: dword) i \<longleftrightarrow> i = 0 \<and> bit w k" using i by (auto simp: bit_simps)
  moreover have "bit (drop_bit k (take_bit n w)) 0 \<longleftrightarrow> bit w k" using assms by (simp add: bit_simps)
  ultimately show "bit (push_bit 1 (drop_bit (Suc k) (take_bit n w)) OR ucast (of_bool (bit w k) :: byte)) i
      \<longleftrightarrow> bit (drop_bit k (take_bit n w)) i"
    unfolding bit_or_iff by (cases "i = 0") auto
qed

definition received :: "nat \<Rightarrow> dword \<Rightarrow> nat \<Rightarrow> m93c86 \<Rightarrow> m93c86" where
  "received n w k s = s\<lparr>input_shiftreg := drop_bit k (take_bit n w), input_count := of_nat (n - k), eeprom_data_in := of_bool (bit w k), eeprom_clock := 0\<rparr>"

text \<open>Sending one bit of a word.\<close>

lemma send_word_bit:
  assumes "listening s0" "shifted n w (Suc k) s0 s" "k < n"
  shows "send_bit (bit w k) s = map_option (\<lambda>s. s\<lparr>eeprom_clock := 1\<rparr>) (input_step (received n w k s0))"
proof -
  obtain d c where s: "s = s0\<lparr>input_shiftreg := drop_bit (Suc k) (take_bit n w), input_count := of_nat (n - Suc k), eeprom_data_in := d, eeprom_clock := c\<rparr>"
    using assms(2) by (auto simp: shifted_def)
  have l: "listening s" using assms(1) by (simp add: s listening_def)
  have "n - k = Suc (n - Suc k)" using assms(3) by simp
  then have cnt: "of_nat (n - Suc k) + 1 = (of_nat (n - k) :: dword)" by (simp only: of_nat_Suc add.commute)
  let ?s = "s\<lparr>eeprom_data_in := of_bool (bit w k), eeprom_clock := 0\<rparr>"
  have "?s\<lparr>input_shiftreg := push_bit 1 (input_shiftreg ?s) OR ucast (eeprom_data_in ?s), input_count := input_count ?s + 1\<rparr> = received n w k s0"
    using shift_word[OF assms(3), of w] cnt by (intro m93c86.equality) (simp_all add: s received_def)
  then show ?thesis unfolding send_bit_input[OF l] clock_input_def by (simp only:)
qed

lemma count_is: "n < 32 \<Longrightarrow> j < 32 \<Longrightarrow> (of_nat (n - k) :: dword) = of_nat j \<longleftrightarrow> n - k = j"
  by (simp add: word_unat_eq_iff unat_of_nat)

lemma counts_are:
  assumes "n < 32"
  shows "(of_nat (n - k) :: dword) = 1 \<longleftrightarrow> n - k = 1" "(of_nat (n - k) :: dword) = 3 \<longleftrightarrow> n - k = 3" "(of_nat (n - k) :: dword) = 5 \<longleftrightarrow> n - k = 5"
    "(of_nat (n - k) :: dword) = 13 \<longleftrightarrow> n - k = 13" "(of_nat (n - k) :: dword) = 29 \<longleftrightarrow> n - k = 29"
  using count_is[OF assms, of 1 k] count_is[OF assms, of 3 k] count_is[OF assms, of 5 k] count_is[OF assms, of 13 k] count_is[OF assms, of 29 k]
  by simp_all

text \<open>
  Sending the bits of a word from one count to a later one, where no command is recognised in between: the
  input register holds the bits sent.
\<close>

lemma shifted_bit:
  assumes "listening s0" "shifted n w (Suc k) s0 s" "k < n" "n < 32" "n - k \<notin> {1, 3, 5, 13, 29}"
  shows "\<exists>s'. send_bit (bit w k) s = Some s' \<and> shifted n w k s0 s'"
proof -
  have "input_step (received n w k s0) = Some (received n w k s0)"
    using assms(5) by (simp add: input_step_def received_def counts_are[OF assms(4)])
  then show ?thesis using send_word_bit[OF assms(1-3)] by (auto simp: shifted_def received_def)
qed

lemma shifted_bits:
  assumes "listening s0" "shifted n w j s0 s" "k \<le> j" "j \<le> n" "n < 32" "\<forall>i\<in>{k..<j}. n - i \<notin> {1, 3, 5, 13, 29}"
  shows "\<exists>s'. send_bits (map (bit w) (rev [k..<j])) s = Some s' \<and> shifted n w k s0 s'"
  using assms(2-4,6)
proof (induction "j - k" arbitrary: j s)
  case 0
  then show ?case by simp
next
  case (Suc m)
  obtain j' where j: "j = Suc j'" using Suc(2) by (cases j) simp_all
  have b: "k \<le> j'" "j' < n" "n - j' \<notin> {1, 3, 5, 13, 29}" using Suc(2,5,6) by (auto simp: j)
  obtain s1 where s1: "send_bit (bit w j') s = Some s1" "shifted n w j' s0 s1"
    using shifted_bit[OF assms(1) _ b(2) assms(5) b(3), where s = s and w = w] Suc(3) by (auto simp: j)
  have "m = j' - k" using Suc(2) by (simp add: j)
  then obtain s' where "send_bits (map (bit w) (rev [k..<j'])) s1 = Some s'" "shifted n w k s0 s'"
    using Suc(1)[of j' s1] s1(2) b Suc(6) by (auto simp: j)
  then show ?case using s1(1) b(1) by (simp add: j)
qed

text \<open>The start bit and the bits that choose the command.\<close>

lemma shifted_start:
  assumes "listening s0" "shifted n w n s0 s" "0 < n" "n < 32" "bit w (n - 1)"
  shows "\<exists>s'. send_bit (bit w (n - 1)) s = Some s' \<and> shifted n w (n - 1) s0 s'"
proof -
  have "input_step (received n w (n - 1) s0) = Some (received n w (n - 1) s0)"
    using assms(3,5) by (simp add: input_step_def received_def)
  then show ?thesis using send_word_bit[OF assms(1), where k = "n - 1" and n = n and w = w and s = s] assms(2,3) by (auto simp: shifted_def received_def)
qed

definition command_of_3 :: "dword \<Rightarrow> m93c86_command" where
  "command_of_3 r = (if r = 4 then CMD00 else if r = 5 then CMDWRITE else if r = 6 then CMDREAD else CMDERASE)"

lemma register_head:
  "n = k + m \<Longrightarrow> drop_bit k (take_bit n (w::dword)) = take_bit m (drop_bit k w)"
  by (simp add: drop_bit_take_bit)

lemma head_values:
  assumes "bit (w::dword) (k + m)"
  shows "2 ^ m \<le> unat (take_bit (Suc m) (drop_bit k w))" "unat (take_bit (Suc m) (drop_bit k w)) < 2 ^ Suc m"
proof -
  let ?r = "take_bit (Suc m) (drop_bit k w)"
  have "unat ?r = take_bit (Suc m) (unat (drop_bit k w))" by (rule unsigned_take_bit_eq)
  then show "unat ?r < 2 ^ Suc m" using take_bit_nat_less_exp[of "Suc m" "unat (drop_bit k w)"] by (simp only:)
  have "bit ?r m" using assms by (simp add: bit_simps)
  then have "odd (unat ?r div 2 ^ m)" by (simp add: bit_word_nat)
  then have "unat ?r div 2 ^ m \<noteq> 0" by (intro notI) simp
  then show "2 ^ m \<le> unat ?r" by (simp add: div_eq_0_iff)
qed

lemma shifted_3:
  assumes "listening s0" "shifted n w (Suc k) s0 s" "n = k + 3" "n < 32" "bit w (n - 1)"
  shows "\<exists>s'. send_bit (bit w k) s = Some s' \<and> shifted n w k (s0\<lparr>ee_command := command_of_3 (take_bit 3 (drop_bit k w))\<rparr>) s'"
proof -
  let ?r = "take_bit 3 (drop_bit k w)"
  have "4 \<le> unat ?r" "unat ?r < 8" using head_values[of w k 2] assms(3,5) by (simp_all add: numeral_eq_Suc)
  then have "unat ?r \<in> {4, 5, 6, 7}" by auto
  then have r: "?r = 4 \<or> ?r = 5 \<or> ?r = 6 \<or> ?r = 7" by (auto simp: word_unat_eq_iff)
  have "command_3 (received n w k s0) = received n w k (s0\<lparr>ee_command := command_of_3 ?r\<rparr>)"
    using r by (intro m93c86.equality) (auto simp: command_3_def received_def command_of_3_def register_head[OF assms(3)])
  moreover have "input_step (received n w k s0) = Some (command_3 (received n w k s0))"
    using assms(3) by (simp add: input_step_def received_def)
  ultimately show ?thesis using send_word_bit[OF assms(1,2)] assms(3) by (auto simp: shifted_def received_def)
qed

definition command_of_5 :: "dword \<Rightarrow> m93c86_command" where
  "command_of_5 r = (if r = 0x10 then CMDWDS else if r = 0x11 then CMDWRAL else if r = 0x12 then CMDERAL else if r = 0x13 then CMDWEN
     else command_of_3 (drop_bit 2 r))"

lemma shifted_5:
  assumes "listening s0" "shifted n w (Suc k) s0 s" "n = k + 5" "n < 32" "bit w (n - 1)" "ee_command s0 = command_of_3 (take_bit 3 (drop_bit (k + 2) w))"
  shows "\<exists>s'. send_bit (bit w k) s = Some s'
    \<and> shifted n w k (s0\<lparr>ee_command := command_of_5 (take_bit 5 (drop_bit k w)), write_enable_status := write_enable_status s0 \<or> take_bit 5 (drop_bit k w) = 0x13\<rparr>) s'"
proof -
  let ?r = "take_bit 5 (drop_bit k w)"
  have v: "16 \<le> unat ?r" "unat ?r < 32" using head_values[of w k 4] assms(3,5) by (simp_all add: numeral_eq_Suc)
  have h: "take_bit 3 (drop_bit (k + 2) w) = drop_bit 2 ?r" by (simp add: drop_bit_take_bit)
  have c: "ee_command s0 = CMD00 \<longleftrightarrow> ?r \<in> {0x10, 0x11, 0x12, 0x13}"
  proof -
    have "unat (drop_bit 2 ?r) = unat ?r div 4" using unat_drop_bit_eq[of 2 ?r] drop_bit_eq_div[of 2 "unat ?r"] by simp
    then have "drop_bit 2 ?r = 4 \<longleftrightarrow> unat ?r div 4 = 4" by (simp add: word_unat_eq_iff)
    also have "\<dots> \<longleftrightarrow> unat ?r \<in> {16, 17, 18, 19}" using v by auto
    also have "\<dots> \<longleftrightarrow> ?r \<in> {0x10, 0x11, 0x12, 0x13}" by (simp add: word_unat_eq_iff)
    finally show ?thesis using assms(6) unfolding h by (simp add: command_of_3_def)
  qed
  have "command_5 (received n w k s0)
      = received n w k (s0\<lparr>ee_command := command_of_5 ?r, write_enable_status := write_enable_status s0 \<or> ?r = 0x13\<rparr>)"
    using c assms(6) unfolding h
    by (intro m93c86.equality) (auto simp: command_5_def received_def command_of_5_def register_head[OF assms(3)])
  moreover have "input_step (received n w k s0) = Some (command_5 (received n w k s0))"
    using assms(3) by (simp add: input_step_def received_def)
  ultimately show ?thesis using send_word_bit[OF assms(1,2)] assms(3) by (auto simp: shifted_def received_def)
qed

lemma bits_split: "i \<le> j \<Longrightarrow> j \<le> n \<Longrightarrow> map (bit w) (rev [i..<n]) = map (bit w) (rev [j..<n]) @ map (bit w) (rev [i..<j])"
  using upt_add_eq_append[of i j "n - j"] by simp

lemma listening_command: "listening s \<Longrightarrow> c \<notin> {CMDREADDUMMY, CMDREADDATA} \<Longrightarrow> listening (s\<lparr>ee_command := c\<rparr>)"
  by (simp add: listening_def)

lemma send_command:
  assumes "listening s0" "shifted n w n s0 s" "5 < n" "n < 32" "bit w (n - 1)"
  shows "\<exists>s'. send_bits (map (bit w) (rev [n - 5..<n])) s = Some s'
    \<and> shifted n w (n - 5) (s0\<lparr>ee_command := command_of_5 (take_bit 5 (drop_bit (n - 5) w)),
         write_enable_status := write_enable_status s0 \<or> take_bit 5 (drop_bit (n - 5) w) = 0x13\<rparr>) s'"
proof -
  obtain k where n: "n = k + 5" using assms(3) by (metis add.commute le_Suc_ex less_imp_le)
  let ?s3 = "s0\<lparr>ee_command := command_of_3 (take_bit 3 (drop_bit (k + 2) w))\<rparr>"
  have l3: "listening ?s3" using assms(1) by (intro listening_command) (auto simp: command_of_3_def)
  obtain s1 where s1: "send_bit (bit w (k + 4)) s = Some s1" "shifted n w (k + 4) s0 s1"
    using shifted_start[OF assms(1,2) _ assms(4,5)] by (auto simp: n add.commute[of 4 k])
  obtain s2 where s2: "send_bit (bit w (k + 3)) s1 = Some s2" "shifted n w (k + 3) s0 s2"
    using shifted_bit[OF assms(1), where k = "k + 3" and n = n and w = w and s = s1] s1(2) assms(4) by (auto simp: n eval_nat_numeral)
  obtain s3 where s3: "send_bit (bit w (k + 2)) s2 = Some s3" "shifted n w (k + 2) ?s3 s3"
    using shifted_3[OF assms(1), where k = "k + 2" and n = n and w = w and s = s2] s2(2) assms(4,5) by (auto simp: n eval_nat_numeral)
  obtain s4 where s4: "send_bit (bit w (k + 1)) s3 = Some s4" "shifted n w (k + 1) ?s3 s4"
    using shifted_bit[OF l3, where k = "k + 1" and n = n and w = w and s = s3] s3(2) assms(4) by (auto simp: n eval_nat_numeral)
  obtain s5 where s5: "send_bit (bit w k) s4 = Some s5" "shifted n w k (?s3\<lparr>ee_command := command_of_5 (take_bit 5 (drop_bit k w)),
      write_enable_status := write_enable_status ?s3 \<or> take_bit 5 (drop_bit k w) = 0x13\<rparr>) s5"
    using shifted_5[OF l3, where k = k and n = n and w = w and s = s4] s4(2) assms(4,5) by (auto simp: n)
  have "rev [n - 5..<n] = [k + 4, k + 3, k + 2, k + 1, k]" by (simp add: n upt_rec eval_nat_numeral)
  then show ?thesis using s1(1) s2(1) s3(1) s4(1) s5 by (simp add: n)
qed


subsection \<open>The write command\<close>

text \<open>A chip that has just been selected.\<close>

definition fresh :: "m93c86 \<Rightarrow> bool" where
  "fresh s \<longleftrightarrow> listening s \<and> input_shiftreg s = 0 \<and> input_count s = 0"

lemma shifted_init: "fresh s \<Longrightarrow> shifted n w n s s"
  unfolding shifted_def
  by (intro exI[of _ "eeprom_data_in s"] exI[of _ "eeprom_clock s"] m93c86.equality) (simp_all add: fresh_def drop_bit_take_bit)

lemma shifted_13:
  assumes "listening s0" "shifted n w (Suc k) s0 s" "n = k + 13" "n < 32" "ee_command s0 \<in> {CMDWRITE, CMDWRAL}"
  shows "\<exists>s'. send_bit (bit w k) s = Some s' \<and> shifted n w k s0 s'"
proof -
  have "input_step (received n w k s0) = Some (received n w k s0)"
    using assms(3,5) by (auto simp: input_step_def received_def input_13_def)
  then show ?thesis using send_word_bit[OF assms(1,2)] assms(3) by (auto simp: shifted_def received_def)
qed

lemma command_of_write:
  assumes "take_bit 3 (drop_bit (k + 2) w) = (5 :: dword)"
  shows "command_of_5 (take_bit 5 (drop_bit k w)) = CMDWRITE" "take_bit 5 (drop_bit k w) \<noteq> (0x13 :: dword)"
proof -
  have h: "drop_bit 2 (take_bit 5 (drop_bit k w)) = (5 :: dword)" using assms by (simp add: drop_bit_take_bit)
  have "drop_bit 2 (0x10 :: dword) = 4" "drop_bit 2 (0x11 :: dword) = 4" "drop_bit 2 (0x12 :: dword) = 4" "drop_bit 2 (0x13 :: dword) = 4" by simp_all
  then have "take_bit 5 (drop_bit k w) \<notin> {0x10, 0x11, 0x12, 0x13 :: dword}" using h by auto
  then show "command_of_5 (take_bit 5 (drop_bit k w)) = CMDWRITE" "take_bit 5 (drop_bit k w) \<noteq> (0x13 :: dword)"
    using h by (simp_all add: command_of_5_def command_of_3_def)
qed

lemma command_of_read:
  assumes "take_bit 3 (drop_bit (k + 2) w) = (6 :: dword)"
  shows "command_of_5 (take_bit 5 (drop_bit k w)) = CMDREAD" "take_bit 5 (drop_bit k w) \<noteq> (0x13 :: dword)"
proof -
  have h: "drop_bit 2 (take_bit 5 (drop_bit k w)) = (6 :: dword)" using assms by (simp add: drop_bit_take_bit)
  have "drop_bit 2 (0x10 :: dword) = 4" "drop_bit 2 (0x11 :: dword) = 4" "drop_bit 2 (0x12 :: dword) = 4" "drop_bit 2 (0x13 :: dword) = 4" by simp_all
  then have "take_bit 5 (drop_bit k w) \<notin> {0x10, 0x11, 0x12, 0x13 :: dword}" using h by auto
  then show "command_of_5 (take_bit 5 (drop_bit k w)) = CMDREAD" "take_bit 5 (drop_bit k w) \<noteq> (0x13 :: dword)"
    using h by (simp_all add: command_of_5_def command_of_3_def)
qed

lemma start_bit: "take_bit 3 (drop_bit k w) = c \<Longrightarrow> bit (c::dword) 2 \<Longrightarrow> bit w (k + 2)"
  by (auto simp: bit_simps add.commute)

lemma write_bits:
  assumes "fresh s" "take_bit 3 (drop_bit 26 w) = 5"
  shows "\<exists>s0. send_bits (bits_of 29 w) s = map_option (\<lambda>s. s\<lparr>eeprom_clock := 1\<rparr>) (input_29 (received 29 w 0 s0)) \<and> s0 = s\<lparr>ee_command := CMDWRITE\<rparr>"
proof -
  let ?s0 = "s\<lparr>ee_command := CMDWRITE\<rparr>"
  have b: "bit w 28" using start_bit[OF assms(2)] by (simp add: bit_numeral_rec)
  have l: "listening s" "listening ?s0" using assms(1) by (simp_all add: fresh_def listening_def)
  have le: "17 \<le> (24::nat)" "24 \<le> (29::nat)" "29 < (32::nat)" "1 \<le> (16::nat)" "16 \<le> (29::nat)" "29 = 16 + (13::nat)" by simp_all
  have q: "\<forall>i\<in>{17..<24}. 29 - i \<notin> {1, 3, 5, 13, 29::nat}" "\<forall>i\<in>{1..<16}. 29 - i \<notin> {1, 3, 5, 13, 29::nat}" by auto
  obtain s1 where s1: "send_bits (map (bit w) (rev [24..<29])) s = Some s1" "shifted 29 w 24 ?s0 s1"
    using send_command[OF l(1) shifted_init[OF assms(1)], of 29 w] b command_of_write[of 24 w] assms(2) by auto
  obtain s2 where s2: "send_bits (map (bit w) (rev [17..<24])) s1 = Some s2" "shifted 29 w 17 ?s0 s2"
    using shifted_bits[OF l(2) s1(2) le(1,2,3) q(1)] by blast
  have a16: "shifted 29 w (Suc 16) ?s0 s2" using s2(2) by (simp only: eval_nat_numeral)
  have wr: "ee_command ?s0 \<in> {CMDWRITE, CMDWRAL}" by simp
  obtain s3 where s3: "send_bit (bit w 16) s2 = Some s3" "shifted 29 w 16 ?s0 s3"
    using shifted_13[OF l(2) a16 le(6,3) wr] by blast
  obtain s4 where s4: "send_bits (map (bit w) (rev [1..<16])) s3 = Some s4" "shifted 29 w 1 ?s0 s4"
    using shifted_bits[OF l(2) s3(2) le(4,5,3) q(2)] by blast
  have "send_bit (bit w 0) s4 = map_option (\<lambda>s. s\<lparr>eeprom_clock := 1\<rparr>) (input_29 (received 29 w 0 ?s0))"
    using send_word_bit[OF l(2), where k = 0 and n = 29 and w = w and s = s4] s4(2) by (simp add: input_step_def received_def)
  moreover have "Option.bind x (send_bits []) = x" for x by (cases x) simp_all
  ultimately have s5: "send_bits [bit w 0] s4 = map_option (\<lambda>s. s\<lparr>eeprom_clock := 1\<rparr>) (input_29 (received 29 w 0 ?s0))" by simp
  have "bits_of 29 w = map (bit w) (rev [24..<29]) @ map (bit w) (rev [0..<24])" unfolding bits_of_def by (rule bits_split) simp_all
  moreover have "map (bit w) (rev [0..<24]) = map (bit w) (rev [17..<24]) @ map (bit w) (rev [0..<17])" by (rule bits_split) simp_all
  moreover have "map (bit w) (rev [0..<17]) = map (bit w) (rev [16..<17]) @ map (bit w) (rev [0..<16])" by (rule bits_split) simp_all
  moreover have "map (bit w) (rev [0..<16]) = map (bit w) (rev [1..<16]) @ map (bit w) (rev [0..<1])" by (rule bits_split) simp_all
  moreover have "map (bit w) (rev [16..<17]) = [bit w 16]" "map (bit w) (rev [0..<1]) = [bit w 0]" by (simp_all add: upt_rec)
  ultimately have "bits_of 29 w = map (bit w) (rev [24..<29]) @ map (bit w) (rev [17..<24]) @ [bit w 16] @ map (bit w) (rev [1..<16]) @ [bit w 0]"
    by (simp only: append_assoc)
  moreover have "send_bits [bit w 16] s2 = Some s3" using s3(1) by simp
  ultimately have "send_bits (bits_of 29 w) s = send_bits [bit w 0] s4"
    using s1(1) s2(1) s4(1) by (simp only: send_bits_append bind.bind_lunit)
  then show ?thesis using s5 by simp
qed


text \<open>The address and the bytes of a write command.\<close>

definition word_addr :: "nat \<Rightarrow> dword \<Rightarrow> nat" where
  "word_addr k w = unat (take_bit 10 (drop_bit k w))"

lemma word_addr_bound: "word_addr k w < 1024"
  using take_bit_nat_less_exp[of 10 "unat (drop_bit k w)"] by (simp add: word_addr_def unsigned_take_bit_eq)

lemma field_take: "k + m \<le> n \<Longrightarrow> field k m (take_bit n w) = take_bit m (drop_bit k w)"
  unfolding field_def take_bit_eq_mask[symmetric] by (simp add: drop_bit_take_bit)

lemma ucast_take_8: "(ucast (take_bit 8 (w::dword)) :: byte) = ucast w"
  by (rule bit_word_eqI) (simp add: bit_simps)

text \<open>What the write command leaves.\<close>

definition written :: "m93c86 \<Rightarrow> dword \<Rightarrow> m93c86 \<Rightarrow> bool" where
  "written s w s' \<longleftrightarrow> m93c86_data s' = (m93c86_data s)[2 * word_addr 16 w := ucast (drop_bit 8 w), 2 * word_addr 16 w + 1 := ucast w]
    \<and> ee_command s' = CMDWRITE \<and> eeprom_cs s' = 1 \<and> write_enable_status s' = write_enable_status s \<and> ready_busy_status s' = STATUSBUSY"

lemma write_command:
  assumes "fresh s" "take_bit 3 (drop_bit 26 w) = 5" "length (m93c86_data s) = M93C86_SIZE" "write_enable_status s"
  shows "\<exists>s'. send_bits (bits_of 29 w) s = Some s' \<and> written s w s'"
proof -
  have f: "field 16 10 (take_bit 29 w) = take_bit 10 (drop_bit 16 w)" "field 8 8 (take_bit 29 w) = take_bit 8 (drop_bit 8 w)"
    "field 0 8 (take_bit 29 w) = take_bit 8 w"
    using field_take[of 16 10 29 w] field_take[of 8 8 29 w] field_take[of 0 8 29 w] by simp_all
  have i: "2 * word_addr 16 w + 1 < length (m93c86_data s)" using word_addr_bound[of 16 w] assms(3) by (simp add: M93C86_SIZE_def)
  show ?thesis
    using write_bits[OF assms(1,2)] assms(1,4) i
    by (auto simp: input_29_def received_def f ucast_take_8 store_word_def word_addr_def[symmetric] reset_input_shiftreg_def written_def
        fresh_def listening_def Let_def)
qed

lemma write_refused:
  assumes "fresh s" "take_bit 3 (drop_bit 26 w) = 5" "\<not> write_enable_status s"
  shows "\<exists>s'. send_bits (bits_of 29 w) s = Some s' \<and> m93c86_data s' = m93c86_data s \<and> ee_command s' = CMDNONE \<and> eeprom_cs s' = 1"
  using write_bits[OF assms(1,2)] assms(1,3) by (auto simp: input_29_def received_def refuse_def reset_input_shiftreg_def fresh_def listening_def Let_def)

subsection \<open>The read command\<close>

lemma read_command:
  assumes "fresh s" "take_bit 3 (drop_bit 10 w) = 6"
  shows "\<exists>s'. send_bits (bits_of 13 w) s = Some s' \<and> m93c86_data s' = m93c86_data s \<and> ee_command s' = CMDREADDUMMY \<and> ee_addr s' = word_addr 0 w
    \<and> eeprom_cs s' = 1 \<and> write_enable_status s' = write_enable_status s"
proof -
  let ?s0 = "s\<lparr>ee_command := CMDREAD\<rparr>"
  have b: "bit w 12" using start_bit[OF assms(2)] by (simp add: bit_numeral_rec)
  have l: "listening s" "listening ?s0" using assms(1) by (simp_all add: fresh_def listening_def)
  have le: "1 \<le> (8::nat)" "8 \<le> (13::nat)" "13 < (32::nat)" by simp_all
  have q: "\<forall>i\<in>{1..<8}. 13 - i \<notin> {1, 3, 5, 13, 29::nat}" by auto
  obtain s1 where s1: "send_bits (map (bit w) (rev [8..<13])) s = Some s1" "shifted 13 w 8 ?s0 s1"
    using send_command[OF l(1) shifted_init[OF assms(1)], of 13 w] b command_of_read[of 8 w] assms(2) by auto
  obtain s2 where s2: "send_bits (map (bit w) (rev [1..<8])) s1 = Some s2" "shifted 13 w 1 ?s0 s2"
    using shifted_bits[OF l(2) s1(2) le(1,2,3) q(1)] by blast
  have "shifted 13 w (Suc 0) ?s0 s2" using s2(2) by (simp only: One_nat_def)
  from send_word_bit[OF l(2) this]
  have s3: "send_bit (bit w 0) s2 = Some ((input_13 (received 13 w 0 ?s0))\<lparr>eeprom_clock := 1\<rparr>)"
    by (simp add: input_step_def received_def)
  have "bits_of 13 w = map (bit w) (rev [8..<13]) @ map (bit w) (rev [0..<8])" unfolding bits_of_def by (rule bits_split) simp_all
  moreover have "map (bit w) (rev [0..<8]) = map (bit w) (rev [1..<8]) @ map (bit w) (rev [0..<1])" by (rule bits_split) simp_all
  moreover have "map (bit w) (rev [0..<1]) = [bit w 0]" by (simp add: upt_rec)
  ultimately have "bits_of 13 w = map (bit w) (rev [8..<13]) @ map (bit w) (rev [1..<8]) @ [bit w 0]" by (simp only: append_assoc)
  then have "send_bits (bits_of 13 w) s = send_bits [bit w 0] s2"
    using s1(1) s2(1) by (simp only: send_bits_append bind.bind_lunit)
  moreover have "field 0 10 (take_bit 13 w) = take_bit 10 w" using field_take[of 0 10 13 w] by simp
  ultimately show ?thesis using s3 l
    by (simp add: input_13_def received_def reset_input_shiftreg_def word_addr_def listening_def)
qed

text \<open>The output register while a word is read: \<open>n\<close> bits after the first are out.\<close>

definition streaming :: "nat \<Rightarrow> nat \<Rightarrow> m93c86 \<Rightarrow> bool" where
  "streaming a n s \<longleftrightarrow> eeprom_cs s = 1 \<and> ee_command s = CMDREADDATA \<and> length (m93c86_data s) = M93C86_SIZE
    \<and> ee_addr s = (a + n div 16) mod 1024 \<and> output_count s = of_nat (n mod 16)
    \<and> output_shiftreg s = push_bit (n mod 8) (ucast (m93c86_data s ! ((2 * a + n div 8) mod 2048)))"


text \<open>The bit that comes out after \<open>n\<close> others.\<close>

definition stream_bit :: "nat \<Rightarrow> nat \<Rightarrow> byte list \<Rightarrow> bool" where
  "stream_bit a n m = bit (m ! ((2 * a + n div 8) mod 2048)) (7 - n mod 8)"

lemma out_bit:
  assumes "k < 8"
  shows "(ucast (drop_bit 7 (push_bit k (ucast (b::byte) :: dword)) AND 1) :: byte) = of_bool (bit b (7 - k))"
proof (rule bit_word_eqI)
  fix i
  assume "i < LENGTH(8)"
  have "bit (push_bit k (ucast b :: dword)) 7 \<longleftrightarrow> bit b (7 - k)" using assms by (auto simp: bit_simps)
  then have "odd (drop_bit 7 (push_bit k (ucast b :: dword))) \<longleftrightarrow> bit b (7 - k)" by (simp add: bit_iff_odd_drop_bit)
  then have "drop_bit 7 (push_bit k (ucast b :: dword)) AND 1 = of_bool (bit b (7 - k))" by (simp add: and_one_eq mod_2_eq_odd)
  then show "bit (ucast (drop_bit 7 (push_bit k (ucast b :: dword)) AND 1) :: byte) i \<longleftrightarrow> bit (of_bool (bit b (7 - k)) :: byte) i"
    by simp
qed

lemma stream_places:
  fixes n :: nat
  assumes "n mod 16 = r" "n div 16 = q"
  shows "n div 8 = 2 * q + r div 8" "n mod 8 = r mod 8" "Suc n mod 16 = (if r = 15 then 0 else Suc r)" "Suc n div 16 = (if r = 15 then Suc q else q)"
    "Suc n div 8 = 2 * q + Suc r div 8" "Suc n mod 8 = Suc r mod 8"
proof -
  have n: "n = 16 * q + r" and r: "r < 16" using assms by (auto simp: mult.commute)
  have e: "n = 8 * (2 * q) + r" "Suc n = 8 * (2 * q) + Suc r" "Suc n = 16 * q + Suc r" using n by simp_all
  show "n div 8 = 2 * q + r div 8" unfolding e(1) by (rule div_mult_self4) simp
  show "n mod 8 = r mod 8" unfolding e(1) by (rule mod_mult_self4)
  show "Suc n div 8 = 2 * q + Suc r div 8" unfolding e(2) by (rule div_mult_self4) simp
  show "Suc n mod 8 = Suc r mod 8" unfolding e(2) by (rule mod_mult_self4)
  have "Suc n div 16 = q + Suc r div 16" unfolding e(3) by (rule div_mult_self4) simp
  then show "Suc n div 16 = (if r = 15 then Suc q else q)" using r by simp
  have "Suc n mod 16 = Suc r mod 16" unfolding e(3) by (rule mod_mult_self4)
  then show "Suc n mod 16 = (if r = 15 then 0 else Suc r)" using r by simp
qed

lemma double_mod: "2 * (x mod 1024) = 2 * x mod (2048::nat)" "2 * (x mod 1024) + 1 = (2 * x + 1) mod (2048::nat)"
proof -
  show d: "2 * (x mod 1024) = 2 * x mod (2048::nat)" using mult_mod_right[of 2 x 1024] by simp
  have "x mod 1024 < 1024" by simp
  then have "2 * (x mod 1024) + 1 < 2048" by linarith
  then have "(2 * (x mod 1024) + 1) mod 2048 = 2 * (x mod 1024) + 1" by (rule mod_less)
  moreover have "(2 * (x mod 1024) + 1) mod 2048 = (2 * x + 1) mod 2048" unfolding d by (rule mod_add_left_eq)
  ultimately show "2 * (x mod 1024) + 1 = (2 * x + 1) mod (2048::nat)" by simp
qed

lemma pulse_first:
  assumes "eeprom_cs s = 1" "ee_command s = CMDREADDUMMY" "ee_addr s = a" "a < 1024" "length (m93c86_data s) = M93C86_SIZE"
  shows "\<exists>s'. send_bit b s = Some s' \<and> streaming a 1 s' \<and> eeprom_data_out s' = of_bool (stream_bit a 0 (m93c86_data s)) \<and> m93c86_data s' = m93c86_data s"
  using assms out_bit[of 0 "m93c86_data s ! (2 * a)"]
  by (simp add: send_bit_def m93c86_write_clock_def m93c86_write_data_def clock_dummy_def load_byte_def M93C86_SIZE_def shift_out_def
      streaming_def stream_bit_def)

lemma pulse_next:
  assumes "streaming a n s"
  shows "\<exists>s'. send_bit b s = Some s' \<and> streaming a (Suc n) s' \<and> eeprom_data_out s' = of_bool (stream_bit a n (m93c86_data s)) \<and> m93c86_data s' = m93c86_data s"
proof -
  define r q where rq: "r = n mod 16" "q = n div 16"
  note p = stream_places[OF rq(1)[symmetric] rq(2)[symmetric]]
  note st = assms[unfolded streaming_def rq[symmetric]]
  let ?t = "shift_out (s\<lparr>eeprom_data_in := of_bool b, eeprom_clock := 0\<rparr>)"
  have r16: "r < 16" by (simp add: rq)
  have out: "eeprom_data_out ?t = of_bool (stream_bit a n (m93c86_data s))"
    using st out_bit[of "n mod 8"] by (simp add: shift_out_def stream_bit_def)
  have cnt: "output_count ?t = of_nat (Suc r)" using st by (simp add: shift_out_def)
  have is8: "output_count ?t = 8 \<longleftrightarrow> r = 7" "output_count ?t = 16 \<longleftrightarrow> r = 15"
    unfolding cnt using r16 by (auto simp: word_unat_eq_iff unat_of_nat simp del: of_nat_Suc)
  have send: "send_bit b s = map_option (\<lambda>s. s\<lparr>eeprom_clock := 1\<rparr>) (clock_output (s\<lparr>eeprom_data_in := of_bool b, eeprom_clock := 0\<rparr>))"
    using st by (simp add: send_bit_def m93c86_write_clock_def m93c86_write_data_def)
  have reg: "output_shiftreg ?t = push_bit (Suc (r mod 8)) (ucast (m93c86_data s ! ((2 * a + n div 8) mod 2048)))"
    using st by (simp add: shift_out_def p(2) push_bit_eq_mult mult_ac)
  have frame: "eeprom_cs ?t = 1" "ee_command ?t = CMDREADDATA" "m93c86_data ?t = m93c86_data s" "ee_addr ?t = (a + q) mod 1024"
    "length (m93c86_data s) = 2048"
    using st by (simp_all add: shift_out_def M93C86_SIZE_def)
  consider (half) "r = 7" | (full) "r = 15" | (inside) "r \<noteq> 7" "r \<noteq> 15" by blast
  then show ?thesis
  proof cases
    case half
    have i: "2 * ((a + q) mod 1024) + 1 = (2 * a + Suc n div 8) mod 2048" using double_mod(2)[of "a + q"] unfolding p(5) half by (simp add: add.assoc)
    have "(a + q) mod 1024 < 1024" by simp
    then have "2 * ((a + q) mod 1024) + 1 < 2048" by linarith
    then have "clock_output (s\<lparr>eeprom_data_in := of_bool b, eeprom_clock := 0\<rparr>)
        = Some (?t\<lparr>output_shiftreg := ucast (m93c86_data s ! ((2 * a + Suc n div 8) mod 2048))\<rparr>)"
      using is8 half frame i by (simp add: clock_output_def Let_def load_byte_def)
    then show ?thesis unfolding send using frame out cnt half p
      by (simp add: streaming_def M93C86_SIZE_def)
  next
    case full
    have m: "((a + q) mod 1024 + 1) AND 1023 = (a + Suc q) mod 1024"
      using take_bit_eq_mask[of 10 "(a + q) mod 1024 + 1"] by (simp add: mask_eq_exp_minus_1 take_bit_eq_mod mod_Suc_eq)
    have i: "2 * ((a + Suc q) mod 1024) = (2 * a + Suc n div 8) mod 2048" using double_mod(1)[of "a + Suc q"] unfolding p(5) full by (simp add: add.assoc)
    have "(a + Suc q) mod 1024 < 1024" by simp
    then have "2 * ((a + Suc q) mod 1024) < 2048" by linarith
    then have "clock_output (s\<lparr>eeprom_data_in := of_bool b, eeprom_clock := 0\<rparr>)
        = Some (?t\<lparr>ee_addr := (a + Suc q) mod 1024, output_shiftreg := ucast (m93c86_data s ! ((2 * a + Suc n div 8) mod 2048)), output_count := 0\<rparr>)"
      using is8 full frame i m by (simp add: clock_output_def Let_def load_byte_def M93C86_SIZE_def)
    then show ?thesis unfolding send using frame out full p
      by (simp add: streaming_def M93C86_SIZE_def)
  next
    case inside
    have "r mod 8 \<noteq> 7"
    proof
      assume "r mod 8 = 7"
      then have "r = 8 * (r div 8) + 7" using mult_div_mod_eq[of 8 r] by simp
      moreover have "r div 8 = 0 \<or> r div 8 = 1" using r16 by auto
      ultimately show False using inside by auto
    qed
    then have d: "Suc r mod 8 = Suc (r mod 8)" "Suc r div 8 = r div 8" by (simp_all add: mod_Suc div_Suc)
    have "clock_output (s\<lparr>eeprom_data_in := of_bool b, eeprom_clock := 0\<rparr>) = Some ?t"
      using is8 inside by (simp add: clock_output_def Let_def)
    moreover have e: "Suc n div 16 = q" "Suc n div 8 = n div 8" "Suc n mod 8 = Suc (r mod 8)" "Suc n mod 16 = Suc r"
      using p d inside by simp_all
    have "streaming a (Suc n) (?t\<lparr>eeprom_clock := 1\<rparr>)"
      unfolding streaming_def e using frame by (simp add: cnt reg M93C86_SIZE_def)
    ultimately show ?thesis unfolding send using frame(3) out by simp
  qed
qed

lemma pulses:
  "ee_command s = CMDREADDUMMY \<and> eeprom_cs s = 1 \<and> ee_addr s = a \<and> a < 1024 \<and> length (m93c86_data s) = M93C86_SIZE \<Longrightarrow> length bs = Suc n \<Longrightarrow>
    \<exists>s'. send_bits bs s = Some s' \<and> streaming a (Suc n) s' \<and> eeprom_data_out s' = of_bool (stream_bit a n (m93c86_data s)) \<and> m93c86_data s' = m93c86_data s"
proof (induction n arbitrary: bs)
  case 0
  then obtain b where "bs = [b]" by (cases bs) auto
  then show ?case using pulse_first[of s a b] 0 by auto
next
  case (Suc n)
  then obtain cs b where bs: "bs = cs @ [b]" "length cs = Suc n" by (cases bs rule: rev_cases) auto
  obtain s1 where s1: "send_bits cs s = Some s1" "streaming a (Suc n) s1" "m93c86_data s1 = m93c86_data s"
    using Suc.IH[OF Suc.prems(1) bs(2)] by blast
  then show ?case using pulse_next[OF s1(2), of b] by (auto simp: bs send_bits_append)
qed


text \<open>Between two commands the clock goes low and the chip is deselected and selected again.\<close>

definition reselect :: "m93c86 \<Rightarrow> m93c86 option" where
  "reselect s = map_option (\<lambda>s. m93c86_write_select 1 (m93c86_write_select 0 s)) (m93c86_write_clock 0 s)"

lemma reselect_fresh:
  assumes "eeprom_cs s = 1" "ee_command s \<in> {CMDWRITE, CMDNONE}"
  shows "\<exists>s'. reselect s = Some s' \<and> fresh s' \<and> m93c86_data s' = m93c86_data s"
  using assms by (auto simp: reselect_def m93c86_write_clock_def m93c86_write_select_def reset_input_shiftreg_def fresh_def listening_def)

lemma read_out:
  assumes "fresh s" "take_bit 3 (drop_bit 10 w) = 6" "length (m93c86_data s) = M93C86_SIZE" "length bs = Suc n"
  shows "\<exists>s'. send_bits (bits_of 13 w @ bs) s = Some s' \<and> eeprom_data_out s' = of_bool (stream_bit (word_addr 0 w) n (m93c86_data s))
    \<and> m93c86_data s' = m93c86_data s"
proof -
  obtain s1 where s1: "send_bits (bits_of 13 w) s = Some s1" "m93c86_data s1 = m93c86_data s" "ee_command s1 = CMDREADDUMMY"
    "ee_addr s1 = word_addr 0 w" "eeprom_cs s1 = 1"
    using read_command[OF assms(1,2)] by blast
  then have "ee_command s1 = CMDREADDUMMY \<and> eeprom_cs s1 = 1 \<and> ee_addr s1 = word_addr 0 w \<and> word_addr 0 w < 1024 \<and> length (m93c86_data s1) = M93C86_SIZE"
    using assms(3) word_addr_bound by simp
  from pulses[OF this assms(4)] show ?thesis using s1(1,2) by (auto simp: send_bits_append)
qed

lemma stored_bit:
  assumes "n < 16" "length m = 2048" "a < 1024"
  shows "stream_bit a n (m[2 * a := ucast (drop_bit 8 (w::dword)), 2 * a + 1 := ucast w]) \<longleftrightarrow> bit w (15 - n)"
proof (cases "n < 8")
  case True
  have "(2 * a + n div 8) mod 2048 = 2 * a" using True assms(3) by simp
  then show ?thesis using True assms by (simp add: stream_bit_def) (auto simp: bit_simps)
next
  case False
  then have d: "n div 8 = 1" "n mod 8 = n - 8" using assms(1) by (simp_all add: div_nat_eqI mod_if)
  then have "(2 * a + n div 8) mod 2048 = 2 * a + 1" using assms(3) by simp
  then show ?thesis using False assms d by (simp add: stream_bit_def) (auto simp: bit_simps)
qed

definition example_eeprom :: m93c86 where
  "example_eeprom = \<lparr>m93c86_data = replicate 2048 0xFF, eeprom_cs = 1, eeprom_clock = 0, eeprom_data_in = 0, eeprom_data_out = 0, input_shiftreg = 0,
     input_count = 0, output_shiftreg = 0, output_count = 0, ee_command = CMDNONE, ee_addr = 0, data0 = 0, data1 = 0, write_enable_status = True,
     ready_busy_status = 1\<rparr>"

lemma example_eeprom_facts:
  "fresh example_eeprom" "length (m93c86_data example_eeprom) = M93C86_SIZE" "write_enable_status example_eeprom" "m93c86_data example_eeprom = replicate 2048 0xFF"
  by (simp_all add: example_eeprom_def fresh_def listening_def M93C86_SIZE_def)

subsection \<open>The properties\<close>

text \<open>
  C33: a read command gives the bits of the memory from its address on, without an end: after \<open>n\<close> further pulses
  of the clock, whatever is on the data line, the bit on the output is bit \<open>7 - n mod 8\<close> of the byte \<open>n div 8\<close>
  places on, and after the last byte comes the first.
\<close>

theorem m93c86_reads_stream:
  assumes "fresh s" "take_bit 3 (drop_bit 10 w) = 6" "length (m93c86_data s) = M93C86_SIZE" "length bs = Suc n"
  shows "\<exists>s'. send_bits (bits_of 13 w @ bs) s = Some s' \<and> m93c86_data s' = m93c86_data s
    \<and> eeprom_data_out s' = of_bool (bit (m93c86_data s ! ((2 * word_addr 0 w + n div 8) mod 2048)) (7 - n mod 8))"
  using read_out[OF assms] by (simp add: stream_bit_def conj_commute)

theorem m93c86_reads_stream_witness:
  "\<exists>s'. send_bits (bits_of 13 0x1BFF @ replicate 20 False) example_eeprom = Some s' \<and> eeprom_data_out s' = 1"
  using m93c86_reads_stream[OF example_eeprom_facts(1) _ example_eeprom_facts(2), of "0x1BFF" "replicate 20 False" 19]
  by (auto simp: example_eeprom_facts(4) word_addr_def nth_replicate)

text \<open>
  C18: A word written to an address and read from it is the word that was sent, if writing is enabled, and the word that was there before,
  if it is not, as after power-on: the \<open>n\<close>-th of the sixteen bits that come out is bit \<open>15 - n\<close> of the write command, or of
  the old word. Between the two commands the chip is deselected and selected again.
\<close>

theorem m93c86_write_read:
  assumes "fresh s" "length (m93c86_data s) = M93C86_SIZE" "take_bit 3 (drop_bit 26 w) = 5" "take_bit 3 (drop_bit 10 r) = 6"
    "word_addr 0 r = word_addr 16 w" "length bs = Suc n" "n < 16"
  shows "\<exists>s1 s2. send_bits (bits_of 29 w) s = Some s1 \<and> Option.bind (reselect s1) (send_bits (bits_of 13 r @ bs)) = Some s2
    \<and> eeprom_data_out s2 = of_bool (if write_enable_status s then bit w (15 - n)
         else bit (m93c86_data s ! (2 * word_addr 16 w + n div 8)) (7 - n mod 8))"
proof -
  obtain s1 where s1: "send_bits (bits_of 29 w) s = Some s1" "eeprom_cs s1 = 1" "ee_command s1 \<in> {CMDWRITE, CMDNONE}"
    "length (m93c86_data s1) = M93C86_SIZE" "write_enable_status s \<Longrightarrow> written s w s1" "\<not> write_enable_status s \<Longrightarrow> m93c86_data s1 = m93c86_data s"
    using write_command[OF assms(1,3,2)] write_refused[OF assms(1,3)] assms(2) by (cases "write_enable_status s") (auto simp: written_def)
  obtain s2 where s2: "reselect s1 = Some s2" "fresh s2" "m93c86_data s2 = m93c86_data s1" using reselect_fresh[OF s1(2,3)] by blast
  have l: "length (m93c86_data s2) = M93C86_SIZE" using s2(3) s1(4) by simp
  obtain s3 where s3: "send_bits (bits_of 13 r @ bs) s2 = Some s3" "eeprom_data_out s3 = of_bool (stream_bit (word_addr 0 r) n (m93c86_data s2))"
    using read_out[OF s2(2) assms(4) l assms(6)] by blast
  have a: "2 * word_addr 16 w + n div 8 < 2048"
  proof -
    have "n div 8 < 2" using assms(7) by (simp add: less_mult_imp_div_less)
    then show ?thesis using word_addr_bound[of 16 w] by linarith
  qed
  have "stream_bit (word_addr 0 r) n (m93c86_data s2)
      \<longleftrightarrow> (if write_enable_status s then bit w (15 - n) else bit (m93c86_data s ! (2 * word_addr 16 w + n div 8)) (7 - n mod 8))"
  proof (cases "write_enable_status s")
    case True
    from s1(5)[OF True] show ?thesis
      using stored_bit[OF assms(7), of "m93c86_data s" "word_addr 16 w" w] s2(3) assms(2,5) word_addr_bound True
      by (simp add: M93C86_SIZE_def written_def)
  next
    case False
    then show ?thesis using s1(6) s2(3) a assms(5) by (simp add: stream_bit_def)
  qed
  then show ?thesis using s1(1) s2(1) s3 by auto
qed

text \<open>The third bit of a word sent to address 5: a 1 if writing is enabled, and, of a memory of zeros, a 0 if it is not.\<close>

theorem m93c86_write_read_witness:
  "(\<exists>s1 s2. send_bits (bits_of 29 0x1405ABCD) example_eeprom = Some s1
      \<and> Option.bind (reselect s1) (send_bits (bits_of 13 0x1805 @ [False, False, False])) = Some s2 \<and> eeprom_data_out s2 = 1)
    \<and> (\<exists>s1 s2. send_bits (bits_of 29 0x1405ABCD) (example_eeprom\<lparr>m93c86_data := replicate 2048 0, write_enable_status := False\<rparr>) = Some s1
      \<and> Option.bind (reselect s1) (send_bits (bits_of 13 0x1805 @ [False, False, False])) = Some s2 \<and> eeprom_data_out s2 = 0)"
proof -
  let ?e = "example_eeprom\<lparr>m93c86_data := replicate 2048 0, write_enable_status := False\<rparr>"
  have e: "fresh ?e" "length (m93c86_data ?e) = M93C86_SIZE" using example_eeprom_facts by (simp_all add: fresh_def listening_def M93C86_SIZE_def)
  show ?thesis
    using m93c86_write_read[OF example_eeprom_facts(1,2), of "0x1405ABCD" "0x1805" "[False, False, False]" 2]
      m93c86_write_read[OF e, of "0x1405ABCD" "0x1805" "[False, False, False]" 2] example_eeprom_facts(3)
    by (auto simp: word_addr_def)
qed

end
