(* ===== verification/Spec2Isabelle.thy ===== *)
theory Spec2Isabelle
  imports C64_Tables Ciatimer Vdrive_Bam Flash040 M93c86
begin

text \<open>
  A verification development for the emulation core of VICE (\<open>vice/src\<close>), the C64 of the libretro
  package.

  The program. A machine is a CPU core that executes opcodes against a memory made of handler
  tables, and a set of chips that live in time: each keeps a \<open>CLOCK\<close>, is brought up to date lazily,
  and asks to be called back through an alarm. Between two opcodes the core serves the alarms that
  are due and then looks at the interrupt lines the chips have pulled. Before the 32-bit clock wraps,
  the clock guard moves every clock back by the same amount. The memory is switched by the processor
  port through the PLA; code in RAM or ROM is fetched directly through a bank pointer and a pair of
  limits, everything else through the handlers. A disk image is a file of sectors. An emulated drive
  reads it as the group-coded tracks its hardware would see, and what it writes goes back into the
  file; the virtual drive works on the sectors, and keeps the map of the free ones. Cartridges hold flash
  memory and serial EEPROMs, with their command sets.

  Theories and sources, in the order of the imports.
  \<^item> \<open>Prelude\<close>: the C integer types as words, facts on words, flags and lists, the named collections.
  \<^item> \<open>Alarm\<close>: \<open>alarm.c\<close>, \<open>alarm.h\<close>, and the loop \<open>PROCESS_ALARMS\<close> of \<open>6510core.c\<close>. The array of
    pending alarms is a list of 256 slots; the contract is a finite map from alarms to due clocks, the
    locale \<open>timer_queue\<close>, interpreted on the code's operations.
  \<^item> \<open>Clkguard\<close>: \<open>clkguard.c\<close>; a callback is a function on the state it changes.
  \<^item> \<open>Interrupt\<close>: \<open>interrupt.c\<close>, \<open>interrupt.h\<close>; reachability by an inductive step relation.
  \<^item> \<open>Cpu6510\<close>, \<open>Cpu6510_Ops\<close>, \<open>Cpu6510_Core\<close>: \<open>6510core.c\<close> as \<open>maincpu.c\<close> instantiates it. State,
    flags, memory and addressing modes; one definition per instruction macro; interrupts, fetch, the
    switch over the opcodes row by row, and one pass of the main loop. \<open>Cpu6510_Arith\<close> proves the
    arithmetic, \<open>Cpu6510_Bus\<close> calls, interrupts and the latency of I, \<open>Cpu6510_Timing\<close> the cycle
    counts; the bus is a parameter, its laws are the locales \<open>bus_frame\<close> and \<open>bus_timed\<close>.
  \<^item> \<open>C64mem\<close>: \<open>c64/c64mem.c\<close>, \<open>c64/c64pla.c\<close>, \<open>c64/c64memrom.c\<close>; both locales are interpreted on
    it. \<open>C64_Port\<close> proves the processor port, \<open>C64_Tables\<close> models \<open>c64/c64meminit.c\<close>,
    \<open>c64/c64memlimit.c\<close> and \<open>mem_initialize_memory\<close> and proves the memory map.
  \<^item> \<open>Ciatimer\<close>: \<open>core/ciatimer.h\<close>, \<open>core/ciatimer.c\<close>; the reference is the timer clocked one
    cycle at a time.
  \<^item> \<open>Gcr\<close>: \<open>gcr.c\<close> and the loop of \<open>fsimage_read_dxx_image\<close> that formats a track. A track is a list
    of bytes, read as a circle of bits; access outside it is \<open>None\<close>.
  \<^item> \<open>Diskimage\<close>: the geometry of \<open>diskimage/diskimage.c\<close> and \<open>diskimage/fsimage-check.c\<close>, the number
    of a sector in the file. The locale \<open>track_layout\<close> says what numbering track by track promises; it is
    interpreted on every type of image.
  \<^item> \<open>Fsimage_dxx\<close>: \<open>diskimage/fsimage-dxx.c\<close>, the recognition of D64, D67 and D71 in
    \<open>diskimage/fsimage-probe.c\<close>, \<open>util_fpread\<close> and \<open>util_fpwrite\<close> of \<open>util.c\<close>. The file is the list of
    its bytes; the invariant \<open>in_step\<close> says that the tracks hold what the file holds. The locale \<open>sector_store\<close> is what
    the virtual drive relies on, that what is written can be read and nothing else changes; it is interpreted on images in step with the
    tracks of a drive, on images on no tracks, and on both together.
  \<^item> \<open>Vdrive_Bam\<close>: \<open>vdrive/vdrive-bam.c\<close>, and from \<open>vdrive/vdrive.c\<close> what attaching an image does. The
    contract is the set of free sectors; where the bits and counts of a format lie is the locale
    \<open>bam_layout\<close>, interpreted on the code's formats.
  \<^item> \<open>Flash040\<close>: \<open>core/flash040core.c\<close>, \<open>flash040.h\<close>; the flash memory of cartridges, a machine of
    commands whose erases are done by an alarm of the alarm context. \<open>flash_reach\<close> is what a program and the
    clock can do to it, with the history of the stores.
  \<^item> \<open>M93c86\<close>: \<open>core/m93c86.c\<close>; a serial EEPROM, driven bit by bit through its data and clock lines.

  What the lemmas show. Of every stateful component an invariant and that each operation keeps it
  (collection \<open>inv_intros\<close>); refinement of the abstract contract (alarms as a map, interrupt lines as a
  wired or, the lazy timer as the cycle by cycle timer, the map of a disk as a set of sectors); the functional behaviour of the arithmetic on
  every input; round trips through the stack, the group code, the tracks and the map on the disk;
  equivalence of tables with the equations of the hardware; and, as properties of kind error, the behaviours that depart from what the code means.

  Bounds and loops. Clocks are 32-bit words; where a statement adds to a clock it assumes room below
  the wrap, which the clock guard provides. Loops that need not end are \<open>partial_function (option)\<close>,
  with termination stated as \<open>Some\<close>; there is no fuel. Marking a chain of sectors ends because each
  step clears a bit, and the map, read as a number, gets smaller.

  Choices. Where C leaves the order of evaluation open, \<open>LOAD_ADDR\<close> reads the high byte first. A device on the C64 bus
  (\<open>c64_devs\<close>) may change its own state and the interrupt lines. It cannot move the clock, the bank of the video chip, the lines of the
  cartridge port or the configuration of the memory; so a store to the VIC-II that fetches at once and steals cycles
  (\<open>vicii_fetch_alarm_handler\<close> in \<open>vicii-mem.c\<close>), the call of \<open>mem_set_vbank\<close> by the second CIA, and cartridge registers that switch
  the memory are outside what is proved of the C64 bus, and \<open>opcode_timing\<close> holds for the accesses that do none of this. An alarm
  callback may do anything the hypotheses of a statement do not exclude.

  Domains. Some properties hold on less than every state of the types, and the claims say so.
  \<^item> \<open>timer_ok\<close> is the form of every timer state but one: a pulse in the cycle in which the timer is stopped or switched over leaves
    \<open>CIAT_STEP\<close> set. \<open>ciat_update_exact\<close> covers these too; the other timer claims start from \<open>timer_ok\<close>.
  \<^item> \<open>flash_ok\<close> holds for every type of chip; the mask of sectors to erase has 64 bits, which the S29GL064N overruns.
  \<^item> \<open>errors_shown\<close> leaves out the codes 2 and 3 of an error map (no header, no sync mark), whose sectors are not found on a track.
    With the other codes a sector is found; a track reports only the errors a track shows.
  \<^item> \<open>image_ok\<close> and \<open>in_step\<close> speak of the tracks the image has; \<open>fsimage_check_sector\<close> accepts up to 42 of a D64 whatever these are,
    and \<open>image_blocks\<close> counts the blocks of that maximum (802, and 3320 for a D81).
  \<^item> \<open>reachable\<close> and \<open>fits_image\<close> say on which images the map of the virtual drive can be written and read: a D71 with its 70 tracks,
    since the second block of the map is read from track 53 and written to one that depends on their number; \<open>bare\<close> is an image on no tracks
    and without an error map.
  \<^item> \<open>counts_ok\<close>: a map whose count bytes are right; disks may hold others.
  \<^item> \<open>int_step\<close>: every operation on the interrupt lines but those that restore a snapshot.

  Not modelled. Monitor, trace and history output of the CPU core (\<open>FEATURE_CPUMEMHISTORY\<close>), its
  variants for the drive, the C64DTV and the 8502, the exit of the libretro loop at the end of a
  frame; the snapshot functions; the power-up pattern of the RAM; cartridges, chips and expansions on
  the C64 bus, which are parameters; images of raw tracks (G64, G71, P64), real devices, the directory
  and the commands of the virtual drive; the video and sound chips, whose work is drawing and signal
  processing; devices, files and user interface, which are input and output; vendored libraries.
\<close>

end
